(* ===== verification/Prelude.thy ===== *)
theory Prelude
  imports Main "HOL-Library.Word" "HOL-Library.Monad_Syntax"
begin

text \<open>
  Shared vocabulary of the development: names for the machine integers of the C code, the
  collections that gather facts for the simplifier, lemmas on bounded search in a list and on
  cyclic indices (the hash tables step through their arrays with \<open>(index + 1) % capacity\<close>),
  and lemmas on \<open>option\<close>-valued computations, where \<open>None\<close> stands for a loop that never
  returns.
\<close>

named_theorems defs \<open>definitions that component proofs unfold\<close>
named_theorems spec_simps \<open>functional behaviour of operations, as conditional equations\<close>
named_theorems wf_intros \<open>preservation of well-formedness\<close>

type_synonym u8 = "8 word"
type_synonym u16 = "16 word"
type_synonym u32 = "32 word"
type_synonym u64 = "64 word"

text \<open>Object addresses; a C pointer is an \<open>addr option\<close> with \<open>None\<close> for \<open>NULL\<close>.\<close>

type_synonym addr = nat

subsection \<open>Cyclic indices\<close>

lemma mod_add_step: "((i + d) mod n + 1) mod n = (i + Suc d) mod (n :: nat)"
  by (simp add: mod_Suc_eq)

lemma mod_Suc_step: "(Suc ((i + d) mod n)) mod n = (i + Suc d) mod (n :: nat)"
  by (simp add: mod_Suc_eq)

text \<open>Stepping around an array of length \<open>n\<close> reaches every slot in fewer than \<open>n\<close> steps.\<close>

lemma cyclic_reach:
  assumes "i < n" and "j < (n :: nat)"
  obtains d where "d < n" and "(i + d) mod n = j"
proof (cases "i \<le> j")
  case True
  then have "j - i < n" and "(i + (j - i)) mod n = j" using assms by simp_all
  then show ?thesis by (rule that)
next
  case False
  then have "n + j - i < n" and "(i + (n + j - i)) mod n = j" using assms by simp_all
  then show ?thesis by (rule that)
qed

lemma cyclic_inj:
  assumes "d < n" and "e < n" and "(i + d) mod n = (i + e) mod (n :: nat)"
  shows "d = e"
proof -
  have *: "d = e" if "(i + d) mod n = (i + e) mod n" "d \<le> e" "e < n" for d e :: nat
  proof -
    from that have "n dvd (i + e) - (i + d)"
      using mod_eq_dvd_iff_nat [of "i + d" "i + e" n] by simp
    then have "n dvd e - d" by simp
    with that(2,3) show ?thesis
      using nat_dvd_not_less [of "e - d" n] by fastforce
  qed
  show ?thesis
    using * [of d e] * [of e d] assms by (cases "d \<le> e") simp_all
qed

subsection \<open>Counting the elements of a list that satisfy a predicate\<close>

lemma length_filter_update:
  assumes "i < length xs"
  shows "length (filter P (xs[i := x])) + (if P (xs ! i) then 1 else 0)
       = length (filter P xs) + (if P x then 1 else 0)"
  using assms
proof (induction xs arbitrary: i)
  case Nil
  then show ?case by simp
next
  case (Cons y ys)
  show ?case
  proof (cases i)
    case 0
    then show ?thesis by simp
  next
    case (Suc j)
    with Cons.prems have "j < length ys" by simp
    from Cons.IH [OF this] Suc show ?thesis by auto
  qed
qed

lemma nth_update: "xs[i := x] ! j = (if i = j \<and> i < length xs then x else xs ! j)"
  by (metis list_update_beyond not_le nth_list_update_eq nth_list_update_neq)

lemma exists_failing_index:
  assumes "length (filter P xs) < length xs"
  shows "\<exists>i < length xs. \<not> P (xs ! i)"
proof (rule ccontr)
  assume "\<not> ?thesis"
  then have "\<forall>x \<in> set xs. P x" by (auto simp: in_set_conv_nth)
  then have "filter P xs = xs" by simp
  with assms show False by simp
qed

subsection \<open>Option-valued computations\<close>

lemma bind_Some_iff:
  "Option.bind m f = Some r \<longleftrightarrow> (\<exists>x. m = Some x \<and> f x = Some r)"
  by (cases m) auto

end
