(* ===== verification/CDouble.thy ===== *)
theory CDouble
  imports Prelude
begin

text \<open>
  The C type \<open>double\<close>: IEEE-754 binary64, held as its 64 bits, with round-to-nearest-even
  arithmetic. The program stores a number's bits in \<open>val_t\<close> and reads them back through
  \<open>AS_RAW\<close> as the key of a map, so the model keeps the bits and computes on them.
  Operations that produce a NaN from non-NaN operands give the default quiet NaN of x86-64, and
  an operation with a NaN operand returns that operand quieted, as the SSE2 instructions do.
\<close>

type_synonym double = u64

subsection \<open>Fields of a double\<close>

definition d_sign :: "double \<Rightarrow> bool" where
  "d_sign x \<longleftrightarrow> 2 ^ 63 \<le> unat x"

definition d_mag :: "double \<Rightarrow> nat" where
  "d_mag x = unat x mod 2 ^ 63"

definition inf_mag :: nat where
  "inf_mag = 2047 * 2 ^ 52"

definition is_nan :: "double \<Rightarrow> bool" where
  "is_nan x \<longleftrightarrow> inf_mag < d_mag x"

definition mk_double :: "bool \<Rightarrow> nat \<Rightarrow> double" where
  "mk_double s m = word_of_nat ((if s then 2 ^ 63 else 0) + m)"

text \<open>A finite double is \<open>(-1)\<^sup>s * m * 2\<^sup>e\<close>.\<close>

datatype fp = FNan | FInf bool | FFin bool nat int

definition unpack :: "double \<Rightarrow> fp" where
  "unpack x =
     (let s = d_sign x; b = d_mag x div 2 ^ 52; f = d_mag x mod 2 ^ 52
      in if b = 2047 then (if f = 0 then FInf s else FNan)
         else if b = 0 then FFin s f (-1074)
         else FFin s (f + 2 ^ 52) (int b - 1075))"

subsection \<open>Rounding\<close>

fun bitlen :: "nat \<Rightarrow> nat" where
  "bitlen n = (if n = 0 then 0 else Suc (bitlen (n div 2)))"

declare bitlen.simps [simp del]

text \<open>\<open>m / 2 ^ s\<close> rounded to the nearest integer, ties to even.\<close>

definition rne :: "nat \<Rightarrow> nat \<Rightarrow> nat" where
  "rne m s =
     (let q = m div 2 ^ s; r = m mod 2 ^ s
      in if 2 ^ s < 2 * r \<or> (2 ^ s = 2 * r \<and> odd q) then q + 1 else q)"

text \<open>The magnitude bits of \<open>m * 2 ^ e\<close> rounded to 53 significant bits.\<close>

definition round_mag :: "nat \<Rightarrow> int \<Rightarrow> nat" where
  "round_mag m e =
     (if m = 0 then 0
      else let e' = max (e + int (bitlen m) - 53) (-1074);
               q = (if e' \<le> e then m * 2 ^ nat (e - e') else rne m (nat (e' - e)))
           in min inf_mag (q + nat (e' + 1074) * 2 ^ 52))"

subsection \<open>Arithmetic\<close>

definition nan_indef :: double where
  "nan_indef = 0xFFF8000000000000"

definition quiet :: "double \<Rightarrow> double" where
  "quiet x = or x 0x8000000000000"

definition d_neg :: "double \<Rightarrow> double" where
  "d_neg x = xor x 0x8000000000000000"

definition signed_mant :: "bool \<Rightarrow> nat \<Rightarrow> int" where
  "signed_mant s m = (if s then - int m else int m)"

definition add_fin :: "bool \<Rightarrow> nat \<Rightarrow> int \<Rightarrow> bool \<Rightarrow> nat \<Rightarrow> int \<Rightarrow> double" where
  "add_fin s m e t n f =
     (let g = min e f;
          c = signed_mant s (m * 2 ^ nat (e - g)) + signed_mant t (n * 2 ^ nat (f - g))
      in if c = 0 then mk_double (s \<and> t) 0
         else mk_double (c < 0) (round_mag (nat \<bar>c\<bar>) g))"

definition d_add :: "double \<Rightarrow> double \<Rightarrow> double" where
  "d_add x y =
     (if is_nan x then quiet x
      else if is_nan y then quiet y
      else (case (unpack x, unpack y) of
              (FInf s, FInf t) \<Rightarrow> if s = t then x else nan_indef
            | (FInf s, _) \<Rightarrow> x
            | (_, FInf t) \<Rightarrow> y
            | (FFin s m e, FFin t n f) \<Rightarrow> add_fin s m e t n f
            | _ \<Rightarrow> nan_indef))"

definition d_sub :: "double \<Rightarrow> double \<Rightarrow> double" where
  "d_sub x y =
     (if is_nan x then quiet x
      else if is_nan y then quiet y
      else d_add x (d_neg y))"

definition d_mul :: "double \<Rightarrow> double \<Rightarrow> double" where
  "d_mul x y =
     (if is_nan x then quiet x
      else if is_nan y then quiet y
      else (case (unpack x, unpack y) of
              (FInf s, FInf t) \<Rightarrow> mk_double (s \<noteq> t) inf_mag
            | (FInf s, FFin t n f) \<Rightarrow> if n = 0 then nan_indef else mk_double (s \<noteq> t) inf_mag
            | (FFin s m e, FInf t) \<Rightarrow> if m = 0 then nan_indef else mk_double (s \<noteq> t) inf_mag
            | (FFin s m e, FFin t n f) \<Rightarrow> mk_double (s \<noteq> t) (round_mag (m * n) (e + f))
            | _ \<Rightarrow> nan_indef))"

text \<open>
  The quotient is computed to at least 55 significant bits, with one more bit that records
  whether the division was inexact.
\<close>

definition div_mag :: "nat \<Rightarrow> int \<Rightarrow> nat \<Rightarrow> int \<Rightarrow> nat" where
  "div_mag m e n f =
     (let k = 55 + bitlen n; a = m * 2 ^ k
      in round_mag (2 * (a div n) + (if n dvd a then 0 else 1)) (e - f - int k - 1))"

definition d_div :: "double \<Rightarrow> double \<Rightarrow> double" where
  "d_div x y =
     (if is_nan x then quiet x
      else if is_nan y then quiet y
      else (case (unpack x, unpack y) of
              (FInf s, FInf t) \<Rightarrow> nan_indef
            | (FInf s, FFin t n f) \<Rightarrow> mk_double (s \<noteq> t) inf_mag
            | (FFin s m e, FInf t) \<Rightarrow> mk_double (s \<noteq> t) 0
            | (FFin s m e, FFin t n f) \<Rightarrow>
                if n = 0 then (if m = 0 then nan_indef else mk_double (s \<noteq> t) inf_mag)
                else mk_double (s \<noteq> t) (div_mag m e n f)
            | _ \<Rightarrow> nan_indef))"

definition d_of_int :: "int \<Rightarrow> double" where
  "d_of_int i = mk_double (i < 0) (round_mag (nat \<bar>i\<bar>) 0)"

definition d_of_bool :: "bool \<Rightarrow> double" where
  "d_of_bool b = (if b then d_of_int 1 else d_of_int 0)"

subsection \<open>Comparison\<close>

text \<open>
  The order of non-NaN doubles is the sign-magnitude order of their bits; the two zeros have the
  same key.
\<close>

definition d_key :: "double \<Rightarrow> int" where
  "d_key x = (if d_sign x then - int (d_mag x) else int (d_mag x))"

definition d_lt :: "double \<Rightarrow> double \<Rightarrow> bool" where
  "d_lt x y \<longleftrightarrow> \<not> is_nan x \<and> \<not> is_nan y \<and> d_key x < d_key y"

definition d_le :: "double \<Rightarrow> double \<Rightarrow> bool" where
  "d_le x y \<longleftrightarrow> \<not> is_nan x \<and> \<not> is_nan y \<and> d_key x \<le> d_key y"

definition d_eq :: "double \<Rightarrow> double \<Rightarrow> bool" where
  "d_eq x y \<longleftrightarrow> \<not> is_nan x \<and> \<not> is_nan y \<and> d_key x = d_key y"

lemma d_eq_sym: "d_eq x y \<longleftrightarrow> d_eq y x"
  by (auto simp: d_eq_def)

lemma d_eq_trans: "d_eq x y \<Longrightarrow> d_eq y z \<Longrightarrow> d_eq x z"
  by (simp add: d_eq_def)

lemma d_eq_refl_iff [simp]: "d_eq x x \<longleftrightarrow> \<not> is_nan x"
  by (simp add: d_eq_def)

lemma d_le_iff: "d_le x y \<longleftrightarrow> d_lt x y \<or> d_eq x y"
  by (auto simp: d_le_def d_lt_def d_eq_def)

lemma not_d_lt_iff: "\<not> is_nan x \<Longrightarrow> \<not> is_nan y \<Longrightarrow> \<not> d_lt x y \<longleftrightarrow> d_le y x"
  by (auto simp: d_le_def d_lt_def)

end
