(* ===== verification/Values.thy ===== *)
theory Values
  imports CDouble
begin

text \<open>
  \<open>src/src/value.h\<close> and \<open>src/src/value.c\<close>: the tagged value \<open>val_t\<close>, its type tags and their
  packed pairs, its raw bits, equality, conversion to a number, and the growable array \<open>arr_t\<close>
  that holds the constants of a chunk. The string object \<open>str_t\<close> (\<open>src/src/object.h\<close>) is declared
  here because the tables of strings read its fields.
\<close>

subsection \<open>Native functions\<close>

text \<open>
  A \<open>cfn_t\<close> is a C function pointer. The program registers the functions of
  \<open>src/src/lib_math.c\<close> and \<open>src/src/lib_thread.c\<close>; distinct functions have distinct addresses.
\<close>

datatype cfn =
    Math_abs | Math_ceil | Math_cos | Math_floor | Math_log | Math_log10 | Math_pow | Math_sin
  | Math_sqrt
  | Thread_sleep | Thread_create | Thread_exit | Thread_start | Thread_join | Thread_cancel
  | Thread_close

fun cfn_addr :: "cfn \<Rightarrow> nat" where
  "cfn_addr Math_abs = 1" | "cfn_addr Math_ceil = 2" | "cfn_addr Math_cos = 3"
| "cfn_addr Math_floor = 4" | "cfn_addr Math_log = 5" | "cfn_addr Math_log10 = 6"
| "cfn_addr Math_pow = 7" | "cfn_addr Math_sin = 8" | "cfn_addr Math_sqrt = 9"
| "cfn_addr Thread_sleep = 10" | "cfn_addr Thread_create = 11" | "cfn_addr Thread_exit = 12"
| "cfn_addr Thread_start = 13" | "cfn_addr Thread_join = 14" | "cfn_addr Thread_cancel = 15"
| "cfn_addr Thread_close = 16"

subsection \<open>Tags and values\<close>

datatype vtype = VT_NULL | VT_BOOL | VT_NUM | VT_OBJ | VT_CFN | VT_PTR

fun vtype_code :: "vtype \<Rightarrow> u8" where
  "vtype_code VT_NULL = 0" | "vtype_code VT_BOOL = 1" | "vtype_code VT_NUM = 2"
| "vtype_code VT_OBJ = 3" | "vtype_code VT_CFN = 4" | "vtype_code VT_PTR = 5"

text \<open>The macros of \<open>src/src/common.h\<close> that pack two tags in a byte.\<close>

definition CMB_BYTES :: "u8 \<Rightarrow> u8 \<Rightarrow> u8" where
  "CMB_BYTES l r = or (and l 0xF) (push_bit 4 (and r 0xF))"

definition CMB_LEFT :: "u8 \<Rightarrow> u8" where
  "CMB_LEFT c = and c 0xF"

definition CMB_RIGHT :: "u8 \<Rightarrow> u8" where
  "CMB_RIGHT c = and (drop_bit 4 c) 0xF"

datatype val_t =
    VAL_NULL
  | VAL_BOOL bool
  | VAL_NUM double
  | VAL_OBJ addr
  | VAL_CFN cfn
  | VAL_PTR addr

fun AS_TYPE :: "val_t \<Rightarrow> vtype" where
  "AS_TYPE VAL_NULL = VT_NULL"
| "AS_TYPE (VAL_BOOL b) = VT_BOOL"
| "AS_TYPE (VAL_NUM n) = VT_NUM"
| "AS_TYPE (VAL_OBJ a) = VT_OBJ"
| "AS_TYPE (VAL_CFN f) = VT_CFN"
| "AS_TYPE (VAL_PTR p) = VT_PTR"

text \<open>
  The union's \<open>Raw\<close> member. The constructors are compound literals, so the bytes of the union
  that a boolean does not use are zero; a pointer is its address.
\<close>

fun AS_RAW :: "val_t \<Rightarrow> u64" where
  "AS_RAW VAL_NULL = 0"
| "AS_RAW (VAL_BOOL b) = of_bool b"
| "AS_RAW (VAL_NUM n) = n"
| "AS_RAW (VAL_OBJ a) = of_nat a"
| "AS_RAW (VAL_CFN f) = of_nat (cfn_addr f)"
| "AS_RAW (VAL_PTR p) = of_nat p"

text \<open>
  Reading the member \<open>Num\<close> reads all the bits; \<open>Bool\<close> is a bit field, the lowest bit. Neither
  looks at the tag.
\<close>

definition AS_NUM :: "val_t \<Rightarrow> double" where
  "AS_NUM v = AS_RAW v"

definition AS_BOOL :: "val_t \<Rightarrow> bool" where
  "AS_BOOL v \<longleftrightarrow> bit (AS_RAW v) 0"

lemma AS_NUM_BOOL_simps [simp]: "AS_NUM (VAL_NUM n) = n" "AS_BOOL (VAL_BOOL b) = b"
  by (simp_all add: AS_NUM_def AS_BOOL_def)

text \<open>The pairs of tags that the switches of the program name.\<close>

definition VT_PAIR :: "val_t \<Rightarrow> val_t \<Rightarrow> u8" where
  "VT_PAIR a b = CMB_BYTES (vtype_code (AS_TYPE a)) (vtype_code (AS_TYPE b))"

definition VT_BOOL_BOOL :: u8 where "VT_BOOL_BOOL = CMB_BYTES (vtype_code VT_BOOL) (vtype_code VT_BOOL)"
definition VT_BOOL_NUM :: u8 where "VT_BOOL_NUM = CMB_BYTES (vtype_code VT_BOOL) (vtype_code VT_NUM)"
definition VT_NUM_BOOL :: u8 where "VT_NUM_BOOL = CMB_BYTES (vtype_code VT_NUM) (vtype_code VT_BOOL)"
definition VT_NUM_NUM :: u8 where "VT_NUM_NUM = CMB_BYTES (vtype_code VT_NUM) (vtype_code VT_NUM)"
definition VT_OBJ_OBJ :: u8 where "VT_OBJ_OBJ = CMB_BYTES (vtype_code VT_OBJ) (vtype_code VT_OBJ)"

lemmas vt_pair_defs =
  VT_PAIR_def VT_BOOL_BOOL_def VT_BOOL_NUM_def VT_NUM_BOOL_def VT_NUM_NUM_def VT_OBJ_OBJ_def

text \<open>The packed tags tell the pairs apart.\<close>

lemma CMB_vtype: "CMB_BYTES (vtype_code s) (vtype_code t) = CMB_BYTES (vtype_code u) (vtype_code v)
    \<longleftrightarrow> s = u \<and> t = v"
  by (cases s; cases t; cases u; cases v) (simp_all add: CMB_BYTES_def)

definition IS_NULL :: "val_t \<Rightarrow> bool" where
  "IS_NULL v \<longleftrightarrow> AS_TYPE v = VT_NULL"

definition IS_FALSEY :: "val_t \<Rightarrow> bool" where
  "IS_FALSEY v \<longleftrightarrow> AS_RAW v = 0"

lemma IS_NULL_iff [simp]: "IS_NULL v \<longleftrightarrow> v = VAL_NULL"
  by (cases v) (simp_all add: IS_NULL_def)

subsection \<open>Equality\<close>

fun val_equal :: "val_t \<Rightarrow> val_t \<Rightarrow> bool" where
  "val_equal VAL_NULL VAL_NULL = True"
| "val_equal (VAL_BOOL a) (VAL_BOOL b) = (a = b)"
| "val_equal (VAL_NUM a) (VAL_NUM b) = d_eq a b"
| "val_equal (VAL_OBJ a) (VAL_OBJ b) = (a = b)"
| "val_equal (VAL_CFN a) (VAL_CFN b) = (cfn_addr a = cfn_addr b)"
| "val_equal (VAL_PTR a) (VAL_PTR b) = (a = b)"
| "val_equal (VAL_BOOL a) (VAL_NUM b) = d_eq (d_of_bool a) b"
| "val_equal (VAL_NUM a) (VAL_BOOL b) = d_eq a (d_of_bool b)"
| "val_equal _ _ = False"

subsection \<open>Strings and the types' names\<close>

record str_t =
  str_length :: nat
  str_hash :: u32
  str_chars :: string

text \<open>The string heap as the tables see it: what a \<open>str_t *\<close> points to.\<close>

type_synonym strs = "addr \<Rightarrow> str_t"

subsection \<open>The growable array\<close>

record arr_t =
  arr_count :: nat
  arr_capacity :: nat
  arr_values :: "val_t list"

definition GROW_CAP :: "nat \<Rightarrow> nat" where
  "GROW_CAP x = (if x < 8 then 8 else x * 2)"

definition arr_init :: arr_t where
  "arr_init = \<lparr>arr_count = 0, arr_capacity = 0, arr_values = []\<rparr>"

definition arr_free :: "arr_t \<Rightarrow> arr_t" where
  "arr_free a = arr_init"

text \<open>
  The scan of \<open>arr_add\<close> for an equal value: the first index below \<open>count\<close>. The list holds the
  \<open>count\<close> values written so far; the rest of the \<open>capacity\<close> slots are not initialised.
\<close>

fun arr_scan :: "val_t list \<Rightarrow> val_t \<Rightarrow> nat \<Rightarrow> nat option" where
  "arr_scan [] v i = None"
| "arr_scan (x # xs) v i = (if val_equal x v then Some i else arr_scan xs v (Suc i))"

definition arr_push :: "arr_t \<Rightarrow> val_t \<Rightarrow> arr_t \<times> nat" where
  "arr_push a v =
     (let a = (if arr_capacity a \<le> arr_count a
               then a\<lparr>arr_capacity := GROW_CAP (arr_capacity a)\<rparr> else a)
      in (a\<lparr>arr_values := arr_values a @ [v], arr_count := arr_count a + 1\<rparr>, arr_count a))"

definition arr_add :: "arr_t \<Rightarrow> val_t \<Rightarrow> bool \<Rightarrow> arr_t \<times> nat" where
  "arr_add a v allowdup =
     (if allowdup then arr_push a v
      else (case arr_scan (arr_values a) v 0 of
              Some i \<Rightarrow> (a, i)
            | None \<Rightarrow> arr_push a v))"

definition arr_ok :: "arr_t \<Rightarrow> bool" where
  "arr_ok a \<longleftrightarrow> arr_count a = length (arr_values a) \<and> arr_count a \<le> arr_capacity a"

end
