(* ===== verification/Probing.thy ===== *)
theory Probing
  imports Prelude
begin

text \<open>
  Open addressing with linear probing, the scheme that \<open>findEntry\<close> of \<open>src/src/table.c\<close> and
  \<open>hash_find\<close> of \<open>src/src/hash.c\<close> share. The two C files hold the same loop over two entry
  types; each is modelled in its own theory, and both are instances of the locales here.

  An entry carries a key (\<open>ekey e = Some k\<close>), is a tombstone (no key, not vacant) or is vacant.
  The locale \<open>probing\<close> fixes the loop of the code by its one-step equation and proves what the
  loop returns; \<open>probe_store\<close> adds the entries the code writes (a key with its value, a
  tombstone) and the loop that rehashes an array into a larger one.
\<close>

subsection \<open>The search loop\<close>

locale probing =
  fixes ekey :: "'e \<Rightarrow> 'k option"
    and vac :: "'e \<Rightarrow> bool"
    and loop :: "'e list \<Rightarrow> nat \<Rightarrow> 'k \<Rightarrow> nat \<Rightarrow> nat option \<Rightarrow> nat option"
  assumes vac_no_key: "vac e \<Longrightarrow> ekey e = None"
    and loop_step:
      "loop es cap k i t =
         (if ekey (es ! i) = None then
            (if vac (es ! i) then Some (case t of None \<Rightarrow> i | Some j \<Rightarrow> j)
             else loop es cap k ((i + 1) mod cap) (case t of None \<Rightarrow> Some i | Some j \<Rightarrow> Some j))
          else if ekey (es ! i) = Some k then Some i
          else loop es cap k ((i + 1) mod cap) t)"
begin

definition skips :: "'e list \<Rightarrow> 'k \<Rightarrow> nat \<Rightarrow> bool" where
  "skips es k i \<longleftrightarrow> \<not> vac (es ! i) \<and> ekey (es ! i) \<noteq> Some k"

lemma skipsD: "skips es k i \<Longrightarrow> \<not> vac (es ! i)"
  by (simp add: skips_def)

text \<open>
  The loop run from slot \<open>i\<close>: it stops at the first slot, \<open>d\<close> steps on, that holds the key or is
  vacant. In the second case it returns that slot or an earlier tombstone.
\<close>

lemma loop_returns:
  assumes "\<forall>d' < d. skips es k ((i + d') mod n)"
    and "\<not> skips es k ((i + d) mod n)" and "i < n"
  shows "(ekey (es ! ((i + d) mod n)) = Some k \<and> loop es n k i t = Some ((i + d) mod n)) \<or>
         (vac (es ! ((i + d) mod n)) \<and>
           (\<exists>r. loop es n k i t = Some r \<and>
              (t = Some r \<or> (t = None \<and> (\<exists>d' \<le> d. r = (i + d') mod n \<and> ekey (es ! r) = None)))))"
  using assms
proof (induction d arbitrary: i t)
  case 0
  then have "ekey (es ! i) = Some k \<or> vac (es ! i)" by (auto simp: skips_def)
  then show ?case
    using \<open>i < n\<close> vac_no_key [of "es ! i"]
    by (auto simp: loop_step [of es n k i t] split: option.splits)
next
  case (Suc d)
  let ?i = "(i + 1) mod n"
  let ?t = "if ekey (es ! i) = None then (case t of None \<Rightarrow> Some i | Some j \<Rightarrow> Some j) else t"
  have sk: "skips es k i" using Suc.prems(1,3) by (auto dest: spec [of _ 0])
  then have step: "loop es n k i t = loop es n k ?i ?t"
    by (simp add: loop_step [of es n k i t] skips_def)
  have shift: "(?i + e) mod n = (i + Suc e) mod n" for e
    by (simp add: mod_add_left_eq)
  have "\<forall>d' < d. skips es k ((?i + d') mod n)"
    using Suc.prems(1) by (simp only: shift) auto
  moreover have "\<not> skips es k ((?i + d) mod n)"
    using Suc.prems(2) by (simp only: shift not_False_eq_True)
  moreover have "?i < n" using \<open>i < n\<close> by simp
  ultimately have IH: "(ekey (es ! ((?i + d) mod n)) = Some k \<and> loop es n k ?i ?t = Some ((?i + d) mod n)) \<or>
         (vac (es ! ((?i + d) mod n)) \<and>
           (\<exists>r. loop es n k ?i ?t = Some r \<and>
              (?t = Some r \<or> (?t = None \<and> (\<exists>d' \<le> d. r = (?i + d') mod n \<and> ekey (es ! r) = None)))))"
    by (rule Suc.IH)
  show ?case
  proof (cases "ekey (es ! ((i + Suc d) mod n)) = Some k")
    case True
    then have "\<not> vac (es ! ((i + Suc d) mod n))" using vac_no_key by fastforce
    with IH show ?thesis unfolding shift step using True by blast
  next
    case False
    with IH obtain r where v: "vac (es ! ((i + Suc d) mod n))"
      and r: "loop es n k ?i ?t = Some r"
      and tr: "?t = Some r \<or> (?t = None \<and> (\<exists>d' \<le> d. r = (i + Suc d') mod n \<and> ekey (es ! r) = None))"
      unfolding shift by blast
    have "t = Some r \<or> (t = None \<and> (\<exists>d' \<le> Suc d. r = (i + d') mod n \<and> ekey (es ! r) = None))"
    proof (cases "?t = Some r")
      case True
      show ?thesis
      proof (cases "t = Some r")
        case False
        with True have "t = None" "r = i" "ekey (es ! i) = None"
          by (auto split: if_splits option.splits)
        with \<open>i < n\<close> show ?thesis by (auto intro!: exI [of _ 0])
      qed simp
    next
      case False
      with tr have "?t = None" and
        ex: "\<exists>d' \<le> d. r = (i + Suc d') mod n \<and> ekey (es ! r) = None" by auto
      then have "t = None" by (auto split: if_splits option.splits)
      with ex show ?thesis by (metis Suc_le_mono)
    qed
    with v r step show ?thesis by auto
  qed
qed

text \<open>A vacant slot anywhere in the array makes the loop return.\<close>

lemma loop_total:
  assumes "i < n" and "j < n" and "vac (es ! j)"
  shows "\<exists>r. loop es n k i t = Some r \<and> (t = None \<longrightarrow> r < n)"
proof -
  obtain d where "(i + d) mod n = j" using assms cyclic_reach by metis
  then have "\<exists>d. \<not> skips es k ((i + d) mod n)" using assms(3) by (auto simp: skips_def)
  then obtain d where "\<not> skips es k ((i + d) mod n)"
    and "\<forall>d' < d. skips es k ((i + d') mod n)"
    using exists_least_iff [of "\<lambda>d. \<not> skips es k ((i + d) mod n)"] by auto
  moreover have "m mod n < n" for m using assms(1) by simp
  ultimately show ?thesis using loop_returns [of d es k i n t] assms(1) by blast
qed

end

subsection \<open>Well-formed arrays, and the map they hold\<close>

locale probe_array = probing ekey vac loop
  for ekey :: "'e \<Rightarrow> 'k option" and vac :: "'e \<Rightarrow> bool"
    and loop :: "'e list \<Rightarrow> nat \<Rightarrow> 'k \<Rightarrow> nat \<Rightarrow> nat option \<Rightarrow> nat option" +
  fixes eval :: "'e \<Rightarrow> 'v"
    and entry :: "'k \<Rightarrow> 'v \<Rightarrow> 'e"
    and storable :: "'k \<Rightarrow> bool"
  assumes ekey_entry: "storable k \<Longrightarrow> ekey (entry k v) = Some k"
    and eval_entry: "eval (entry k v) = v"
begin

definition present :: "'e list \<Rightarrow> 'k \<Rightarrow> nat \<Rightarrow> bool" where
  "present es k i \<longleftrightarrow> i < length es \<and> ekey (es ! i) = Some k"

text \<open>Every key can be reached from its home slot without crossing a vacant slot.\<close>

definition reachable_key :: "('k \<Rightarrow> nat) \<Rightarrow> 'e list \<Rightarrow> 'k \<Rightarrow> nat \<Rightarrow> bool" where
  "reachable_key h es k i \<longleftrightarrow>
     (\<exists>d. i = (h k mod length es + d) mod length es \<and>
          (\<forall>d' < d. \<not> vac (es ! ((h k mod length es + d') mod length es))))"

definition wf_array :: "('k \<Rightarrow> nat) \<Rightarrow> 'e list \<Rightarrow> bool" where
  "wf_array h es \<longleftrightarrow>
     (\<exists>i < length es. vac (es ! i)) \<and>
     (\<forall>k i. present es k i \<longrightarrow> reachable_key h es k i) \<and>
     (\<forall>k i j. present es k i \<longrightarrow> present es k j \<longrightarrow> i = j)"

definition contents :: "'e list \<Rightarrow> 'k \<Rightarrow> 'v option" where
  "contents es k = map_option eval (find (\<lambda>e. ekey e = Some k) es)"

definition used :: "'e list \<Rightarrow> nat" where
  "used es = length (filter (\<lambda>e. \<not> vac e) es)"

definition live :: "'e list \<Rightarrow> nat" where
  "live es = length (filter (\<lambda>e. ekey e \<noteq> None) es)"

lemma wf_array_nonempty: "wf_array h es \<Longrightarrow> 0 < length es"
  by (auto simp: wf_array_def)

lemma contents_None_iff: "contents es k = None \<longleftrightarrow> (\<forall>i. \<not> present es k i)"
  by (auto simp: contents_def present_def find_None_iff in_set_conv_nth)

lemma contents_present:
  assumes "wf_array h es" and "present es k i"
  shows "contents es k = Some (eval (es ! i))"
proof -
  obtain j where j: "find (\<lambda>e. ekey e = Some k) es = Some (es ! j)" "present es k j"
    using assms(2) by (cases "find (\<lambda>e. ekey e = Some k) es")
      (auto simp: find_None_iff find_Some_iff present_def in_set_conv_nth)
  have "j = i" using assms j(2) unfolding wf_array_def by blast
  with j(1) show ?thesis by (simp add: contents_def)
qed

lemma contents_Some_iff:
  assumes "wf_array h es"
  shows "contents es k = Some v \<longleftrightarrow> (\<exists>i. present es k i \<and> eval (es ! i) = v)"
  using contents_present [OF assms] contents_None_iff [of es k] by (metis option.inject option.distinct(1))

text \<open>What the search returns in a well-formed array.\<close>

lemma find_present:
  assumes "wf_array h es" and "present es k i"
  shows "loop es (length es) k (h k mod length es) t = Some i"
proof -
  let ?n = "length es" and ?h = "h k mod length es"
  from assms obtain d where d: "i = (?h + d) mod ?n"
    and nv: "\<forall>d' < d. \<not> vac (es ! ((?h + d') mod ?n))"
    by (auto simp: wf_array_def reachable_key_def)
  let ?D = "LEAST d. \<not> skips es k ((?h + d) mod ?n)"
  have stop: "\<not> skips es k ((?h + d) mod ?n)"
    using assms(2) d by (simp add: skips_def present_def)
  then have stopD: "\<not> skips es k ((?h + ?D) mod ?n)" by (rule LeastI)
  have D_le: "?D \<le> d" using stop by (rule Least_le)
  have before: "\<forall>d' < ?D. skips es k ((?h + d') mod ?n)"
    using not_less_Least by blast
  have n: "0 < ?n" using wf_array_nonempty [OF assms(1)] .
  have key: "ekey (es ! ((?h + ?D) mod ?n)) = Some k"
  proof (cases "?D = d")
    case True
    with assms(2) d show ?thesis by (simp add: present_def)
  next
    case False
    with D_le nv have "\<not> vac (es ! ((?h + ?D) mod ?n))" by simp
    with stopD show ?thesis by (simp add: skips_def)
  qed
  then have "present es k ((?h + ?D) mod ?n)" using n by (simp add: present_def)
  with assms have "(?h + ?D) mod ?n = i" by (auto simp: wf_array_def)
  moreover have "loop es ?n k ?h t = Some ((?h + ?D) mod ?n)"
    using loop_returns [OF before stopD, of t] key n vac_no_key by fastforce
  ultimately show ?thesis by simp
qed

lemma find_absent:
  assumes "wf_array h es" and "\<forall>i. \<not> present es k i"
  obtains r d where "loop es (length es) k (h k mod length es) None = Some r"
    and "r < length es" and "ekey (es ! r) = None"
    and "r = (h k mod length es + d) mod length es"
    and "\<forall>d' < d. \<not> vac (es ! ((h k mod length es + d') mod length es))"
proof -
  let ?n = "length es" and ?h = "h k mod length es"
  have n: "0 < ?n" using wf_array_nonempty [OF assms(1)] .
  obtain j where "j < ?n" "vac (es ! j)" using assms(1) by (auto simp: wf_array_def)
  then obtain d0 where "\<not> skips es k ((?h + d0) mod ?n)"
    using cyclic_reach [of ?h ?n j] n by (metis skips_def mod_less_divisor)
  then obtain D where stopD: "\<not> skips es k ((?h + D) mod ?n)"
    and before: "\<forall>d' < D. skips es k ((?h + d') mod ?n)"
    using exists_least_iff [of "\<lambda>d. \<not> skips es k ((?h + d) mod ?n)"] by auto
  have "ekey (es ! ((?h + D) mod ?n)) \<noteq> Some k"
    using assms(2) n by (auto simp: present_def)
  with loop_returns [OF before stopD, of None] n obtain r d where
    r: "loop es ?n k ?h None = Some r" and "d \<le> D" "r = (?h + d) mod ?n" "ekey (es ! r) = None"
    by (metis mod_less_divisor option.distinct(1))
  show ?thesis
  proof (rule that [OF r])
    show "r < ?n" using \<open>r = _\<close> n by simp
    show "ekey (es ! r) = None" by fact
    show "r = (?h + d) mod ?n" by fact
    show "\<forall>d' < d. \<not> vac (es ! ((?h + d') mod ?n))"
      using before \<open>d \<le> D\<close> by (auto simp: skips_def)
  qed
qed

lemma loop_defined:
  assumes "wf_array h es"
  shows "\<exists>r. loop es (length es) k (h k mod length es) t = Some r"
proof -
  obtain j where j: "j < length es" "vac (es ! j)" using assms by (auto simp: wf_array_def)
  then have "h k mod length es < length es" by (intro mod_less_divisor) auto
  from loop_total [OF this j] show ?thesis by blast
qed

definition target :: "('k \<Rightarrow> nat) \<Rightarrow> 'e list \<Rightarrow> 'k \<Rightarrow> nat \<Rightarrow> bool" where
  "target h es k r \<longleftrightarrow>
     r < length es \<and> reachable_key h es k r \<and>
     (present es k r \<or> (\<forall>i. \<not> present es k i) \<and> ekey (es ! r) = None)"

lemma loop_target:
  assumes wf: "wf_array h es"
    and "loop es (length es) k (h k mod length es) None = Some r"
  shows "target h es k r"
proof (cases "\<exists>i. present es k i")
  case True
  then obtain i where i: "present es k i" by blast
  from find_present [OF wf i, of None] assms(2) have "i = r" by simp
  with i wf show ?thesis unfolding target_def wf_array_def present_def by blast
next
  case False
  then have "\<forall>i. \<not> present es k i" by blast
  from find_absent [OF wf this] obtain r' d where
    "loop es (length es) k (h k mod length es) None = Some r'" and
    *: "r' < length es" "ekey (es ! r') = None" "r' = (h k mod length es + d) mod length es"
       "\<forall>d' < d. \<not> vac (es ! ((h k mod length es + d') mod length es))" by blast
  with assms(2) have "r' = r" by simp
  with * False show ?thesis by (auto simp: target_def reachable_key_def)
qed

lemma loop_target_exists:
  assumes "wf_array h es"
  obtains r where "loop es (length es) k (h k mod length es) None = Some r" and "target h es k r"
  using loop_defined [OF assms, of k None] loop_target [OF assms] by blast

subsection \<open>Writing entries\<close>

lemma present_update:
  "present (es[r := e]) k i \<longleftrightarrow>
     i < length es \<and> (if i = r then ekey e = Some k else present es k i)"
  by (auto simp: present_def nth_list_update)

lemma reachable_key_update:
  assumes "reachable_key h es k i" and "\<not> vac e"
  shows "reachable_key h (es[r := e]) k i"
proof -
  from assms(1) obtain d where d: "i = (h k mod length es + d) mod length es"
    and "\<forall>d' < d. \<not> vac (es ! ((h k mod length es + d') mod length es))"
    by (auto simp: reachable_key_def)
  then have "\<forall>d' < d. \<not> vac (es[r := e] ! ((h k mod length es + d') mod length es))"
    using assms(2) by (auto simp: nth_update) 
  with d show ?thesis by (auto simp: reachable_key_def)
qed

lemma used_update:
  assumes "r < length es" and "\<not> vac e"
  shows "used (es[r := e]) = (if vac (es ! r) then Suc (used es) else used es)"
  using length_filter_update [OF assms(1), of "\<lambda>e. \<not> vac e" e] assms(2)
  by (auto simp: used_def split: if_splits)

lemma live_le_used: "live es \<le> used es"
proof -
  have "filter (\<lambda>e. ekey e \<noteq> None) es = filter (\<lambda>e. ekey e \<noteq> None) (filter (\<lambda>e. \<not> vac e) es)"
    using vac_no_key by (auto intro!: filter_cong)
  then show ?thesis unfolding live_def used_def by (metis length_filter_le)
qed

lemma used_room: "used es < length es \<Longrightarrow> \<exists>i < length es. vac (es ! i)"
  using exists_failing_index [of "\<lambda>e. \<not> vac e" es] by (simp add: used_def)

lemma entry_not_vac: "storable k \<Longrightarrow> \<not> vac (entry k v)"
  using ekey_entry [of k v] vac_no_key [of "entry k v"] by auto

lemma write_wf:
  assumes wf: "wf_array h es" and t: "target h es k r" and k: "storable k"
    and room: "Suc (used es) < length es"
  shows "wf_array h (es[r := entry k v])"
proof -
  let ?es = "es[r := entry k v]"
  have nv: "\<not> vac (entry k v)" using k by (rule entry_not_vac)
  have r: "r < length es" using t by (simp add: target_def)
  have "used ?es < length ?es" using used_update [OF r nv] room by auto
  then have "\<exists>i < length ?es. vac (?es ! i)" by (rule used_room)
  moreover have "reachable_key h ?es k' i" if "present ?es k' i" for k' i
    using that wf t nv k ekey_entry [OF k]
    by (cases "i = r") (auto simp: present_update wf_array_def target_def intro!: reachable_key_update)
  moreover have "i = j" if "present ?es k' i" "present ?es k' j" for k' i j
    using that wf t k ekey_entry [OF k]
    by (cases "i = r"; cases "j = r") (auto simp: present_update wf_array_def target_def)
  ultimately show ?thesis by (auto simp: wf_array_def)
qed

lemma write_contents:
  assumes wf: "wf_array h es" and t: "target h es k r" and k: "storable k"
    and room: "Suc (used es) < length es"
  shows "contents (es[r := entry k v]) = (contents es)(k \<mapsto> v)"
proof (rule ext)
  fix k'
  let ?es = "es[r := entry k v]"
  have wf': "wf_array h ?es" using assms by (rule write_wf)
  have r: "r < length es" using t by (simp add: target_def)
  show "contents ?es k' = ((contents es)(k \<mapsto> v)) k'"
  proof (cases "k' = k")
    case True
    have "present ?es k r" using r ekey_entry [OF k] by (simp add: present_update)
    from contents_present [OF wf' this] r True show ?thesis by (simp add: eval_entry)
  next
    case False
    have same: "present ?es k' i \<longleftrightarrow> present es k' i" for i
      using False t ekey_entry [OF k] by (auto simp: nth_update target_def present_def)
    show ?thesis
    proof (cases "\<exists>i. present es k' i")
      case True
      then obtain i where i: "present es k' i" by blast
      with False t have "i \<noteq> r" by (auto simp: target_def present_def)
      with contents_present [OF wf i] contents_present [OF wf', of k' i] same i False
      show ?thesis by simp
    next
      case none: False
      with same have "contents ?es k' = None" "contents es k' = None"
        by (simp_all add: contents_None_iff)
      with False show ?thesis by simp
    qed
  qed
qed

text \<open>A removed key leaves a tombstone, which keeps every other key reachable.\<close>

lemma bury:
  assumes wf: "wf_array h es" and i: "present es k i" and e: "ekey e = None" "\<not> vac e"
  shows "wf_array h (es[i := e]) \<and> contents (es[i := e]) = (contents es)(k := None)"
proof -
  let ?es = "es[i := e]"
  have pres: "present ?es k' j \<longleftrightarrow> present es k' j \<and> j \<noteq> i" for k' j
    using i e by (auto simp: nth_update present_def)
  obtain j where j: "j < length es" "vac (es ! j)" using wf by (auto simp: wf_array_def)
  with i vac_no_key have "j \<noteq> i" by (fastforce simp: present_def)
  with j have "\<exists>j < length ?es. vac (?es ! j)" by (auto intro!: exI [of _ j])
  then have wf': "wf_array h ?es"
    using wf e pres unfolding wf_array_def by (auto intro!: reachable_key_update)
  have "contents ?es k' = ((contents es)(k := None)) k'" for k'
  proof (cases "\<exists>j. present ?es k' j")
    case True
    then obtain j where j: "present ?es k' j" by blast
    then have "present es k' j" "j \<noteq> i" using pres by blast+
    moreover from this i wf have "k' \<noteq> k" by (auto simp: wf_array_def)
    ultimately show ?thesis
      using contents_present [OF wf' j] contents_present [OF wf, of k' j] by simp
  next
    case False
    then have "contents ?es k' = None" by (simp add: contents_None_iff)
    moreover have "contents es k' = None" if "k' \<noteq> k"
    proof -
      have "\<not> present es k' j" for j
        using False pres that i by (cases "j = i") (auto simp: present_def)
      then show ?thesis by (simp add: contents_None_iff)
    qed
    ultimately show ?thesis by simp
  qed
  with wf' show ?thesis by auto
qed

text \<open>A freshly allocated array.\<close>

lemma fresh_array:
  assumes "0 < n" and "vac e"
  shows "wf_array h (replicate n e)" and "contents (replicate n e) = Map.empty"
    and "used (replicate n e) = 0"
proof -
  have no: "\<not> present (replicate n e) k i" for k i
    using vac_no_key [OF assms(2)] by (auto simp: present_def)
  show "wf_array h (replicate n e)" using assms no by (auto simp: wf_array_def)
  show "contents (replicate n e) = Map.empty"
    using no by (auto simp: fun_eq_iff contents_None_iff)
  show "used (replicate n e) = 0" using assms(2) by (simp add: used_def)
qed

end

subsection \<open>Rehashing into a larger array\<close>

locale probe_rehash = probe_array ekey vac loop eval entry storable
  for ekey :: "'e \<Rightarrow> 'k option" and vac :: "'e \<Rightarrow> bool"
    and loop :: "'e list \<Rightarrow> nat \<Rightarrow> 'k \<Rightarrow> nat \<Rightarrow> nat option \<Rightarrow> nat option"
    and eval :: "'e \<Rightarrow> 'v" and entry :: "'k \<Rightarrow> 'v \<Rightarrow> 'e" and storable :: "'k \<Rightarrow> bool" +
  fixes h :: "'k \<Rightarrow> nat"
    and rehash :: "'e list \<Rightarrow> nat \<Rightarrow> 'e list \<Rightarrow> nat \<Rightarrow> ('e list \<times> nat) option"
  assumes key_storable: "ekey e = Some k \<Longrightarrow> storable k"
    and rehash_Nil: "rehash [] cap acc c = Some (acc, c)"
    and rehash_Cons:
      "rehash (e # old) cap acc c =
         (case ekey e of
            None \<Rightarrow> rehash old cap acc c
          | Some k \<Rightarrow>
              Option.bind (loop acc cap k (h k mod cap) None)
                (\<lambda>r. rehash old cap (acc[r := entry k (eval e)]) (c + 1)))"
begin

definition distinct_keys :: "'e list \<Rightarrow> bool" where
  "distinct_keys es \<longleftrightarrow> (\<forall>k i j. present es k i \<longrightarrow> present es k j \<longrightarrow> i = j)"

definition tombless :: "'e list \<Rightarrow> bool" where
  "tombless es \<longleftrightarrow> (\<forall>e \<in> set es. ekey e = None \<longrightarrow> vac e)"

lemma wf_distinct_keys: "wf_array g es \<Longrightarrow> distinct_keys es"
  by (auto simp: wf_array_def distinct_keys_def)

lemma present_Cons_Suc [simp]: "present (e # es) k (Suc i) \<longleftrightarrow> present es k i"
  by (simp add: present_def)

lemma present_Cons_0 [simp]: "present (e # es) k 0 \<longleftrightarrow> ekey e = Some k"
  by (simp add: present_def)

lemma distinct_keys_Cons:
  assumes "distinct_keys (e # es)"
  shows "distinct_keys es" and "ekey e = Some k \<Longrightarrow> contents es k = None"
proof -
  have *: "i = j" if "present (e # es) k i" "present (e # es) k j" for k i j
    using assms that by (auto simp: distinct_keys_def)
  show "distinct_keys es" unfolding distinct_keys_def using *[of _ "Suc _" "Suc _"] by auto
  show "contents es k = None" if "ekey e = Some k"
    unfolding contents_None_iff using *[of k 0 "Suc _"] that by auto
qed

lemma contents_Cons_None: "ekey e = None \<Longrightarrow> contents (e # es) = contents es"
  by (rule ext) (simp add: contents_def)

lemma contents_Cons_Some: "ekey e = Some k \<Longrightarrow> contents (e # es) = (contents es)(k \<mapsto> eval e)"
  by (rule ext) (auto simp: contents_def)

lemma tombless_write:
  assumes "tombless es" and "\<not> vac e" and "ekey e \<noteq> None"
  shows "tombless (es[i := e])"
  using assms unfolding tombless_def by (metis in_set_conv_nth length_list_update nth_update)

lemma rehash_correct:
  assumes "wf_array h acc" and "tombless acc" and "distinct_keys old"
    and "used acc + live old < length acc"
    and "dom (contents acc) \<inter> dom (contents old) = {}"
  shows "\<exists>acc'. rehash old (length acc) acc c = Some (acc', c + live old) \<and>
           wf_array h acc' \<and> length acc' = length acc \<and>
           contents acc' = contents acc ++ contents old \<and> used acc' = used acc + live old"
  using assms
proof (induction old arbitrary: acc c)
  case Nil
  have "contents [] = Map.empty" by (rule ext) (simp add: contents_def)
  with Nil.prems show ?case by (simp add: rehash_Nil live_def)
next
  case (Cons e old)
  note dk = distinct_keys_Cons [OF Cons.prems(3)]
  show ?case
  proof (cases "ekey e")
    case None
    then have "live (e # old) = live old" by (simp add: live_def)
    with None Cons.IH [OF Cons.prems(1,2) dk(1)] Cons.prems(4,5) show ?thesis
      by (simp add: rehash_Cons contents_Cons_None)
  next
    case (Some k)
    have k: "storable k" using Some by (rule key_storable)
    have live: "live (e # old) = Suc (live old)" using Some by (simp add: live_def)
    have co: "contents (e # old) = (contents old)(k \<mapsto> eval e)"
      using Some by (rule contents_Cons_Some)
    have knew: "contents acc k = None" using Cons.prems(5) co by auto
    obtain r where r: "loop acc (length acc) k (h k mod length acc) None = Some r"
      and t: "target h acc k r" using Cons.prems(1) by (rule loop_target_exists)
    have "\<not> present acc k r" using knew by (simp add: contents_None_iff)
    with t have rl: "r < length acc" and "ekey (acc ! r) = None" by (auto simp: target_def)
    then have rv: "vac (acc ! r)" using Cons.prems(2) by (simp add: tombless_def)
    let ?acc = "acc[r := entry k (eval e)]"
    have nv: "\<not> vac (entry k (eval e))" using k by (rule entry_not_vac)
    have room: "Suc (used acc) < length acc" using Cons.prems(4) live by simp
    have c1: "contents ?acc = (contents acc)(k \<mapsto> eval e)"
      using Cons.prems(1) t k room by (rule write_contents)
    have u1: "used ?acc = Suc (used acc)" using used_update [OF rl nv] rv by simp
    have ok: "contents old k = None" using dk(2) Some by simp
    have "\<exists>acc'. rehash old (length ?acc) ?acc (c + 1) = Some (acc', c + 1 + live old) \<and>
           wf_array h acc' \<and> length acc' = length ?acc \<and>
           contents acc' = contents ?acc ++ contents old \<and> used acc' = used ?acc + live old"
    proof (rule Cons.IH)
      show "wf_array h ?acc" using Cons.prems(1) t k room by (rule write_wf)
      show "tombless ?acc"
        using Cons.prems(2) nv ekey_entry [OF k] by (intro tombless_write) simp_all
      show "distinct_keys old" by (rule dk(1))
      show "used ?acc + live old < length ?acc" using Cons.prems(4) u1 live by simp
      show "dom (contents ?acc) \<inter> dom (contents old) = {}"
        using Cons.prems(5) c1 co ok by auto
    qed
    moreover have "contents ?acc ++ contents old = contents acc ++ contents (e # old)"
      using ok by (auto simp: c1 co map_add_def fun_eq_iff split: option.splits)
    ultimately show ?thesis
      using Some r u1 live by (auto simp: rehash_Cons)
  qed
qed

text \<open>Rehashing into an array of vacant slots keeps the contents and drops the tombstones.\<close>

lemma rehash_fresh:
  assumes "distinct_keys old" and "live old < n" and "vac e"
  shows "\<exists>acc. rehash old n (replicate n e) 0 = Some (acc, live old) \<and>
           wf_array h acc \<and> length acc = n \<and> contents acc = contents old \<and> used acc = live old"
proof -
  have n: "0 < n" using assms(2) by simp
  note fr = fresh_array [OF n assms(3)]
  have "tombless (replicate n e)" using assms(3) by (simp add: tombless_def)
  from rehash_correct [OF fr(1) this assms(1), of 0] show ?thesis
    using fr assms(2) by simp
qed

end

subsection \<open>The contract of an associative store\<close>

text \<open>
  What the clients of the two tables rely on: a look-up that always returns, and an insertion
  that always returns, reports whether the key is new, and updates the map at this key only.
\<close>

locale assoc_store =
  fixes ok :: "'t \<Rightarrow> bool"
    and model :: "'t \<Rightarrow> 'k \<Rightarrow> 'v option"
    and get :: "'t \<Rightarrow> 'k \<Rightarrow> 'v option option"
    and set :: "'t \<Rightarrow> 'k \<Rightarrow> 'v \<Rightarrow> ('t \<times> bool) option"
    and storable :: "'k \<Rightarrow> bool"
  assumes get_model: "ok t \<Longrightarrow> storable k \<Longrightarrow> get t k = Some (model t k)"
    and set_model:
      "ok t \<Longrightarrow> storable k \<Longrightarrow>
         \<exists>t'. set t k v = Some (t', model t k = None) \<and> ok t' \<and> model t' = (model t)(k \<mapsto> v)"
begin

lemma set_cases:
  assumes "ok t" and "storable k"
  obtains t' where "set t k v = Some (t', model t k = None)" and "ok t'"
    and "model t' = (model t)(k \<mapsto> v)"
  using set_model [OF assms] by blast

lemma get_after_set:
  assumes "ok t" and "storable k" and "storable l" and "set t k v = Some (t', b)"
  shows "get t' l = (if l = k then Some (Some v) else get t l)"
  using set_model [OF assms(1,2), of v] assms(3,4) get_model [OF assms(1,3)] get_model [of t' l]
  by auto

lemma set_new_iff:
  assumes "ok t" and "storable k" and "set t k v = Some (t', b)"
  shows "b \<longleftrightarrow> get t k = Some None"
  using set_model [OF assms(1,2), of v] get_model [OF assms(1,2)] assms(3) by auto

fun set_all :: "'t \<Rightarrow> ('k \<times> 'v) list \<Rightarrow> 't option" where
  "set_all t [] = Some t"
| "set_all t ((k, v) # kvs) = Option.bind (set t k v) (\<lambda>(t', _). set_all t' kvs)"

lemma set_all_model:
  assumes "ok t" and "\<forall>k \<in> fst ` List.set kvs. storable k"
  shows "\<exists>t'. set_all t kvs = Some t' \<and> ok t' \<and> model t' = model t ++ map_of (rev kvs)"
  using assms
proof (induction kvs arbitrary: t)
  case Nil
  then show ?case by simp
next
  case (Cons kv kvs)
  obtain k v where kv: "kv = (k, v)" by (cases kv)
  with Cons.prems obtain t1 where t1: "set t k v = Some (t1, model t k = None)" "ok t1"
    and m: "model t1 = (model t)(k \<mapsto> v)" using set_cases [of t k v] by auto
  from Cons.IH [OF t1(2)] Cons.prems(2) kv obtain t' where
    "set_all t1 kvs = Some t'" "ok t'" "model t' = model t1 ++ map_of (rev kvs)" by auto
  with t1 m kv show ?case by (simp add: map_add_assoc [symmetric])
qed

end

end
