(* ===== verification/Tables.thy ===== *)
theory Tables
  imports Values Probing
begin

text \<open>
  \<open>src/src/table.c\<close>: the hash table from interned strings to values that holds the globals, the
  fields of a map object and the set of interned strings. A \<open>str_t *\<close> key is an address; the code
  reads \<open>key->hash\<close> and \<open>key->length\<close> through it, here through an argument \<open>S :: strs\<close>. The
  \<open>for (;;)\<close> loops are \<open>option\<close>-valued: \<open>None\<close> is a loop that never returns. \<open>int\<close> counts and
  capacities are natural numbers; the load test against \<open>0.75\<close> is written with integers.
\<close>

subsection \<open>Entries and tables\<close>

record ent_t =
  ent_key :: "addr option"
  ent_value :: val_t

record tab_t =
  tab_count :: nat
  tab_capacity :: nat
  tab_entries :: "ent_t list"

definition tab_init :: tab_t where
  "tab_init = \<lparr>tab_count = 0, tab_capacity = 0, tab_entries = []\<rparr>"

definition tab_free :: "tab_t \<Rightarrow> tab_t" where
  "tab_free t = tab_init"

definition ent_vacant :: "ent_t \<Rightarrow> bool" where
  "ent_vacant e \<longleftrightarrow> ent_key e = None \<and> IS_NULL (ent_value e)"

definition ent :: "addr \<Rightarrow> val_t \<Rightarrow> ent_t" where
  "ent k v = \<lparr>ent_key = Some k, ent_value = v\<rparr>"

definition ent_empty :: ent_t where
  "ent_empty = \<lparr>ent_key = None, ent_value = VAL_NULL\<rparr>"

definition ent_tomb :: ent_t where
  "ent_tomb = \<lparr>ent_key = None, ent_value = VAL_BOOL True\<rparr>"

subsection \<open>Search\<close>

partial_function (option) findEntry_loop ::
  "ent_t list \<Rightarrow> nat \<Rightarrow> addr \<Rightarrow> nat \<Rightarrow> nat option \<Rightarrow> nat option" where
  "findEntry_loop entries capacity key index tombstone =
     (if ent_key (entries ! index) = None then
        (if IS_NULL (ent_value (entries ! index))
         then Some (case tombstone of None \<Rightarrow> index | Some j \<Rightarrow> j)
         else findEntry_loop entries capacity key ((index + 1) mod capacity)
                (case tombstone of None \<Rightarrow> Some index | Some j \<Rightarrow> Some j))
      else if ent_key (entries ! index) = Some key then Some index
      else findEntry_loop entries capacity key ((index + 1) mod capacity) tombstone)"

declare findEntry_loop.simps [code]

definition findEntry :: "strs \<Rightarrow> ent_t list \<Rightarrow> nat \<Rightarrow> addr \<Rightarrow> nat option" where
  "findEntry S entries capacity key =
     findEntry_loop entries capacity key (unat (str_hash (S key)) mod capacity) None"

definition tab_get :: "strs \<Rightarrow> tab_t \<Rightarrow> addr \<Rightarrow> val_t option option" where
  "tab_get S t key =
     (if tab_count t = 0 then Some None
      else do {
        i \<leftarrow> findEntry S (tab_entries t) (tab_capacity t) key;
        let e = tab_entries t ! i;
        if ent_key e = None then Some None else Some (Some (ent_value e))
      })"

subsection \<open>Growth\<close>

fun adjust_loop ::
  "strs \<Rightarrow> ent_t list \<Rightarrow> nat \<Rightarrow> ent_t list \<Rightarrow> nat \<Rightarrow> (ent_t list \<times> nat) option" where
  "adjust_loop S [] capacity entries count = Some (entries, count)"
| "adjust_loop S (e # old) capacity entries count =
     (case ent_key e of
        None \<Rightarrow> adjust_loop S old capacity entries count
      | Some k \<Rightarrow> do {
          dest \<leftarrow> findEntry S entries capacity k;
          adjust_loop S old capacity (entries[dest := ent k (ent_value e)]) (count + 1)
        })"

definition adjustCapacity :: "strs \<Rightarrow> tab_t \<Rightarrow> nat \<Rightarrow> tab_t option" where
  "adjustCapacity S t capacity = do {
     (entries, count) \<leftarrow>
       adjust_loop S (tab_entries t) capacity (replicate capacity ent_empty) 0;
     Some \<lparr>tab_count = count, tab_capacity = capacity, tab_entries = entries\<rparr>
   }"

subsection \<open>Insertion, removal, copying\<close>

definition tab_grown :: "strs \<Rightarrow> tab_t \<Rightarrow> tab_t option" where
  "tab_grown S t =
     (if 3 * tab_capacity t < 4 * (tab_count t + 1)
      then adjustCapacity S t (GROW_CAP (tab_capacity t)) else Some t)"

definition tab_set :: "strs \<Rightarrow> tab_t \<Rightarrow> addr \<Rightarrow> val_t \<Rightarrow> (tab_t \<times> bool) option" where
  "tab_set S t0 key value = do {
     t \<leftarrow> tab_grown S t0;
     i \<leftarrow> findEntry S (tab_entries t) (tab_capacity t) key;
     let e = tab_entries t ! i;
     let isNewKey = (ent_key e = None);
     let count = (if isNewKey \<and> IS_NULL (ent_value e) then tab_count t + 1 else tab_count t);
     Some (t\<lparr>tab_count := count, tab_entries := (tab_entries t)[i := ent key value]\<rparr>, isNewKey)
   }"

definition tab_remove :: "strs \<Rightarrow> tab_t \<Rightarrow> addr \<Rightarrow> (tab_t \<times> bool) option" where
  "tab_remove S t key =
     (if tab_count t = 0 then Some (t, False)
      else do {
        i \<leftarrow> findEntry S (tab_entries t) (tab_capacity t) key;
        if ent_key (tab_entries t ! i) = None then Some (t, False)
        else Some (t\<lparr>tab_entries := (tab_entries t)[i := ent_tomb]\<rparr>, True)
      })"

fun tab_add_loop :: "strs \<Rightarrow> ent_t list \<Rightarrow> tab_t \<Rightarrow> tab_t option" where
  "tab_add_loop S [] to = Some to"
| "tab_add_loop S (e # es) to =
     (case ent_key e of
        None \<Rightarrow> tab_add_loop S es to
      | Some k \<Rightarrow> do {
          (to', _) \<leftarrow> tab_set S to k (ent_value e);
          tab_add_loop S es to'
        })"

definition tab_add :: "strs \<Rightarrow> tab_t \<Rightarrow> tab_t \<Rightarrow> tab_t option" where
  "tab_add S from to = tab_add_loop S (tab_entries from) to"

subsection \<open>Search by content, for interning\<close>

partial_function (option) findstr_loop ::
  "strs \<Rightarrow> ent_t list \<Rightarrow> nat \<Rightarrow> nat \<Rightarrow> u32 \<Rightarrow> nat \<Rightarrow> addr option option" where
  "findstr_loop S entries capacity len hash index =
     (case ent_key (entries ! index) of
        None \<Rightarrow>
          if IS_NULL (ent_value (entries ! index)) then Some None
          else findstr_loop S entries capacity len hash ((index + 1) mod capacity)
      | Some k \<Rightarrow>
          if str_length (S k) = len \<and> str_hash (S k) = hash then Some (Some k)
          else findstr_loop S entries capacity len hash ((index + 1) mod capacity))"

declare findstr_loop.simps [code]

text \<open>The argument \<open>chars\<close> of the code is passed and never read.\<close>

definition tab_findstr :: "strs \<Rightarrow> tab_t \<Rightarrow> string \<Rightarrow> nat \<Rightarrow> u32 \<Rightarrow> addr option option" where
  "tab_findstr S t chars len hash =
     (if tab_count t = 0 then Some None
      else findstr_loop S (tab_entries t) (tab_capacity t) len hash
             (unat hash mod tab_capacity t))"

subsection \<open>The probing theory, instantiated\<close>

abbreviation str_home :: "strs \<Rightarrow> addr \<Rightarrow> nat" where
  "str_home S k \<equiv> unat (str_hash (S k))"

interpretation tp: probing ent_key ent_vacant findEntry_loop
proof unfold_locales
  show "ent_key e = None" if "ent_vacant e" for e
    using that by (simp add: ent_vacant_def)
  show "findEntry_loop es cap k i t =
         (if ent_key (es ! i) = None then
            (if ent_vacant (es ! i) then Some (case t of None \<Rightarrow> i | Some j \<Rightarrow> j)
             else findEntry_loop es cap k ((i + 1) mod cap)
                    (case t of None \<Rightarrow> Some i | Some j \<Rightarrow> Some j))
          else if ent_key (es ! i) = Some k then Some i
          else findEntry_loop es cap k ((i + 1) mod cap) t)" for es cap k i t
    by (subst findEntry_loop.simps) (simp add: ent_vacant_def)
qed

interpretation ta: probe_array ent_key ent_vacant findEntry_loop ent_value ent "\<lambda>_. True"
  by unfold_locales (simp_all add: ent_def)

interpretation tr: probe_rehash ent_key ent_vacant findEntry_loop ent_value ent "\<lambda>_. True"
    "str_home S" "adjust_loop S" for S
  by unfold_locales (simp_all add: findEntry_def split: option.split)

subsection \<open>Invariant and abstraction\<close>

text \<open>The map a table stands for.\<close>

definition tab_model :: "tab_t \<Rightarrow> addr \<Rightarrow> val_t option" where
  "tab_model t k = map_option ent_value (find (\<lambda>e. ent_key e = Some k) (tab_entries t))"

text \<open>
  \<open>count\<close> is the number of slots in use, tombstones included; at most three quarters of the slots
  are in use, so a search always meets a vacant one.
\<close>

definition tab_ok :: "strs \<Rightarrow> tab_t \<Rightarrow> bool" where
  "tab_ok S t \<longleftrightarrow>
     tab_capacity t = length (tab_entries t) \<and>
     tab_count t = length (filter (\<lambda>e. \<not> ent_vacant e) (tab_entries t)) \<and>
     4 * tab_count t \<le> 3 * tab_capacity t \<and>
     (tab_capacity t = 0 \<or> 8 \<le> tab_capacity t \<and> ta.wf_array (str_home S) (tab_entries t))"

lemma tab_model_contents: "tab_model t = ta.contents (tab_entries t)"
  by (rule ext) (simp add: tab_model_def ta.contents_def)

lemma tab_okD:
  assumes "tab_ok S t"
  shows "tab_capacity t = length (tab_entries t)"
    and "tab_count t = ta.used (tab_entries t)"
    and "4 * tab_count t \<le> 3 * tab_capacity t"
    and "tab_count t \<noteq> 0 \<Longrightarrow> ta.wf_array (str_home S) (tab_entries t)"
    and "tab_capacity t = 0 \<or> 8 \<le> tab_capacity t"
  using assms by (auto simp: tab_ok_def ta.used_def)

lemma tab_okI:
  assumes "tab_capacity t = length (tab_entries t)" and "tab_count t = ta.used (tab_entries t)"
    and "4 * tab_count t \<le> 3 * tab_capacity t" and "8 \<le> tab_capacity t"
    and "ta.wf_array (str_home S) (tab_entries t)"
  shows "tab_ok S t"
  using assms by (simp add: tab_ok_def ta.used_def)

lemma tab_init_ok [simp, wf_intros]: "tab_ok S tab_init"
  by (simp add: tab_ok_def tab_init_def)

lemma tab_init_model [simp]: "tab_model tab_init = Map.empty"
  by (rule ext) (simp add: tab_model_def tab_init_def)

text \<open>An empty table holds no key.\<close>

lemma tab_model_count_0:
  assumes "tab_ok S t" and "tab_count t = 0"
  shows "tab_model t = Map.empty"
proof -
  have "ta.live (tab_entries t) = 0"
    using tab_okD(2) [OF assms(1)] assms(2) ta.live_le_used [of "tab_entries t"] by simp
  then have "\<forall>e \<in> set (tab_entries t). ent_key e = None"
    by (simp add: ta.live_def filter_empty_conv)
  then show ?thesis by (auto simp: tab_model_def fun_eq_iff find_None_iff)
qed

lemma tab_distinct: "tab_ok S t \<Longrightarrow> tr.distinct_keys (tab_entries t)"
proof (cases "tab_entries t = []")
  case True
  then show ?thesis by (simp add: tr.distinct_keys_def ta.present_def)
next
  case False
  moreover assume "tab_ok S t"
  ultimately have "ta.wf_array (str_home S) (tab_entries t)"
    by (auto simp: tab_ok_def)
  then show ?thesis by (rule tr.wf_distinct_keys)
qed

subsection \<open>The operations against the map\<close>

lemma tab_get_spec [spec_simps]:
  assumes "tab_ok S t"
  shows "tab_get S t k = Some (tab_model t k)"
proof (cases "tab_count t = 0")
  case True
  with tab_model_count_0 [OF assms] show ?thesis by (simp add: tab_get_def)
next
  case False
  then have wf: "ta.wf_array (str_home S) (tab_entries t)" using assms tab_okD(4) by blast
  then obtain r where r: "findEntry_loop (tab_entries t) (length (tab_entries t)) k
      (str_home S k mod length (tab_entries t)) None = Some r"
    and tg: "ta.target (str_home S) (tab_entries t) k r" by (rule ta.loop_target_exists)
  have "ent_key (tab_entries t ! r) = None \<Longrightarrow> ta.contents (tab_entries t) k = None"
    using tg by (auto simp: ta.target_def ta.present_def ta.contents_None_iff)
  moreover have "ent_key (tab_entries t ! r) \<noteq> None \<Longrightarrow>
      ta.contents (tab_entries t) k = Some (ent_value (tab_entries t ! r))"
    using tg ta.contents_present [OF wf, of k r] by (auto simp: ta.target_def)
  ultimately show ?thesis
    using False r tab_okD(1) [OF assms]
    by (auto simp: tab_get_def findEntry_def tab_model_contents Let_def)
qed

text \<open>After the load test at least two slots are vacant.\<close>

lemma tab_grown_spec:
  assumes "tab_ok S t"
  obtains t' where "tab_grown S t = Some t'" and "tab_model t' = tab_model t"
    and "tab_capacity t' = length (tab_entries t')" and "8 \<le> tab_capacity t'"
    and "tab_count t' = ta.used (tab_entries t')"
    and "4 * (tab_count t' + 1) \<le> 3 * tab_capacity t'"
    and "ta.wf_array (str_home S) (tab_entries t')"
proof (cases "3 * tab_capacity t < 4 * (tab_count t + 1)")
  case False
  then have "tab_capacity t \<noteq> 0" by auto
  with assms have "8 \<le> tab_capacity t" "ta.wf_array (str_home S) (tab_entries t)"
    by (auto simp: tab_ok_def)
  moreover have "tab_grown S t = Some t" using False by (simp add: tab_grown_def)
  ultimately show ?thesis
    using False tab_okD(1,2) [OF assms] by (intro that) auto
next
  case True
  let ?n = "GROW_CAP (tab_capacity t)"
  have n: "8 \<le> ?n" "4 * (tab_count t + 1) \<le> 3 * ?n"
    using tab_okD(3,5) [OF assms] by (auto simp: GROW_CAP_def)
  have live: "ta.live (tab_entries t) \<le> tab_count t"
    using ta.live_le_used tab_okD(2) [OF assms] by simp
  then have "ta.live (tab_entries t) < ?n" using n by simp
  moreover have "ent_vacant ent_empty" by (simp add: ent_vacant_def ent_empty_def)
  ultimately obtain acc where
    a: "adjust_loop S (tab_entries t) ?n (replicate ?n ent_empty) 0
          = Some (acc, ta.live (tab_entries t))"
    and wf: "ta.wf_array (str_home S) acc" and l: "length acc = ?n"
    and c: "ta.contents acc = ta.contents (tab_entries t)"
    and u: "ta.used acc = ta.live (tab_entries t)"
    using tr.rehash_fresh [OF tab_distinct [OF assms]] by blast
  let ?t = "\<lparr>tab_count = ta.live (tab_entries t), tab_capacity = ?n, tab_entries = acc\<rparr>"
  have "tab_grown S t = Some ?t" using True a by (simp add: tab_grown_def adjustCapacity_def)
  moreover have "tab_model ?t = tab_model t" using c by (simp add: tab_model_contents)
  ultimately show ?thesis
    using that [of ?t] wf l u n live by simp
qed

lemma tab_set_spec:
  assumes "tab_ok S t"
  shows "\<exists>t'. tab_set S t k v = Some (t', tab_model t k = None) \<and> tab_ok S t' \<and>
           tab_model t' = (tab_model t)(k \<mapsto> v)"
proof -
  from assms obtain g where g: "tab_grown S t = Some g" and m: "tab_model g = tab_model t"
    and cap: "tab_capacity g = length (tab_entries g)" "8 \<le> tab_capacity g"
    and cnt: "tab_count g = ta.used (tab_entries g)"
    and load: "4 * (tab_count g + 1) \<le> 3 * tab_capacity g"
    and wf: "ta.wf_array (str_home S) (tab_entries g)" by (rule tab_grown_spec)
  let ?es = "tab_entries g"
  from wf obtain r where r: "findEntry_loop ?es (length ?es) k
      (str_home S k mod length ?es) None = Some r"
    and tg: "ta.target (str_home S) ?es k r" by (rule ta.loop_target_exists)
  let ?c = "if ent_key (?es ! r) = None \<and> IS_NULL (ent_value (?es ! r))
            then tab_count g + 1 else tab_count g"
  let ?t = "g\<lparr>tab_count := ?c, tab_entries := ?es[r := ent k v]\<rparr>"
  have room: "Suc (ta.used ?es) < length ?es" using load cap cnt by simp
  have new: "ent_key (?es ! r) = None \<longleftrightarrow> tab_model t k = None"
    unfolding m [symmetric] unfolding tab_model_contents using tg
    by (auto simp: ta.target_def ta.present_def ta.contents_None_iff)
  have "tab_set S t k v = Some (?t, tab_model t k = None)"
    using g r cap(1) new by (simp add: tab_set_def findEntry_def Let_def)
  moreover have "tab_ok S ?t"
  proof (rule tab_okI)
    have "r < length ?es" using tg by (simp add: ta.target_def)
    then show "tab_count ?t = ta.used (tab_entries ?t)"
      using ta.used_update [of r ?es "ent k v"] cnt by (auto simp: ent_vacant_def ent_def)
    show "ta.wf_array (str_home S) (tab_entries ?t)"
      using ta.write_wf [OF wf tg _ room] by simp
  qed (use cap load in auto)
  moreover have "tab_model ?t = (tab_model t)(k \<mapsto> v)"
    using ta.write_contents [OF wf tg _ room, of v] m by (simp add: tab_model_contents)
  ultimately show ?thesis by blast
qed

lemma tab_remove_spec:
  assumes "tab_ok S t"
  shows "\<exists>t'. tab_remove S t k = Some (t', tab_model t k \<noteq> None) \<and> tab_ok S t' \<and>
           tab_model t' = (tab_model t)(k := None)"
proof (cases "tab_count t = 0")
  case True
  with tab_model_count_0 [OF assms] assms show ?thesis by (simp add: tab_remove_def)
next
  case False
  let ?es = "tab_entries t"
  from False have wf: "ta.wf_array (str_home S) ?es" using assms tab_okD(4) by blast
  then obtain r where r: "findEntry_loop ?es (length ?es) k
      (str_home S k mod length ?es) None = Some r"
    and tg: "ta.target (str_home S) ?es k r" by (rule ta.loop_target_exists)
  show ?thesis
  proof (cases "ent_key (?es ! r) = None")
    case True
    then have "tab_model t k = None"
      using tg by (auto simp: ta.target_def ta.present_def ta.contents_None_iff tab_model_contents)
    moreover have "tab_remove S t k = Some (t, False)"
      using False True r tab_okD(1) [OF assms] by (simp add: tab_remove_def findEntry_def)
    ultimately show ?thesis using assms by auto
  next
    case key: False
    with tg have p: "ta.present ?es k r" by (auto simp: ta.target_def)
    let ?t = "t\<lparr>tab_entries := ?es[r := ent_tomb]\<rparr>"
    have tomb: "ent_key ent_tomb = None" "\<not> ent_vacant ent_tomb"
      by (simp_all add: ent_tomb_def ent_vacant_def)
    note b = ta.bury [OF wf p tomb]
    have "tab_remove S t k = Some (?t, True)"
      using False key r tab_okD(1) [OF assms] by (simp add: tab_remove_def findEntry_def)
    moreover have "tab_model t k \<noteq> None"
      using ta.contents_present [OF wf p] by (simp add: tab_model_contents)
    moreover have "tab_model ?t = (tab_model t)(k := None)"
      using b by (simp add: tab_model_contents)
    moreover have "tab_ok S ?t"
    proof (rule tab_okI)
      have rl: "r < length ?es" using p by (simp add: ta.present_def)
      have "\<not> ent_vacant (?es ! r)" using key by (simp add: ent_vacant_def)
      with ta.used_update [OF rl tomb(2)] tab_okD(2) [OF assms]
      show "tab_count ?t = ta.used (tab_entries ?t)" by simp
      show "8 \<le> tab_capacity ?t"
        using tab_okD(3,5) [OF assms] False by auto
    qed (use b tab_okD(1,3) [OF assms] in auto)
    ultimately show ?thesis by auto
  qed
qed

text \<open>The table provides the contract of an associative store.\<close>

interpretation tab_store: assoc_store "tab_ok S" tab_model "tab_get S" "tab_set S" "\<lambda>_. True" for S
  using tab_get_spec tab_set_spec by unfold_locales blast+

subsection \<open>Copying one table into another\<close>

definition ent_pairs :: "ent_t list \<Rightarrow> (addr \<times> val_t) list" where
  "ent_pairs es = map (\<lambda>e. (the (ent_key e), ent_value e)) (filter (\<lambda>e. ent_key e \<noteq> None) es)"

lemma tab_add_loop_set_all: "tab_add_loop S es to = tab_store.set_all S to (ent_pairs es)"
proof (induction es arbitrary: to)
  case Nil
  then show ?case by (simp add: ent_pairs_def)
next
  case (Cons e es)
  then show ?case by (cases "ent_key e") (simp_all add: ent_pairs_def)
qed

lemma map_of_ent_pairs: "map_of (ent_pairs es) = ta.contents es"
proof (induction es)
  case Nil
  then show ?case by (simp add: ent_pairs_def ta.contents_def fun_eq_iff)
next
  case (Cons e es)
  then show ?case
    by (cases "ent_key e")
      (simp_all add: ent_pairs_def tr.contents_Cons_None tr.contents_Cons_Some)
qed

lemma ent_pairs_key: "k \<in> fst ` set (ent_pairs es) \<longleftrightarrow> ta.contents es k \<noteq> None"
  by (metis map_of_ent_pairs map_of_eq_None_iff)

lemma distinct_ent_pairs: "tr.distinct_keys es \<Longrightarrow> distinct (map fst (ent_pairs es))"
proof (induction es)
  case Nil
  then show ?case by (simp add: ent_pairs_def)
next
  case (Cons e es)
  note dk = tr.distinct_keys_Cons [OF Cons.prems]
  show ?case
  proof (cases "ent_key e")
    case None
    with Cons.IH [OF dk(1)] show ?thesis by (simp add: ent_pairs_def)
  next
    case (Some k)
    then have "ent_pairs (e # es) = (k, ent_value e) # ent_pairs es" by (simp add: ent_pairs_def)
    with Cons.IH [OF dk(1)] ent_pairs_key [of k es] dk(2) [OF Some] show ?thesis by simp
  qed
qed

lemma tab_add_spec:
  assumes "tab_ok S to" and "tab_ok S' from"
  shows "\<exists>to'. tab_add S from to = Some to' \<and> tab_ok S to' \<and>
           tab_model to' = tab_model to ++ tab_model from"
proof -
  let ?ps = "ent_pairs (tab_entries from)"
  have d: "distinct (map fst ?ps)" using tab_distinct [OF assms(2)] by (rule distinct_ent_pairs)
  then have "map_of (rev ?ps) = map_of ?ps"
    by (simp add: map_of_inject_set rev_map [symmetric])
  moreover obtain to' where "tab_store.set_all S to ?ps = Some to'" "tab_ok S to'"
    "tab_model to' = tab_model to ++ map_of (rev ?ps)"
    using tab_store.set_all_model [OF assms(1), of ?ps] by auto
  ultimately show ?thesis
    by (simp add: tab_add_def tab_add_loop_set_all map_of_ent_pairs tab_model_contents)
qed

subsection \<open>Search by length and hash\<close>

definition str_match :: "strs \<Rightarrow> nat \<Rightarrow> u32 \<Rightarrow> addr \<Rightarrow> bool" where
  "str_match S len hash k \<longleftrightarrow> str_length (S k) = len \<and> str_hash (S k) = hash"

definition findstr_skips :: "strs \<Rightarrow> ent_t list \<Rightarrow> nat \<Rightarrow> u32 \<Rightarrow> nat \<Rightarrow> bool" where
  "findstr_skips S es len hash i \<longleftrightarrow>
     (case ent_key (es ! i) of
        None \<Rightarrow> \<not> IS_NULL (ent_value (es ! i))
      | Some k \<Rightarrow> \<not> str_match S len hash k)"

lemma findstr_loop_returns:
  assumes "\<forall>d' < d. findstr_skips S es len hash ((i + d') mod n)"
    and "\<not> findstr_skips S es len hash ((i + d) mod n)" and "i < n"
  shows "findstr_loop S es n len hash i = Some (ent_key (es ! ((i + d) mod n)))"
  using assms
proof (induction d arbitrary: i)
  case 0
  then show ?case
    by (subst findstr_loop.simps)
      (auto simp: findstr_skips_def str_match_def split: option.splits)
next
  case (Suc d)
  let ?i = "(i + 1) mod n"
  have shift: "(?i + e) mod n = (i + Suc e) mod n" for e by (simp add: mod_add_left_eq)
  have "findstr_skips S es len hash i" using Suc.prems(1,3) by (auto dest: spec [of _ 0])
  then have "findstr_loop S es n len hash i = findstr_loop S es n len hash ?i"
    by (subst findstr_loop.simps)
      (auto simp: findstr_skips_def str_match_def split: option.splits)
  moreover have "findstr_loop S es n len hash ?i = Some (ent_key (es ! ((?i + d) mod n)))"
  proof (rule Suc.IH)
    show "\<forall>d' < d. findstr_skips S es len hash ((?i + d') mod n)"
      using Suc.prems(1) by (simp only: shift) auto
    show "\<not> findstr_skips S es len hash ((?i + d) mod n)"
      using Suc.prems(2) by (simp only: shift not_False_eq_True)
    show "?i < n" using Suc.prems(3) by simp
  qed
  ultimately show ?case by (simp only: shift)
qed

lemma tab_findstr_spec:
  assumes "tab_ok S t"
  shows "\<exists>r. tab_findstr S t chars len hash = Some r \<and>
           (case r of
              None \<Rightarrow> \<forall>k. tab_model t k \<noteq> None \<longrightarrow> \<not> str_match S len hash k
            | Some k \<Rightarrow> tab_model t k \<noteq> None \<and> str_match S len hash k)"
proof (cases "tab_count t = 0")
  case True
  with tab_model_count_0 [OF assms] show ?thesis by (simp add: tab_findstr_def)
next
  case False
  let ?es = "tab_entries t"
  let ?n = "length ?es"
  let ?h = "unat hash mod ?n"
  let ?at = "\<lambda>d. (?h + d) mod ?n"
  from False have wf: "ta.wf_array (str_home S) ?es" using assms tab_okD(4) by blast
  then have n: "0 < ?n" by (rule ta.wf_array_nonempty)
  obtain j where "j < ?n" "ent_vacant (?es ! j)" using wf by (auto simp: ta.wf_array_def)
  moreover obtain d0 where "?at d0 = j"
    using cyclic_reach [of ?h ?n j] n \<open>j < ?n\<close> by (metis mod_less_divisor)
  ultimately have "\<not> findstr_skips S ?es len hash (?at d0)"
    by (simp add: ent_vacant_def findstr_skips_def)
  then obtain d where stop: "\<not> findstr_skips S ?es len hash (?at d)"
    and before: "\<forall>d' < d. findstr_skips S ?es len hash (?at d')"
    using exists_least_iff [of "\<lambda>d. \<not> findstr_skips S ?es len hash (?at d)"] by auto
  have ret: "tab_findstr S t chars len hash = Some (ent_key (?es ! ?at d))"
    using findstr_loop_returns [OF before stop] n False tab_okD(1) [OF assms]
    by (simp add: tab_findstr_def)
  show ?thesis
  proof (cases "ent_key (?es ! ?at d)")
    case (Some k)
    then have "ta.present ?es k (?at d)" using n by (simp add: ta.present_def)
    from ta.contents_present [OF wf this] ret stop Some show ?thesis
      by (simp add: findstr_skips_def tab_model_contents)
  next
    case None
    have "\<not> str_match S len hash k" if "tab_model t k \<noteq> None" for k
    proof
      assume m: "str_match S len hash k"
      from that obtain i where i: "ta.present ?es k i"
        by (auto simp: tab_model_contents ta.contents_None_iff)
      with wf m obtain e where e: "i = ?at e" "\<forall>d' < e. \<not> ent_vacant (?es ! ?at d')"
        by (auto simp: ta.wf_array_def ta.reachable_key_def str_match_def)
      have "ent_vacant (?es ! ?at d)" using None stop by (simp add: findstr_skips_def ent_vacant_def)
      with e have "\<not> d < e" by blast
      moreover have "e \<noteq> d" using i e(1) None by (auto simp: ta.present_def)
      ultimately have "findstr_skips S ?es len hash i" using before e(1) by simp
      with i m show False by (simp add: findstr_skips_def ta.present_def)
    qed
    with None ret show ?thesis by simp
  qed
qed

subsection \<open>A full array\<close>

text \<open>
  Why the load factor matters: on an array without a vacant slot that does not hold the key, the
  loop of \<open>findEntry\<close> never returns.
\<close>

lemma findEntry_loop_full:
  assumes "\<forall>e \<in> set es. \<not> ent_vacant e \<and> ent_key e \<noteq> Some k" and "i < length es"
  shows "findEntry_loop es (length es) k i t = None"
proof -
  let ?full = "\<lambda>es n k i. n = length es \<and> i < n \<and>
      (\<forall>e \<in> set es. \<not> ent_vacant e \<and> ent_key e \<noteq> Some k)"
  have never: False if ret: "findEntry_loop es n k i t = Some r" and full: "?full es n k i" for es n k i t r
  proof -
    have "\<not> ?full es n k i"
    proof (rule findEntry_loop.raw_induct [where P = "\<lambda>es n k i t r. \<not> ?full es n k i", OF _ ret])
      fix f :: "ent_t list \<Rightarrow> nat \<Rightarrow> addr \<Rightarrow> nat \<Rightarrow> nat option \<Rightarrow> nat option"
        and es n k i t r
      assume IH: "\<And>es n k i t r. f es n k i t = Some r \<Longrightarrow> \<not> ?full es n k i"
        and eq: "(if ent_key (es ! i) = None then
            (if IS_NULL (ent_value (es ! i)) then Some (case t of None \<Rightarrow> i | Some j \<Rightarrow> j)
             else f es n k ((i + 1) mod n) (case t of None \<Rightarrow> Some i | Some j \<Rightarrow> Some j))
          else if ent_key (es ! i) = Some k then Some i
          else f es n k ((i + 1) mod n) t) = Some r"
      show "\<not> ?full es n k i"
      proof
        assume full: "?full es n k i"
        then have "\<not> ent_vacant (es ! i)" "ent_key (es ! i) \<noteq> Some k" by auto
        with eq obtain t' where "f es n k ((i + 1) mod n) t' = Some r"
          by (auto simp: ent_vacant_def split: if_splits)
        then have "\<not> ?full es n k ((i + 1) mod n)" by (rule IH)
        moreover have "(i + 1) mod n < n" using full by (intro mod_less_divisor) auto
        ultimately show False using full by blast
      qed
    qed
    with full show False by blast
  qed
  show ?thesis
  proof (cases "findEntry_loop es (length es) k i t")
    case (Some r)
    then have False by (rule never) (use assms in simp)
    then show ?thesis ..
  qed
qed

subsection \<open>Dependence on the string heap\<close>

text \<open>A table only reads the hash of the keys it holds.\<close>

lemma tab_ok_cong:
  assumes "\<And>k. tab_model t k \<noteq> None \<Longrightarrow> str_hash (S' k) = str_hash (S k)"
  shows "tab_ok S' t \<longleftrightarrow> tab_ok S t"
proof -
  have "ta.reachable_key (str_home S') (tab_entries t) k i
      \<longleftrightarrow> ta.reachable_key (str_home S) (tab_entries t) k i"
    if "ta.present (tab_entries t) k i" for k i
  proof -
    have "tab_model t k \<noteq> None" using that by (auto simp: tab_model_contents ta.contents_None_iff)
    from assms [OF this] show ?thesis by (simp add: ta.reachable_key_def)
  qed
  then show ?thesis by (auto simp: tab_ok_def ta.wf_array_def)
qed

end
