(* ===== verification/Hashes.thy ===== *)
theory Hashes
  imports Values Probing
begin

text \<open>
  \<open>src/src/hash.c\<close>: the hash table from 64-bit keys to values that holds the indexed part of a
  map object; the key is the bit pattern of a number. The key \<open>UINT64_MAX\<close> marks an unused slot,
  so it cannot be stored. As in \<open>Tables\<close>, \<open>None\<close> is a loop that never returns.
\<close>

subsection \<open>Slots and tables\<close>

record index_t =
  index_key :: u64
  index_value :: val_t

record hash_t =
  hash_count :: nat
  hash_capacity :: nat
  hash_indexes :: "index_t list"

definition UNUSED_INDEX :: u64 where
  "UNUSED_INDEX = 0xFFFFFFFFFFFFFFFF"

definition hash_init :: hash_t where
  "hash_init = \<lparr>hash_count = 0, hash_capacity = 0, hash_indexes = []\<rparr>"

definition hash_free :: "hash_t \<Rightarrow> hash_t" where
  "hash_free h = hash_init"

definition index :: "u64 \<Rightarrow> val_t \<Rightarrow> index_t" where
  "index k v = \<lparr>index_key = k, index_value = v\<rparr>"

definition index_vacant :: "index_t \<Rightarrow> bool" where
  "index_vacant e \<longleftrightarrow> index_key e = UNUSED_INDEX \<and> IS_NULL (index_value e)"

definition index_id :: "index_t \<Rightarrow> u64 option" where
  "index_id e = (if index_key e = UNUSED_INDEX then None else Some (index_key e))"

subsection \<open>Operations\<close>

partial_function (option) hash_find_loop ::
  "index_t list \<Rightarrow> nat \<Rightarrow> u64 \<Rightarrow> nat \<Rightarrow> nat option \<Rightarrow> nat option" where
  "hash_find_loop indexes capacity key i tombstone =
     (if index_key (indexes ! i) = UNUSED_INDEX then
        (if IS_NULL (index_value (indexes ! i))
         then Some (case tombstone of None \<Rightarrow> i | Some j \<Rightarrow> j)
         else hash_find_loop indexes capacity key ((i + 1) mod capacity)
                (case tombstone of None \<Rightarrow> Some i | Some j \<Rightarrow> Some j))
      else if index_key (indexes ! i) = key then Some i
      else hash_find_loop indexes capacity key ((i + 1) mod capacity) tombstone)"

declare hash_find_loop.simps [code]

definition hash_find :: "index_t list \<Rightarrow> nat \<Rightarrow> u64 \<Rightarrow> nat option" where
  "hash_find indexes capacity key =
     hash_find_loop indexes capacity key (unat key mod capacity) None"

fun resize_loop ::
  "index_t list \<Rightarrow> nat \<Rightarrow> index_t list \<Rightarrow> nat \<Rightarrow> (index_t list \<times> nat) option" where
  "resize_loop [] capacity indexes count = Some (indexes, count)"
| "resize_loop (e # old) capacity indexes count =
     (if index_key e = UNUSED_INDEX then resize_loop old capacity indexes count
      else do {
        dest \<leftarrow> hash_find indexes capacity (index_key e);
        resize_loop old capacity (indexes[dest := index (index_key e) (index_value e)]) (count + 1)
      })"

definition hash_resize :: "hash_t \<Rightarrow> nat \<Rightarrow> hash_t option" where
  "hash_resize h capacity = do {
     (indexes, count) \<leftarrow>
       resize_loop (hash_indexes h) capacity (replicate capacity (index UNUSED_INDEX VAL_NULL)) 0;
     Some \<lparr>hash_count = count, hash_capacity = capacity, hash_indexes = indexes\<rparr>
   }"

definition hash_get :: "hash_t \<Rightarrow> u64 \<Rightarrow> val_t option option" where
  "hash_get h key =
     (if hash_count h = 0 then Some None
      else do {
        i \<leftarrow> hash_find (hash_indexes h) (hash_capacity h) key;
        let e = hash_indexes h ! i;
        if index_key e = UNUSED_INDEX then Some None else Some (Some (index_value e))
      })"

definition hash_grown :: "hash_t \<Rightarrow> hash_t option" where
  "hash_grown h =
     (if 3 * hash_capacity h < 4 * (hash_count h + 1)
      then hash_resize h (GROW_CAP (hash_capacity h)) else Some h)"

definition hash_set :: "hash_t \<Rightarrow> u64 \<Rightarrow> val_t \<Rightarrow> (hash_t \<times> bool) option" where
  "hash_set h0 key value = do {
     h \<leftarrow> hash_grown h0;
     i \<leftarrow> hash_find (hash_indexes h) (hash_capacity h) key;
     let e = hash_indexes h ! i;
     let isNewKey = (index_key e = UNUSED_INDEX);
     let count = (if isNewKey \<and> IS_NULL (index_value e) then hash_count h + 1 else hash_count h);
     Some (h\<lparr>hash_count := count, hash_indexes := (hash_indexes h)[i := index key value]\<rparr>, isNewKey)
   }"

subsection \<open>The probing theory, instantiated\<close>

interpretation hp: probing index_id index_vacant hash_find_loop
proof unfold_locales
  show "index_id e = None" if "index_vacant e" for e
    using that by (simp add: index_vacant_def index_id_def)
  show "hash_find_loop es cap k i t =
         (if index_id (es ! i) = None then
            (if index_vacant (es ! i) then Some (case t of None \<Rightarrow> i | Some j \<Rightarrow> j)
             else hash_find_loop es cap k ((i + 1) mod cap)
                    (case t of None \<Rightarrow> Some i | Some j \<Rightarrow> Some j))
          else if index_id (es ! i) = Some k then Some i
          else hash_find_loop es cap k ((i + 1) mod cap) t)" for es cap k i t
    by (subst hash_find_loop.simps) (simp add: index_vacant_def index_id_def)
qed

interpretation ha: probe_array index_id index_vacant hash_find_loop index_value index
    "\<lambda>k. k \<noteq> UNUSED_INDEX"
  by unfold_locales (simp_all add: index_def index_id_def)

interpretation hr: probe_rehash index_id index_vacant hash_find_loop index_value index
    "\<lambda>k. k \<noteq> UNUSED_INDEX" unat resize_loop
  by unfold_locales (auto simp: index_id_def hash_find_def split: if_splits)

subsection \<open>Invariant and abstraction\<close>

definition hash_model :: "hash_t \<Rightarrow> u64 \<Rightarrow> val_t option" where
  "hash_model h k = map_option index_value (find (\<lambda>e. index_id e = Some k) (hash_indexes h))"

text \<open>
  Here \<open>count\<close> bounds the slots in use: storing a null under the reserved key counts a slot that
  stays vacant.
\<close>

definition hash_ok :: "hash_t \<Rightarrow> bool" where
  "hash_ok h \<longleftrightarrow>
     hash_capacity h = length (hash_indexes h) \<and>
     length (filter (\<lambda>e. \<not> index_vacant e) (hash_indexes h)) \<le> hash_count h \<and>
     4 * hash_count h \<le> 3 * hash_capacity h \<and>
     (hash_capacity h = 0 \<or> 8 \<le> hash_capacity h \<and> ha.wf_array unat (hash_indexes h))"

lemma hash_model_contents: "hash_model h = ha.contents (hash_indexes h)"
  by (rule ext) (simp add: hash_model_def ha.contents_def)

lemma hash_okD:
  assumes "hash_ok h"
  shows "hash_capacity h = length (hash_indexes h)"
    and "ha.used (hash_indexes h) \<le> hash_count h"
    and "4 * hash_count h \<le> 3 * hash_capacity h"
    and "hash_count h \<noteq> 0 \<Longrightarrow> ha.wf_array unat (hash_indexes h)"
    and "hash_capacity h = 0 \<or> 8 \<le> hash_capacity h"
  using assms by (auto simp: hash_ok_def ha.used_def)

lemma hash_okI:
  assumes "hash_capacity h = length (hash_indexes h)"
    and "ha.used (hash_indexes h) \<le> hash_count h"
    and "4 * hash_count h \<le> 3 * hash_capacity h" and "8 \<le> hash_capacity h"
    and "ha.wf_array unat (hash_indexes h)"
  shows "hash_ok h"
  using assms by (simp add: hash_ok_def ha.used_def)

lemma hash_init_ok [simp, wf_intros]: "hash_ok hash_init"
  by (simp add: hash_ok_def hash_init_def)

lemma hash_init_model [simp]: "hash_model hash_init = Map.empty"
  by (rule ext) (simp add: hash_model_def hash_init_def)

lemma hash_model_count_0:
  assumes "hash_ok h" and "hash_count h = 0"
  shows "hash_model h = Map.empty"
proof -
  have "ha.live (hash_indexes h) = 0"
    using hash_okD(2) [OF assms(1)] assms(2) ha.live_le_used [of "hash_indexes h"] by simp
  then have "\<forall>e \<in> set (hash_indexes h). index_id e = None"
    by (simp add: ha.live_def filter_empty_conv)
  then show ?thesis by (auto simp: hash_model_def fun_eq_iff find_None_iff)
qed

lemma hash_distinct: "hash_ok h \<Longrightarrow> hr.distinct_keys (hash_indexes h)"
proof (cases "hash_indexes h = []")
  case True
  then show ?thesis by (simp add: hr.distinct_keys_def ha.present_def)
next
  case False
  moreover assume "hash_ok h"
  ultimately have "ha.wf_array unat (hash_indexes h)" by (auto simp: hash_ok_def)
  then show ?thesis by (rule hr.wf_distinct_keys)
qed

subsection \<open>The operations against the map\<close>

lemma unused_iff: "index_key e = UNUSED_INDEX \<longleftrightarrow> index_id e = None"
  by (simp add: index_id_def)

lemma hash_get_spec [spec_simps]:
  assumes "hash_ok h"
  shows "hash_get h k = Some (hash_model h k)"
proof (cases "hash_count h = 0")
  case True
  with hash_model_count_0 [OF assms] show ?thesis by (simp add: hash_get_def)
next
  case False
  then have wf: "ha.wf_array unat (hash_indexes h)" using assms hash_okD(4) by blast
  then obtain r where r: "hash_find_loop (hash_indexes h) (length (hash_indexes h)) k
      (unat k mod length (hash_indexes h)) None = Some r"
    and tg: "ha.target unat (hash_indexes h) k r" by (rule ha.loop_target_exists)
  have "index_id (hash_indexes h ! r) = None \<Longrightarrow> ha.contents (hash_indexes h) k = None"
    using tg by (auto simp: ha.target_def ha.present_def ha.contents_None_iff)
  moreover have "index_id (hash_indexes h ! r) \<noteq> None \<Longrightarrow>
      ha.contents (hash_indexes h) k = Some (index_value (hash_indexes h ! r))"
    using tg ha.contents_present [OF wf, of k r] by (auto simp: ha.target_def)
  ultimately show ?thesis
    using False r hash_okD(1) [OF assms]
    by (auto simp: hash_get_def hash_find_def hash_model_contents Let_def unused_iff)
qed

lemma hash_grown_spec:
  assumes "hash_ok h"
  obtains h' where "hash_grown h = Some h'" and "hash_model h' = hash_model h"
    and "hash_capacity h' = length (hash_indexes h')" and "8 \<le> hash_capacity h'"
    and "ha.used (hash_indexes h') \<le> hash_count h'"
    and "4 * (hash_count h' + 1) \<le> 3 * hash_capacity h'"
    and "ha.wf_array unat (hash_indexes h')"
proof (cases "3 * hash_capacity h < 4 * (hash_count h + 1)")
  case False
  then have "hash_capacity h \<noteq> 0" by auto
  with assms have "8 \<le> hash_capacity h" "ha.wf_array unat (hash_indexes h)"
    by (auto simp: hash_ok_def)
  moreover have "hash_grown h = Some h" using False by (simp add: hash_grown_def)
  ultimately show ?thesis
    using False hash_okD(1,2) [OF assms] by (intro that) auto
next
  case True
  let ?n = "GROW_CAP (hash_capacity h)"
  have n: "8 \<le> ?n" "4 * (hash_count h + 1) \<le> 3 * ?n"
    using hash_okD(3,5) [OF assms] by (auto simp: GROW_CAP_def)
  have live: "ha.live (hash_indexes h) \<le> hash_count h"
    using ha.live_le_used [of "hash_indexes h"] hash_okD(2) [OF assms] by simp
  then have "ha.live (hash_indexes h) < ?n" using n by simp
  moreover have "index_vacant (index UNUSED_INDEX VAL_NULL)"
    by (simp add: index_vacant_def index_def)
  ultimately obtain acc where
    a: "resize_loop (hash_indexes h) ?n (replicate ?n (index UNUSED_INDEX VAL_NULL)) 0
          = Some (acc, ha.live (hash_indexes h))"
    and wf: "ha.wf_array unat acc" and l: "length acc = ?n"
    and c: "ha.contents acc = ha.contents (hash_indexes h)"
    and u: "ha.used acc = ha.live (hash_indexes h)"
    using hr.rehash_fresh [OF hash_distinct [OF assms]] by blast
  let ?h = "\<lparr>hash_count = ha.live (hash_indexes h), hash_capacity = ?n, hash_indexes = acc\<rparr>"
  have "hash_grown h = Some ?h" using True a by (simp add: hash_grown_def hash_resize_def)
  moreover have "hash_model ?h = hash_model h" using c by (simp add: hash_model_contents)
  ultimately show ?thesis
    using that [of ?h] wf l u n live by simp
qed

lemma hash_set_spec:
  assumes "hash_ok h" and k: "k \<noteq> UNUSED_INDEX"
  shows "\<exists>h'. hash_set h k v = Some (h', hash_model h k = None) \<and> hash_ok h' \<and>
           hash_model h' = (hash_model h)(k \<mapsto> v)"
proof -
  from assms(1) obtain g where g: "hash_grown h = Some g" and m: "hash_model g = hash_model h"
    and cap: "hash_capacity g = length (hash_indexes g)" "8 \<le> hash_capacity g"
    and cnt: "ha.used (hash_indexes g) \<le> hash_count g"
    and load: "4 * (hash_count g + 1) \<le> 3 * hash_capacity g"
    and wf: "ha.wf_array unat (hash_indexes g)" by (rule hash_grown_spec)
  let ?es = "hash_indexes g"
  from wf obtain r where r: "hash_find_loop ?es (length ?es) k
      (unat k mod length ?es) None = Some r"
    and tg: "ha.target unat ?es k r" by (rule ha.loop_target_exists)
  let ?c = "if index_id (?es ! r) = None \<and> IS_NULL (index_value (?es ! r))
            then hash_count g + 1 else hash_count g"
  let ?h = "g\<lparr>hash_count := ?c, hash_indexes := ?es[r := index k v]\<rparr>"
  have room: "Suc (ha.used ?es) < length ?es" using load cap cnt by simp
  have new: "index_id (?es ! r) = None \<longleftrightarrow> hash_model h k = None"
    unfolding m [symmetric] unfolding hash_model_contents using tg
    by (auto simp: ha.target_def ha.present_def ha.contents_None_iff)
  have "hash_set h k v = Some (?h, hash_model h k = None)"
    using g r cap(1) new by (simp add: hash_set_def hash_find_def Let_def unused_iff)
  moreover have "hash_ok ?h"
  proof (rule hash_okI)
    have "r < length ?es" using tg by (simp add: ha.target_def)
    then show "ha.used (hash_indexes ?h) \<le> hash_count ?h"
      using ha.used_update [of r ?es "index k v"] cnt ha.entry_not_vac [OF k, of v]
      by (auto simp: index_vacant_def unused_iff split: if_splits)
    show "ha.wf_array unat (hash_indexes ?h)"
      using ha.write_wf [OF wf tg k room] by simp
  qed (use cap load in auto)
  moreover have "hash_model ?h = (hash_model h)(k \<mapsto> v)"
    using ha.write_contents [OF wf tg k room, of v] m by (simp add: hash_model_contents)
  ultimately show ?thesis by blast
qed

interpretation hash_store: assoc_store hash_ok hash_model hash_get hash_set
    "\<lambda>k. k \<noteq> UNUSED_INDEX"
  using hash_get_spec hash_set_spec by unfold_locales blast+

text \<open>The reserved key is never found, whatever was stored under it.\<close>

lemma hash_model_unused: "hash_model h UNUSED_INDEX = None"
  by (auto simp: hash_model_def find_None_iff index_id_def)

subsection \<open>The operations return\<close>

text \<open>
  Storing the reserved key breaks \<open>hash_ok\<close>: it can empty a tombstone in the middle of a run of
  slots. The bound of the used slots by \<open>count\<close>, on which the end of every search depends, is kept
  for all keys.
\<close>

definition hash_alive :: "hash_t \<Rightarrow> bool" where
  "hash_alive h \<longleftrightarrow>
     hash_capacity h = length (hash_indexes h) \<and>
     length (filter (\<lambda>e. \<not> index_vacant e) (hash_indexes h)) \<le> hash_count h \<and>
     4 * hash_count h \<le> 3 * hash_capacity h \<and> (hash_capacity h = 0 \<or> 8 \<le> hash_capacity h)"

lemma hash_ok_alive: "hash_ok h \<Longrightarrow> hash_alive h"
  by (auto simp: hash_ok_def hash_alive_def)

lemma hash_init_alive [simp, wf_intros]: "hash_alive hash_init"
  by (simp add: hash_alive_def hash_init_def)

lemma hash_find_total:
  assumes "ha.used es < length es"
  shows "\<exists>r < length es. hash_find es (length es) k = Some r"
proof -
  obtain j where j: "j < length es" "index_vacant (es ! j)" using ha.used_room [OF assms] by blast
  then have "unat k mod length es < length es" by (intro mod_less_divisor) auto
  from hp.loop_total [OF this j, of k None] show ?thesis by (auto simp: hash_find_def)
qed

lemma used_write:
  assumes "r < length es"
  shows "ha.used (es[r := e]) \<le> (if index_vacant (es ! r) then Suc (ha.used es) else ha.used es)"
  using length_filter_update [OF assms, of "\<lambda>e. \<not> index_vacant e" e]
  by (auto simp: ha.used_def split: if_splits)

lemma resize_loop_total:
  assumes "ha.used acc + length (filter (\<lambda>e. index_id e \<noteq> None) old) < length acc"
  shows "\<exists>acc' c'. resize_loop old (length acc) acc c = Some (acc', c') \<and> length acc' = length acc \<and>
           c' = c + length (filter (\<lambda>e. index_id e \<noteq> None) old) \<and>
           ha.used acc' \<le> ha.used acc + length (filter (\<lambda>e. index_id e \<noteq> None) old)"
  using assms
proof (induction old arbitrary: acc c)
  case (Cons e old)
  show ?case
  proof (cases "index_key e = UNUSED_INDEX")
    case True
    with Cons show ?thesis by (simp add: unused_iff)
  next
    case False
    then have some: "index_id e \<noteq> None" by (simp add: unused_iff)
    obtain r where r: "r < length acc" "hash_find acc (length acc) (index_key e) = Some r"
      using hash_find_total [of acc "index_key e"] Cons.prems by auto
    let ?acc = "acc[r := index (index_key e) (index_value e)]"
    have u: "ha.used ?acc \<le> Suc (ha.used acc)"
      using used_write [OF r(1), of "index (index_key e) (index_value e)"] by (simp split: if_splits)
    with Cons.prems some
    have "ha.used ?acc + length (filter (\<lambda>e. index_id e \<noteq> None) old) < length ?acc" by simp
    from Cons.IH [OF this, of "c + 1"] False r u some show ?thesis by fastforce
  qed
qed simp

lemma hash_get_alive:
  assumes "hash_alive h"
  shows "\<exists>r. hash_get h k = Some r"
proof (cases "hash_count h = 0")
  case False
  then have "ha.used (hash_indexes h) < length (hash_indexes h)"
    using assms by (auto simp: hash_alive_def ha.used_def)
  from hash_find_total [OF this, of k] assms show ?thesis
    by (auto simp: hash_get_def hash_alive_def Let_def)
qed (simp add: hash_get_def)

lemma hash_set_alive:
  assumes "hash_alive h"
  shows "\<exists>h' b. hash_set h k v = Some (h', b) \<and> hash_alive h'"
proof -
  obtain g where g: "hash_grown h = Some g" "hash_capacity g = length (hash_indexes g)"
    "ha.used (hash_indexes g) \<le> hash_count g" "4 * (hash_count g + 1) \<le> 3 * hash_capacity g"
    "8 \<le> hash_capacity g"
  proof (cases "3 * hash_capacity h < 4 * (hash_count h + 1)")
    case False
    with assms that [of h] show ?thesis by (auto simp: hash_grown_def hash_alive_def ha.used_def)
  next
    case True
    let ?n = "GROW_CAP (hash_capacity h)" and ?e = "index UNUSED_INDEX VAL_NULL"
    let ?live = "length (filter (\<lambda>e. index_id e \<noteq> None) (hash_indexes h))"
    have n: "8 \<le> ?n" "4 * (hash_count h + 1) \<le> 3 * ?n"
      using assms by (auto simp: GROW_CAP_def hash_alive_def)
    have live: "?live \<le> hash_count h"
      using ha.live_le_used [of "hash_indexes h"] assms
      by (simp add: ha.live_def ha.used_def hash_alive_def)
    have "ha.used (replicate ?n ?e) = 0" by (simp add: ha.used_def index_vacant_def index_def)
    with resize_loop_total [of "replicate ?n ?e" "hash_indexes h" 0] live n
    obtain acc where "resize_loop (hash_indexes h) ?n (replicate ?n ?e) 0 = Some (acc, ?live)"
      "length acc = ?n" "ha.used acc \<le> ?live" by auto
    with True live n that [of "\<lparr>hash_count = ?live, hash_capacity = ?n, hash_indexes = acc\<rparr>"]
    show ?thesis by (simp add: hash_grown_def hash_resize_def)
  qed
  have "ha.used (hash_indexes g) < length (hash_indexes g)" using g by simp
  from hash_find_total [OF this, of k] obtain r where
    r: "r < length (hash_indexes g)" "hash_find (hash_indexes g) (hash_capacity g) k = Some r"
    using g(2) by auto
  let ?e = "hash_indexes g ! r"
  have "ha.used ((hash_indexes g)[r := index k v]) \<le>
      (if index_key ?e = UNUSED_INDEX \<and> IS_NULL (index_value ?e) then hash_count g + 1 else hash_count g)"
    using used_write [OF r(1), of "index k v"] g(3) unfolding index_vacant_def by (auto split: if_splits)
  with g r show ?thesis
    by (simp add: hash_set_def Let_def hash_alive_def ha.used_def)
qed

end
