(* ===== verification/Chunks.thy ===== *)
theory Chunks
  imports Values
begin

text \<open>
  \<open>src/src/code.h\<close> and \<open>src/src/chunk.c\<close>: the opcodes, the source file descriptor \<open>src_t\<close>, and the
  chunk of bytecode with its line and column tables. The lists of a chunk hold the \<open>count\<close>
  elements written; the rest of the \<open>capacity\<close> is not initialised.
\<close>

subsection \<open>Opcodes\<close>

datatype opcode_t =
    OP_PRINT | OP_POP | OP_CALL | OP_RET | OP_NIL | OP_TRUE | OP_FALSE | OP_CONST | OP_NEG | OP_NOT
  | OP_LT | OP_LE | OP_EQ | OP_ADD | OP_SUB | OP_MUL | OP_DIV | OP_DEF | OP_GLD | OP_GST | OP_JMP
  | OP_JMPF | OP_LD | OP_ST | OP_MAP | OP_GET | OP_SET | OP_GETI | OP_SETI

definition opcodes :: "opcode_t list" where
  "opcodes =
     [OP_PRINT, OP_POP, OP_CALL, OP_RET, OP_NIL, OP_TRUE, OP_FALSE, OP_CONST, OP_NEG, OP_NOT,
      OP_LT, OP_LE, OP_EQ, OP_ADD, OP_SUB, OP_MUL, OP_DIV, OP_DEF, OP_GLD, OP_GST, OP_JMP,
      OP_JMPF, OP_LD, OP_ST, OP_MAP, OP_GET, OP_SET, OP_GETI, OP_SETI]"

fun opcode_byte :: "opcode_t \<Rightarrow> u8" where
  "opcode_byte OP_PRINT = 0" | "opcode_byte OP_POP = 1" | "opcode_byte OP_CALL = 2"
| "opcode_byte OP_RET = 3" | "opcode_byte OP_NIL = 4" | "opcode_byte OP_TRUE = 5"
| "opcode_byte OP_FALSE = 6" | "opcode_byte OP_CONST = 7" | "opcode_byte OP_NEG = 8"
| "opcode_byte OP_NOT = 9" | "opcode_byte OP_LT = 10" | "opcode_byte OP_LE = 11"
| "opcode_byte OP_EQ = 12" | "opcode_byte OP_ADD = 13" | "opcode_byte OP_SUB = 14"
| "opcode_byte OP_MUL = 15" | "opcode_byte OP_DIV = 16" | "opcode_byte OP_DEF = 17"
| "opcode_byte OP_GLD = 18" | "opcode_byte OP_GST = 19" | "opcode_byte OP_JMP = 20"
| "opcode_byte OP_JMPF = 21" | "opcode_byte OP_LD = 22" | "opcode_byte OP_ST = 23"
| "opcode_byte OP_MAP = 24" | "opcode_byte OP_GET = 25" | "opcode_byte OP_SET = 26"
| "opcode_byte OP_GETI = 27" | "opcode_byte OP_SETI = 28"

text \<open>The dispatch of \<open>vm_execute\<close>: the opcode of a byte, \<open>None\<close> for the error case.\<close>

definition decode_op :: "u8 \<Rightarrow> opcode_t option" where
  "decode_op b = (if unat b < length opcodes then Some (opcodes ! unat b) else None)"

lemma decode_opcode_byte [simp]: "decode_op (opcode_byte op) = Some op"
  by (cases op) (simp_all add: decode_op_def opcodes_def)

lemma map_opcode_byte: "map opcode_byte opcodes = map word_of_nat [0..<length opcodes]"
  by (simp add: opcodes_def upt_rec_numeral)

lemma opcode_byte_nth:
  assumes "i < length opcodes"
  shows "opcode_byte (opcodes ! i) = word_of_nat i"
proof -
  have "map opcode_byte opcodes ! i = map word_of_nat [0..<length opcodes] ! i"
    by (simp only: map_opcode_byte)
  with assms show ?thesis by simp
qed

lemma opcode_byte_decode: "decode_op b = Some op \<Longrightarrow> opcode_byte op = b"
  using opcode_byte_nth [of "unat b"] by (auto simp: decode_op_def split: if_splits)

subsection \<open>Source files\<close>

record src_t =
  src_buffer :: string
  src_fname :: string
  src_size :: nat

text \<open>\<open>strrchr\<close>: the suffix that starts at the last occurrence of a character.\<close>

fun strrchr :: "string \<Rightarrow> char \<Rightarrow> string option" where
  "strrchr [] c = None"
| "strrchr (x # xs) c =
     (case strrchr xs c of
        Some s \<Rightarrow> Some s
      | None \<Rightarrow> if x = c then Some (x # xs) else None)"

text \<open>
  The name kept for messages. The second search overwrites what the first one found.
\<close>

definition src_basename :: "string \<Rightarrow> string" where
  "src_basename fname =
     (let s = map_option tl (strrchr fname (CHR 0x2F));
          s = map_option tl (strrchr fname (CHR 0x5C))
      in case s of None \<Rightarrow> fname | Some s \<Rightarrow> s)"

text \<open>
  The file system is an argument: what \<open>read_file\<close> (\<open>src/src/utils.c\<close>) returns for a path,
  \<open>None\<close> when the file cannot be opened or read.
\<close>

definition src_new :: "(string \<Rightarrow> string option) \<Rightarrow> string \<Rightarrow> src_t option" where
  "src_new read_file fname =
     (case read_file fname of
        None \<Rightarrow> None
      | Some buffer \<Rightarrow>
          Some \<lparr>src_buffer = buffer, src_fname = src_basename fname, src_size = length buffer\<rparr>)"

subsection \<open>Chunks\<close>

record chunk_t =
  ck_count :: nat
  ck_capacity :: nat
  ck_code :: "u8 list"
  ck_lines :: "u16 list"
  ck_columns :: "u16 list"
  ck_source :: "src_t option"
  ck_constants :: arr_t

definition CODE_PAGE :: nat where
  "CODE_PAGE = 256"

definition chunk_init :: "src_t option \<Rightarrow> chunk_t" where
  "chunk_init source =
     \<lparr>ck_count = 0, ck_capacity = 0, ck_code = [], ck_lines = [], ck_columns = [],
      ck_source = source, ck_constants = arr_init\<rparr>"

definition chunk_free :: "chunk_t \<Rightarrow> chunk_t" where
  "chunk_free c = chunk_init None"

definition chunk_emit :: "chunk_t \<Rightarrow> u8 \<Rightarrow> int \<Rightarrow> int \<Rightarrow> chunk_t" where
  "chunk_emit c byte line column =
     (let c = (if ck_capacity c \<le> ck_count c
               then c\<lparr>ck_capacity := ck_capacity c + CODE_PAGE\<rparr> else c)
      in c\<lparr>ck_code := ck_code c @ [byte],
           ck_lines := ck_lines c @ [word_of_int line],
           ck_columns := ck_columns c @ [word_of_int column],
           ck_count := ck_count c + 1\<rparr>)"

definition chunk_ok :: "chunk_t \<Rightarrow> bool" where
  "chunk_ok c \<longleftrightarrow>
     length (ck_code c) = ck_count c \<and> length (ck_lines c) = ck_count c \<and>
     length (ck_columns c) = ck_count c \<and> ck_count c \<le> ck_capacity c \<and>
     CODE_PAGE dvd ck_capacity c \<and> arr_ok (ck_constants c)"

lemma arr_init_ok [simp]: "arr_ok arr_init"
  by (simp add: arr_ok_def arr_init_def)

lemma chunk_init_ok [simp, wf_intros]: "chunk_ok (chunk_init s)"
  by (simp add: chunk_ok_def chunk_init_def)

lemma chunk_emit_ok [wf_intros]: "chunk_ok c \<Longrightarrow> chunk_ok (chunk_emit c b l k)"
  by (auto simp: chunk_ok_def chunk_emit_def Let_def CODE_PAGE_def)

lemma chunk_emit_code [simp]: "ck_code (chunk_emit c b l k) = ck_code c @ [b]"
  by (simp add: chunk_emit_def Let_def)

lemma chunk_emit_constants [simp]: "ck_constants (chunk_emit c b l k) = ck_constants c"
  by (simp add: chunk_emit_def Let_def)

text \<open>The position recorded for the byte just written, modulo \<open>2\<^sup>1\<^sup>6\<close>.\<close>

lemma chunk_emit_position:
  assumes "chunk_ok c"
  shows "ck_code (chunk_emit c b l k) ! ck_count c = b"
    and "ck_lines (chunk_emit c b l k) ! ck_count c = word_of_int l"
    and "ck_columns (chunk_emit c b l k) ! ck_count c = word_of_int k"
  using assms by (simp_all add: chunk_ok_def chunk_emit_def Let_def nth_append)

subsection \<open>The constant array\<close>

lemma arr_scan_Some:
  "arr_scan xs v i = Some j \<Longrightarrow> i \<le> j \<and> j - i < length xs \<and> val_equal (xs ! (j - i)) v \<and>
     (\<forall>m < j - i. \<not> val_equal (xs ! m) v)"
proof (induction xs v i rule: arr_scan.induct)
  case (2 x xs v i)
  show ?case
  proof (cases "val_equal x v")
    case False
    with 2 have IH: "Suc i \<le> j \<and> j - Suc i < length xs \<and> val_equal (xs ! (j - Suc i)) v \<and>
       (\<forall>m < j - Suc i. \<not> val_equal (xs ! m) v)" by simp
    then have "j - i = Suc (j - Suc i)" by arith
    with IH False show ?thesis by (auto simp: less_Suc_eq_0_disj)
  qed (use 2 in simp)
qed simp

lemma arr_scan_None: "arr_scan xs v i = None \<Longrightarrow> \<forall>x \<in> set xs. \<not> val_equal x v"
  by (induction xs v i rule: arr_scan.induct) (auto split: if_splits)

lemma arr_push_spec:
  assumes "arr_ok a"
  shows "arr_ok (fst (arr_push a v))"
    and "arr_values (fst (arr_push a v)) = arr_values a @ [v]"
    and "snd (arr_push a v) = length (arr_values a)"
  using assms by (auto simp: arr_push_def arr_ok_def GROW_CAP_def Let_def)

lemma arr_add_spec:
  assumes "arr_ok a" and "arr_add a v dup = (a', i)"
  shows "arr_ok a' \<and> i < length (arr_values a') \<and>
         (arr_values a' ! i = v \<or> val_equal (arr_values a' ! i) v) \<and>
         (arr_values a' = arr_values a \<or> arr_values a' = arr_values a @ [v])"
  using assms arr_push_spec [OF assms(1), of v] arr_scan_Some [of "arr_values a" v 0 i]
  by (auto simp: arr_add_def split: if_splits option.splits)

end
