(* ===== verification/StrHash.thy ===== *)
theory StrHash
  imports Prelude
begin

text \<open>
  \<open>hash_string\<close> of \<open>src/src/utils.c\<close>: the 32-bit FNV-1a hash of a byte string, optionally of its
  lower-case form. \<open>char\<close> is signed on the targets of the program: a byte from 128 up is
  sign-extended before it is xor-ed into the hash. \<open>tolower\<close> is that of the \<open>C\<close> locale.
\<close>

definition c_tolower :: "char \<Rightarrow> char" where
  "c_tolower c = (let n = of_char c :: nat in if 65 \<le> n \<and> n \<le> 90 then char_of (n + 32) else c)"

definition sign_extend :: "char \<Rightarrow> u32" where
  "sign_extend c = scast (of_char c :: u8)"

definition hash_step :: "u32 \<Rightarrow> char \<Rightarrow> u32" where
  "hash_step h c = xor h (sign_extend c) * 16777619"

fun hash_loop :: "string \<Rightarrow> bool \<Rightarrow> u32 \<Rightarrow> u32" where
  "hash_loop [] ignorecase h = h"
| "hash_loop (c # cs) ignorecase h =
     hash_loop cs ignorecase (hash_step h (if ignorecase then c_tolower c else c))"

definition hash_string :: "string \<Rightarrow> nat \<Rightarrow> bool \<Rightarrow> u32" where
  "hash_string chars len ignorecase = hash_loop (take len chars) ignorecase 2166136261"

subsection \<open>Lower case\<close>

lemma of_char_c_tolower:
  "(of_char (c_tolower c) :: nat) =
     (if 65 \<le> (of_char c :: nat) \<and> (of_char c :: nat) \<le> 90 then of_char c + 32 else of_char c)"
  by (simp add: c_tolower_def Let_def)

lemma c_tolower_idem [simp]: "c_tolower (c_tolower c) = c_tolower c"
proof -
  have "(of_char (c_tolower (c_tolower c)) :: nat) = of_char (c_tolower c)"
    by (simp add: of_char_c_tolower)
  then show ?thesis by simp
qed

text \<open>Hashing without regard to case is hashing the lower-case string.\<close>

lemma hash_loop_ignorecase: "hash_loop cs True h = hash_loop (map c_tolower cs) False h"
  by (induction cs arbitrary: h) simp_all

lemma hash_string_ignorecase:
  "hash_string cs len True = hash_string (map c_tolower cs) len False"
  by (simp add: hash_string_def hash_loop_ignorecase take_map)

lemma hash_string_all [simp]: "hash_string cs (length cs) b = hash_loop cs b 2166136261"
  by (simp add: hash_string_def)

end
