(* ===== verification/State.thy ===== *)
theory State
  imports Tables Hashes Chunks StrHash
begin

text \<open>
  The structs of \<open>src/src/object.h\<close>, \<open>src/src/gc.h\<close> and \<open>src/src/vm.h\<close>, and the results of
  operations. The objects live in a heap from addresses to objects. The collector's struct
  \<open>gc_t\<close> and the two tables that \<open>vm_t\<close> points to are fields of \<open>vm_t\<close> here, with the prefix
  \<open>gc_\<close> for those of \<open>gc_t\<close>.
\<close>

subsection \<open>Results\<close>

text \<open>
  What the C code leaves undefined is a fault of the model, with its cause; so is a loop that
  never returns.
\<close>

datatype ub =
    Bad_pointer          \<comment> \<open>a pointer to no live object is read\<close>
  | Uninitialised        \<comment> \<open>a field that was never written is read\<close>
  | Stack_overflow       \<comment> \<open>a write at or past \<open>stack[STACK_MAX]\<close>\<close>
  | Stack_underflow      \<comment> \<open>an access before \<open>stack[0]\<close>\<close>
  | Bad_code             \<comment> \<open>an instruction byte past the end of the chunk\<close>
  | Bad_constant         \<comment> \<open>a constant index past the end of the constants\<close>
  | Type_confusion       \<comment> \<open>a value or object used as one of another type\<close>

datatype fault = NoReturn | Undefined ub

type_synonym 'a res = "fault + 'a"

definition bindr :: "'a res \<Rightarrow> ('a \<Rightarrow> 'b res) \<Rightarrow> 'b res" where
  "bindr m f = (case m of Inl e \<Rightarrow> Inl e | Inr x \<Rightarrow> f x)"

definition returns :: "'a option \<Rightarrow> 'a res" where
  "returns m = (case m of None \<Rightarrow> Inl NoReturn | Some x \<Rightarrow> Inr x)"

lemma bindr_simps [simp]: "bindr (Inl e) f = Inl e" "bindr (Inr x) f = f x"
  by (simp_all add: bindr_def)

lemma bindr_Inr_iff: "bindr m f = Inr y \<longleftrightarrow> (\<exists>x. m = Inr x \<and> f x = Inr y)"
  by (cases m) simp_all

lemma bindr_Inr_E [elim]:
  assumes "bindr m f = Inr y"
  obtains x where "m = Inr x" and "f x = Inr y"
  using assms by (auto simp: bindr_Inr_iff)

lemma bindr_assoc: "bindr (bindr m f) g = bindr m (\<lambda>x. bindr (f x) g)"
  by (cases m) simp_all

lemma returns_simps [simp]: "returns (Some x) = Inr x" "returns None = Inl NoReturn"
  by (simp_all add: returns_def)

subsection \<open>Objects\<close>

record fun_t =
  fn_arity :: nat
  fn_upvalues :: "addr option list option"   \<comment> \<open>\<open>None\<close>: never initialised\<close>
  fn_name :: "addr option"
  fn_chunk :: chunk_t

record upv_t =
  upv_next :: "addr option"
  upv_closed :: val_t

record map_t =
  map_hash :: hash_t
  map_table :: tab_t

datatype obj_body = OT_STR str_t | OT_FUN fun_t | OT_UPV upv_t | OT_MAP map_t

record obj_t =
  isMarked :: bool
  obj_next :: "addr option"
  body :: obj_body

type_synonym obj_heap = "addr \<Rightarrow> obj_t option"

subsection \<open>The virtual machine\<close>

definition FRAMES_MAX :: nat where
  "FRAMES_MAX = 64"

definition STACK_MAX :: nat where
  "STACK_MAX = FRAMES_MAX * 256"

record frame_t =
  fr_function :: addr
  fr_ip :: nat
  fr_slots :: nat

text \<open>
  What the program prints. A number is printed with \<open>%.14g\<close> and a pointer with \<open>%p\<close>; the items
  record the argument instead of the digits.
\<close>

datatype out_item = Out_text string | Out_num double | Out_ptr string nat

text \<open>A line of the stack trace of a run-time error; the name is \<open>None\<close> for the script.\<close>

record trace_t =
  tr_file :: string
  tr_line :: u16
  tr_column :: u16
  tr_name :: "string option"

text \<open>
  An error message on \<open>stderr\<close>: one of the compiler, with the place of the token, what is printed after
  ``Error'' (the text of the token unless it is an error token), and the piece of the
  source line up to the token's end; or one of the machine, with its trace.
\<close>

datatype err_at = At_end | At_nothing | At_text string

record cerror_t =
  ce_file :: string
  ce_line :: int
  ce_column :: int
  ce_at :: err_at
  ce_message :: string
  ce_excerpt :: string

datatype err_item = Compile_error cerror_t | Runtime_error string "trace_t list"

record vm_t =
  stack :: "nat \<Rightarrow> val_t"
  vm_top :: nat
  frames :: "frame_t list"                  \<comment> \<open>the current frame first\<close>
  tempRoots :: "addr option list"           \<comment> \<open>the first \<open>numRoots\<close> of them\<close>
  openUpvalues :: "addr option"
  heap :: obj_heap
  next_addr :: addr                         \<comment> \<open>the allocator: addresses from here up are free\<close>
  junk :: "addr \<Rightarrow> bool"                    \<comment> \<open>the mark bit of memory that is not initialised\<close>
  gc_vm :: bool                             \<comment> \<open>\<open>gc->vm\<close> has been assigned\<close>
  gc_allocated :: u64
  gc_nextGC :: u64
  gc_objects :: "addr option"
  gc_gray :: "addr list"                    \<comment> \<open>\<open>grayStack\<close>, the top first\<close>
  gc_grayCapacity :: nat
  strings :: tab_t
  globals :: tab_t
  stdout :: "out_item list"
  stderr :: "err_item list"

text \<open>What the tables read through a \<open>str_t *\<close>.\<close>

definition no_str :: str_t where
  "no_str = \<lparr>str_length = 0, str_hash = 0, str_chars = []\<rparr>"

definition strs_of :: "obj_heap \<Rightarrow> strs" where
  "strs_of h a =
     (case h a of
        Some ob \<Rightarrow> (case body ob of OT_STR s \<Rightarrow> s | _ \<Rightarrow> no_str)
      | None \<Rightarrow> no_str)"

definition is_str :: "obj_heap \<Rightarrow> addr \<Rightarrow> bool" where
  "is_str h a \<longleftrightarrow> (\<exists>ob s. h a = Some ob \<and> body ob = OT_STR s)"

lemma is_str_code [code]:
  "is_str h a \<longleftrightarrow>
     (case h a of None \<Rightarrow> False | Some ob \<Rightarrow> (case body ob of OT_STR s \<Rightarrow> True | _ \<Rightarrow> False))"
  by (auto simp: is_str_def split: option.split obj_body.split)

end
