(* ===== verification/Collector.thy ===== *)
theory Collector
  imports State
begin

text \<open>
  \<open>src/src/gc.c\<close>, and \<open>obj_free\<close> of \<open>src/src/object.c\<close>: the mark-and-sweep collector. A pointer to
  no live object, an uninitialised upvalue count and the pointer \<open>gc->vm\<close>, which no code of the
  program assigns, are faults. The loops over linked structures are \<open>option\<close>-valued, \<open>None\<close> for
  a loop that never returns.
\<close>

subsection \<open>Accounting and release\<close>

text \<open>\<open>sizeof\<close> of the object structs on a 64-bit target.\<close>

definition SIZEOF_STR :: u64 where "SIZEOF_STR = 32"
definition SIZEOF_FUN :: u64 where "SIZEOF_FUN = 96"
definition SIZEOF_MAP :: u64 where "SIZEOF_MAP = 48"

text \<open>\<open>gc_realloc (gc, ptr, old, 0)\<close>: the branch that releases the object at \<open>ptr\<close>.\<close>

definition gc_release :: "addr \<Rightarrow> u64 \<Rightarrow> vm_t \<Rightarrow> vm_t" where
  "gc_release a old vm =
     vm\<lparr>gc_allocated := gc_allocated vm + (0 - old), heap := (heap vm)(a := None)\<rparr>"

text \<open>The switch of \<open>obj_free\<close> has no case for an upvalue.\<close>

definition obj_free :: "addr \<Rightarrow> vm_t \<Rightarrow> vm_t res" where
  "obj_free a vm =
     (case heap vm a of
        None \<Rightarrow> Inl (Undefined Bad_pointer)
      | Some ob \<Rightarrow>
          (case body ob of
             OT_STR s \<Rightarrow> Inr (gc_release a SIZEOF_STR vm)
           | OT_FUN f \<Rightarrow> Inr (gc_release a SIZEOF_FUN vm)
           | OT_MAP m \<Rightarrow> Inr (gc_release a SIZEOF_MAP vm)
           | OT_UPV u \<Rightarrow> Inr vm))"

subsection \<open>Marking\<close>

definition set_mark :: "addr \<Rightarrow> obj_t \<Rightarrow> bool \<Rightarrow> vm_t \<Rightarrow> vm_t" where
  "set_mark a ob b vm = vm\<lparr>heap := (heap vm)(a \<mapsto> ob\<lparr>isMarked := b\<rparr>)\<rparr>"

definition push_gray :: "addr \<Rightarrow> vm_t \<Rightarrow> vm_t" where
  "push_gray a vm =
     (let vm = (if gc_grayCapacity vm < length (gc_gray vm) + 1
                then vm\<lparr>gc_grayCapacity := GROW_CAP (gc_grayCapacity vm)\<rparr> else vm)
      in vm\<lparr>gc_gray := a # gc_gray vm\<rparr>)"

definition markObject :: "addr option \<Rightarrow> vm_t \<Rightarrow> vm_t res" where
  "markObject p vm =
     (case p of
        None \<Rightarrow> Inr vm
      | Some a \<Rightarrow>
          (case heap vm a of
             None \<Rightarrow> Inl (Undefined Bad_pointer)
           | Some ob \<Rightarrow>
               if isMarked ob then Inr vm else Inr (push_gray a (set_mark a ob True vm))))"

definition markValue :: "val_t \<Rightarrow> vm_t \<Rightarrow> vm_t res" where
  "markValue v vm = (case v of VAL_OBJ a \<Rightarrow> markObject (Some a) vm | _ \<Rightarrow> Inr vm)"

fun markTable :: "ent_t list \<Rightarrow> vm_t \<Rightarrow> vm_t res" where
  "markTable [] vm = Inr vm"
| "markTable (e # es) vm =
     bindr (markObject (ent_key e) vm) (\<lambda>vm.
     bindr (markValue (ent_value e) vm) (markTable es))"

fun mark_hash :: "index_t list \<Rightarrow> vm_t \<Rightarrow> vm_t res" where
  "mark_hash [] vm = Inr vm"
| "mark_hash (e # es) vm = bindr (markValue (index_value e) vm) (mark_hash es)"

fun mark_array :: "val_t list \<Rightarrow> vm_t \<Rightarrow> vm_t res" where
  "mark_array [] vm = Inr vm"
| "mark_array (v # vs) vm = bindr (markValue v vm) (mark_array vs)"

fun mark_pointers :: "addr option list \<Rightarrow> vm_t \<Rightarrow> vm_t res" where
  "mark_pointers [] vm = Inr vm"
| "mark_pointers (p # ps) vm = bindr (markObject p vm) (mark_pointers ps)"

definition blackenObject :: "addr \<Rightarrow> vm_t \<Rightarrow> vm_t res" where
  "blackenObject a vm =
     (case heap vm a of
        None \<Rightarrow> Inl (Undefined Bad_pointer)
      | Some ob \<Rightarrow>
          (case body ob of
             OT_STR s \<Rightarrow> Inr vm
           | OT_UPV u \<Rightarrow> markValue (upv_closed u) vm
           | OT_FUN f \<Rightarrow>
               bindr (markObject (fn_name f) vm) (\<lambda>vm.
               bindr (mark_array (arr_values (ck_constants (fn_chunk f))) vm) (\<lambda>vm.
               (case fn_upvalues f of
                  None \<Rightarrow> Inl (Undefined Uninitialised)
                | Some us \<Rightarrow> mark_pointers us vm)))
           | OT_MAP m \<Rightarrow>
               bindr (markTable (tab_entries (map_table m)) vm)
                 (mark_hash (hash_indexes (map_hash m)))))"

text \<open>The list of open upvalues, linked through \<open>next\<close>.\<close>

partial_function (option) mark_upvalues :: "addr option \<Rightarrow> vm_t \<Rightarrow> vm_t res option" where
  "mark_upvalues p vm =
     (case p of
        None \<Rightarrow> Some (Inr vm)
      | Some a \<Rightarrow>
          (case markObject (Some a) vm of
             Inl e \<Rightarrow> Some (Inl e)
           | Inr vm' \<Rightarrow>
               (case heap vm' a of
                  Some ob \<Rightarrow>
                    (case body ob of
                       OT_UPV u \<Rightarrow> mark_upvalues (upv_next u) vm'
                     | _ \<Rightarrow> Some (Inl (Undefined Type_confusion)))
                | None \<Rightarrow> Some (Inl (Undefined Bad_pointer)))))"

declare mark_upvalues.simps [code]

definition markRoots :: "vm_t \<Rightarrow> vm_t res" where
  "markRoots vm =
     bindr (mark_pointers (tempRoots vm) vm) (\<lambda>vm.
     bindr (mark_array (map (stack vm) [0..<vm_top vm]) vm) (\<lambda>vm.
     bindr (mark_pointers (map (Some \<circ> fr_function) (rev (frames vm))) vm) (\<lambda>vm.
     bindr (returns (mark_upvalues (openUpvalues vm) vm)) (\<lambda>r. r))))"

partial_function (option) traceReferences :: "vm_t \<Rightarrow> vm_t res option" where
  "traceReferences vm =
     (case gc_gray vm of
        [] \<Rightarrow> Some (Inr vm)
      | a # gs \<Rightarrow>
          (case blackenObject a (vm\<lparr>gc_gray := gs\<rparr>) of
             Inl e \<Rightarrow> Some (Inl e)
           | Inr vm' \<Rightarrow> traceReferences vm'))"

declare traceReferences.simps [code]

subsection \<open>Sweeping\<close>

text \<open>\<open>prev->next = obj\<close>, or the head of the list when there is no \<open>prev\<close>.\<close>

definition unlink :: "addr option \<Rightarrow> addr option \<Rightarrow> vm_t \<Rightarrow> vm_t res" where
  "unlink prev nxt vm =
     (case prev of
        None \<Rightarrow> Inr (vm\<lparr>gc_objects := nxt\<rparr>)
      | Some p \<Rightarrow>
          (case heap vm p of
             None \<Rightarrow> Inl (Undefined Bad_pointer)
           | Some ob \<Rightarrow> Inr (vm\<lparr>heap := (heap vm)(p \<mapsto> ob\<lparr>obj_next := nxt\<rparr>)\<rparr>)))"

partial_function (option) sweep_loop ::
  "addr option \<Rightarrow> addr option \<Rightarrow> vm_t \<Rightarrow> vm_t res option" where
  "sweep_loop prev obj vm =
     (case obj of
        None \<Rightarrow> Some (Inr vm)
      | Some a \<Rightarrow>
          (case heap vm a of
             None \<Rightarrow> Some (Inl (Undefined Bad_pointer))
           | Some ob \<Rightarrow>
               if \<not> isMarked ob
               then sweep_loop (Some a) (obj_next ob) (set_mark a ob False vm)
               else
                 (case bindr (unlink prev (obj_next ob) vm) (obj_free a) of
                    Inl e \<Rightarrow> Some (Inl e)
                  | Inr vm' \<Rightarrow> sweep_loop prev (obj_next ob) vm')))"

declare sweep_loop.simps [code]

definition sweep :: "vm_t \<Rightarrow> vm_t res" where
  "sweep vm = bindr (returns (sweep_loop None (gc_objects vm) vm)) (\<lambda>r. r)"

fun removeWhite_loop :: "obj_heap \<Rightarrow> nat list \<Rightarrow> tab_t \<Rightarrow> tab_t res" where
  "removeWhite_loop h [] t = Inr t"
| "removeWhite_loop h (i # is) t =
     (case ent_key (tab_entries t ! i) of
        None \<Rightarrow> removeWhite_loop h is t
      | Some k \<Rightarrow>
          (case h k of
             None \<Rightarrow> Inl (Undefined Bad_pointer)
           | Some ob \<Rightarrow>
               if isMarked ob then removeWhite_loop h is t
               else bindr (returns (tab_remove (strs_of h) t k))
                      (\<lambda>(t', _). removeWhite_loop h is t')))"

definition removeWhite :: "obj_heap \<Rightarrow> tab_t \<Rightarrow> tab_t res" where
  "removeWhite h t = removeWhite_loop h [0..<tab_capacity t] t"

subsection \<open>The collector\<close>

definition gc_mark :: "vm_t \<Rightarrow> vm_t res" where
  "gc_mark vm =
     bindr (markRoots vm) (\<lambda>vm.
     bindr (markTable (tab_entries (globals vm)) vm) (\<lambda>vm.
     bindr (returns (traceReferences vm)) (\<lambda>r. r)))"

definition gc_collect :: "vm_t \<Rightarrow> vm_t res" where
  "gc_collect vm =
     (if \<not> gc_vm vm then Inl (Undefined Uninitialised)
      else
        bindr (gc_mark vm) (\<lambda>vm.
        bindr (removeWhite (heap vm) (strings vm)) (\<lambda>t.
        bindr (sweep (vm\<lparr>strings := t\<rparr>)) (\<lambda>vm.
        Inr (vm\<lparr>gc_nextGC := gc_allocated vm * 2\<rparr>)))))"

text \<open>\<open>gc_realloc (gc, NULL, 0, new)\<close> up to the call of \<open>realloc\<close>.\<close>

definition gc_account :: "u64 \<Rightarrow> vm_t \<Rightarrow> vm_t res" where
  "gc_account new vm =
     (let vm = vm\<lparr>gc_allocated := gc_allocated vm + new\<rparr>
      in if 0 < new \<and> gc_nextGC vm < gc_allocated vm then gc_collect vm else Inr vm)"

partial_function (option) gc_free_loop :: "addr option \<Rightarrow> vm_t \<Rightarrow> vm_t res option" where
  "gc_free_loop p vm =
     (case p of
        None \<Rightarrow> Some (Inr vm)
      | Some a \<Rightarrow>
          (case heap vm a of
             None \<Rightarrow> Some (Inl (Undefined Bad_pointer))
           | Some ob \<Rightarrow>
               (case obj_free a vm of
                  Inl e \<Rightarrow> Some (Inl e)
                | Inr vm' \<Rightarrow> gc_free_loop (obj_next ob) vm')))"

declare gc_free_loop.simps [code]

definition gc_free :: "vm_t \<Rightarrow> vm_t res" where
  "gc_free vm = bindr (returns (gc_free_loop (gc_objects vm) vm)) (\<lambda>r. r)"

text \<open>\<open>gc_init\<close> assigns every field but \<open>vm\<close>.\<close>

definition gc_init :: "vm_t \<Rightarrow> vm_t" where
  "gc_init vm =
     vm\<lparr>gc_allocated := 0, gc_nextGC := 512 * 1024, gc_objects := None,
        gc_grayCapacity := 0, gc_gray := []\<rparr>"

end
