(* ===== verification/Stack.thy ===== *)
theory Stack
  imports State
begin

text \<open>
  The stack macros of \<open>src/src/vm.c\<close>. \<open>stack\<close> is the array of \<open>STACK_MAX\<close> values and \<open>vm_top\<close> the
  index that the pointer \<open>vm->top\<close> has in it. The code tests no bound; a write past the array
  or an access before it is a fault here.
\<close>

definition PUSH :: "val_t \<Rightarrow> vm_t \<Rightarrow> vm_t res" where
  "PUSH v vm =
     (if vm_top vm < STACK_MAX
      then Inr (vm\<lparr>stack := (stack vm)(vm_top vm := v), vm_top := vm_top vm + 1\<rparr>)
      else Inl (Undefined Stack_overflow))"

definition POP :: "vm_t \<Rightarrow> (val_t \<times> vm_t) res" where
  "POP vm =
     (if vm_top vm = 0 then Inl (Undefined Stack_underflow)
      else Inr (stack vm (vm_top vm - 1), vm\<lparr>vm_top := vm_top vm - 1\<rparr>))"

definition POPN :: "nat \<Rightarrow> vm_t \<Rightarrow> vm_t res" where
  "POPN n vm =
     (if vm_top vm < n then Inl (Undefined Stack_underflow)
      else Inr (vm\<lparr>vm_top := vm_top vm - n\<rparr>))"

definition PEEK :: "nat \<Rightarrow> vm_t \<Rightarrow> val_t res" where
  "PEEK i vm =
     (if vm_top vm \<le> i then Inl (Undefined Stack_underflow)
      else Inr (stack vm (vm_top vm - 1 - i)))"

definition vm_push :: "val_t \<Rightarrow> vm_t \<Rightarrow> vm_t res" where
  "vm_push v vm = PUSH v vm"

definition vm_pop :: "vm_t \<Rightarrow> (val_t \<times> vm_t) res" where
  "vm_pop vm = POP vm"

definition resetStack :: "vm_t \<Rightarrow> vm_t" where
  "resetStack vm = vm\<lparr>vm_top := 0, frames := []\<rparr>"

text \<open>The values on the stack, the top first.\<close>

definition stack_list :: "vm_t \<Rightarrow> val_t list" where
  "stack_list vm = map (\<lambda>i. stack vm (vm_top vm - 1 - i)) [0..<vm_top vm]"

lemma length_stack_list [simp]: "length (stack_list vm) = vm_top vm"
  by (simp add: stack_list_def)

lemma nth_stack_list: "i < vm_top vm \<Longrightarrow> stack_list vm ! i = stack vm (vm_top vm - 1 - i)"
  by (simp add: stack_list_def)

lemma stack_list_push:
  "stack_list (vm\<lparr>stack := (stack vm)(vm_top vm := v), vm_top := vm_top vm + 1\<rparr>)
     = v # stack_list vm" (is "stack_list ?vm = _")
proof (rule nth_equalityI)
  fix i
  assume "i < length (stack_list ?vm)"
  then show "stack_list ?vm ! i = (v # stack_list vm) ! i"
    by (cases i) (auto simp: nth_stack_list)
qed simp

lemma stack_list_pop:
  assumes "0 < vm_top vm"
  shows "stack_list vm = stack vm (vm_top vm - 1) # stack_list (vm\<lparr>vm_top := vm_top vm - 1\<rparr>)"
    (is "_ = ?r")
proof (rule nth_equalityI)
  fix i
  assume "i < length (stack_list vm)"
  with assms show "stack_list vm ! i = ?r ! i"
    by (cases i) (simp_all add: nth_stack_list)
qed (use assms in simp)

lemma PUSH_spec:
  "PUSH v vm = Inr vm' \<Longrightarrow>
     stack_list vm' = v # stack_list vm \<and> vm_top vm' = Suc (vm_top vm) \<and> vm_top vm' \<le> STACK_MAX"
  by (auto simp: PUSH_def stack_list_push [simplified] split: if_splits)

lemma POP_spec:
  "POP vm = Inr (v, vm') \<Longrightarrow> stack_list vm = v # stack_list vm' \<and> vm_top vm = Suc (vm_top vm')"
  using stack_list_pop [of vm] by (auto simp: POP_def split: if_splits)

lemma POP_PUSH [simp]:
  assumes "PUSH v vm = Inr vm'"
  shows "\<exists>vm''. POP vm' = Inr (v, vm'') \<and> vm_top vm'' = vm_top vm \<and>
           (\<forall>i < vm_top vm. stack vm'' i = stack vm i)"
  using assms by (auto simp: PUSH_def POP_def split: if_splits)

lemma PEEK_stack_list: "PEEK i vm = Inr v \<longleftrightarrow> i < vm_top vm \<and> stack_list vm ! i = v"
  by (auto simp: PEEK_def nth_stack_list)

lemma POPN_spec:
  assumes "POPN n vm = Inr vm'"
  shows "stack_list vm' = drop n (stack_list vm)" and "vm_top vm = n + vm_top vm'"
proof -
  from assms have n: "n \<le> vm_top vm" "vm' = vm\<lparr>vm_top := vm_top vm - n\<rparr>"
    by (auto simp: POPN_def split: if_splits)
  show "stack_list vm' = drop n (stack_list vm)"
  proof (rule nth_equalityI)
    fix i
    assume "i < length (stack_list vm')"
    with n show "stack_list vm' ! i = drop n (stack_list vm) ! i"
      by (simp add: nth_stack_list add.commute)
  qed (use n in simp)
  show "vm_top vm = n + vm_top vm'" using n by simp
qed

end
