(* ===== verification/Objects.thy ===== *)
theory Objects
  imports Collector Stack
begin

text \<open>
  \<open>src/src/object.c\<close>: allocation of objects on the list of the collector, interning of strings,
  creation of functions and maps, type names and printing. A fresh object's mark bit is
  whatever the memory held (\<open>junk\<close>); \<open>fun_new\<close> writes no upvalue count.
\<close>

subsection \<open>Allocation\<close>

definition allocObj :: "u64 \<Rightarrow> obj_body \<Rightarrow> vm_t \<Rightarrow> (addr \<times> vm_t) res" where
  "allocObj sz bdy vm =
     bindr (gc_account sz vm) (\<lambda>vm.
     let a = next_addr vm;
         ob = \<lparr>isMarked = junk vm a, obj_next = gc_objects vm, body = bdy\<rparr>
     in Inr (a, vm\<lparr>heap := (heap vm)(a \<mapsto> ob), gc_objects := Some a, next_addr := a + 1\<rparr>))"

definition allocStr :: "string \<Rightarrow> nat \<Rightarrow> u32 \<Rightarrow> vm_t \<Rightarrow> (addr \<times> vm_t) res" where
  "allocStr chars len hash vm =
     bindr (allocObj SIZEOF_STR
              (OT_STR \<lparr>str_length = len, str_hash = hash, str_chars = chars\<rparr>) vm) (\<lambda>(a, vm).
     bindr (returns (tab_set (strs_of (heap vm)) (strings vm) a VAL_NULL)) (\<lambda>(t, _).
     Inr (a, vm\<lparr>strings := t\<rparr>)))"

subsection \<open>Interning\<close>

definition str_take :: "string \<Rightarrow> nat \<Rightarrow> vm_t \<Rightarrow> (addr \<times> vm_t) res" where
  "str_take chars len vm =
     (let hash = hash_string chars len False
      in bindr (returns (tab_findstr (strs_of (heap vm)) (strings vm) chars len hash)) (\<lambda>interned.
         case interned of
           Some a \<Rightarrow> Inr (a, vm)
         | None \<Rightarrow> allocStr chars len hash vm))"

definition str_copy :: "string \<Rightarrow> nat \<Rightarrow> bool \<Rightarrow> vm_t \<Rightarrow> (addr \<times> vm_t) res" where
  "str_copy chars len ignorecase vm =
     (let hash = hash_string chars len ignorecase
      in bindr (returns (tab_findstr (strs_of (heap vm)) (strings vm) chars len hash)) (\<lambda>interned.
         case interned of
           Some a \<Rightarrow> Inr (a, vm)
         | None \<Rightarrow>
             let heapChars = take len chars;
                 heapChars = (if ignorecase then map c_tolower heapChars else heapChars)
             in allocStr heapChars len hash vm))"

subsection \<open>Functions and maps\<close>

definition fun_new :: "src_t option \<Rightarrow> vm_t \<Rightarrow> (addr \<times> vm_t) res" where
  "fun_new source =
     allocObj SIZEOF_FUN
       (OT_FUN \<lparr>fn_arity = 0, fn_upvalues = None, fn_name = None, fn_chunk = chunk_init source\<rparr>)"

definition map_new :: "vm_t \<Rightarrow> (addr \<times> vm_t) res" where
  "map_new = allocObj SIZEOF_MAP (OT_MAP \<lparr>map_hash = hash_init, map_table = tab_init\<rparr>)"

text \<open>The map object at an address, and the store of a changed one.\<close>

definition get_map :: "addr \<Rightarrow> vm_t \<Rightarrow> map_t res" where
  "get_map a vm =
     (case heap vm a of
        None \<Rightarrow> Inl (Undefined Bad_pointer)
      | Some ob \<Rightarrow> (case body ob of OT_MAP m \<Rightarrow> Inr m | _ \<Rightarrow> Inl (Undefined Type_confusion)))"

definition put_map :: "addr \<Rightarrow> map_t \<Rightarrow> vm_t \<Rightarrow> vm_t" where
  "put_map a m vm =
     vm\<lparr>heap := (heap vm)(a := map_option (\<lambda>ob. ob\<lparr>body := OT_MAP m\<rparr>) (heap vm a))\<rparr>"

definition map_table_set :: "addr \<Rightarrow> addr \<Rightarrow> val_t \<Rightarrow> vm_t \<Rightarrow> vm_t res" where
  "map_table_set a key v vm =
     bindr (get_map a vm) (\<lambda>m.
     bindr (returns (tab_set (strs_of (heap vm)) (map_table m) key v)) (\<lambda>(t, _).
     Inr (put_map a (m\<lparr>map_table := t\<rparr>) vm)))"

definition map_hash_set :: "addr \<Rightarrow> u64 \<Rightarrow> val_t \<Rightarrow> vm_t \<Rightarrow> vm_t res" where
  "map_hash_set a key v vm =
     bindr (get_map a vm) (\<lambda>m.
     bindr (returns (hash_set (map_hash m) key v)) (\<lambda>(h, _).
     Inr (put_map a (m\<lparr>map_hash := h\<rparr>) vm)))"

definition map_set :: "addr \<Rightarrow> string \<Rightarrow> val_t \<Rightarrow> vm_t \<Rightarrow> vm_t res" where
  "map_set m key v vm =
     bindr (str_copy key (length key) False vm) (\<lambda>(field, vm).
     bindr (vm_push v vm) (\<lambda>vm.
     bindr (vm_push (VAL_OBJ field) vm) (\<lambda>vm.
     bindr (map_table_set m field v vm) (\<lambda>vm.
     bindr (vm_pop vm) (\<lambda>(_, vm).
     bindr (vm_pop vm) (\<lambda>(_, vm). Inr vm))))))"

subsection \<open>Type names and printing\<close>

fun obj_typeof :: "obj_body \<Rightarrow> string" where
  "obj_typeof (OT_STR s) = ''str''"
| "obj_typeof (OT_FUN f) = ''fn''"
| "obj_typeof _ = ''obj''"

definition val_typeof :: "val_t \<Rightarrow> vm_t \<Rightarrow> string res" where
  "val_typeof v vm =
     (case v of
        VAL_BOOL b \<Rightarrow> Inr ''bool''
      | VAL_NUM n \<Rightarrow> Inr ''num''
      | VAL_CFN f \<Rightarrow> Inr ''fn''
      | VAL_PTR p \<Rightarrow> Inr ''ptr''
      | VAL_OBJ a \<Rightarrow>
          (case heap vm a of
             None \<Rightarrow> Inl (Undefined Bad_pointer)
           | Some ob \<Rightarrow> Inr (obj_typeof (body ob)))
      | VAL_NULL \<Rightarrow> Inr ''null'')"

definition obj_print :: "addr \<Rightarrow> vm_t \<Rightarrow> out_item list res" where
  "obj_print a vm =
     (case heap vm a of
        None \<Rightarrow> Inl (Undefined Bad_pointer)
      | Some ob \<Rightarrow>
          (case body ob of
             OT_STR s \<Rightarrow> Inr [Out_text (take (str_length s) (str_chars s))]
           | OT_FUN f \<Rightarrow>
               (case fn_name f of
                  None \<Rightarrow> Inr [Out_text ''<script>'']
                | Some n \<Rightarrow>
                    if is_str (heap vm) n
                    then Inr [Out_text (''fn: '' @ str_chars (strs_of (heap vm) n))]
                    else Inl (Undefined Bad_pointer))
           | OT_MAP m \<Rightarrow> Inr [Out_ptr ''map: '' a]
           | OT_UPV u \<Rightarrow> Inr [Out_ptr ''obj: '' a]))"

definition val_print :: "val_t \<Rightarrow> vm_t \<Rightarrow> out_item list res" where
  "val_print v vm =
     (case v of
        VAL_NULL \<Rightarrow> Inr [Out_text ''null'']
      | VAL_BOOL b \<Rightarrow> Inr [Out_text (if b then ''true'' else ''false'')]
      | VAL_NUM n \<Rightarrow> Inr [Out_num n]
      | VAL_CFN f \<Rightarrow> Inr [Out_ptr ''fn: '' (cfn_addr f)]
      | VAL_PTR p \<Rightarrow> Inr [Out_ptr ''ptr: '' p]
      | VAL_OBJ a \<Rightarrow> obj_print a vm)"

end
