(* ===== verification/Interning.thy ===== *)
theory Interning
  imports Objects
begin

text \<open>
  The promise of \<open>str_take\<close> and \<open>str_copy\<close> of \<open>src/src/object.c\<close>: the table \<open>vm->strings\<close> holds
  exactly the string objects of the heap, and equal strings are one object. The lemmas show what
  the code provides of it: the invariant, that both operations return, that the returned
  object has the requested length and hash, that asking again gives the same object; and that
  the object need not have the requested characters, because \<open>tab_findstr\<close> compares lengths and
  hashes only.
\<close>

subsection \<open>The invariant\<close>

definition str_of :: "vm_t \<Rightarrow> addr \<Rightarrow> str_t" where
  "str_of vm = strs_of (heap vm)"

definition str_coherent :: "str_t \<Rightarrow> bool" where
  "str_coherent s \<longleftrightarrow>
     length (str_chars s) = str_length s \<and>
     str_hash s = hash_string (str_chars s) (str_length s) False"

definition strings_ok :: "vm_t \<Rightarrow> bool" where
  "strings_ok vm \<longleftrightarrow>
     tab_ok (str_of vm) (strings vm) \<and>
     (\<forall>a. tab_model (strings vm) a \<noteq> None \<longleftrightarrow> is_str (heap vm) a) \<and>
     (\<forall>a. is_str (heap vm) a \<longrightarrow> str_coherent (str_of vm a)) \<and>
     (\<forall>a b. is_str (heap vm) a \<and> is_str (heap vm) b \<and>
        str_length (str_of vm a) = str_length (str_of vm b) \<and>
        str_hash (str_of vm a) = str_hash (str_of vm b) \<longrightarrow> a = b) \<and>
     (\<forall>a \<ge> next_addr vm. heap vm a = None)"

lemma strings_ok_free: "strings_ok vm \<Longrightarrow> next_addr vm \<le> a \<Longrightarrow> heap vm a = None"
  by (simp add: strings_ok_def)

lemma strings_ok_coherent: "strings_ok vm \<Longrightarrow> is_str (heap vm) a \<Longrightarrow> str_coherent (str_of vm a)"
  by (simp add: strings_ok_def)

text \<open>No collection is due when \<open>n\<close> bytes are allocated.\<close>

definition gc_idle :: "u64 \<Rightarrow> vm_t \<Rightarrow> bool" where
  "gc_idle n vm \<longleftrightarrow> gc_allocated vm + n \<le> gc_nextGC vm"

text \<open>What a later state keeps of an earlier one, while strings are added.\<close>

definition str_extends :: "vm_t \<Rightarrow> vm_t \<Rightarrow> bool" where
  "str_extends vm vm' \<longleftrightarrow>
     (\<forall>a. heap vm a \<noteq> None \<longrightarrow> heap vm' a = heap vm a) \<and>
     (\<forall>a. heap vm a = None \<longrightarrow> heap vm' a = None \<or> is_str (heap vm') a) \<and>
     gc_vm vm' = gc_vm vm \<and>
     stack vm' = stack vm \<and> vm_top vm' = vm_top vm \<and> frames vm' = frames vm \<and>
     globals vm' = globals vm \<and> stdout vm' = stdout vm \<and> stderr vm' = stderr vm"

lemma str_extends_refl [simp]: "str_extends vm vm"
  by (simp add: str_extends_def)

lemma str_extends_trans [trans]:
  assumes ab: "str_extends a b" and bc: "str_extends b c"
  shows "str_extends a c"
proof -
  have "heap c x = heap a x" if "heap a x \<noteq> None" for x
    using that ab bc unfolding str_extends_def by metis
  moreover have "heap c x = None \<or> is_str (heap c) x" if "heap a x = None" for x
  proof (cases "heap b x = None")
    case True
    with bc show ?thesis by (simp add: str_extends_def)
  next
    case False
    with that ab have "is_str (heap b) x" unfolding str_extends_def by metis
    moreover from False bc have "heap c x = heap b x" by (simp add: str_extends_def)
    ultimately show ?thesis by (simp add: is_str_def)
  qed
  ultimately show ?thesis using ab bc by (simp add: str_extends_def)
qed

lemma str_extends_str:
  assumes "str_extends vm vm'" and "is_str (heap vm) a"
  shows "is_str (heap vm') a" and "str_of vm' a = str_of vm a"
proof -
  from assms have "heap vm' a = heap vm a" by (auto simp: str_extends_def is_str_def)
  with assms(2) show "is_str (heap vm') a" "str_of vm' a = str_of vm a"
    by (simp_all add: is_str_def str_of_def strs_of_def)
qed

lemma gc_account_idle:
  "gc_idle n vm \<Longrightarrow> gc_account n vm = Inr (vm\<lparr>gc_allocated := gc_allocated vm + n\<rparr>)"
  by (auto simp: gc_account_def gc_idle_def Let_def dest: leD)

lemma allocObj_idle:
  assumes "gc_idle n vm"
  shows "allocObj n bdy vm = Inr (next_addr vm,
     vm\<lparr>gc_allocated := gc_allocated vm + n,
        heap := (heap vm)(next_addr vm \<mapsto>
          \<lparr>isMarked = junk vm (next_addr vm), obj_next = gc_objects vm, body = bdy\<rparr>),
        gc_objects := Some (next_addr vm), next_addr := next_addr vm + 1\<rparr>)"
  by (simp add: allocObj_def gc_account_idle [OF assms] Let_def)

text \<open>A collection on allocation reads \<open>gc->vm\<close>, which nothing assigns.\<close>

lemma allocObj_collects:
  assumes "\<not> gc_idle n vm" and "n \<noteq> 0" and "\<not> gc_vm vm"
  shows "allocObj n bdy vm = Inl (Undefined Uninitialised)"
  using assms by (simp add: allocObj_def gc_account_def gc_idle_def gc_collect_def Let_def
      word_neq_0_conv not_le)

subsection \<open>Adding a string\<close>

lemma allocStr_spec:
  assumes ok: "strings_ok vm" and idle: "gc_idle SIZEOF_STR vm"
    and coh: "length chars = len" "hash = hash_string chars len False"
    and new: "\<And>a. is_str (heap vm) a \<Longrightarrow> \<not> str_match (str_of vm) len hash a"
  shows "\<exists>vm'. allocStr chars len hash vm = Inr (next_addr vm, vm') \<and> strings_ok vm' \<and>
           str_extends vm vm' \<and> heap vm (next_addr vm) = None \<and>
           is_str (heap vm') (next_addr vm) \<and>
           str_of vm' (next_addr vm) = \<lparr>str_length = len, str_hash = hash, str_chars = chars\<rparr>"
proof -
  let ?n = "next_addr vm"
  let ?s = "\<lparr>str_length = len, str_hash = hash, str_chars = chars\<rparr>"
  let ?ob = "\<lparr>isMarked = junk vm ?n, obj_next = gc_objects vm, body = OT_STR ?s\<rparr>"
  let ?h = "(heap vm)(?n \<mapsto> ?ob)"
  let ?vm1 = "vm\<lparr>gc_allocated := gc_allocated vm + SIZEOF_STR, heap := ?h,
        gc_objects := Some ?n, next_addr := ?n + 1\<rparr>"
  have free: "heap vm ?n = None" using ok by (simp add: strings_ok_def)
  have str_h: "is_str ?h a \<longleftrightarrow> a = ?n \<or> is_str (heap vm) a" for a
    using free by (auto simp: is_str_def)
  have S_h: "strs_of ?h a = (if a = ?n then ?s else strs_of (heap vm) a)" for a
    by (simp add: strs_of_def)
  have tm: "tab_model (strings vm) a \<noteq> None \<longleftrightarrow> is_str (heap vm) a" for a
    using ok by (simp add: strings_ok_def)
  have fresh: "tab_model (strings vm) ?n = None"
    using tm [of ?n] free by (auto simp: is_str_def)
  have tok: "tab_ok (strs_of ?h) (strings vm)"
  proof (rule iffD2 [OF tab_ok_cong [of _ _ "strs_of (heap vm)"]])
    show "tab_ok (strs_of (heap vm)) (strings vm)" using ok by (simp add: strings_ok_def str_of_def)
    show "str_hash (strs_of ?h k) = str_hash (strs_of (heap vm) k)"
      if "tab_model (strings vm) k \<noteq> None" for k
      using that fresh S_h by auto
  qed
  obtain t where t: "tab_set (strs_of ?h) (strings vm) ?n VAL_NULL = Some (t, True)"
    "tab_ok (strs_of ?h) t" "tab_model t = (tab_model (strings vm))(?n \<mapsto> VAL_NULL)"
    using tab_set_spec [OF tok, of ?n VAL_NULL] fresh by auto
  have run: "allocStr chars len hash vm = Inr (?n, ?vm1\<lparr>strings := t\<rparr>)"
    using t(1) by (simp add: allocStr_def allocObj_idle [OF idle])
  define vm' where "vm' = ?vm1\<lparr>strings := t\<rparr>"
  have h': "heap vm' = ?h" and t': "strings vm' = t" and n': "next_addr vm' = ?n + 1"
    by (simp_all add: vm'_def)
  have S': "str_of vm' a = (if a = ?n then ?s else str_of vm a)" for a
    using S_h by (simp add: str_of_def h')
  have coherent: "str_coherent (str_of vm a)" if "is_str (heap vm) a" for a
    using ok that by (simp add: strings_ok_def)
  have unique: "a = b" if "is_str (heap vm) a" "is_str (heap vm) b"
    "str_length (str_of vm a) = str_length (str_of vm b)"
    "str_hash (str_of vm a) = str_hash (str_of vm b)" for a b
    using ok that by (simp add: strings_ok_def)
  have "strings_ok vm'"
    unfolding strings_ok_def
  proof (intro conjI allI impI)
    show "tab_ok (str_of vm') (strings vm')"
      using t(2) by (simp add: str_of_def h' t')
    show "tab_model (strings vm') a \<noteq> None \<longleftrightarrow> is_str (heap vm') a" for a
      unfolding t' h' t(3) str_h using tm [of a] by simp
    show "str_coherent (str_of vm' a)" if "is_str (heap vm') a" for a
    proof (cases "a = ?n")
      case True
      then show ?thesis using coh by (simp add: S' str_coherent_def)
    next
      case False
      then show ?thesis using that coherent unfolding S' h' str_h by simp
    qed
    show "a = b" if "is_str (heap vm') a \<and> is_str (heap vm') b \<and>
        str_length (str_of vm' a) = str_length (str_of vm' b) \<and>
        str_hash (str_of vm' a) = str_hash (str_of vm' b)" for a b
      using that new [of a] new [of b] unique [of a b]
      unfolding S' h' str_h str_match_def by (cases "a = ?n"; cases "b = ?n") simp_all
    show "heap vm' a = None" if "next_addr vm' \<le> a" for a
      using that ok unfolding n' h' by (simp add: strings_ok_def)
  qed
  moreover have new_str: "is_str (heap vm') ?n" unfolding h' str_h by simp
  moreover have "str_extends vm vm'"
    using free new_str by (auto simp: str_extends_def vm'_def)
  ultimately show ?thesis
    using run free S' [of ?n] by (auto simp: vm'_def)
qed

text \<open>The search that both operations start with.\<close>

lemma findstr_strings:
  assumes "strings_ok vm"
  shows "\<exists>r. tab_findstr (str_of vm) (strings vm) chars len hash = Some r \<and>
           (case r of
              None \<Rightarrow> \<forall>a. is_str (heap vm) a \<longrightarrow> \<not> str_match (str_of vm) len hash a
            | Some a \<Rightarrow> is_str (heap vm) a \<and> str_match (str_of vm) len hash a)"
proof -
  have tm: "tab_model (strings vm) a \<noteq> None \<longleftrightarrow> is_str (heap vm) a" for a
    using assms by (simp add: strings_ok_def)
  show ?thesis
    using tab_findstr_spec [of "str_of vm" "strings vm" chars len hash] assms
    unfolding tm by (simp add: strings_ok_def)
qed

text \<open>The characters that \<open>str_copy\<close> stores in a new object.\<close>

definition copied :: "string \<Rightarrow> nat \<Rightarrow> bool \<Rightarrow> string" where
  "copied chars len ignorecase =
     (if ignorecase then map c_tolower (take len chars) else take len chars)"

lemma hash_string_copied:
  "hash_string (copied chars len ic) len False = hash_string chars len ic"
  by (simp add: copied_def hash_string_def hash_loop_ignorecase take_map)

lemma str_copy_spec:
  assumes ok: "strings_ok vm" and idle: "gc_idle SIZEOF_STR vm" and len: "len \<le> length chars"
  shows "\<exists>a vm'. str_copy chars len ic vm = Inr (a, vm') \<and> strings_ok vm' \<and> str_extends vm vm' \<and>
           is_str (heap vm') a \<and> str_match (str_of vm') len (hash_string chars len ic) a \<and>
           (heap vm a = None \<longrightarrow> str_chars (str_of vm' a) = copied chars len ic) \<and>
           (heap vm a \<noteq> None \<longrightarrow> vm' = vm)"
proof -
  let ?hash = "hash_string chars len ic"
  obtain r where r: "tab_findstr (str_of vm) (strings vm) chars len ?hash = Some r"
    and spec: "case r of
              None \<Rightarrow> \<forall>a. is_str (heap vm) a \<longrightarrow> \<not> str_match (str_of vm) len ?hash a
            | Some a \<Rightarrow> is_str (heap vm) a \<and> str_match (str_of vm) len ?hash a"
    using findstr_strings [OF ok] by blast
  show ?thesis
  proof (cases r)
    case (Some a)
    with r have "str_copy chars len ic vm = Inr (a, vm)"
      by (simp add: str_copy_def str_of_def Let_def)
    moreover have "heap vm a \<noteq> None" using spec Some by (auto simp: is_str_def)
    ultimately show ?thesis using ok spec Some by auto
  next
    case None
    have "length (copied chars len ic) = len" using len by (simp add: copied_def)
    from allocStr_spec [OF ok idle this hash_string_copied [symmetric]] None spec
    obtain vm' where "allocStr (copied chars len ic) len ?hash vm = Inr (next_addr vm, vm')"
      "strings_ok vm'" "str_extends vm vm'" "heap vm (next_addr vm) = None"
      "is_str (heap vm') (next_addr vm)"
      "str_of vm' (next_addr vm) =
         \<lparr>str_length = len, str_hash = ?hash, str_chars = copied chars len ic\<rparr>" by auto
    moreover from this(1) r None have "str_copy chars len ic vm = Inr (next_addr vm, vm')"
      by (simp add: str_copy_def str_of_def copied_def Let_def)
    ultimately show ?thesis by (auto simp: str_match_def)
  qed
qed

text \<open>Taking ownership of a buffer is copying it, but for the buffer.\<close>

lemma str_take_str_copy:
  "length chars = len \<Longrightarrow> str_take chars len vm = str_copy chars len False vm"
  by (simp add: str_take_def str_copy_def)

text \<open>In a state of the invariant the object of a length and hash is unique.\<close>

lemma str_copy_present:
  assumes ok: "strings_ok vm" and a: "is_str (heap vm) a"
    and m: "str_match (str_of vm) len (hash_string chars len ic) a"
  shows "str_copy chars len ic vm = Inr (a, vm)"
proof -
  let ?hash = "hash_string chars len ic"
  obtain r where r: "tab_findstr (str_of vm) (strings vm) chars len ?hash = Some r"
    and spec: "case r of
              None \<Rightarrow> \<forall>a. is_str (heap vm) a \<longrightarrow> \<not> str_match (str_of vm) len ?hash a
            | Some a \<Rightarrow> is_str (heap vm) a \<and> str_match (str_of vm) len ?hash a"
    using findstr_strings [OF ok] by blast
  obtain b where b: "r = Some b" "is_str (heap vm) b" "str_match (str_of vm) len ?hash b"
    using spec a m by (cases r) auto
  have "b = a" using b a m ok by (auto simp: strings_ok_def str_match_def)
  with r b(1) show ?thesis by (simp add: str_copy_def str_of_def Let_def)
qed

text \<open>An interned string is found again, whatever was interned since.\<close>

lemma str_copy_again:
  assumes "strings_ok vm" "gc_idle SIZEOF_STR vm" "len \<le> length chars"
    and "str_copy chars len ic vm = Inr (a, vm1)"
    and "str_extends vm1 vm2" "strings_ok vm2"
  shows "str_copy chars len ic vm2 = Inr (a, vm2)"
proof -
  from str_copy_spec [OF assms(1,2,3), of ic] assms(4)
  have a: "is_str (heap vm1) a" "str_match (str_of vm1) len (hash_string chars len ic) a" by auto
  from str_extends_str [OF assms(5) a(1)] a(2)
  have "is_str (heap vm2) a" "str_match (str_of vm2) len (hash_string chars len ic) a"
    by (simp_all add: str_match_def)
  from str_copy_present [OF assms(6) this] show ?thesis .
qed

end
