(* ===== verification/Runtime.thy ===== *)
theory Runtime
  imports Interning
begin

text \<open>
  The helpers of \<open>vm_execute\<close> in \<open>src/src/vm.c\<close>: the current frame and the reading of its
  code and constants, run-time errors with their stack trace, concatenation, and calls. The
  register copy of the instruction pointer is the field \<open>fr_ip\<close> of the current frame: the code
  stores it there before any use of the field and reloads it after.
\<close>

subsection \<open>The current frame\<close>

definition get_fun :: "addr \<Rightarrow> vm_t \<Rightarrow> fun_t res" where
  "get_fun a vm =
     (case heap vm a of
        None \<Rightarrow> Inl (Undefined Bad_pointer)
      | Some ob \<Rightarrow> (case body ob of OT_FUN f \<Rightarrow> Inr f | _ \<Rightarrow> Inl (Undefined Type_confusion)))"

definition cur_frame :: "vm_t \<Rightarrow> frame_t res" where
  "cur_frame vm =
     (case frames vm of [] \<Rightarrow> Inl (Undefined Bad_pointer) | f # fs \<Rightarrow> Inr f)"

definition cur_chunk :: "vm_t \<Rightarrow> chunk_t res" where
  "cur_chunk vm =
     bindr (cur_frame vm) (\<lambda>f. bindr (get_fun (fr_function f) vm) (\<lambda>fn. Inr (fn_chunk fn)))"

definition get_ip :: "vm_t \<Rightarrow> nat res" where
  "get_ip vm = bindr (cur_frame vm) (\<lambda>f. Inr (fr_ip f))"

definition set_ip :: "nat \<Rightarrow> vm_t \<Rightarrow> vm_t" where
  "set_ip ip vm =
     (case frames vm of
        [] \<Rightarrow> vm
      | f # fs \<Rightarrow> vm\<lparr>frames := f\<lparr>fr_ip := ip\<rparr> # fs\<rparr>)"

subsection \<open>Reading code and constants\<close>

definition READ_BYTE :: "vm_t \<Rightarrow> (u8 \<times> vm_t) res" where
  "READ_BYTE vm =
     bindr (get_ip vm) (\<lambda>ip.
     bindr (cur_chunk vm) (\<lambda>c.
     if ip < ck_count c then Inr (ck_code c ! ip, set_ip (ip + 1) vm)
     else Inl (Undefined Bad_code)))"

definition short_of :: "u8 \<Rightarrow> u8 \<Rightarrow> u16" where
  "short_of hi lo = or (push_bit 8 (ucast hi)) (ucast lo)"

definition READ_SHORT :: "vm_t \<Rightarrow> (u16 \<times> vm_t) res" where
  "READ_SHORT vm =
     bindr (READ_BYTE vm) (\<lambda>(hi, vm).
     bindr (READ_BYTE vm) (\<lambda>(lo, vm). Inr (short_of hi lo, vm)))"

definition READ_CONST :: "vm_t \<Rightarrow> (val_t \<times> vm_t) res" where
  "READ_CONST vm =
     bindr (READ_BYTE vm) (\<lambda>(k, vm).
     bindr (cur_chunk vm) (\<lambda>c.
     if unat k < arr_count (ck_constants c) then Inr (arr_values (ck_constants c) ! unat k, vm)
     else Inl (Undefined Bad_constant)))"

text \<open>\<open>AS_STR\<close> casts without a check; another object read as a string is a fault.\<close>

definition AS_STR :: "val_t \<Rightarrow> vm_t \<Rightarrow> addr res" where
  "AS_STR v vm =
     (case v of
        VAL_OBJ a \<Rightarrow> if is_str (heap vm) a then Inr a else Inl (Undefined Type_confusion)
      | _ \<Rightarrow> Inl (Undefined Type_confusion))"

definition READ_STR :: "vm_t \<Rightarrow> (addr \<times> vm_t) res" where
  "READ_STR vm =
     bindr (READ_CONST vm) (\<lambda>(v, vm). bindr (AS_STR v vm) (\<lambda>a. Inr (a, vm)))"

text \<open>\<open>IS_STR\<close> and \<open>IS_MAP\<close> read the object's type.\<close>

definition obj_body_of :: "val_t \<Rightarrow> vm_t \<Rightarrow> obj_body option res" where
  "obj_body_of v vm =
     (case v of
        VAL_OBJ a \<Rightarrow>
          (case heap vm a of
             None \<Rightarrow> Inl (Undefined Bad_pointer)
           | Some ob \<Rightarrow> Inr (Some (body ob)))
      | _ \<Rightarrow> Inr None)"

definition IS_STR :: "val_t \<Rightarrow> vm_t \<Rightarrow> bool res" where
  "IS_STR v vm =
     bindr (obj_body_of v vm) (\<lambda>b. Inr (case b of Some (OT_STR s) \<Rightarrow> True | _ \<Rightarrow> False))"

definition IS_MAP :: "val_t \<Rightarrow> vm_t \<Rightarrow> bool res" where
  "IS_MAP v vm =
     bindr (obj_body_of v vm) (\<lambda>b. Inr (case b of Some (OT_MAP m) \<Rightarrow> True | _ \<Rightarrow> False))"

subsection \<open>Run-time errors\<close>

text \<open>\<open>%d\<close> of a natural number.\<close>

fun show_nat :: "nat \<Rightarrow> string" where
  "show_nat n =
     (if n < 10 then [char_of (48 + n)] else show_nat (n div 10) @ [char_of (48 + n mod 10)])"

declare show_nat.simps [simp del]

text \<open>
  One line of the trace. The instruction pointer is past the failed instruction, hence \<open>- 1\<close>;
  at the start of the code the index would wrap around.
\<close>

definition trace_frame :: "vm_t \<Rightarrow> frame_t \<Rightarrow> trace_t res" where
  "trace_frame vm f =
     bindr (get_fun (fr_function f) vm) (\<lambda>fn.
     case ck_source (fn_chunk fn) of
       None \<Rightarrow> Inl (Undefined Bad_pointer)
     | Some src \<Rightarrow>
         if fr_ip f = 0 \<or> ck_count (fn_chunk fn) \<le> fr_ip f - 1 then Inl (Undefined Bad_code)
         else
           let i = fr_ip f - 1;
               line = \<lparr>tr_file = src_fname src, tr_line = ck_lines (fn_chunk fn) ! i,
                       tr_column = ck_columns (fn_chunk fn) ! i, tr_name = None\<rparr>
           in (case fn_name fn of
                 None \<Rightarrow> Inr line
               | Some n \<Rightarrow>
                   if is_str (heap vm) n
                   then Inr (line\<lparr>tr_name := Some (str_chars (strs_of (heap vm) n))\<rparr>)
                   else Inl (Undefined Bad_pointer)))"

fun trace_frames :: "vm_t \<Rightarrow> frame_t list \<Rightarrow> trace_t list res" where
  "trace_frames vm [] = Inr []"
| "trace_frames vm (f # fs) =
     bindr (trace_frame vm f) (\<lambda>t. bindr (trace_frames vm fs) (\<lambda>ts. Inr (t # ts)))"

definition runtimeError :: "string \<Rightarrow> vm_t \<Rightarrow> vm_t res" where
  "runtimeError msg vm =
     bindr (trace_frames vm (frames vm)) (\<lambda>ts.
     Inr (resetStack (vm\<lparr>stderr := stderr vm @ [Runtime_error msg ts]\<rparr>)))"

subsection \<open>Concatenation\<close>

definition concatenate :: "vm_t \<Rightarrow> vm_t res" where
  "concatenate vm =
     bindr (POP vm) (\<lambda>(vb, vm).
     bindr (AS_STR vb vm) (\<lambda>b.
     bindr (POP vm) (\<lambda>(va, vm).
     bindr (AS_STR va vm) (\<lambda>a.
     let sa = strs_of (heap vm) a;
         sb = strs_of (heap vm) b;
         len = str_length sa + str_length sb;
         chars = take (str_length sa) (str_chars sa) @ take (str_length sb) (str_chars sb)
     in bindr (str_take chars len vm) (\<lambda>(result, vm).
        PUSH (VAL_OBJ result) vm)))))"

subsection \<open>Calls\<close>

text \<open>
  A native function: its argument count, the index of its first argument on the stack, and the
  machine it may change. What the natives do is a parameter of the machine.
\<close>

type_synonym natives = "cfn \<Rightarrow> nat \<Rightarrow> nat \<Rightarrow> vm_t \<Rightarrow> (val_t \<times> vm_t) res"

definition prepareCall :: "addr \<Rightarrow> nat \<Rightarrow> vm_t \<Rightarrow> (bool \<times> vm_t) res" where
  "prepareCall function argCount vm =
     bindr (get_fun function vm) (\<lambda>fn.
     if argCount \<noteq> fn_arity fn then
       bindr (runtimeError (''Expected '' @ show_nat (fn_arity fn) @ '' arguments but got '' @
                show_nat argCount @ ''.'') vm) (\<lambda>vm. Inr (False, vm))
     else if length (frames vm) = FRAMES_MAX then
       bindr (runtimeError ''Stack overflow.'' vm) (\<lambda>vm. Inr (False, vm))
     else if vm_top vm < argCount + 1 then Inl (Undefined Stack_underflow)
     else
       let frame = \<lparr>fr_function = function, fr_ip = 0, fr_slots = vm_top vm - argCount - 1\<rparr>
       in Inr (True, vm\<lparr>frames := frame # frames vm\<rparr>))"

definition vm_call :: "natives \<Rightarrow> val_t \<Rightarrow> nat \<Rightarrow> vm_t \<Rightarrow> (bool \<times> vm_t) res" where
  "vm_call native callee argCount vm =
     (let fail = (\<lambda>vm.
            bindr (runtimeError ''Can only call functions and classes.'' vm) (\<lambda>vm. Inr (False, vm)))
      in case callee of
           VAL_OBJ a \<Rightarrow>
             bindr (obj_body_of callee vm) (\<lambda>b.
             case b of
               Some (OT_FUN fn) \<Rightarrow> prepareCall a argCount vm
             | _ \<Rightarrow> fail vm)
         | VAL_CFN f \<Rightarrow>
             bindr (native f argCount (vm_top vm - argCount) vm) (\<lambda>(result, vm).
             bindr (POPN (argCount + 1) vm) (\<lambda>vm.
             bindr (PUSH result vm) (\<lambda>vm. Inr (True, vm))))
         | _ \<Rightarrow> fail vm)"

end
