(* ===== verification/Execute.thy ===== *)
theory Execute
  imports Runtime
begin

text \<open>
  \<open>vm_execute\<close> of \<open>src/src/vm.c\<close>, one definition for each \<open>CODE(X)\<close> block, the dispatch, and the
  loop. A block ends with \<open>NEXT\<close>, or leaves the function with a result. The dispatch is the
  \<open>switch\<close> with its \<open>default\<close> case. Where an argument of \<open>PUSH\<close> contains a \<open>POP\<close>, the two changes
  of \<open>vm->top\<close> are unsequenced in C; the model pops first.
\<close>

datatype vm_result = VM_OK | VM_COMPILE_ERROR | VM_RUNTIME_ERROR

fun vm_result_code :: "vm_result \<Rightarrow> int" where
  "vm_result_code VM_OK = 0"
| "vm_result_code VM_COMPILE_ERROR = 1"
| "vm_result_code VM_RUNTIME_ERROR = 2"

datatype flow = NEXT | RETURN vm_result

type_synonym step_res = "(flow \<times> vm_t) res"

definition next_op :: "vm_t \<Rightarrow> step_res" where
  "next_op vm = Inr (NEXT, vm)"

definition ERROR :: "string \<Rightarrow> vm_t \<Rightarrow> step_res" where
  "ERROR msg vm = bindr (runtimeError msg vm) (\<lambda>vm. Inr (RETURN VM_RUNTIME_ERROR, vm))"

definition push_next :: "val_t \<Rightarrow> vm_t \<Rightarrow> step_res" where
  "push_next v vm = bindr (PUSH v vm) next_op"

subsection \<open>Printing, constants and the stack\<close>

text \<open>The values \<open>PEEK(i)\<close> for \<open>i\<close> from \<open>count - 1\<close> down to 0, separated by tabs.\<close>

fun print_values :: "nat \<Rightarrow> vm_t \<Rightarrow> out_item list res" where
  "print_values 0 vm = Inr []"
| "print_values (Suc i) vm =
     bindr (PEEK i vm) (\<lambda>v.
     bindr (val_print v vm) (\<lambda>s.
     bindr (print_values i vm) (\<lambda>rest.
     Inr (s @ (if 0 < i then [Out_text [CHR 0x09]] else []) @ rest))))"

definition op_PRINT :: "vm_t \<Rightarrow> step_res" where
  "op_PRINT vm =
     bindr (READ_BYTE vm) (\<lambda>(count, vm).
     bindr (print_values (unat count) vm) (\<lambda>out.
     let vm = vm\<lparr>stdout := stdout vm @ out @ [Out_text [CHR 0x0A]]\<rparr>
     in bindr (POPN (unat count) vm) next_op))"

definition op_POP :: "vm_t \<Rightarrow> step_res" where
  "op_POP vm = bindr (POP vm) (\<lambda>(_, vm). next_op vm)"

definition op_NIL :: "vm_t \<Rightarrow> step_res" where
  "op_NIL = push_next VAL_NULL"

definition op_TRUE :: "vm_t \<Rightarrow> step_res" where
  "op_TRUE = push_next (VAL_BOOL True)"

definition op_FALSE :: "vm_t \<Rightarrow> step_res" where
  "op_FALSE = push_next (VAL_BOOL False)"

definition op_CONST :: "vm_t \<Rightarrow> step_res" where
  "op_CONST vm = bindr (READ_CONST vm) (\<lambda>(v, vm). push_next v vm)"

subsection \<open>Call and return\<close>

definition op_CALL :: "natives \<Rightarrow> vm_t \<Rightarrow> step_res" where
  "op_CALL native vm =
     bindr (READ_BYTE vm) (\<lambda>(argCount, vm).
     bindr (PEEK (unat argCount) vm) (\<lambda>callee.
     bindr (vm_call native callee (unat argCount) vm) (\<lambda>(ok, vm).
     if ok then next_op vm else Inr (RETURN VM_RUNTIME_ERROR, vm))))"

definition op_RET :: "vm_t \<Rightarrow> step_res" where
  "op_RET vm =
     bindr (POP vm) (\<lambda>(result, vm).
     bindr (cur_frame vm) (\<lambda>frame.
     let vm = vm\<lparr>frames := tl (frames vm)\<rparr>
     in if frames vm = [] then bindr (POP vm) (\<lambda>(_, vm). Inr (RETURN VM_OK, vm))
        else push_next result (vm\<lparr>vm_top := fr_slots frame\<rparr>)))"

subsection \<open>Logic and comparison\<close>

definition op_NOT :: "vm_t \<Rightarrow> step_res" where
  "op_NOT vm = bindr (POP vm) (\<lambda>(v, vm). push_next (VAL_BOOL (IS_FALSEY v)) vm)"

definition op_NEG :: "vm_t \<Rightarrow> step_res" where
  "op_NEG vm =
     bindr (PEEK 0 vm) (\<lambda>v.
     case AS_TYPE v of
       VT_BOOL \<Rightarrow>
         bindr (POP vm) (\<lambda>(v, vm). push_next (VAL_NUM (d_of_int (- of_bool (AS_BOOL v)))) vm)
     | VT_NUM \<Rightarrow> bindr (POP vm) (\<lambda>(v, vm). push_next (VAL_NUM (d_neg (AS_NUM v))) vm)
     | _ \<Rightarrow> ERROR ''Operands must be a number/boolean.'' vm)"

definition op_EQ :: "vm_t \<Rightarrow> step_res" where
  "op_EQ vm =
     bindr (POP vm) (\<lambda>(b, vm).
     bindr (POP vm) (\<lambda>(a, vm). push_next (VAL_BOOL (val_equal a b)) vm))"

text \<open>
  The switch on the packed tags of the two operands that six operations share: the value that
  the matching case pushes, and \<open>None\<close> when no case matches. \<open>nn\<close> works on doubles and is used
  by every case with a number; \<open>bb\<close> works on two booleans, read as 0 or 1.
\<close>

definition binary_switch ::
  "(double \<Rightarrow> double \<Rightarrow> val_t) \<Rightarrow> (bool \<Rightarrow> bool \<Rightarrow> val_t) \<Rightarrow> val_t \<Rightarrow> val_t \<Rightarrow> val_t option" where
  "binary_switch nn bb a b =
     (let c = VT_PAIR a b
      in if c = VT_NUM_NUM then Some (nn (AS_NUM a) (AS_NUM b))
         else if c = VT_BOOL_BOOL then Some (bb (AS_BOOL a) (AS_BOOL b))
         else if c = VT_BOOL_NUM then Some (nn (d_of_bool (AS_BOOL a)) (AS_NUM b))
         else if c = VT_NUM_BOOL then Some (nn (AS_NUM a) (d_of_bool (AS_BOOL b)))
         else None)"

definition binary_op ::
  "(double \<Rightarrow> double \<Rightarrow> val_t) \<Rightarrow> (bool \<Rightarrow> bool \<Rightarrow> val_t) \<Rightarrow> (vm_t \<Rightarrow> step_res) \<Rightarrow> vm_t \<Rightarrow> step_res" where
  "binary_op nn bb other vm =
     bindr (PEEK 1 vm) (\<lambda>a.
     bindr (PEEK 0 vm) (\<lambda>b.
     case binary_switch nn bb a b of
       None \<Rightarrow> other vm
     | Some v \<Rightarrow> bindr (POP vm) (\<lambda>(_, vm). bindr (POP vm) (\<lambda>(_, vm). push_next v vm))))"

definition bad_operands :: "vm_t \<Rightarrow> step_res" where
  "bad_operands = ERROR ''Operands must be two numbers/booleans.''"

definition op_LT :: "vm_t \<Rightarrow> step_res" where
  "op_LT = binary_op (\<lambda>a b. VAL_BOOL (d_lt a b)) (\<lambda>a b. VAL_BOOL (\<not> a \<and> b)) bad_operands"

definition op_LE :: "vm_t \<Rightarrow> step_res" where
  "op_LE = binary_op (\<lambda>a b. VAL_BOOL (d_le a b)) (\<lambda>a b. VAL_BOOL (a \<longrightarrow> b)) bad_operands"

subsection \<open>Arithmetic\<close>

definition bool_int :: "(int \<Rightarrow> int \<Rightarrow> int) \<Rightarrow> bool \<Rightarrow> bool \<Rightarrow> val_t" where
  "bool_int f a b = VAL_NUM (d_of_int (f (of_bool a) (of_bool b)))"

definition op_ADD :: "vm_t \<Rightarrow> step_res" where
  "op_ADD =
     binary_op (\<lambda>a b. VAL_NUM (d_add a b)) (bool_int (+)) (\<lambda>vm.
     bindr (PEEK 1 vm) (\<lambda>a.
     bindr (PEEK 0 vm) (\<lambda>b.
     if VT_PAIR a b = VT_OBJ_OBJ then
       bindr (IS_STR b vm) (\<lambda>sb.
       bindr (if sb then IS_STR a vm else Inr False) (\<lambda>both.
       if both then bindr (concatenate vm) next_op
       else ERROR ''Operands must be two numbers/booleans/strings.'' vm))
     else ERROR ''Operands must be two numbers/booleans/strings.'' vm)))"

definition op_SUB :: "vm_t \<Rightarrow> step_res" where
  "op_SUB = binary_op (\<lambda>a b. VAL_NUM (d_sub a b)) (bool_int (-)) bad_operands"

definition op_MUL :: "vm_t \<Rightarrow> step_res" where
  "op_MUL = binary_op (\<lambda>a b. VAL_NUM (d_mul a b)) (bool_int (*)) bad_operands"

definition op_DIV :: "vm_t \<Rightarrow> step_res" where
  "op_DIV =
     binary_op (\<lambda>a b. VAL_NUM (d_div a b))
       (\<lambda>a b. VAL_NUM (d_div (d_of_bool a) (d_of_bool b))) bad_operands"

subsection \<open>Variables\<close>

definition global_get :: "addr \<Rightarrow> vm_t \<Rightarrow> val_t option res" where
  "global_get name vm = returns (tab_get (strs_of (heap vm)) (globals vm) name)"

definition global_set :: "addr \<Rightarrow> val_t \<Rightarrow> vm_t \<Rightarrow> (bool \<times> vm_t) res" where
  "global_set name v vm =
     bindr (returns (tab_set (strs_of (heap vm)) (globals vm) name v)) (\<lambda>(t, isNew).
     Inr (isNew, vm\<lparr>globals := t\<rparr>))"

definition global_remove :: "addr \<Rightarrow> vm_t \<Rightarrow> vm_t res" where
  "global_remove name vm =
     bindr (returns (tab_remove (strs_of (heap vm)) (globals vm) name)) (\<lambda>(t, _).
     Inr (vm\<lparr>globals := t\<rparr>))"

definition undefined_variable :: "addr \<Rightarrow> vm_t \<Rightarrow> step_res" where
  "undefined_variable name vm =
     ERROR (''Undefined variable '' @ [CHR 0x27] @ str_chars (strs_of (heap vm) name) @
       [CHR 0x27] @ ''.'') vm"

definition op_DEF :: "vm_t \<Rightarrow> step_res" where
  "op_DEF vm =
     bindr (READ_STR vm) (\<lambda>(name, vm).
     bindr (PEEK 0 vm) (\<lambda>v.
     bindr (global_set name v vm) (\<lambda>(_, vm).
     bindr (POP vm) (\<lambda>(_, vm). next_op vm))))"

definition op_GLD :: "vm_t \<Rightarrow> step_res" where
  "op_GLD vm =
     bindr (READ_STR vm) (\<lambda>(name, vm).
     bindr (global_get name vm) (\<lambda>found.
     case found of
       None \<Rightarrow> undefined_variable name vm
     | Some v \<Rightarrow> push_next v vm))"

definition op_GST :: "vm_t \<Rightarrow> step_res" where
  "op_GST vm =
     bindr (READ_STR vm) (\<lambda>(name, vm).
     bindr (PEEK 0 vm) (\<lambda>v.
     bindr (global_set name v vm) (\<lambda>(isNew, vm).
     if isNew then bindr (global_remove name vm) (undefined_variable name)
     else next_op vm)))"

text \<open>A local is a slot counted from the frame's base; only the array's end bounds it.\<close>

definition op_LD :: "vm_t \<Rightarrow> step_res" where
  "op_LD vm =
     bindr (READ_BYTE vm) (\<lambda>(i, vm).
     bindr (cur_frame vm) (\<lambda>f.
     let slot = fr_slots f + unat i
     in if slot < STACK_MAX then push_next (stack vm slot) vm
        else Inl (Undefined Stack_overflow)))"

definition op_ST :: "vm_t \<Rightarrow> step_res" where
  "op_ST vm =
     bindr (READ_BYTE vm) (\<lambda>(i, vm).
     bindr (cur_frame vm) (\<lambda>f.
     bindr (PEEK 0 vm) (\<lambda>v.
     let slot = fr_slots f + unat i
     in if slot < STACK_MAX then next_op (vm\<lparr>stack := (stack vm)(slot := v)\<rparr>)
        else Inl (Undefined Stack_overflow))))"

subsection \<open>Jumps\<close>

definition jump :: "u16 \<Rightarrow> vm_t \<Rightarrow> vm_t res" where
  "jump offset vm = bindr (get_ip vm) (\<lambda>ip. Inr (set_ip (ip + unat offset) vm))"

definition op_JMP :: "vm_t \<Rightarrow> step_res" where
  "op_JMP vm = bindr (READ_SHORT vm) (\<lambda>(offset, vm). bindr (jump offset vm) next_op)"

definition op_JMPF :: "vm_t \<Rightarrow> step_res" where
  "op_JMPF vm =
     bindr (READ_SHORT vm) (\<lambda>(offset, vm).
     bindr (PEEK 0 vm) (\<lambda>v.
     if IS_FALSEY v then bindr (jump offset vm) next_op else next_op vm))"

subsection \<open>Maps\<close>

text \<open>
  The loop of \<open>OP_MAP\<close>: the counter is the double \<open>count - 1\<close>, decremented to 0, and its bits are
  the key; the value is \<open>PEEK((int)i)\<close>. Here the counter is the natural number it stands for.
\<close>

fun map_fill :: "addr \<Rightarrow> nat \<Rightarrow> vm_t \<Rightarrow> vm_t res" where
  "map_fill m 0 vm = Inr vm"
| "map_fill m (Suc i) vm =
     bindr (PEEK i vm) (\<lambda>v.
     bindr (map_hash_set m (d_of_int (int i)) v vm) (\<lambda>vm. map_fill m i vm))"

definition op_MAP :: "vm_t \<Rightarrow> step_res" where
  "op_MAP vm =
     bindr (READ_BYTE vm) (\<lambda>(count, vm).
     bindr (map_new vm) (\<lambda>(m, vm).
     bindr (map_fill m (unat count) vm) (\<lambda>vm.
     bindr (POPN (unat count) vm) (push_next (VAL_OBJ m)))))"

definition as_map :: "val_t \<Rightarrow> vm_t \<Rightarrow> addr option res" where
  "as_map v vm =
     bindr (IS_MAP v vm) (\<lambda>b. Inr (case v of VAL_OBJ a \<Rightarrow> if b then Some a else None | _ \<Rightarrow> None))"

definition map_table_get :: "addr \<Rightarrow> addr \<Rightarrow> vm_t \<Rightarrow> val_t res" where
  "map_table_get a key vm =
     bindr (get_map a vm) (\<lambda>m.
     bindr (returns (tab_get (strs_of (heap vm)) (map_table m) key)) (\<lambda>r.
     Inr (case r of None \<Rightarrow> VAL_NULL | Some v \<Rightarrow> v)))"

definition map_hash_get :: "addr \<Rightarrow> u64 \<Rightarrow> vm_t \<Rightarrow> val_t res" where
  "map_hash_get a key vm =
     bindr (get_map a vm) (\<lambda>m.
     bindr (returns (hash_get (map_hash m) key)) (\<lambda>r.
     Inr (case r of None \<Rightarrow> VAL_NULL | Some v \<Rightarrow> v)))"

definition op_GET :: "vm_t \<Rightarrow> step_res" where
  "op_GET vm =
     bindr (PEEK 0 vm) (\<lambda>o1.
     bindr (as_map o1 vm) (\<lambda>m.
     case m of
       None \<Rightarrow> ERROR ''Operands must be a map.'' vm
     | Some m \<Rightarrow>
         bindr (READ_STR vm) (\<lambda>(name, vm).
         bindr (map_table_get m name vm) (\<lambda>value.
         bindr (POP vm) (\<lambda>(_, vm). push_next value vm)))))"

definition op_SET :: "vm_t \<Rightarrow> step_res" where
  "op_SET vm =
     bindr (PEEK 1 vm) (\<lambda>o1.
     bindr (as_map o1 vm) (\<lambda>m.
     case m of
       None \<Rightarrow> ERROR ''Operands must be a map.'' vm
     | Some m \<Rightarrow>
         bindr (READ_STR vm) (\<lambda>(name, vm).
         bindr (PEEK 0 vm) (\<lambda>value.
         bindr (map_table_set m name value vm) (\<lambda>vm.
         bindr (POPN 2 vm) (push_next value))))))"

definition op_GETI :: "vm_t \<Rightarrow> step_res" where
  "op_GETI vm =
     bindr (PEEK 1 vm) (\<lambda>o1.
     bindr (as_map o1 vm) (\<lambda>m.
     case m of
       None \<Rightarrow> ERROR ''Operands must be a map.'' vm
     | Some m \<Rightarrow>
         bindr (PEEK 0 vm) (\<lambda>key.
         if AS_TYPE key = VT_NUM then
           bindr (map_hash_get m (AS_RAW key) vm) (\<lambda>value.
           bindr (POPN 2 vm) (push_next value))
         else
           bindr (IS_STR key vm) (\<lambda>s.
           if s then
             bindr (AS_STR key vm) (\<lambda>name.
             bindr (map_table_get m name vm) (\<lambda>value.
             bindr (POPN 2 vm) (push_next value)))
           else ERROR ''Operands must be a number or string.'' vm))))"

definition op_SETI :: "vm_t \<Rightarrow> step_res" where
  "op_SETI vm =
     bindr (PEEK 2 vm) (\<lambda>o1.
     bindr (as_map o1 vm) (\<lambda>m.
     case m of
       None \<Rightarrow> ERROR ''Operands must be a map.'' vm
     | Some m \<Rightarrow>
         bindr (PEEK 1 vm) (\<lambda>key.
         if AS_TYPE key = VT_NUM then
           bindr (POP vm) (\<lambda>(value, vm).
           bindr (map_hash_set m (AS_RAW key) value vm) (\<lambda>vm.
           bindr (POPN 2 vm) (push_next value)))
         else
           bindr (IS_STR key vm) (\<lambda>s.
           if s then
             bindr (AS_STR key vm) (\<lambda>name.
             bindr (POP vm) (\<lambda>(value, vm).
             bindr (map_table_set m name value vm) (\<lambda>vm.
             bindr (POPN 2 vm) (push_next value))))
           else ERROR ''Operands must be a number or string.'' vm))))"

subsection \<open>Dispatch and the loop\<close>

fun exec_op :: "natives \<Rightarrow> opcode_t \<Rightarrow> vm_t \<Rightarrow> step_res" where
  "exec_op native OP_PRINT = op_PRINT"
| "exec_op native OP_POP = op_POP"
| "exec_op native OP_CALL = op_CALL native"
| "exec_op native OP_RET = op_RET"
| "exec_op native OP_NIL = op_NIL"
| "exec_op native OP_TRUE = op_TRUE"
| "exec_op native OP_FALSE = op_FALSE"
| "exec_op native OP_CONST = op_CONST"
| "exec_op native OP_NEG = op_NEG"
| "exec_op native OP_NOT = op_NOT"
| "exec_op native OP_LT = op_LT"
| "exec_op native OP_LE = op_LE"
| "exec_op native OP_EQ = op_EQ"
| "exec_op native OP_ADD = op_ADD"
| "exec_op native OP_SUB = op_SUB"
| "exec_op native OP_MUL = op_MUL"
| "exec_op native OP_DIV = op_DIV"
| "exec_op native OP_DEF = op_DEF"
| "exec_op native OP_GLD = op_GLD"
| "exec_op native OP_GST = op_GST"
| "exec_op native OP_JMP = op_JMP"
| "exec_op native OP_JMPF = op_JMPF"
| "exec_op native OP_LD = op_LD"
| "exec_op native OP_ST = op_ST"
| "exec_op native OP_MAP = op_MAP"
| "exec_op native OP_GET = op_GET"
| "exec_op native OP_SET = op_SET"
| "exec_op native OP_GETI = op_GETI"
| "exec_op native OP_SETI = op_SETI"

definition vm_step :: "natives \<Rightarrow> vm_t \<Rightarrow> step_res" where
  "vm_step native vm =
     bindr (READ_BYTE vm) (\<lambda>(b, vm).
     case decode_op b of
       Some op \<Rightarrow> exec_op native op vm
     | None \<Rightarrow> ERROR (''Bad opcode, got '' @ show_nat (unat b) @ [CHR 0x21]) vm)"

partial_function (option) vm_execute :: "natives \<Rightarrow> vm_t \<Rightarrow> (vm_result \<times> vm_t) res option" where
  "vm_execute native vm =
     (case vm_step native vm of
        Inl e \<Rightarrow> Some (Inl e)
      | Inr r \<Rightarrow>
          (case fst r of
             NEXT \<Rightarrow> vm_execute native (snd r)
           | RETURN res \<Rightarrow> Some (Inr (res, snd r))))"

declare vm_execute.simps [code]

end
