(* ===== verification/Contract.thy ===== *)
theory Contract
  imports Execute
begin

text \<open>
  What every instruction of \<open>vm_execute\<close> keeps. The locale \<open>vm_contract\<close> lists what an invariant
  of the machine has to guarantee of the few operations that change the heap, the tables or the
  bounds; inside it the invariant is shown for each of the 29 blocks, the dispatch and the loop,
  once for all invariants. \<open>E\<close> names the faults that are allowed, so the same proof shows that an
  instruction returns.
\<close>

subsection \<open>Post-conditions of results\<close>

definition okr :: "(fault \<Rightarrow> bool) \<Rightarrow> ('a \<Rightarrow> bool) \<Rightarrow> 'a res \<Rightarrow> bool" where
  "okr E Q r \<longleftrightarrow> (case r of Inl e \<Rightarrow> E e | Inr x \<Rightarrow> Q x)"

lemma okr_simps [simp]: "okr E Q (Inl e) = E e" "okr E Q (Inr x) = Q x"
  by (simp_all add: okr_def)

lemma okr_bindr [simp]: "okr E Q (bindr m f) \<longleftrightarrow> okr E (\<lambda>x. okr E Q (f x)) m"
  by (cases m) simp_all

lemma okr_mono: "okr E P r \<Longrightarrow> (\<And>x. r = Inr x \<Longrightarrow> P x \<Longrightarrow> Q x) \<Longrightarrow> okr E Q r"
  by (cases r) simp_all

lemma okr_Inr: "okr E Q r \<Longrightarrow> r = Inr x \<Longrightarrow> Q x"
  by simp

lemma okr_if [simp]: "okr E Q (if b then r else s) \<longleftrightarrow> (b \<longrightarrow> okr E Q r) \<and> (\<not> b \<longrightarrow> okr E Q s)"
  by simp

text \<open>The parts of the machine that only some operations change.\<close>

definition same_store :: "vm_t \<Rightarrow> vm_t \<Rightarrow> bool" where
  "same_store vm vm' \<longleftrightarrow>
     heap vm' = heap vm \<and> strings vm' = strings vm \<and> globals vm' = globals vm \<and>
     next_addr vm' = next_addr vm \<and> junk vm' = junk vm \<and> gc_vm vm' = gc_vm vm \<and>
     gc_allocated vm' = gc_allocated vm \<and> gc_nextGC vm' = gc_nextGC vm \<and>
     gc_objects vm' = gc_objects vm \<and> gc_gray vm' = gc_gray vm"

lemma same_store_refl [simp]: "same_store vm vm"
  by (simp add: same_store_def)

lemma same_store_trans: "same_store a b \<Longrightarrow> same_store b c \<Longrightarrow> same_store a c"
  by (simp add: same_store_def)

definition in_bounds :: "vm_t \<Rightarrow> bool" where
  "in_bounds vm \<longleftrightarrow> vm_top vm \<le> STACK_MAX \<and> length (frames vm) \<le> FRAMES_MAX \<and>
     (\<forall>s \<in> set (map fr_slots (frames vm)). s \<le> STACK_MAX)"

lemma set_ip_simps [simp]:
  "heap (set_ip i vm) = heap vm" "vm_top (set_ip i vm) = vm_top vm"
  "stack (set_ip i vm) = stack vm" "globals (set_ip i vm) = globals vm"
  "strings (set_ip i vm) = strings vm" "same_store vm (set_ip i vm)"
  "length (frames (set_ip i vm)) = length (frames vm)"
  "map fr_slots (frames (set_ip i vm)) = map fr_slots (frames vm)"
  by (simp_all add: set_ip_def same_store_def split: list.split)

text \<open>The keys that \<open>OP_SETI\<close> may be given.\<close>

definition index_keys :: "(u64 \<Rightarrow> bool) \<Rightarrow> vm_t \<Rightarrow> bool" where
  "index_keys K vm \<longleftrightarrow> (\<forall>k. PEEK 1 vm = Inr (VAL_NUM k) \<longrightarrow> K k)"

lemma index_keys_cong:
  "stack vm' = stack vm \<Longrightarrow> vm_top vm' = vm_top vm \<Longrightarrow> index_keys K vm' = index_keys K vm"
  by (simp add: index_keys_def PEEK_def)

lemma index_keys_True [simp]: "index_keys (\<lambda>_. True) vm"
  by (simp add: index_keys_def)

subsection \<open>The contract\<close>

locale vm_contract =
  fixes I :: "vm_t \<Rightarrow> bool"
    and E :: "fault \<Rightarrow> bool"
    and K :: "u64 \<Rightarrow> bool"
  assumes undefined_E: "E (Undefined u)"
    and I_bounds: "I vm \<Longrightarrow> in_bounds vm"
    and I_machine: "I vm \<Longrightarrow> same_store vm vm' \<Longrightarrow> in_bounds vm' \<Longrightarrow> I vm'"
    and I_strings: "I vm \<Longrightarrow> is_str (heap vm) a \<Longrightarrow> str_coherent (str_of vm a)"
    and I_take: "I vm \<Longrightarrow> length chars = len \<Longrightarrow> okr E (\<lambda>(_, vm'). I vm') (str_take chars len vm)"
    and I_global_get: "I vm \<Longrightarrow> okr E (\<lambda>_. True) (global_get name vm)"
    and I_global_set:
      "I vm \<Longrightarrow> is_str (heap vm) name \<Longrightarrow> okr E (\<lambda>(_, vm'). I vm') (global_set name v vm)"
    and I_global_remove: "I vm \<Longrightarrow> okr E I (global_remove name vm)"
    and I_map_new: "I vm \<Longrightarrow> okr E (\<lambda>(_, vm'). I vm') (map_new vm)"
    and I_table_get: "I vm \<Longrightarrow> okr E (\<lambda>_. True) (map_table_get m name vm)"
    and I_table_set:
      "I vm \<Longrightarrow> is_str (heap vm) name \<Longrightarrow> okr E I (map_table_set m name v vm)"
    and I_hash_get: "I vm \<Longrightarrow> okr E (\<lambda>_. True) (map_hash_get m key vm)"
    and I_hash_set: "I vm \<Longrightarrow> K key \<Longrightarrow> okr E I (map_hash_set m key v vm)"
    and small_keys: "i < 256 \<Longrightarrow> K (d_of_int (int i))"
begin

text \<open>The rules have the post-condition as a variable, so that they apply backwards.\<close>

lemma wp_PUSH:
  assumes "I vm" and Q: "\<And>vm'. I vm' \<Longrightarrow> heap vm' = heap vm \<Longrightarrow> Q vm'"
  shows "okr E Q (PUSH v vm)"
  using I_bounds [OF assms(1)]
  by (auto simp: PUSH_def undefined_E in_bounds_def same_store_def
      intro!: Q I_machine [OF assms(1)])

lemma wp_POP:
  assumes "I vm" and Q: "\<And>v vm'. I vm' \<Longrightarrow> heap vm' = heap vm \<Longrightarrow> Q (v, vm')"
  shows "okr E Q (POP vm)"
  using I_bounds [OF assms(1)]
  by (auto simp: POP_def undefined_E in_bounds_def same_store_def
      intro!: Q I_machine [OF assms(1)])

lemma wp_POPN:
  assumes "I vm" and Q: "\<And>vm'. I vm' \<Longrightarrow> heap vm' = heap vm \<Longrightarrow> Q vm'"
  shows "okr E Q (POPN n vm)"
  using I_bounds [OF assms(1)]
  by (auto simp: POPN_def undefined_E in_bounds_def same_store_def
      intro!: Q I_machine [OF assms(1)])

lemma wp_PEEK: "(\<And>v. PEEK i vm = Inr v \<Longrightarrow> Q v) \<Longrightarrow> okr E Q (PEEK i vm)"
  by (auto simp: PEEK_def undefined_E)

lemma wp_get_fun: "(\<And>f. Q f) \<Longrightarrow> okr E Q (get_fun a vm)"
  by (auto simp: get_fun_def undefined_E split: option.split obj_body.split)

lemma wp_cur_frame: "(\<And>f. f \<in> set (frames vm) \<Longrightarrow> Q f) \<Longrightarrow> okr E Q (cur_frame vm)"
  by (auto simp: cur_frame_def undefined_E split: list.split)

lemma wp_cur_chunk: "(\<And>c. Q c) \<Longrightarrow> okr E Q (cur_chunk vm)"
  by (auto simp: cur_chunk_def intro!: wp_cur_frame wp_get_fun)

lemma wp_get_ip: "(\<And>i. Q i) \<Longrightarrow> okr E Q (get_ip vm)"
  by (auto simp: get_ip_def intro!: wp_cur_frame)

lemma I_set_ip: "I vm \<Longrightarrow> I (set_ip i vm)"
  using I_bounds [of vm] by (auto simp: in_bounds_def simp del: set_map intro: I_machine [of vm])

lemma wp_READ_BYTE:
  assumes "I vm" and Q: "\<And>b vm'. I vm' \<Longrightarrow> heap vm' = heap vm \<Longrightarrow> stack vm' = stack vm \<Longrightarrow>
    vm_top vm' = vm_top vm \<Longrightarrow> Q (b, vm')"
  shows "okr E Q (READ_BYTE vm)"
  by (auto simp: READ_BYTE_def undefined_E intro!: wp_get_ip wp_cur_chunk I_set_ip Q assms(1))

lemma wp_READ_SHORT:
  "I vm \<Longrightarrow> (\<And>s vm'. I vm' \<Longrightarrow> heap vm' = heap vm \<Longrightarrow> Q (s, vm')) \<Longrightarrow> okr E Q (READ_SHORT vm)"
  by (auto simp: READ_SHORT_def intro!: wp_READ_BYTE)

lemma wp_READ_CONST:
  "I vm \<Longrightarrow> (\<And>v vm'. I vm' \<Longrightarrow> heap vm' = heap vm \<Longrightarrow> Q (v, vm')) \<Longrightarrow> okr E Q (READ_CONST vm)"
  by (auto simp: READ_CONST_def undefined_E intro!: wp_READ_BYTE wp_cur_chunk)

lemma wp_AS_STR: "(\<And>a. is_str (heap vm) a \<Longrightarrow> Q a) \<Longrightarrow> okr E Q (AS_STR v vm)"
  by (auto simp: AS_STR_def undefined_E split: val_t.split)

lemma wp_READ_STR:
  "I vm \<Longrightarrow> (\<And>a vm'. I vm' \<Longrightarrow> heap vm' = heap vm \<Longrightarrow> is_str (heap vm') a \<Longrightarrow> Q (a, vm')) \<Longrightarrow>
     okr E Q (READ_STR vm)"
  by (auto simp: READ_STR_def intro!: wp_READ_CONST wp_AS_STR)

lemma wp_obj_body_of: "(\<And>b. Q b) \<Longrightarrow> okr E Q (obj_body_of v vm)"
  by (auto simp: obj_body_of_def undefined_E split: val_t.split option.split)

lemma wp_IS_STR: "(\<And>b. Q b) \<Longrightarrow> okr E Q (IS_STR v vm)"
  by (auto simp: IS_STR_def intro!: wp_obj_body_of)

lemma wp_IS_MAP: "(\<And>b. Q b) \<Longrightarrow> okr E Q (IS_MAP v vm)"
  by (auto simp: IS_MAP_def intro!: wp_obj_body_of)

lemma wp_as_map: "(\<And>m. Q m) \<Longrightarrow> okr E Q (as_map v vm)"
  by (auto simp: as_map_def intro!: wp_IS_MAP split: val_t.split)

lemma wp_val_print: "(\<And>s. Q s) \<Longrightarrow> okr E Q (val_print v vm)"
  by (auto simp: val_print_def obj_print_def undefined_E split: val_t.split option.split obj_body.split)

lemma wp_print_values: "(\<And>s. Q s) \<Longrightarrow> okr E Q (print_values n vm)"
  by (induction n arbitrary: Q) (auto intro!: wp_PEEK wp_val_print)

lemma wp_trace_frame: "(\<And>t. Q t) \<Longrightarrow> okr E Q (trace_frame vm f)"
  by (auto simp: trace_frame_def undefined_E Let_def intro!: wp_get_fun split: option.split)

lemma wp_trace_frames: "(\<And>t. Q t) \<Longrightarrow> okr E Q (trace_frames vm fs)"
  by (induction fs arbitrary: Q) (auto intro!: wp_trace_frame)

lemma I_resetStack: "I vm \<Longrightarrow> I (resetStack (vm\<lparr>stderr := e\<rparr>))"
  by (auto simp: resetStack_def in_bounds_def same_store_def intro: I_machine [of vm])

lemma wp_runtimeError:
  "I vm \<Longrightarrow> (\<And>vm'. I vm' \<Longrightarrow> Q vm') \<Longrightarrow> okr E Q (runtimeError msg vm)"
  by (auto simp: runtimeError_def intro!: wp_trace_frames I_resetStack)

lemma wp_ERROR:
  "I vm \<Longrightarrow> (\<And>vm'. I vm' \<Longrightarrow> Q (RETURN VM_RUNTIME_ERROR, vm')) \<Longrightarrow> okr E Q (ERROR msg vm)"
  by (auto simp: ERROR_def intro!: wp_runtimeError)

lemma wp_str_take:
  "I vm \<Longrightarrow> length chars = len \<Longrightarrow> (\<And>a vm'. I vm' \<Longrightarrow> Q (a, vm')) \<Longrightarrow>
     okr E Q (str_take chars len vm)"
  by (rule okr_mono [OF I_take]) auto

lemma length_take_coherent:
  "I vm \<Longrightarrow> is_str (heap vm) a \<Longrightarrow>
     length (take (str_length (strs_of (heap vm) a)) (str_chars (strs_of (heap vm) a)))
       = str_length (strs_of (heap vm) a)"
  using I_strings [of vm a] by (simp add: str_coherent_def str_of_def)

lemma wp_concatenate:
  "I vm \<Longrightarrow> (\<And>vm'. I vm' \<Longrightarrow> Q vm') \<Longrightarrow> okr E Q (concatenate vm)"
  by (auto simp: concatenate_def Let_def length_take_coherent simp del: length_take
      intro!: wp_POP wp_AS_STR wp_str_take wp_PUSH)

text \<open>The facts that the blocks need.\<close>

lemma wp_push_next:
  assumes "I vm"
  shows "okr E (\<lambda>(_, vm'). I vm') (push_next v vm)"
  using assms by (auto simp: push_next_def next_op_def intro!: wp_PUSH)

lemma wp_next_op: "I vm \<Longrightarrow> okr E (\<lambda>(_, vm'). I vm') (next_op vm)"
  by (simp add: next_op_def)

lemma wp_error: "I vm \<Longrightarrow> okr E (\<lambda>(_, vm'). I vm') (ERROR msg vm)"
  by (auto intro!: wp_ERROR)

lemmas wp_rules =
  wp_push_next wp_next_op wp_error wp_PUSH wp_POP wp_POPN wp_PEEK wp_get_fun wp_cur_frame wp_get_ip
  wp_READ_BYTE wp_READ_SHORT wp_READ_CONST wp_READ_STR wp_AS_STR wp_IS_STR wp_IS_MAP wp_as_map
  wp_val_print wp_print_values wp_runtimeError wp_str_take wp_concatenate wp_obj_body_of

lemma wp_global_get: "I vm \<Longrightarrow> (\<And>v. Q v) \<Longrightarrow> okr E Q (global_get name vm)"
  by (rule okr_mono [OF I_global_get]) auto

lemma wp_global_set:
  "I vm \<Longrightarrow> is_str (heap vm) name \<Longrightarrow> (\<And>n vm'. I vm' \<Longrightarrow> Q (n, vm')) \<Longrightarrow>
     okr E Q (global_set name v vm)"
  by (rule okr_mono [OF I_global_set]) auto

lemma wp_global_remove:
  "I vm \<Longrightarrow> (\<And>vm'. I vm' \<Longrightarrow> Q vm') \<Longrightarrow> okr E Q (global_remove name vm)"
  by (rule okr_mono [OF I_global_remove]) auto

lemma wp_map_new: "I vm \<Longrightarrow> (\<And>a vm'. I vm' \<Longrightarrow> Q (a, vm')) \<Longrightarrow> okr E Q (map_new vm)"
  by (rule okr_mono [OF I_map_new]) auto

lemma wp_table_get: "I vm \<Longrightarrow> (\<And>v. Q v) \<Longrightarrow> okr E Q (map_table_get m name vm)"
  by (rule okr_mono [OF I_table_get]) auto

lemma wp_hash_get: "I vm \<Longrightarrow> (\<And>v. Q v) \<Longrightarrow> okr E Q (map_hash_get m key vm)"
  by (rule okr_mono [OF I_hash_get]) auto

lemma wp_table_set:
  "I vm \<Longrightarrow> is_str (heap vm) name \<Longrightarrow> (\<And>vm'. I vm' \<Longrightarrow> Q vm') \<Longrightarrow>
     okr E Q (map_table_set m name v vm)"
  by (rule okr_mono [OF I_table_set]) auto

lemma wp_hash_set:
  "I vm \<Longrightarrow> K key \<Longrightarrow> (\<And>vm'. I vm' \<Longrightarrow> Q vm') \<Longrightarrow> okr E Q (map_hash_set m key v vm)"
  by (rule okr_mono [OF I_hash_set]) auto

lemmas wp_store =
  wp_global_get wp_global_set wp_global_remove wp_map_new wp_table_get wp_table_set wp_hash_get
  wp_hash_set

lemma I_stdout: "I vm \<Longrightarrow> I (vm\<lparr>stdout := out\<rparr>)"
  using I_bounds [of vm] by (auto simp: in_bounds_def same_store_def intro: I_machine [of vm])

lemma I_stack: "I vm \<Longrightarrow> I (vm\<lparr>stack := st\<rparr>)"
  using I_bounds [of vm] by (auto simp: in_bounds_def same_store_def intro: I_machine [of vm])

lemma keeps_stack_ops:
  assumes "I vm"
  shows "okr E (\<lambda>(_, vm'). I vm') (op_PRINT vm)" and "okr E (\<lambda>(_, vm'). I vm') (op_POP vm)"
    and "okr E (\<lambda>(_, vm'). I vm') (op_NIL vm)" and "okr E (\<lambda>(_, vm'). I vm') (op_TRUE vm)"
    and "okr E (\<lambda>(_, vm'). I vm') (op_FALSE vm)" and "okr E (\<lambda>(_, vm'). I vm') (op_CONST vm)"
    and "okr E (\<lambda>(_, vm'). I vm') (op_NOT vm)" and "okr E (\<lambda>(_, vm'). I vm') (op_NEG vm)"
    and "okr E (\<lambda>(_, vm'). I vm') (op_EQ vm)"
  using assms
  by (auto simp: op_PRINT_def op_POP_def op_NIL_def op_TRUE_def op_FALSE_def op_CONST_def op_NOT_def
      op_NEG_def op_EQ_def Let_def intro!: wp_rules I_stdout split: vtype.split)

lemma wp_binary_op:
  assumes "I vm" and "okr E (\<lambda>(_, vm'). I vm') (other vm)"
  shows "okr E (\<lambda>(_, vm'). I vm') (binary_op nn bb other vm)"
  using assms by (auto simp: binary_op_def intro!: wp_rules split: option.split)

lemma keeps_arithmetic:
  assumes "I vm"
  shows "okr E (\<lambda>(_, vm'). I vm') (op_LT vm)" and "okr E (\<lambda>(_, vm'). I vm') (op_LE vm)"
    and "okr E (\<lambda>(_, vm'). I vm') (op_ADD vm)" and "okr E (\<lambda>(_, vm'). I vm') (op_SUB vm)"
    and "okr E (\<lambda>(_, vm'). I vm') (op_MUL vm)" and "okr E (\<lambda>(_, vm'). I vm') (op_DIV vm)"
  using assms
  by (auto simp: op_LT_def op_LE_def op_ADD_def op_SUB_def op_MUL_def op_DIV_def bad_operands_def
      intro!: wp_rules wp_binary_op)

lemma keeps_variables:
  assumes "I vm"
  shows "okr E (\<lambda>(_, vm'). I vm') (op_DEF vm)" and "okr E (\<lambda>(_, vm'). I vm') (op_GLD vm)"
    and "okr E (\<lambda>(_, vm'). I vm') (op_GST vm)" and "okr E (\<lambda>(_, vm'). I vm') (op_LD vm)"
    and "okr E (\<lambda>(_, vm'). I vm') (op_ST vm)"
  using assms
  by (auto simp: op_DEF_def op_GLD_def op_GST_def op_LD_def op_ST_def undefined_variable_def
      undefined_E Let_def intro!: wp_rules wp_store I_stack split: option.split)

lemma keeps_jumps:
  assumes "I vm"
  shows "okr E (\<lambda>(_, vm'). I vm') (op_JMP vm)" and "okr E (\<lambda>(_, vm'). I vm') (op_JMPF vm)"
  using assms by (auto simp: op_JMP_def op_JMPF_def jump_def intro!: wp_rules I_set_ip)

lemma wp_map_fill:
  assumes "I vm" and "n \<le> 256" and "\<And>vm'. I vm' \<Longrightarrow> Q vm'"
  shows "okr E Q (map_fill m n vm)"
  using assms(1,2)
  by (induction n arbitrary: vm) (auto intro!: assms(3) wp_rules wp_store small_keys)

lemma keeps_maps:
  assumes "I vm" and "index_keys K vm"
  shows "okr E (\<lambda>(_, vm'). I vm') (op_MAP vm)" and "okr E (\<lambda>(_, vm'). I vm') (op_GET vm)"
    and "okr E (\<lambda>(_, vm'). I vm') (op_SET vm)" and "okr E (\<lambda>(_, vm'). I vm') (op_GETI vm)"
    and "okr E (\<lambda>(_, vm'). I vm') (op_SETI vm)"
proof -
  have "unat (b :: u8) < 2 ^ LENGTH(8)" for b by (rule unsigned_less)
  then have n: "unat (b :: u8) \<le> 256" for b by (simp add: less_imp_le)
  show "okr E (\<lambda>(_, vm'). I vm') (op_MAP vm)"
    using assms n by (auto simp: op_MAP_def intro!: wp_rules wp_store wp_map_fill)
  show "okr E (\<lambda>(_, vm'). I vm') (op_GET vm)" "okr E (\<lambda>(_, vm'). I vm') (op_SET vm)"
    "okr E (\<lambda>(_, vm'). I vm') (op_GETI vm)"
    using assms
    by (auto simp: op_GET_def op_SET_def op_GETI_def intro!: wp_rules wp_store split: option.split)
  have K: "K (AS_RAW v)" if "PEEK 1 vm = Inr v" "AS_TYPE v = VT_NUM" for v
    using that assms(2) by (cases v) (auto simp: index_keys_def)
  show "okr E (\<lambda>(_, vm'). I vm') (op_SETI vm)"
    using assms(1) K by (auto simp: op_SETI_def intro!: wp_rules wp_store split: option.split)
qed

lemma wp_prepareCall:
  assumes "I vm"
  shows "okr E (\<lambda>(_, vm'). I vm') (prepareCall a n vm)"
proof -
  have "I (vm\<lparr>frames := f # frames vm\<rparr>)" if "length (frames vm) \<noteq> FRAMES_MAX"
    "fr_slots f \<le> STACK_MAX" for f
    using that I_bounds [OF assms]
    by (auto simp: in_bounds_def same_store_def intro!: I_machine [OF assms])
  with assms I_bounds [OF assms] show ?thesis
    by (auto simp: prepareCall_def undefined_E in_bounds_def intro!: wp_rules)
qed

lemma keeps_vm_call:
  assumes "I vm"
    and native: "\<And>f n i vm. I vm \<Longrightarrow> okr E (\<lambda>(_, vm'). I vm') (native f n i vm)"
  shows "okr E (\<lambda>(_, vm'). I vm') (vm_call native v n vm)"
proof (cases v)
  case (VAL_CFN f)
  with assms(1) show ?thesis
    by (auto simp: vm_call_def intro!: okr_mono [OF native] wp_rules)
qed (use assms(1) in \<open>auto simp: vm_call_def Let_def
    intro!: wp_rules wp_prepareCall split: option.split obj_body.split\<close>)

lemma keeps_calls:
  assumes "I vm"
    and native: "\<And>f n i vm. I vm \<Longrightarrow> okr E (\<lambda>(_, vm'). I vm') (native f n i vm)"
  shows "okr E (\<lambda>(_, vm'). I vm') (op_CALL native vm)" and "okr E (\<lambda>(_, vm'). I vm') (op_RET vm)"
proof -
  note call = keeps_vm_call [OF _ native]
  show "okr E (\<lambda>(_, vm'). I vm') (op_CALL native vm)"
    using assms(1) by (auto simp: op_CALL_def next_op_def intro!: wp_rules okr_mono [OF call])
  have pop_frame: "I (vm\<lparr>frames := fs, vm_top := t\<rparr>)" "I (vm\<lparr>frames := fs\<rparr>)"
    if "I vm" "fs = tl (frames vm)" "t \<le> STACK_MAX" for vm fs t
    using that I_bounds [OF that(1)] list.set_sel(2) [of "frames vm"]
    by (cases "frames vm"; auto simp: in_bounds_def same_store_def intro!: I_machine [OF that(1)])+
  have slots: "fr_slots f \<le> STACK_MAX" if "I vm" "f \<in> set (frames vm)" for vm f
    using that I_bounds [OF that(1)] by (auto simp: in_bounds_def)
  show "okr E (\<lambda>(_, vm'). I vm') (op_RET vm)"
    using assms(1) by (auto simp: op_RET_def Let_def intro!: wp_rules pop_frame slots)
qed

subsection \<open>The dispatch and the loop\<close>

lemma keeps_exec_op:
  assumes "I vm" and "index_keys K vm"
    and "\<And>f n i vm. I vm \<Longrightarrow> okr E (\<lambda>(_, vm'). I vm') (native f n i vm)"
  shows "okr E (\<lambda>(_, vm'). I vm') (exec_op native op vm)"
  using keeps_stack_ops [OF assms(1)] keeps_arithmetic [OF assms(1)] keeps_variables [OF assms(1)]
    keeps_jumps [OF assms(1)] keeps_maps [OF assms(1,2)] keeps_calls [OF assms(1,3)]
  by (cases op) simp_all

lemma keeps_step:
  assumes "I vm" and "index_keys K vm"
    and "\<And>f n i vm. I vm \<Longrightarrow> okr E (\<lambda>(_, vm'). I vm') (native f n i vm)"
  shows "okr E (\<lambda>(_, vm'). I vm') (vm_step native vm)"
proof -
  have "okr E (\<lambda>(_, vm'). I vm')
     (case decode_op b of
        Some op \<Rightarrow> exec_op native op vm'
      | None \<Rightarrow> ERROR (''Bad opcode, got '' @ show_nat (unat b) @ [CHR 0x21]) vm')"
    if v: "I vm'" "stack vm' = stack vm" "vm_top vm' = vm_top vm" for b vm'
  proof -
    have "index_keys K vm'" using assms(2) v(2,3) index_keys_cong by blast
    with v(1) assms(3) show ?thesis
      by (auto intro!: wp_error keeps_exec_op split: option.split)
  qed
  then show ?thesis
    unfolding vm_step_def okr_bindr by (auto intro: wp_READ_BYTE [OF assms(1)])
qed

end

text \<open>The states that the loop goes through.\<close>

inductive vm_runs :: "natives \<Rightarrow> vm_t \<Rightarrow> vm_t \<Rightarrow> bool" for native vm where
  vm_runs_refl: "vm_runs native vm vm"
| vm_runs_step: "vm_runs native vm vm1 \<Longrightarrow> vm_step native vm1 = Inr (NEXT, vm2) \<Longrightarrow> vm_runs native vm vm2"

inductive_cases vm_runs_cases: "vm_runs native vm vm'"

lemma vm_runs_front:
  assumes "vm_step native vm = Inr (NEXT, vm1)" and "vm_runs native vm1 vm2"
  shows "vm_runs native vm vm2"
  using assms(2)
proof induction
  case vm_runs_refl
  from vm_runs.vm_runs_refl assms(1) show ?case by (rule vm_runs.vm_runs_step)
next
  case (vm_runs_step vm1 vm2)
  from vm_runs_step.IH vm_runs_step.hyps(2) show ?case by (rule vm_runs.vm_runs_step)
qed

text \<open>What \<open>vm_execute\<close> returns is the outcome of the last instruction of a run.\<close>

lemma vm_execute_runs:
  assumes "vm_execute native vm = Some r"
  shows "\<exists>vm1. vm_runs native vm vm1 \<and>
           (case r of
              Inl e \<Rightarrow> vm_step native vm1 = Inl e
            | Inr (res, vm2) \<Rightarrow> vm_step native vm1 = Inr (RETURN res, vm2))"
proof (rule vm_execute.raw_induct [where P = "\<lambda>native vm r. \<exists>vm1. vm_runs native vm vm1 \<and>
           (case r of
              Inl e \<Rightarrow> vm_step native vm1 = Inl e
            | Inr (res, vm2) \<Rightarrow> vm_step native vm1 = Inr (RETURN res, vm2))", OF _ assms])
  fix f native vm r
  assume IH: "\<And>native vm r. f native vm = Some r \<Longrightarrow> \<exists>vm1. vm_runs native vm vm1 \<and>
           (case r of
              Inl e \<Rightarrow> vm_step native vm1 = Inl e
            | Inr (res, vm2) \<Rightarrow> vm_step native vm1 = Inr (RETURN res, vm2))"
    and eq: "(case vm_step native vm of
        Inl e \<Rightarrow> Some (Inl e)
      | Inr r \<Rightarrow> (case fst r of NEXT \<Rightarrow> f native (snd r) | RETURN res \<Rightarrow> Some (Inr (res, snd r)))) = Some r"
  show "\<exists>vm1. vm_runs native vm vm1 \<and>
           (case r of
              Inl e \<Rightarrow> vm_step native vm1 = Inl e
            | Inr (res, vm2) \<Rightarrow> vm_step native vm1 = Inr (RETURN res, vm2))"
  proof (cases "vm_step native vm")
    case (Inl e)
    with eq show ?thesis using vm_runs_refl by fastforce
  next
    case (Inr s)
    then obtain fl vm1 where s: "vm_step native vm = Inr (fl, vm1)" by (cases s) simp
    show ?thesis
    proof (cases fl)
      case NEXT
      with s eq have "f native vm1 = Some r" by simp
      from IH [OF this] s NEXT show ?thesis using vm_runs_front by blast
    next
      case (RETURN res)
      with s eq show ?thesis using vm_runs_refl by fastforce
    qed
  qed
qed

context vm_contract
begin

text \<open>Along a run whose index keys are allowed, the invariant holds in every state.\<close>

lemma keeps_runs:
  assumes "vm_runs native vm vm'" and "I vm"
    and "\<And>vm1. vm_runs native vm vm1 \<Longrightarrow> index_keys K vm1"
    and "\<And>f n i vm. I vm \<Longrightarrow> okr E (\<lambda>(_, vm'). I vm') (native f n i vm)"
  shows "I vm'"
  using assms
proof induction
  case (vm_runs_step vm1 vm2)
  then have "okr E (\<lambda>(_, vm'). I vm') (vm_step native vm1)"
    by (intro keeps_step) auto
  with vm_runs_step.hyps(2) show ?case by simp
qed

end

end
