(* ===== verification/Small_Ints.thy ===== *)
theory Small_Ints
  imports CDouble
begin

text \<open>
  Integers below \<open>2\<^sup>5\<^sup>3\<close> as doubles: the conversion is injective, and its result is a number.
  The virtual machine uses the bits of such doubles as keys of map literals.
\<close>

lemma bitlen_less: "n < 2 ^ bitlen n"
proof (induction n rule: bitlen.induct)
  case (1 n)
  show ?case
  proof (cases "n = 0")
    case False
    with 1 have "n div 2 < 2 ^ bitlen (n div 2)" by simp
    with False show ?thesis by (subst bitlen.simps) simp
  qed (simp add: bitlen.simps)
qed

lemma bitlen_ge: "n \<noteq> 0 \<Longrightarrow> 2 ^ (bitlen n - 1) \<le> n"
proof (induction n rule: bitlen.induct)
  case (1 n)
  show ?case
  proof (cases "n div 2 = 0")
    case True
    with 1 have "n = 1" by simp
    then show ?thesis by (simp add: bitlen.simps)
  next
    case False
    then have pos: "0 < bitlen (n div 2)" by (subst bitlen.simps) simp
    from False 1 have "2 ^ (bitlen (n div 2) - 1) \<le> n div 2" by simp
    then have "2 * 2 ^ (bitlen (n div 2) - 1) \<le> n" by simp
    moreover have "2 * 2 ^ (bitlen (n div 2) - 1) = (2 :: nat) ^ bitlen (n div 2)"
      using pos by (cases "bitlen (n div 2)") simp_all
    ultimately show ?thesis using 1 by (subst bitlen.simps) simp
  qed
qed

lemma bitlen_le: "n < 2 ^ k \<Longrightarrow> bitlen n \<le> k"
proof (rule ccontr)
  assume n: "n < 2 ^ k" and "\<not> bitlen n \<le> k"
  then have k: "k \<le> bitlen n - 1" and "n \<noteq> 0"
    by (cases "n = 0"; simp add: bitlen.simps [of 0])+
  then have "(2 :: nat) ^ k \<le> 2 ^ (bitlen n - 1)" by (intro power_increasing) simp_all
  with n bitlen_ge [OF \<open>n \<noteq> 0\<close>] show False by simp
qed

lemma bitlen_mono: "m \<le> n \<Longrightarrow> bitlen m \<le> bitlen n"
  by (rule bitlen_le) (rule le_less_trans [OF _ bitlen_less])

text \<open>The magnitude of a small positive integer: its bits, shifted to the top, and its exponent.\<close>

lemma round_mag_small:
  assumes "m \<noteq> 0" and "m < 2 ^ 53"
  shows "round_mag m 0 = m * 2 ^ (53 - bitlen m) + (1021 + bitlen m) * 2 ^ 52"
    and "2 ^ 52 \<le> m * 2 ^ (53 - bitlen m)" and "m * 2 ^ (53 - bitlen m) < 2 ^ 53"
proof -
  let ?b = "bitlen m"
  have b: "?b \<le> 53" "0 < ?b"
    using bitlen_le [OF assms(2)] assms(1) by (auto simp: bitlen.simps)
  have "m * 2 ^ (53 - ?b) < 2 ^ ?b * 2 ^ (53 - ?b)" using bitlen_less [of m] by simp
  also have "(2 :: nat) ^ ?b * 2 ^ (53 - ?b) = 2 ^ 53" using b by (simp flip: power_add)
  finally show hi: "m * 2 ^ (53 - ?b) < 2 ^ 53" .
  have "(2 :: nat) ^ 52 = 2 ^ (?b - 1) * 2 ^ (53 - ?b)" using b by (simp flip: power_add)
  also have "\<dots> \<le> m * 2 ^ (53 - ?b)" using bitlen_ge [OF assms(1)] by simp
  finally show "2 ^ 52 \<le> m * 2 ^ (53 - ?b)" .
  have e: "max (int ?b - 53) (- 1074) = int ?b - 53" using b by simp
  have "nat (0 - (int ?b - 53)) = 53 - ?b" "nat (int ?b - 53 + 1074) = 1021 + ?b" using b by simp_all
  then have "round_mag m 0 = min inf_mag (m * 2 ^ (53 - ?b) + (1021 + ?b) * 2 ^ 52)"
    using assms(1) b e by (simp add: round_mag_def Let_def)
  moreover have "(1021 + ?b) * 2 ^ 52 \<le> 1074 * (2 ^ 52 :: nat)" using b by simp
  ultimately show "round_mag m 0 = m * 2 ^ (53 - ?b) + (1021 + ?b) * 2 ^ 52"
    using hi by (simp add: inf_mag_def)
qed

lemma round_mag_mono:
  assumes "m < n" and "n < 2 ^ 53"
  shows "round_mag m 0 < round_mag n 0"
proof (cases "m = 0")
  case True
  then show ?thesis using round_mag_small [of n] assms by (simp add: round_mag_def)
next
  case False
  note m = round_mag_small [of m] and n = round_mag_small [of n]
  show ?thesis
  proof (cases "bitlen m = bitlen n")
    case True
    then have "m * 2 ^ (53 - bitlen m) < n * 2 ^ (53 - bitlen n)" using assms(1) by simp
    with m(1) n(1) True assms False show ?thesis by simp
  next
    case neq: False
    then have "bitlen m + 1 \<le> bitlen n" using bitlen_mono [of m n] assms(1) by simp
    then have "(1021 + bitlen m + 1) * 2 ^ 52 \<le> (1021 + bitlen n) * (2 ^ 52 :: nat)"
      by (intro mult_le_mono1) simp
    with m n assms False show ?thesis by simp
  qed
qed

lemma round_mag_le: "round_mag m e \<le> inf_mag"
  by (simp add: round_mag_def Let_def)

lemma unat_mk_double: "m < 2 ^ 63 \<Longrightarrow> unat (mk_double False m) = m"
  by (simp add: mk_double_def unat_of_nat)

lemma unat_d_of_int: "0 \<le> i \<Longrightarrow> unat (d_of_int i) = round_mag (nat i) 0"
  using round_mag_le [of "nat i" 0] by (simp add: d_of_int_def unat_mk_double inf_mag_def)

lemma d_of_int_less:
  assumes "0 \<le> i" and "i < j" and "j < 2 ^ 53"
  shows "unat (d_of_int i) < unat (d_of_int j)"
  using assms by (simp add: unat_d_of_int round_mag_mono)

text \<open>The conversion is injective on the integers that a double holds exactly.\<close>

lemma d_of_int_inj:
  assumes "0 \<le> i" "i < 2 ^ 53" "0 \<le> j" "j < 2 ^ 53" and "d_of_int i = d_of_int j"
  shows "i = j"
  using assms d_of_int_less [of i j] d_of_int_less [of j i] by (cases i j rule: linorder_cases) auto

lemma d_of_int_not_ones: "0 \<le> i \<Longrightarrow> d_of_int i \<noteq> 0xFFFFFFFFFFFFFFFF"
proof
  assume "0 \<le> i" "d_of_int i = 0xFFFFFFFFFFFFFFFF"
  then have "round_mag (nat i) 0 = 18446744073709551615" using unat_d_of_int [of i] by simp
  with round_mag_le [of "nat i" 0] show False by (simp add: inf_mag_def)
qed

subsection \<open>Evaluation\<close>

text \<open>Rounding does not depend on how the value is split into mantissa and exponent.\<close>

lemma bitlen_Suc: "n \<noteq> 0 \<Longrightarrow> bitlen n = Suc (bitlen (n div 2))"
  by (subst bitlen.simps) simp

lemma bitlen_scale: "m \<noteq> 0 \<Longrightarrow> bitlen (m * 2 ^ k) = bitlen m + k"
  by (induction k) (simp_all add: bitlen_Suc [of "m * (2 * 2 ^ _)"])

lemma bitlen_eval:
  "bitlen 0 = 0" "bitlen (Suc 0) = 1" "bitlen (numeral n) = 1 + bitlen (numeral n div 2)"
  using bitlen_Suc [of "numeral n"] bitlen_Suc [of "Suc 0"] by (simp_all add: bitlen.simps [of 0])

lemma rne_scale: "rne (m * 2 ^ k) (s + k) = rne m s"
proof -
  have "m * 2 ^ k div 2 ^ (s + k) = m div 2 ^ s" by (simp add: power_add)
  moreover have "m * 2 ^ k mod 2 ^ (s + k) = m mod 2 ^ s * 2 ^ k" by (simp add: power_add mult_mod_left)
  moreover have "2 ^ (s + k) < 2 * (m mod 2 ^ s * 2 ^ k) \<longleftrightarrow> 2 ^ s < 2 * (m mod 2 ^ s)"
  proof -
    have "2 ^ s * 2 ^ k < 2 * (m mod 2 ^ s) * 2 ^ k \<longleftrightarrow> 2 ^ s < 2 * (m mod 2 ^ s)" by simp
    then show ?thesis by (simp only: power_add mult.assoc)
  qed
  moreover have "2 ^ (s + k) = 2 * (m mod 2 ^ s * 2 ^ k) \<longleftrightarrow> 2 ^ s = 2 * (m mod 2 ^ s)"
  proof -
    have "2 ^ s * 2 ^ k = 2 * (m mod 2 ^ s) * 2 ^ k \<longleftrightarrow> 2 ^ s = 2 * (m mod 2 ^ s)" by simp
    then show ?thesis by (simp only: power_add mult.assoc)
  qed
  ultimately show ?thesis by (simp add: rne_def Let_def)
qed

lemma rne_0 [simp]: "rne m 0 = m"
  by (simp add: rne_def)

lemma round_mag_scale: "round_mag (m * 2 ^ k) (e - int k) = round_mag m e"
proof (cases "m = 0")
  case False
  define E where "E = max (e + int (bitlen m) - 53) (- 1074)"
  have "(if E \<le> e - int k then m * 2 ^ k * 2 ^ nat (e - int k - E)
         else rne (m * 2 ^ k) (nat (E - (e - int k)))) =
        (if E \<le> e then m * 2 ^ nat (e - E) else rne m (nat (E - e)))" (is "?l = ?r")
  proof (cases "E \<le> e")
    case True
    show ?thesis
    proof (cases "E \<le> e - int k")
      case fits: True
      then have "k + nat (e - int k - E) = nat (e - E)" by linarith
      with True fits show ?thesis by (simp add: mult.assoc flip: power_add)
    next
      case False
      define d where "d = nat (E - (e - int k))"
      have "k = nat (e - E) + d" using True False by (simp add: d_def)
      then have "rne (m * 2 ^ k) d = m * 2 ^ nat (e - E)"
        using rne_scale [of "m * 2 ^ nat (e - E)" d 0] by (simp add: power_add mult.assoc)
      with True False show ?thesis by (simp add: d_def)
    qed
  next
    case False
    then have "nat (E - (e - int k)) = nat (E - e) + k" by linarith
    with False rne_scale [of m k "nat (E - e)"] show ?thesis by simp
  qed
  moreover have "e - int k + int (bitlen (m * 2 ^ k)) - 53 = e + int (bitlen m) - 53"
    using False by (simp add: bitlen_scale)
  ultimately have eq: "?l = ?r" and E': "max (e - int k + int (bitlen (m * 2 ^ k)) - 53) (- 1074) = E"
    by (simp_all add: E_def)
  have "round_mag (m * 2 ^ k) (e - int k) = min inf_mag (?l + nat (E + 1074) * 2 ^ 52)"
    using False unfolding round_mag_def Let_def E' by simp
  moreover have "round_mag m e = min inf_mag (?r + nat (E + 1074) * 2 ^ 52)"
    using False unfolding round_mag_def Let_def E_def by simp
  ultimately show ?thesis using eq by simp
qed (simp add: round_mag_def)

lemma add_fin_zero:
  assumes "m \<noteq> 0"
  shows "add_fin s m e t 0 f = mk_double s (round_mag m e)"
    and "add_fin t 0 f s m e = mk_double s (round_mag m e)"
proof -
  let ?k = "nat (e - min e f)"
  have "round_mag (m * 2 ^ ?k) (e - int ?k) = round_mag m e" by (rule round_mag_scale)
  then have *: "round_mag (m * 2 ^ ?k) (min e f) = round_mag m e" by simp
  have neg: "\<not> int m * 2 ^ ?k < 0" by (simp add: not_less)
  show "add_fin s m e t 0 f = mk_double s (round_mag m e)"
    using assms * neg by (cases s) (simp_all add: add_fin_def signed_mant_def Let_def nat_mult_distrib nat_power_eq)
  show "add_fin t 0 f s m e = mk_double s (round_mag m e)"
    using assms * neg by (cases s) (simp_all add: add_fin_def signed_mant_def Let_def min.commute [of f] nat_mult_distrib nat_power_eq)
qed

subsection \<open>Booleans as numbers\<close>

text \<open>The doubles 1, 0, -1 and -0.\<close>

lemma d_of_bool_bits: "d_of_bool True = 0x3FF0000000000000" "d_of_bool False = 0"
  by (simp_all add: d_of_int_def d_of_bool_def mk_double_def round_mag_def rne_def inf_mag_def
      bitlen_eval)

lemma unit_bits:
  "d_neg 0x3FF0000000000000 = 0xBFF0000000000000" "d_neg 0 = 0x8000000000000000"
  "\<not> is_nan 0x3FF0000000000000" "\<not> is_nan 0" "\<not> is_nan 0xBFF0000000000000"
  "\<not> is_nan 0x8000000000000000"
  by (simp_all add: d_neg_def is_nan_def d_mag_def inf_mag_def)

lemma unpack_units:
  "unpack 0x3FF0000000000000 = FFin False 4503599627370496 (-52)"
  "unpack 0 = FFin False 0 (-1074)"
  "unpack 0xBFF0000000000000 = FFin True 4503599627370496 (-52)"
  "unpack 0x8000000000000000 = FFin True 0 (-1074)"
  by (simp_all add: unpack_def d_sign_def d_mag_def Let_def)

lemma unit_sums:
  "add_fin False 4503599627370496 (-52) False 4503599627370496 (-52) = d_of_int 2"
  "add_fin False 4503599627370496 (-52) True 4503599627370496 (-52) = 0"
  "add_fin False 0 (-1074) False 0 (-1074) = 0"
  "add_fin False 0 (-1074) True 0 (-1074) = 0"
  "mk_double False (round_mag 4503599627370496 (-52)) = d_of_int 1"
  "mk_double False (round_mag 20282409603651670423947251286016 (- 104)) = d_of_int 1"
  "d_of_int 0 = 0" "mk_double False 0 = 0" "round_mag 0 e = 0"
  "mk_double True (round_mag 4503599627370496 (-52)) = d_of_int (- 1)"
  by (simp_all add: add_fin_def signed_mant_def Let_def)
    (simp_all add: mk_double_def d_of_int_def round_mag_def bitlen_eval rne_def inf_mag_def)

lemmas unit_eval = d_of_bool_bits unit_bits unpack_units add_fin_zero unit_sums

lemma bool_arith:
  "d_of_int (of_bool p + of_bool q) = d_add (d_of_bool p) (d_of_bool q)"
  "d_of_int (of_bool p - of_bool q) = d_sub (d_of_bool p) (d_of_bool q)"
  "d_of_int (of_bool p * of_bool q) = d_mul (d_of_bool p) (d_of_bool q)"
  by (cases p; cases q; simp add: d_add_def d_sub_def d_mul_def unit_eval)+

lemma bool_order:
  "d_lt (d_of_bool p) (d_of_bool q) \<longleftrightarrow> \<not> p \<and> q"
  "d_le (d_of_bool p) (d_of_bool q) \<longleftrightarrow> (p \<longrightarrow> q)"
  by (cases p; cases q; simp add: d_lt_def d_le_def d_key_def d_sign_def d_mag_def unit_eval)+

end
