(* ===== verification/Machine_Ok.thy ===== *)
theory Machine_Ok
  imports Contract Small_Ints
begin

text \<open>
  The invariant of the virtual machine and its interpretation of \<open>vm_contract\<close>. As long as
  \<open>gc->vm\<close> has not been assigned, which no code does, a collection is a fault; every other step
  keeps the interning invariant, the tables of the machine and of its maps, and the bounds of
  the two stacks.
\<close>

subsection \<open>Tables whose keys are strings of the heap\<close>

definition tab_good :: "obj_heap \<Rightarrow> tab_t \<Rightarrow> bool" where
  "tab_good h t \<longleftrightarrow> tab_ok (strs_of h) t \<and> (\<forall>k. tab_model t k \<noteq> None \<longrightarrow> is_str h k)"

definition maps_good :: "obj_heap \<Rightarrow> bool" where
  "maps_good h \<longleftrightarrow> (\<forall>a ob m. h a = Some ob \<and> body ob = OT_MAP m \<longrightarrow> tab_good h (map_table m))"

definition machine_ok :: "vm_t \<Rightarrow> bool" where
  "machine_ok vm \<longleftrightarrow>
     strings_ok vm \<and> \<not> gc_vm vm \<and> tab_good (heap vm) (globals vm) \<and> maps_good (heap vm) \<and>
     in_bounds vm"

text \<open>In the \<open>hash_t\<close> of every map, the count bounds the used slots, so that searches end.\<close>

definition hashes_ok :: "vm_t \<Rightarrow> bool" where
  "hashes_ok vm \<longleftrightarrow>
     (\<forall>a ob m. heap vm a = Some ob \<and> body ob = OT_MAP m \<longrightarrow> hash_alive (map_hash m))"

lemma tab_init_good [simp]: "tab_good h tab_init"
  by (simp add: tab_good_def)

lemma tab_good_cong:
  assumes "tab_good h t" and "\<And>a. is_str h a \<Longrightarrow> is_str h' a \<and> strs_of h' a = strs_of h a"
  shows "tab_good h' t"
proof -
  have "tab_ok (strs_of h') t \<longleftrightarrow> tab_ok (strs_of h) t"
    by (rule tab_ok_cong) (use assms in \<open>auto simp: tab_good_def\<close>)
  with assms show ?thesis by (auto simp: tab_good_def)
qed

lemma tab_good_set:
  assumes "tab_good h t" and "is_str h k"
  shows "\<exists>t' b. tab_set (strs_of h) t k v = Some (t', b) \<and> tab_good h t'"
  using tab_set_spec [of "strs_of h" t k v] assms by (auto simp: tab_good_def)

lemma tab_good_remove:
  assumes "tab_good h t"
  shows "\<exists>t' b. tab_remove (strs_of h) t k = Some (t', b) \<and> tab_good h t'"
  using tab_remove_spec [of "strs_of h" t k] assms by (auto simp: tab_good_def)

lemma tab_good_get: "tab_good h t \<Longrightarrow> tab_get (strs_of h) t k = Some (tab_model t k)"
  by (simp add: tab_good_def tab_get_spec)

subsection \<open>Change of the heap\<close>

text \<open>An object that is no string does not matter to the strings.\<close>

lemma heap_update_strs:
  assumes "\<not> is_str h a" and "\<And>s. body ob \<noteq> OT_STR s"
  shows "is_str (h(a \<mapsto> ob)) = is_str h" and "strs_of (h(a \<mapsto> ob)) = strs_of h"
  using assms by (auto simp: fun_eq_iff is_str_def strs_of_def split: option.split obj_body.split)

lemma strings_ok_heap:
  assumes "strings_ok vm" and "is_str (heap vm') = is_str (heap vm)"
    and "strs_of (heap vm') = strs_of (heap vm)" and "strings vm' = strings vm"
    and "\<forall>a \<ge> next_addr vm'. heap vm' a = None"
  shows "strings_ok vm'"
  using assms by (simp add: strings_ok_def str_of_def)

lemma maps_good_update:
  assumes "maps_good h" and "\<not> is_str h a" and "\<And>s. body ob \<noteq> OT_STR s"
    and "\<And>m. body ob = OT_MAP m \<Longrightarrow> tab_good h (map_table m)"
  shows "maps_good (h(a \<mapsto> ob))"
proof -
  note [simp] = heap_update_strs [OF assms(2,3)]
  have "tab_good (h(a \<mapsto> ob)) t = tab_good h t" for t by (simp add: tab_good_def)
  with assms(1,4) show ?thesis by (auto simp: maps_good_def)
qed

subsection \<open>The operations\<close>

lemma machine_same_store:
  assumes "same_store vm vm'"
  shows "machine_ok vm \<Longrightarrow> in_bounds vm' \<Longrightarrow> machine_ok vm'"
    and "hashes_ok vm' \<longleftrightarrow> hashes_ok vm"
  using assms by (simp_all add: machine_ok_def strings_ok_def str_of_def same_store_def hashes_ok_def)

lemma machine_extends:
  assumes "machine_ok vm" and "strings_ok vm'" and "str_extends vm vm'"
  shows "machine_ok vm'" and "hashes_ok vm \<Longrightarrow> hashes_ok vm'"
proof -
  have str: "is_str (heap vm') a \<and> strs_of (heap vm') a = strs_of (heap vm) a"
    if "is_str (heap vm) a" for a
    using str_extends_str [OF assms(3) that] by (simp add: str_of_def)
  have old: "heap vm a = Some ob" if "heap vm' a = Some ob" "body ob = OT_MAP m" for a ob m
  proof (rule ccontr)
    assume "heap vm a \<noteq> Some ob"
    with that assms(3) have "is_str (heap vm') a"
      unfolding str_extends_def by (metis option.distinct(1))
    with that show False by (simp add: is_str_def)
  qed
  have "maps_good (heap vm')"
    using assms(1) old tab_good_cong [OF _ str] unfolding machine_ok_def maps_good_def by blast
  moreover have "tab_good (heap vm') (globals vm')"
    using assms(1,3) tab_good_cong [OF _ str] by (simp add: machine_ok_def str_extends_def)
  ultimately show "machine_ok vm'"
    using assms by (simp add: machine_ok_def str_extends_def in_bounds_def)
  show "hashes_ok vm \<Longrightarrow> hashes_ok vm'" using old unfolding hashes_ok_def by blast
qed

lemma machine_take:
  assumes "machine_ok vm" and "length chars = len"
  shows "(\<exists>u. str_take chars len vm = Inl (Undefined u)) \<or>
    (\<exists>a vm'. str_take chars len vm = Inr (a, vm') \<and> strings_ok vm' \<and> str_extends vm vm')"
proof -
  have ok: "strings_ok vm" "\<not> gc_vm vm" using assms(1) by (simp_all add: machine_ok_def)
  show ?thesis
  proof (cases "gc_idle SIZEOF_STR vm")
    case True
    from str_copy_spec [OF ok(1) this, of len chars False] assms(2) show ?thesis
      by (auto simp: str_take_str_copy)
  next
    case False
    obtain r where r: "tab_findstr (str_of vm) (strings vm) chars len (hash_string chars len False) = Some r"
      using findstr_strings [OF ok(1)] by blast
    have "allocObj SIZEOF_STR bdy vm = Inl (Undefined Uninitialised)" for bdy
      by (rule allocObj_collects [OF False _ ok(2)]) (simp add: SIZEOF_STR_def)
    with r show ?thesis
      by (cases r) (auto simp: str_take_def str_of_def allocStr_def ok(1))
  qed
qed

lemma machine_map_new:
  assumes "machine_ok vm"
  shows "(\<exists>u. map_new vm = Inl (Undefined u)) \<or>
    (\<exists>a vm'. map_new vm = Inr (a, vm') \<and> machine_ok vm' \<and> (hashes_ok vm \<longrightarrow> hashes_ok vm') \<and>
       heap vm a = None \<and> stack vm' = stack vm \<and> vm_top vm' = vm_top vm \<and> frames vm' = frames vm \<and>
       get_map a vm' = Inr \<lparr>map_hash = hash_init, map_table = tab_init\<rparr>)"
proof (cases "gc_idle SIZEOF_MAP vm")
  case True
  let ?n = "next_addr vm"
  let ?ob = "\<lparr>isMarked = junk vm ?n, obj_next = gc_objects vm,
    body = OT_MAP \<lparr>map_hash = hash_init, map_table = tab_init\<rparr>\<rparr>"
  let ?vm = "vm\<lparr>gc_allocated := gc_allocated vm + SIZEOF_MAP, heap := (heap vm)(?n \<mapsto> ?ob),
    gc_objects := Some ?n, next_addr := ?n + 1\<rparr>"
  have sok: "strings_ok vm" using assms by (simp add: machine_ok_def)
  have free: "heap vm ?n = None" using strings_ok_free [OF sok] by simp
  then have ns: "\<not> is_str (heap vm) ?n" by (simp add: is_str_def)
  have "strings_ok ?vm"
    using heap_update_strs [OF ns, of ?ob] strings_ok_free [OF sok]
    by (intro strings_ok_heap [OF sok]) simp_all
  moreover have "tab_good (heap ?vm) (globals ?vm)"
    using assms heap_update_strs [OF ns, of ?ob] by (simp add: machine_ok_def tab_good_def)
  moreover have "maps_good (heap ?vm)"
    using assms maps_good_update [OF _ ns, of ?ob] by (auto simp: machine_ok_def)
  ultimately have "machine_ok ?vm" using assms by (simp add: machine_ok_def in_bounds_def)
  moreover have "hashes_ok vm \<Longrightarrow> hashes_ok ?vm" by (simp add: hashes_ok_def)
  moreover have "map_new vm = Inr (?n, ?vm)" by (simp add: map_new_def allocObj_idle [OF True])
  ultimately show ?thesis using free by (simp add: get_map_def)
next
  case False
  have "allocObj SIZEOF_MAP bdy vm = Inl (Undefined Uninitialised)" for bdy
    by (rule allocObj_collects [OF False]) (use assms in \<open>simp_all add: SIZEOF_MAP_def machine_ok_def\<close>)
  then show ?thesis by (simp add: map_new_def)
qed

lemma machine_put_map:
  assumes "machine_ok vm" and "get_map a vm = Inr m0" and "tab_good (heap vm) (map_table m)"
  shows "machine_ok (put_map a m vm)"
    and "hashes_ok vm \<Longrightarrow> hash_alive (map_hash m) \<Longrightarrow> hashes_ok (put_map a m vm)"
proof -
  obtain ob where ob: "heap vm a = Some ob" "body ob = OT_MAP m0"
    using assms(2) by (auto simp: get_map_def split: option.splits obj_body.splits)
  let ?ob = "ob\<lparr>body := OT_MAP m\<rparr>"
  have h: "heap (put_map a m vm) = (heap vm)(a \<mapsto> ?ob)" using ob by (simp add: put_map_def)
  have ns: "\<not> is_str (heap vm) a" using ob by (simp add: is_str_def)
  note strs = heap_update_strs [OF ns, of ?ob]
  have sok: "strings_ok vm" using assms(1) by (simp add: machine_ok_def)
  have "heap (put_map a m vm) b = None" if "next_addr vm \<le> b" for b
    using strings_ok_free [OF sok that] ob(1) h by auto
  moreover have "next_addr (put_map a m vm) = next_addr vm" "strings (put_map a m vm) = strings vm"
    by (simp_all add: put_map_def)
  ultimately have "strings_ok (put_map a m vm)"
    using strs unfolding h [symmetric] by (intro strings_ok_heap [OF sok]) simp_all
  moreover have "tab_good (heap (put_map a m vm)) (globals (put_map a m vm))"
    using assms(1) strs h by (simp add: machine_ok_def tab_good_def put_map_def)
  moreover have "maps_good (heap (put_map a m vm))"
    unfolding h using assms(1,3) by (intro maps_good_update [OF _ ns]) (auto simp: machine_ok_def)
  ultimately show "machine_ok (put_map a m vm)"
    using assms(1) by (simp add: machine_ok_def in_bounds_def put_map_def)
  show "hashes_ok vm \<Longrightarrow> hash_alive (map_hash m) \<Longrightarrow> hashes_ok (put_map a m vm)"
    using h by (simp add: hashes_ok_def)
qed

lemma get_map_good:
  assumes "machine_ok vm" and "get_map a vm = Inr m"
  shows "tab_good (heap vm) (map_table m)" and "hashes_ok vm \<Longrightarrow> hash_alive (map_hash m)"
  using assms
  by (auto simp: get_map_def machine_ok_def maps_good_def hashes_ok_def
      split: option.splits obj_body.splits)

lemma get_map_fault: "get_map a vm = Inl e \<Longrightarrow> \<exists>u. e = Undefined u"
  by (auto simp: get_map_def split: option.splits obj_body.splits)

lemma undefined_okr [simp]: "okr (\<lambda>_. True) Q r \<longleftrightarrow> (\<forall>x. r = Inr x \<longrightarrow> Q x)"
  by (cases r) simp_all

subsection \<open>The invariant meets the contract\<close>

text \<open>
  The operations of the contract for both invariants at once: \<open>machine_ok\<close> alone, and with
  \<open>hashes_ok\<close>, which gives that no operation runs forever.
\<close>

definition returns_ok :: "fault \<Rightarrow> bool" where
  "returns_ok e \<longleftrightarrow> e \<noteq> NoReturn"

lemma returns_ok_simps [simp]: "returns_ok (Undefined u)" "\<not> returns_ok NoReturn"
  by (simp_all add: returns_ok_def)

lemma machine_global_ops:
  assumes "machine_ok vm"
  shows "okr returns_ok (\<lambda>_. True) (global_get name vm)"
    and "is_str (heap vm) name \<Longrightarrow> okr returns_ok
       (\<lambda>(_, vm'). machine_ok vm' \<and> (hashes_ok vm \<longrightarrow> hashes_ok vm')) (global_set name v vm)"
    and "okr returns_ok
       (\<lambda>vm'. machine_ok vm' \<and> (hashes_ok vm \<longrightarrow> hashes_ok vm')) (global_remove name vm)"
proof -
  have good: "tab_good (heap vm) (globals vm)" using assms by (simp add: machine_ok_def)
  have upd: "machine_ok (vm\<lparr>globals := t\<rparr>) \<and> (hashes_ok vm \<longrightarrow> hashes_ok (vm\<lparr>globals := t\<rparr>))"
    if "tab_good (heap vm) t" for t
  proof -
    have "strings_ok (vm\<lparr>globals := t\<rparr>) = strings_ok vm"
      by (simp add: strings_ok_def str_of_def)
    with assms that show ?thesis by (simp add: machine_ok_def in_bounds_def hashes_ok_def)
  qed
  show "okr returns_ok (\<lambda>_. True) (global_get name vm)"
    by (simp add: global_get_def tab_good_get [OF good])
  show "okr returns_ok (\<lambda>(_, vm'). machine_ok vm' \<and> (hashes_ok vm \<longrightarrow> hashes_ok vm'))
      (global_set name v vm)" if "is_str (heap vm) name"
    using tab_good_set [OF good that, of v] upd by (auto simp: global_set_def)
  show "okr returns_ok (\<lambda>vm'. machine_ok vm' \<and> (hashes_ok vm \<longrightarrow> hashes_ok vm'))
      (global_remove name vm)"
    using tab_good_remove [OF good, of name] upd by (auto simp: global_remove_def)
qed

lemma machine_map_tables:
  assumes "machine_ok vm"
  shows "okr returns_ok (\<lambda>_. True) (map_table_get m name vm)"
    and "is_str (heap vm) name \<Longrightarrow> okr returns_ok
       (\<lambda>vm'. machine_ok vm' \<and> (hashes_ok vm \<longrightarrow> hashes_ok vm')) (map_table_set m name v vm)"
proof -
  show "okr returns_ok (\<lambda>_. True) (map_table_get m name vm)"
  proof (cases "get_map m vm")
    case (Inl e)
    with get_map_fault [OF Inl] show ?thesis by (auto simp: map_table_get_def)
  next
    case (Inr mp)
    with tab_good_get [OF get_map_good(1) [OF assms Inr]] show ?thesis
      by (simp add: map_table_get_def)
  qed
  show "okr returns_ok (\<lambda>vm'. machine_ok vm' \<and> (hashes_ok vm \<longrightarrow> hashes_ok vm'))
      (map_table_set m name v vm)" if name: "is_str (heap vm) name"
  proof (cases "get_map m vm")
    case (Inl e)
    with get_map_fault [OF Inl] show ?thesis by (auto simp: map_table_set_def)
  next
    case (Inr mp)
    from tab_good_set [OF get_map_good(1) [OF assms Inr] name, of v] obtain t b where
      t: "tab_set (strs_of (heap vm)) (map_table mp) name v = Some (t, b)" "tab_good (heap vm) t"
      by blast
    have "machine_ok (put_map m (mp\<lparr>map_table := t\<rparr>) vm)"
      using machine_put_map(1) [OF assms Inr, of "mp\<lparr>map_table := t\<rparr>"] t(2) by simp
    moreover have "hashes_ok vm \<Longrightarrow> hashes_ok (put_map m (mp\<lparr>map_table := t\<rparr>) vm)"
      using machine_put_map(2) [OF assms Inr, of "mp\<lparr>map_table := t\<rparr>"] t(2)
        get_map_good(2) [OF assms Inr] by simp
    ultimately show ?thesis using Inr t(1) by (simp add: map_table_set_def)
  qed
qed

lemma machine_hash_set:
  assumes "machine_ok vm" and "map_hash_set m key v vm = Inr vm'"
  shows "machine_ok vm'"
proof -
  from assms(2) obtain mp h b where mp: "get_map m vm = Inr mp"
    and vm': "vm' = put_map m (mp\<lparr>map_hash := h\<rparr>) vm"
    by (auto simp: map_hash_set_def elim!: bindr_Inr_E)
  show ?thesis
    unfolding vm' using get_map_good(1) [OF assms(1) mp] by (intro machine_put_map(1) [OF assms(1) mp]) simp
qed

lemma machine_hashes:
  assumes "machine_ok vm" and "hashes_ok vm"
  shows "okr returns_ok (\<lambda>_. True) (map_hash_get m key vm)"
    and "okr returns_ok (\<lambda>vm'. machine_ok vm' \<and> hashes_ok vm') (map_hash_set m key v vm)"
proof -
  show "okr returns_ok (\<lambda>_. True) (map_hash_get m key vm)"
  proof (cases "get_map m vm")
    case (Inl e)
    with get_map_fault [OF Inl] show ?thesis by (auto simp: map_hash_get_def)
  next
    case (Inr mp)
    with hash_get_alive [OF get_map_good(2) [OF assms(1) Inr assms(2)], of key] show ?thesis
      by (auto simp: map_hash_get_def)
  qed
  show "okr returns_ok (\<lambda>vm'. machine_ok vm' \<and> hashes_ok vm') (map_hash_set m key v vm)"
  proof (cases "get_map m vm")
    case (Inl e)
    with get_map_fault [OF Inl] show ?thesis by (auto simp: map_hash_set_def)
  next
    case (Inr mp)
    from hash_set_alive [OF get_map_good(2) [OF assms(1) Inr assms(2)], of key v] obtain h b where
      h: "hash_set (map_hash mp) key v = Some (h, b)" "hash_alive h" by blast
    note put = machine_put_map [OF assms(1) Inr, of "mp\<lparr>map_hash := h\<rparr>"]
    have "machine_ok (put_map m (mp\<lparr>map_hash := h\<rparr>) vm)"
      "hashes_ok (put_map m (mp\<lparr>map_hash := h\<rparr>) vm)"
      using put get_map_good(1) [OF assms(1) Inr] h(2) assms(2) by simp_all
    then show ?thesis using Inr h(1) by (simp add: map_hash_set_def)
  qed
qed

lemma machine_ok_take:
  assumes "machine_ok vm" and "length chars = len"
  shows "okr returns_ok (\<lambda>(_, vm'). machine_ok vm' \<and> (hashes_ok vm \<longrightarrow> hashes_ok vm'))
     (str_take chars len vm)"
  using machine_take [OF assms] machine_extends [OF assms(1)] by fastforce

lemma machine_ok_map_new:
  assumes "machine_ok vm"
  shows "okr returns_ok (\<lambda>(_, vm'). machine_ok vm' \<and> (hashes_ok vm \<longrightarrow> hashes_ok vm')) (map_new vm)"
  using machine_map_new [OF assms] by fastforce

lemma machine_coherent:
  "machine_ok vm \<Longrightarrow> is_str (heap vm) a \<Longrightarrow> str_coherent (str_of vm a)"
  by (simp add: machine_ok_def strings_ok_coherent)

interpretation mk: vm_contract machine_ok "\<lambda>_. True" "\<lambda>_. True"
proof
  fix vm :: vm_t and vm' chars len name v m key
  show "machine_ok vm \<Longrightarrow> in_bounds vm" by (simp add: machine_ok_def)
  show "machine_ok vm \<Longrightarrow> same_store vm vm' \<Longrightarrow> in_bounds vm' \<Longrightarrow> machine_ok vm'"
    by (rule machine_same_store(1))
  show "machine_ok vm \<Longrightarrow> is_str (heap vm) a \<Longrightarrow> str_coherent (str_of vm a)" for a
    by (rule machine_coherent)
  show "machine_ok vm \<Longrightarrow> length chars = len \<Longrightarrow>
      okr (\<lambda>_. True) (\<lambda>(_, vm'). machine_ok vm') (str_take chars len vm)"
    using machine_ok_take [of vm chars len] by auto
  show "machine_ok vm \<Longrightarrow> is_str (heap vm) name \<Longrightarrow>
      okr (\<lambda>_. True) (\<lambda>(_, vm'). machine_ok vm') (global_set name v vm)"
    using machine_global_ops(2) [of vm name v] by auto
  show "machine_ok vm \<Longrightarrow> okr (\<lambda>_. True) machine_ok (global_remove name vm)"
    using machine_global_ops(3) [of vm name] by auto
  show "machine_ok vm \<Longrightarrow> okr (\<lambda>_. True) (\<lambda>(_, vm'). machine_ok vm') (map_new vm)"
    using machine_ok_map_new [of vm] by auto
  show "machine_ok vm \<Longrightarrow> is_str (heap vm) name \<Longrightarrow>
      okr (\<lambda>_. True) machine_ok (map_table_set m name v vm)"
    using machine_map_tables(2) [of vm name m v] by auto
  show "machine_ok vm \<Longrightarrow> True \<Longrightarrow> okr (\<lambda>_. True) machine_ok (map_hash_set m key v vm)"
    using machine_hash_set by auto
qed simp_all

end
