(* ===== verification/Instructions.thy ===== *)
theory Instructions
  imports Machine_Ok
begin

text \<open>
  What single instructions do to the stack, the globals and the maps. The arithmetic and order
  instructions are compared with one abstract operation on numbers, where a boolean counts as
  0 or 1.
\<close>

subsection \<open>Effects on the stack alone\<close>

definition only_stack :: "vm_t \<Rightarrow> vm_t \<Rightarrow> bool" where
  "only_stack vm vm' \<longleftrightarrow>
     same_store vm vm' \<and> frames vm' = frames vm \<and> stdout vm' = stdout vm \<and> stderr vm' = stderr vm"

lemma only_stack_refl [simp]: "only_stack vm vm"
  by (simp add: only_stack_def)

lemma only_stack_trans: "only_stack a b \<Longrightarrow> only_stack b c \<Longrightarrow> only_stack a c"
  by (auto simp: only_stack_def intro: same_store_trans)

lemma machine_only_stack:
  assumes "machine_ok vm" and "only_stack vm vm'" and "vm_top vm' \<le> STACK_MAX"
  shows "machine_ok vm'"
proof (rule machine_same_store(1) [OF _ assms(1)])
  show "same_store vm vm'" using assms(2) by (simp add: only_stack_def)
  show "in_bounds vm'" using assms by (simp add: machine_ok_def in_bounds_def only_stack_def)
qed

lemma PUSH_ok:
  assumes "vm_top vm < STACK_MAX"
  shows "\<exists>vm'. PUSH v vm = Inr vm' \<and> stack_list vm' = v # stack_list vm \<and> only_stack vm vm'"
  using assms
  by (simp add: PUSH_def stack_list_push [simplified] only_stack_def same_store_def)

lemma POP_ok:
  assumes "stack_list vm = v # rest"
  shows "\<exists>vm'. POP vm = Inr (v, vm') \<and> stack_list vm' = rest \<and> only_stack vm vm'"
proof -
  have "0 < vm_top vm" using assms length_stack_list [of vm] by simp
  with stack_list_pop [OF this] assms show ?thesis
    by (simp add: POP_def only_stack_def same_store_def)
qed

lemma POPN_ok:
  assumes "n \<le> length (stack_list vm)"
  shows "\<exists>vm'. POPN n vm = Inr vm' \<and> stack_list vm' = drop n (stack_list vm) \<and> only_stack vm vm'"
proof -
  have r: "POPN n vm = Inr (vm\<lparr>vm_top := vm_top vm - n\<rparr>)" using assms by (simp add: POPN_def)
  with POPN_spec(1) [OF this] show ?thesis by (simp add: only_stack_def same_store_def)
qed

lemma PEEK_ok: "i < length (stack_list vm) \<Longrightarrow> PEEK i vm = Inr (stack_list vm ! i)"
  by (simp add: PEEK_stack_list)

lemma stack_top: "stack_list vm = vs \<Longrightarrow> vm_top vm = length vs"
  using length_stack_list [of vm] by simp

lemma push_next_ok:
  assumes "vm_top vm < STACK_MAX"
  shows "\<exists>vm'. push_next v vm = Inr (NEXT, vm') \<and> stack_list vm' = v # stack_list vm \<and>
           only_stack vm vm'"
  using PUSH_ok [OF assms, of v] by (auto simp: push_next_def next_op_def)

text \<open>Two operands replaced by a result.\<close>

lemma pop2_push_ok:
  assumes "stack_list vm = b # a # rest" and "in_bounds vm"
  shows "\<exists>vm'. bindr (POP vm) (\<lambda>(_, vm). bindr (POP vm) (\<lambda>(_, vm). push_next v vm)) = Inr (NEXT, vm') \<and>
           stack_list vm' = v # rest \<and> only_stack vm vm'"
proof -
  obtain vm1 where 1: "POP vm = Inr (b, vm1)" "stack_list vm1 = a # rest" "only_stack vm vm1"
    using POP_ok [OF assms(1)] by blast
  obtain vm2 where 2: "POP vm1 = Inr (a, vm2)" "stack_list vm2 = rest" "only_stack vm1 vm2"
    using POP_ok [OF 1(2)] by blast
  have "vm_top vm2 < STACK_MAX"
    using stack_top [OF assms(1)] stack_top [OF 2(2)] assms(2) by (simp add: in_bounds_def)
  from push_next_ok [OF this, of v] obtain vm3 where
    3: "push_next v vm2 = Inr (NEXT, vm3)" "stack_list vm3 = v # stack_list vm2" "only_stack vm2 vm3"
    by blast
  have "only_stack vm vm3" using 1(3) 2(3) 3(3) only_stack_trans by blast
  with 1 2 3 show ?thesis by simp
qed

subsection \<open>Numbers\<close>

text \<open>The number that an operand counts as.\<close>

fun as_number :: "val_t \<Rightarrow> double option" where
  "as_number (VAL_NUM n) = Some n"
| "as_number (VAL_BOOL b) = Some (d_of_bool b)"
| "as_number _ = None"

lemma VT_PAIR_simps [simp]:
  "VT_PAIR a b = VT_NUM_NUM \<longleftrightarrow> AS_TYPE a = VT_NUM \<and> AS_TYPE b = VT_NUM"
  "VT_PAIR a b = VT_BOOL_BOOL \<longleftrightarrow> AS_TYPE a = VT_BOOL \<and> AS_TYPE b = VT_BOOL"
  "VT_PAIR a b = VT_BOOL_NUM \<longleftrightarrow> AS_TYPE a = VT_BOOL \<and> AS_TYPE b = VT_NUM"
  "VT_PAIR a b = VT_NUM_BOOL \<longleftrightarrow> AS_TYPE a = VT_NUM \<and> AS_TYPE b = VT_BOOL"
  "VT_PAIR a b = VT_OBJ_OBJ \<longleftrightarrow> AS_TYPE a = VT_OBJ \<and> AS_TYPE b = VT_OBJ"
  unfolding vt_pair_defs CMB_vtype by simp_all

lemma binary_switch_spec:
  assumes "\<And>p q. bb p q = nn (d_of_bool p) (d_of_bool q)"
  shows "binary_switch nn bb a b =
    (case (as_number a, as_number b) of (Some x, Some y) \<Rightarrow> Some (nn x y) | _ \<Rightarrow> None)"
  by (cases a; cases b) (simp_all add: binary_switch_def assms Let_def)

lemma binary_op_spec:
  assumes bb: "\<And>p q. bb p q = nn (d_of_bool p) (d_of_bool q)"
    and "stack_list vm = b # a # rest" and "in_bounds vm"
  shows "as_number a = Some x \<Longrightarrow> as_number b = Some y \<Longrightarrow>
      \<exists>vm'. binary_op nn bb other vm = Inr (NEXT, vm') \<and> stack_list vm' = nn x y # rest \<and>
        only_stack vm vm'"
    and "as_number a = None \<or> as_number b = None \<Longrightarrow> binary_op nn bb other vm = other vm"
  using pop2_push_ok [OF assms(2,3), of "nn x y"]
  by (auto simp: binary_op_def PEEK_ok assms(2) binary_switch_spec [of bb nn, OF bb]
      split: option.splits)

text \<open>On booleans the integer operations of the code agree with those on doubles.\<close>

lemma bool_doubles:
  "bool_int (+) p q = VAL_NUM (d_add (d_of_bool p) (d_of_bool q))"
  "bool_int (-) p q = VAL_NUM (d_sub (d_of_bool p) (d_of_bool q))"
  "bool_int (*) p q = VAL_NUM (d_mul (d_of_bool p) (d_of_bool q))"
  "(\<not> p \<and> q) = d_lt (d_of_bool p) (d_of_bool q)"
  "(p \<longrightarrow> q) = d_le (d_of_bool p) (d_of_bool q)"
  by (simp_all add: bool_int_def bool_arith bool_order)

text \<open>The arithmetic instructions and the operation each stands for.\<close>

definition arith_table :: "((vm_t \<Rightarrow> step_res) \<times> (double \<Rightarrow> double \<Rightarrow> val_t)) list" where
  "arith_table =
     [(op_ADD, \<lambda>x y. VAL_NUM (d_add x y)), (op_SUB, \<lambda>x y. VAL_NUM (d_sub x y)),
      (op_MUL, \<lambda>x y. VAL_NUM (d_mul x y)), (op_DIV, \<lambda>x y. VAL_NUM (d_div x y)),
      (op_LT, \<lambda>x y. VAL_BOOL (d_lt x y)), (op_LE, \<lambda>x y. VAL_BOOL (d_le x y))]"

lemma arith_spec:
  assumes "(op, f) \<in> set arith_table" and "stack_list vm = b # a # rest" and "in_bounds vm"
    and "as_number a = Some x" and "as_number b = Some y"
  shows "\<exists>vm'. op vm = Inr (NEXT, vm') \<and> stack_list vm' = f x y # rest \<and> only_stack vm vm'"
  using assms(1)
    binary_op_spec(1) [of "bool_int (+)" "\<lambda>x y. VAL_NUM (d_add x y)", OF _ assms(2-5)]
    binary_op_spec(1) [of "bool_int (-)" "\<lambda>x y. VAL_NUM (d_sub x y)", OF _ assms(2-5)]
    binary_op_spec(1) [of "bool_int (*)" "\<lambda>x y. VAL_NUM (d_mul x y)", OF _ assms(2-5)]
    binary_op_spec(1) [of "\<lambda>a b. VAL_NUM (d_div (d_of_bool a) (d_of_bool b))"
      "\<lambda>x y. VAL_NUM (d_div x y)", OF _ assms(2-5)]
    binary_op_spec(1) [of "\<lambda>a b. VAL_BOOL (\<not> a \<and> b)" "\<lambda>x y. VAL_BOOL (d_lt x y)", OF _ assms(2-5)]
    binary_op_spec(1) [of "\<lambda>a b. VAL_BOOL (a \<longrightarrow> b)" "\<lambda>x y. VAL_BOOL (d_le x y)", OF _ assms(2-5)]
  unfolding arith_table_def op_ADD_def op_SUB_def op_MUL_def op_DIV_def op_LT_def op_LE_def
    bool_doubles
  by auto

subsection \<open>Errors\<close>

text \<open>A run-time error prints its message and trace, and leaves an empty machine.\<close>

lemma ERROR_spec:
  assumes "trace_frames vm (frames vm) = Inr ts"
  shows "ERROR msg vm = Inr (RETURN VM_RUNTIME_ERROR,
           vm\<lparr>stderr := stderr vm @ [Runtime_error msg ts], vm_top := 0, frames := []\<rparr>)"
  using assms by (simp add: ERROR_def runtimeError_def resetStack_def)

lemma arith_error_spec:
  assumes "(op, f) \<in> set (tl arith_table)" and "stack_list vm = b # a # rest" and "in_bounds vm"
    and "as_number a = None \<or> as_number b = None"
  shows "op vm = ERROR ''Operands must be two numbers/booleans.'' vm"
  using assms(1)
    binary_op_spec(2) [of "bool_int (-)" "\<lambda>x y. VAL_NUM (d_sub x y)", OF _ assms(2-4)]
    binary_op_spec(2) [of "bool_int (*)" "\<lambda>x y. VAL_NUM (d_mul x y)", OF _ assms(2-4)]
    binary_op_spec(2) [of "\<lambda>a b. VAL_NUM (d_div (d_of_bool a) (d_of_bool b))"
      "\<lambda>x y. VAL_NUM (d_div x y)", OF _ assms(2-4)]
    binary_op_spec(2) [of "\<lambda>a b. VAL_BOOL (\<not> a \<and> b)" "\<lambda>x y. VAL_BOOL (d_lt x y)", OF _ assms(2-4)]
    binary_op_spec(2) [of "\<lambda>a b. VAL_BOOL (a \<longrightarrow> b)" "\<lambda>x y. VAL_BOOL (d_le x y)", OF _ assms(2-4)]
  unfolding arith_table_def op_SUB_def op_MUL_def op_DIV_def op_LT_def op_LE_def
    bool_doubles bad_operands_def
  by auto

subsection \<open>Concatenation\<close>

lemma is_str_body: "is_str (heap vm) a \<Longrightarrow> obj_body_of (VAL_OBJ a) vm = Inr (Some (OT_STR (str_of vm a)))"
  by (auto simp: obj_body_of_def is_str_def str_of_def strs_of_def)

lemma concatenate_spec:
  assumes ok: "machine_ok vm" and idle: "gc_idle SIZEOF_STR vm"
    and s: "stack_list vm = VAL_OBJ b # VAL_OBJ a # rest"
    and a: "is_str (heap vm) a" and b: "is_str (heap vm) b"
  defines "cs \<equiv> str_chars (str_of vm a) @ str_chars (str_of vm b)"
  shows "\<exists>r vm'. concatenate vm = Inr vm' \<and> stack_list vm' = VAL_OBJ r # rest \<and> machine_ok vm' \<and>
           is_str (heap vm') r \<and>
           str_match (str_of vm') (length cs) (hash_string cs (length cs) False) r \<and>
           (heap vm r = None \<longrightarrow> str_chars (str_of vm' r) = cs)"
proof -
  obtain vm1 where 1: "POP vm = Inr (VAL_OBJ b, vm1)" "stack_list vm1 = VAL_OBJ a # rest"
    "only_stack vm vm1" using POP_ok [OF s] by blast
  obtain vm2 where 2: "POP vm1 = Inr (VAL_OBJ a, vm2)" "stack_list vm2 = rest" "only_stack vm1 vm2"
    using POP_ok [OF 1(2)] by blast
  have os: "only_stack vm vm2" using only_stack_trans 1(3) 2(3) by blast
  have h: "heap vm1 = heap vm" "heap vm2 = heap vm"
    using 1(3) os by (simp_all add: only_stack_def same_store_def)
  have bnd: "in_bounds vm" using ok by (simp add: machine_ok_def)
  have top2: "vm_top vm2 < STACK_MAX"
    using stack_top [OF s] stack_top [OF 2(2)] bnd by (simp add: in_bounds_def)
  have ok2: "machine_ok vm2" using machine_only_stack [OF ok os] top2 by simp
  have idle2: "gc_idle SIZEOF_STR vm2" using idle os by (simp add: gc_idle_def only_stack_def same_store_def)
  have S2: "str_of vm2 = str_of vm" by (simp add: str_of_def h)
  have coh: "str_coherent (str_of vm a)" "str_coherent (str_of vm b)"
    using ok a b machine_coherent by blast+
  then have len: "length cs = str_length (str_of vm a) + str_length (str_of vm b)"
    by (simp add: cs_def str_coherent_def)
  have chars: "take (str_length (str_of vm a)) (str_chars (str_of vm a)) @
      take (str_length (str_of vm b)) (str_chars (str_of vm b)) = cs"
    using coh by (simp add: cs_def str_coherent_def)
  have sok2: "strings_ok vm2" using ok2 by (simp add: machine_ok_def)
  obtain r vm3 where 3: "str_copy cs (length cs) False vm2 = Inr (r, vm3)" "strings_ok vm3"
    "str_extends vm2 vm3" "is_str (heap vm3) r"
    "str_match (str_of vm3) (length cs) (hash_string cs (length cs) False) r"
    "heap vm2 r = None \<longrightarrow> str_chars (str_of vm3 r) = cs"
    using str_copy_spec [OF sok2 idle2 le_refl, of cs False] by (auto simp: copied_def)
  have ok3: "machine_ok vm3" by (rule machine_extends(1) [OF ok2 3(2,3)])
  have "stack_list vm3 = rest" "vm_top vm3 < STACK_MAX"
    using 3(3) 2(2) top2 by (simp_all add: str_extends_def stack_list_def)
  then obtain vm4 where 4: "PUSH (VAL_OBJ r) vm3 = Inr vm4" "stack_list vm4 = VAL_OBJ r # rest"
    "only_stack vm3 vm4" using PUSH_ok by metis
  have h4: "heap vm4 = heap vm3" using 4(3) by (simp add: only_stack_def same_store_def)
  have "vm_top vm4 \<le> STACK_MAX"
    using stack_top [OF 4(2)] \<open>stack_list vm3 = rest\<close> \<open>vm_top vm3 < STACK_MAX\<close> stack_top [of vm3] by simp
  then have ok4: "machine_ok vm4" by (rule machine_only_stack [OF ok3 4(3)])
  have "concatenate vm = Inr vm4"
    using 1(1) 2(1) 3(1) 4(1) a b h chars len
    by (simp add: concatenate_def AS_STR_def Let_def str_take_str_copy flip: str_of_def [of vm])
  with 4(2) ok4 3(4-6) h4 h show ?thesis by (auto simp: str_of_def)
qed

lemma op_ADD_strings:
  assumes "machine_ok vm" and "gc_idle SIZEOF_STR vm"
    and s: "stack_list vm = VAL_OBJ b # VAL_OBJ a # rest"
    and "is_str (heap vm) a" and "is_str (heap vm) b"
  shows "op_ADD vm = bindr (concatenate vm) next_op"
proof -
  have "binary_switch nn bb (VAL_OBJ a) (VAL_OBJ b) = None" for nn bb
    by (simp add: binary_switch_def Let_def)
  with assms(4,5) show ?thesis
    by (simp add: op_ADD_def binary_op_def PEEK_ok s IS_STR_def is_str_body)
qed

subsection \<open>Global variables\<close>

lemma READ_STR_ok:
  assumes "READ_STR vm = Inr (name, vm1)"
  shows "is_str (heap vm) name \<and> (\<exists>ip. vm1 = set_ip ip vm)"
proof -
  have rb: "\<exists>ip. vm' = set_ip ip vm" if "READ_BYTE vm = Inr (b, vm')" for b vm'
    using that by (auto simp: READ_BYTE_def split: if_splits elim!: bindr_Inr_E)
  with assms show ?thesis
    by (fastforce simp: READ_STR_def READ_CONST_def AS_STR_def split: if_splits val_t.splits
        elim!: bindr_Inr_E)
qed

lemma stack_list_set_ip [simp]: "stack_list (set_ip ip vm) = stack_list vm"
  by (simp add: stack_list_def)

lemma op_GLD_spec:
  assumes ok: "machine_ok vm" and r: "READ_STR vm = Inr (name, vm1)"
  shows "op_GLD vm =
    (case tab_model (globals vm) name of
       None \<Rightarrow> undefined_variable name vm1
     | Some v \<Rightarrow> push_next v vm1)"
proof -
  obtain ip where "vm1 = set_ip ip vm" using READ_STR_ok [OF r] by blast
  moreover have "tab_get (strs_of (heap vm)) (globals vm) name = Some (tab_model (globals vm) name)"
    using ok tab_good_get by (simp add: machine_ok_def)
  ultimately show ?thesis using r by (simp add: op_GLD_def global_get_def split: option.split)
qed

lemma op_DEF_spec:
  assumes ok: "machine_ok vm" and r: "READ_STR vm = Inr (name, vm1)"
    and s: "stack_list vm = v # rest"
  shows "\<exists>vm'. op_DEF vm = Inr (NEXT, vm') \<and> stack_list vm' = rest \<and>
           tab_model (globals vm') = (tab_model (globals vm))(name \<mapsto> v) \<and> heap vm' = heap vm"
proof -
  obtain ip where ip: "vm1 = set_ip ip vm" and str: "is_str (heap vm) name"
    using READ_STR_ok [OF r] by blast
  obtain t where t: "tab_set (strs_of (heap vm)) (globals vm) name v = Some t"
    "tab_model (fst t) = (tab_model (globals vm))(name \<mapsto> v)"
    using tab_set_spec [of "strs_of (heap vm)" "globals vm" name v] ok
    by (auto simp: machine_ok_def tab_good_def)
  let ?vm2 = "vm1\<lparr>globals := fst t\<rparr>"
  have "stack_list ?vm2 = v # rest" using s ip by (simp add: stack_list_def)
  then obtain vm3 where "POP ?vm2 = Inr (v, vm3)" "stack_list vm3 = rest" "only_stack ?vm2 vm3"
    using POP_ok by blast
  moreover have "PEEK 0 vm1 = Inr v" using PEEK_ok [of 0 vm1] s ip by simp
  ultimately show ?thesis
    using r t ip
    by (cases t) (auto simp: op_DEF_def global_set_def next_op_def only_stack_def same_store_def)
qed

text \<open>Assignment changes a variable that exists; otherwise the insertion is taken back.\<close>

lemma op_GST_spec:
  assumes ok: "machine_ok vm" and r: "READ_STR vm = Inr (name, vm1)"
    and s: "stack_list vm = v # rest"
  shows "tab_model (globals vm) name \<noteq> None \<Longrightarrow>
      \<exists>vm'. op_GST vm = Inr (NEXT, vm') \<and> stack_list vm' = v # rest \<and>
        tab_model (globals vm') = (tab_model (globals vm))(name \<mapsto> v)"
    and "tab_model (globals vm) name = None \<Longrightarrow>
      \<exists>t. op_GST vm = undefined_variable name (vm1\<lparr>globals := t\<rparr>) \<and>
        tab_model t = tab_model (globals vm)"
proof -
  obtain ip where ip: "vm1 = set_ip ip vm" using READ_STR_ok [OF r] by blast
  have tok: "tab_ok (strs_of (heap vm)) (globals vm)" using ok by (simp add: machine_ok_def tab_good_def)
  obtain t where t: "tab_set (strs_of (heap vm)) (globals vm) name v =
      Some (t, tab_model (globals vm) name = None)"
    and tm: "tab_ok (strs_of (heap vm)) t" "tab_model t = (tab_model (globals vm))(name \<mapsto> v)"
    using tab_set_spec [OF tok, of name v] by blast
  have pk: "PEEK 0 vm1 = Inr v" using PEEK_ok [of 0 vm1] s ip by simp
  show "\<exists>vm'. op_GST vm = Inr (NEXT, vm') \<and> stack_list vm' = v # rest \<and>
        tab_model (globals vm') = (tab_model (globals vm))(name \<mapsto> v)"
    if "tab_model (globals vm) name \<noteq> None"
  proof -
    have "op_GST vm = Inr (NEXT, vm1\<lparr>globals := t\<rparr>)"
      using that r pk t ip by (auto simp: op_GST_def global_set_def next_op_def)
    moreover have "stack_list (vm1\<lparr>globals := t\<rparr>) = v # rest" using s ip by (simp add: stack_list_def)
    ultimately show ?thesis using tm(2) by simp
  qed
  show "\<exists>t. op_GST vm = undefined_variable name (vm1\<lparr>globals := t\<rparr>) \<and>
        tab_model t = tab_model (globals vm)" if new: "tab_model (globals vm) name = None"
  proof -
    obtain t' b where t': "tab_remove (strs_of (heap vm)) t name = Some (t', b)"
      and "tab_model t' = (tab_model t)(name := None)"
      using tab_remove_spec [OF tm(1), of name] by blast
    then have "tab_model t' = tab_model (globals vm)" using tm(2) new by auto
    moreover have "op_GST vm = undefined_variable name (vm1\<lparr>globals := t'\<rparr>)"
      using new r pk t t'(1) ip by (simp add: op_GST_def global_set_def global_remove_def)
    ultimately show ?thesis by blast
  qed
qed

subsection \<open>Map literals\<close>

definition map_only :: "addr \<Rightarrow> vm_t \<Rightarrow> vm_t \<Rightarrow> bool" where
  "map_only m vm vm' \<longleftrightarrow> stack vm' = stack vm \<and> vm_top vm' = vm_top vm \<and> frames vm' = frames vm \<and>
     globals vm' = globals vm \<and> (\<forall>a. a \<noteq> m \<longrightarrow> heap vm' a = heap vm a)"

lemma map_only_stack: "map_only m vm vm' \<Longrightarrow> stack_list vm' = stack_list vm"
  by (simp add: map_only_def stack_list_def)

lemma get_put_map: "get_map m vm = Inr mp \<Longrightarrow> get_map m (put_map m mp' vm) = Inr mp'"
  by (auto simp: get_map_def put_map_def split: option.splits obj_body.splits)

lemma map_fill_spec:
  assumes "get_map m vm = Inr mp" and "hash_ok (map_hash mp)" and "n \<le> length (stack_list vm)"
    and "n \<le> 256"
  shows "\<exists>vm' mp'. map_fill m n vm = Inr vm' \<and> map_only m vm vm' \<and> get_map m vm' = Inr mp' \<and>
           map_table mp' = map_table mp \<and> hash_ok (map_hash mp') \<and>
           (\<forall>i < n. hash_model (map_hash mp') (d_of_int (int i)) = Some (stack_list vm ! i)) \<and>
           (\<forall>k. (\<forall>i < n. k \<noteq> d_of_int (int i)) \<longrightarrow>
              hash_model (map_hash mp') k = hash_model (map_hash mp) k)"
  using assms
proof (induction n arbitrary: vm mp)
  case 0
  then show ?case by (simp add: map_only_def)
next
  case (Suc n)
  let ?k = "d_of_int (int n)" and ?v = "stack_list vm ! n"
  have "?k \<noteq> UNUSED_INDEX" using d_of_int_not_ones [of "int n"] by (simp add: UNUSED_INDEX_def)
  from hash_set_spec [OF Suc.prems(2) this, of ?v] obtain h b where
    h: "hash_set (map_hash mp) ?k ?v = Some (h, b)" "hash_ok h"
      "hash_model h = (hash_model (map_hash mp))(?k \<mapsto> ?v)" by blast
  let ?vm1 = "put_map m (mp\<lparr>map_hash := h\<rparr>) vm"
  have set: "map_hash_set m ?k ?v vm = Inr ?vm1"
    using Suc.prems(1) h(1) by (simp add: map_hash_set_def)
  have mo: "map_only m vm ?vm1" by (simp add: map_only_def put_map_def)
  note st = map_only_stack [OF mo]
  obtain vm' mp' where r: "map_fill m n ?vm1 = Inr vm'" "map_only m ?vm1 vm'"
    "get_map m vm' = Inr mp'" "map_table mp' = map_table mp" "hash_ok (map_hash mp')"
    and lo: "\<forall>i < n. hash_model (map_hash mp') (d_of_int (int i)) = Some (stack_list vm ! i)"
    and hi: "\<forall>k. (\<forall>i < n. k \<noteq> d_of_int (int i)) \<longrightarrow> hash_model (map_hash mp') k = hash_model h k"
    using Suc.IH [OF get_put_map [OF Suc.prems(1)], of "mp\<lparr>map_hash := h\<rparr>"] h(2) Suc.prems(3,4) st
    by auto
  have "?k \<noteq> d_of_int (int i)" if "i < n" for i
    using d_of_int_less [of "int i" "int n"] that Suc.prems(4) by auto
  with hi h(3) have "hash_model (map_hash mp') ?k = Some ?v" by simp
  with lo have "\<forall>i < Suc n. hash_model (map_hash mp') (d_of_int (int i)) = Some (stack_list vm ! i)"
    by (simp add: less_Suc_eq)
  moreover have "\<forall>k. (\<forall>i < Suc n. k \<noteq> d_of_int (int i)) \<longrightarrow>
      hash_model (map_hash mp') k = hash_model (map_hash mp) k"
    using hi h(3) by (simp add: less_Suc_eq)
  moreover have "map_fill m (Suc n) vm = Inr vm'"
    using set r(1) PEEK_ok [of n vm] Suc.prems(3) by simp
  moreover have "map_only m vm vm'" using mo r(2) by (simp add: map_only_def)
  ultimately show ?case using r by blast
qed

text \<open>
  The values of a map literal are on the stack with the last one on top, and the literal gives
  index 0 to the top: the indices run against the order in which the elements are written.
\<close>

lemma op_MAP_spec:
  assumes ok: "machine_ok vm1" and b: "READ_BYTE vm = Inr (count, vm1)"
    and n: "map_new vm1 = Inr (m, vm2)"
    and s: "stack_list vm1 = rev elems @ rest" "length elems = unat count"
    and room: "length rest < STACK_MAX"
  shows "\<exists>vm' mp. op_MAP vm = Inr (NEXT, vm') \<and> stack_list vm' = VAL_OBJ m # rest \<and>
           get_map m vm' = Inr mp \<and> hash_ok (map_hash mp) \<and>
           (\<forall>i < length elems. hash_model (map_hash mp) (d_of_int (int i)) =
              Some (elems ! (length elems - 1 - i)))"
proof -
  have new: "get_map m vm2 = Inr \<lparr>map_hash = hash_init, map_table = tab_init\<rparr>"
    "stack vm2 = stack vm1" "vm_top vm2 = vm_top vm1"
    using machine_map_new [OF ok] n by auto
  have s2: "stack_list vm2 = rev elems @ rest" using s(1) new(2,3) by (simp add: stack_list_def)
  have "unat count < 2 ^ LENGTH(8)" by (rule unsigned_less)
  then have "unat count \<le> 256" by simp
  then obtain vm3 mp where 3: "map_fill m (unat count) vm2 = Inr vm3" "map_only m vm2 vm3"
    "get_map m vm3 = Inr mp" "hash_ok (map_hash mp)"
    and e: "\<forall>i < unat count. hash_model (map_hash mp) (d_of_int (int i)) = Some (stack_list vm2 ! i)"
    using map_fill_spec [OF new(1), of "unat count"] s2 s(2) by auto
  have s3: "stack_list vm3 = rev elems @ rest" using map_only_stack [OF 3(2)] s2 by simp
  obtain vm4 where 4: "POPN (unat count) vm3 = Inr vm4" "stack_list vm4 = rest" "only_stack vm3 vm4"
    using POPN_ok [of "unat count" vm3] s3 s(2) by auto
  obtain vm5 where 5: "push_next (VAL_OBJ m) vm4 = Inr (NEXT, vm5)" "stack_list vm5 = VAL_OBJ m # rest"
    "only_stack vm4 vm5"
    using push_next_ok [of vm4 "VAL_OBJ m"] stack_top [OF 4(2)] room 4(2) by auto
  have "heap vm5 = heap vm3" using 4(3) 5(3) by (simp add: only_stack_def same_store_def)
  then have "get_map m vm5 = Inr mp" using 3(3) by (simp add: get_map_def)
  moreover have "op_MAP vm = Inr (NEXT, vm5)" using b n 3(1) 4(1) 5(1) by (simp add: op_MAP_def)
  moreover have "stack_list vm2 ! i = elems ! (length elems - 1 - i)" if "i < length elems" for i
    using that s2 by (simp add: nth_append rev_nth)
  ultimately show ?thesis using 3(4) 5(2) e s(2) by auto
qed

subsection \<open>Calls and returns\<close>

lemma op_CALL_fun:
  assumes b: "READ_BYTE vm = Inr (argc, vm1)"
    and s: "stack_list vm1 = args @ VAL_OBJ f # rest" "length args = unat argc"
    and f: "get_fun f vm1 = Inr fn" "fn_arity fn = unat argc" and "length (frames vm1) < FRAMES_MAX"
  shows "op_CALL native vm = Inr (NEXT, vm1\<lparr>frames :=
           \<lparr>fr_function = f, fr_ip = 0, fr_slots = length rest\<rparr> # frames vm1\<rparr>)"
proof -
  have top: "vm_top vm1 = unat argc + 1 + length rest" using stack_top [OF s(1)] s(2) by simp
  have "PEEK (unat argc) vm1 = Inr (VAL_OBJ f)"
    using PEEK_ok [of "unat argc" vm1] s by (simp add: nth_append)
  moreover have "obj_body_of (VAL_OBJ f) vm1 = Inr (Some (OT_FUN fn))"
    using f(1) by (auto simp: get_fun_def obj_body_of_def split: option.splits obj_body.splits)
  ultimately show ?thesis
    using b f assms(6) top by (simp add: op_CALL_def vm_call_def prepareCall_def next_op_def)
qed

lemma op_CALL_full:
  assumes b: "READ_BYTE vm = Inr (argc, vm1)"
    and s: "stack_list vm1 = args @ VAL_OBJ f # rest" "length args = unat argc"
    and f: "get_fun f vm1 = Inr fn" "fn_arity fn = unat argc" and "length (frames vm1) = FRAMES_MAX"
  shows "op_CALL native vm = ERROR ''Stack overflow.'' vm1"
proof -
  have "PEEK (unat argc) vm1 = Inr (VAL_OBJ f)"
    using PEEK_ok [of "unat argc" vm1] s by (simp add: nth_append)
  moreover have "obj_body_of (VAL_OBJ f) vm1 = Inr (Some (OT_FUN fn))"
    using f(1) by (auto simp: get_fun_def obj_body_of_def split: option.splits obj_body.splits)
  ultimately show ?thesis
    using b f assms(6)
    by (cases "runtimeError ''Stack overflow.'' vm1")
      (simp_all add: op_CALL_def vm_call_def prepareCall_def ERROR_def)
qed

lemma op_RET_spec:
  assumes fr: "frames vm = fr # fr' # frs"
    and s: "stack_list vm = result # locals @ rest" and "fr_slots fr = length rest"
    and "length rest < STACK_MAX"
  shows "\<exists>vm'. op_RET vm = Inr (NEXT, vm') \<and> stack_list vm' = result # rest \<and>
           frames vm' = fr' # frs \<and> same_store vm vm'"
proof -
  obtain vm1 where 1: "POP vm = Inr (result, vm1)" "stack_list vm1 = locals @ rest" "only_stack vm vm1"
    using POP_ok [OF s] by blast
  let ?vm2 = "vm1\<lparr>frames := fr' # frs, vm_top := length rest\<rparr>"
  have fr1: "frames vm1 = fr # fr' # frs" using fr 1(3) by (simp add: only_stack_def)
  have top1: "vm_top vm1 = length locals + length rest" using stack_top [OF 1(2)] by simp
  have "stack_list ?vm2 = drop (length locals) (stack_list vm1)"
  proof -
    have "POPN (length locals) (vm1\<lparr>frames := fr' # frs\<rparr>) = Inr ?vm2"
      using top1 by (simp add: POPN_def)
    from POPN_spec(1) [OF this] show ?thesis by (simp add: stack_list_def)
  qed
  then have s2: "stack_list ?vm2 = rest" using 1(2) by simp
  obtain vm3 where 3: "push_next result ?vm2 = Inr (NEXT, vm3)" "stack_list vm3 = result # rest"
    "only_stack ?vm2 vm3"
    using push_next_ok [of ?vm2 result] s2 assms(4) by auto
  have "op_RET vm = Inr (NEXT, vm3)"
    using 1(1) fr1 3(1) assms(3) by (simp add: op_RET_def cur_frame_def)
  moreover have "same_store vm vm3"
    using 1(3) 3(3) by (simp add: only_stack_def same_store_def)
  ultimately show ?thesis using 3 by (simp add: only_stack_def)
qed

subsection \<open>Printing\<close>

lemma print_values_spec:
  assumes "n \<le> length (stack_list vm)" and "\<forall>i < n. val_print (stack_list vm ! i) vm = Inr (out i)"
  shows "print_values n vm = Inr (concat (map (\<lambda>i. out i @ (if 0 < i then [Out_text [CHR 0x09]] else []))
           (rev [0..<n])))"
  using assms
proof (induction n)
  case (Suc n)
  then show ?case using PEEK_ok [of n vm] by simp
qed simp

text \<open>The line that \<open>OP_PRINT\<close> writes for values that print as \<open>out\<close>.\<close>

definition print_line :: "nat \<Rightarrow> (nat \<Rightarrow> out_item list) \<Rightarrow> out_item list" where
  "print_line n out =
     concat (map (\<lambda>i. out i @ (if i + 1 < n then [Out_text [CHR 0x09]] else [])) [0..<n]) @ [Out_text [CHR 0x0A]]"

lemma op_PRINT_line:
  assumes "READ_BYTE vm = Inr (count, vm1)" and "stack_list vm1 = rev vals @ rest"
    and "length vals = unat count" and "\<forall>i < length vals. val_print (vals ! i) vm1 = Inr (out i)"
  shows "\<exists>vm'. op_PRINT vm = Inr (NEXT, vm') \<and> stack_list vm' = rest \<and>
           only_stack (vm1\<lparr>stdout := stdout vm1 @ print_line (length vals) out\<rparr>) vm'"
proof -
  let ?n = "length vals"
  define out' where "out' i = out (?n - 1 - i)" for i
  have p: "\<forall>i < ?n. val_print (stack_list vm1 ! i) vm1 = Inr (out' i)"
    using assms(2,4) by (simp add: out'_def nth_append rev_nth)
  have n: "?n \<le> length (stack_list vm1)" using assms(2) by simp
  have "map (\<lambda>i. out' i @ (if 0 < i then [Out_text [CHR 0x09]] else [])) (rev [0..<?n]) =
      map (\<lambda>i. out i @ (if i + 1 < ?n then [Out_text [CHR 0x09]] else [])) [0..<?n]"
    by (rule nth_equalityI) (auto simp: rev_nth out'_def)
  with print_values_spec [OF n p] have pr: "print_values (unat count) vm1 = Inr (concat
      (map (\<lambda>i. out i @ (if i + 1 < ?n then [Out_text [CHR 0x09]] else [])) [0..<?n]))"
    using assms(3) by simp
  let ?vm2 = "vm1\<lparr>stdout := stdout vm1 @ print_line ?n out\<rparr>"
  have "stack_list ?vm2 = rev vals @ rest" using assms(2) by (simp add: stack_list_def)
  then obtain vm3 where "POPN (unat count) ?vm2 = Inr vm3" "stack_list vm3 = rest" "only_stack ?vm2 vm3"
    using POPN_ok [of "unat count" ?vm2] assms(3) by auto
  with assms(1) pr show ?thesis by (simp add: op_PRINT_def next_op_def Let_def print_line_def)
qed

end
