(* ===== verification/Libs.thy ===== *)
theory Libs
  imports Instructions
begin

text \<open>
  \<open>src/src/lib_math.c\<close>, the registration of \<open>src/src/lib_thread.c\<close>, \<open>set_global\<close> and the creation and
  destruction of the machine (\<open>src/src/vm.c\<close>). A native reads its arguments as doubles without a
  test of their number or types. The functions of \<open>math.h\<close> whose results the C standard does not
  fix are an argument; \<open>floor\<close> and \<open>ceil\<close> are exact.
\<close>

subsection \<open>Rounding to an integer\<close>

text \<open>\<open>\<lfloor>(-1)\<^sup>s * m * 2\<^sup>e\<rfloor>\<close> for a negative exponent, and the same for the ceiling.\<close>

definition floor_fin :: "bool \<Rightarrow> nat \<Rightarrow> int \<Rightarrow> double" where
  "floor_fin s m e =
     (let i = (signed_mant s m) div 2 ^ nat (- e)
      in if i = 0 then mk_double s 0 else d_of_int i)"

definition d_floor :: "double \<Rightarrow> double" where
  "d_floor x =
     (if is_nan x then quiet x
      else (case unpack x of
              FFin s m e \<Rightarrow> if 0 \<le> e then x else floor_fin s m e
            | _ \<Rightarrow> x))"

definition d_ceil :: "double \<Rightarrow> double" where
  "d_ceil x = (if is_nan x then quiet x else d_neg (d_floor (d_neg x)))"

subsection \<open>The natives of the math library\<close>

record libm =
  lm_cos :: "double \<Rightarrow> double"
  lm_log :: "double \<Rightarrow> double"
  lm_log10 :: "double \<Rightarrow> double"
  lm_pow :: "double \<Rightarrow> double \<Rightarrow> double"
  lm_sin :: "double \<Rightarrow> double"
  lm_sqrt :: "double \<Rightarrow> double"

text \<open>\<open>AS_NUM(args[i])\<close>: the arguments lie on the stack, from the index \<open>args\<close> up.\<close>

definition arg_num :: "nat \<Rightarrow> nat \<Rightarrow> vm_t \<Rightarrow> double res" where
  "arg_num args i vm =
     (if args + i < STACK_MAX then Inr (AS_NUM (stack vm (args + i)))
      else Inl (Undefined Stack_overflow))"

definition math_abs :: "nat \<Rightarrow> vm_t \<Rightarrow> (val_t \<times> vm_t) res" where
  "math_abs args vm =
     bindr (arg_num args 0 vm) (\<lambda>number.
     Inr (VAL_NUM (if d_lt number 0 then d_neg number else number), vm))"

definition math_ceil :: "nat \<Rightarrow> vm_t \<Rightarrow> (val_t \<times> vm_t) res" where
  "math_ceil args vm = bindr (arg_num args 0 vm) (\<lambda>x. Inr (VAL_NUM (d_ceil x), vm))"

definition math_floor :: "nat \<Rightarrow> vm_t \<Rightarrow> (val_t \<times> vm_t) res" where
  "math_floor args vm = bindr (arg_num args 0 vm) (\<lambda>x. Inr (VAL_NUM (d_floor x), vm))"

definition math_cos :: "libm \<Rightarrow> nat \<Rightarrow> vm_t \<Rightarrow> (val_t \<times> vm_t) res" where
  "math_cos lm args vm = bindr (arg_num args 0 vm) (\<lambda>x. Inr (VAL_NUM (lm_cos lm x), vm))"

definition math_log :: "libm \<Rightarrow> nat \<Rightarrow> vm_t \<Rightarrow> (val_t \<times> vm_t) res" where
  "math_log lm args vm = bindr (arg_num args 0 vm) (\<lambda>x. Inr (VAL_NUM (lm_log lm x), vm))"

definition math_log10 :: "libm \<Rightarrow> nat \<Rightarrow> vm_t \<Rightarrow> (val_t \<times> vm_t) res" where
  "math_log10 lm args vm = bindr (arg_num args 0 vm) (\<lambda>x. Inr (VAL_NUM (lm_log10 lm x), vm))"

definition math_pow :: "libm \<Rightarrow> nat \<Rightarrow> vm_t \<Rightarrow> (val_t \<times> vm_t) res" where
  "math_pow lm args vm =
     bindr (arg_num args 0 vm) (\<lambda>x.
     bindr (arg_num args 1 vm) (\<lambda>y. Inr (VAL_NUM (lm_pow lm x y), vm)))"

definition math_sin :: "libm \<Rightarrow> nat \<Rightarrow> vm_t \<Rightarrow> (val_t \<times> vm_t) res" where
  "math_sin lm args vm = bindr (arg_num args 0 vm) (\<lambda>x. Inr (VAL_NUM (lm_sin lm x), vm))"

definition math_sqrt :: "libm \<Rightarrow> nat \<Rightarrow> vm_t \<Rightarrow> (val_t \<times> vm_t) res" where
  "math_sqrt lm args vm = bindr (arg_num args 0 vm) (\<lambda>x. Inr (VAL_NUM (lm_sqrt lm x), vm))"

text \<open>
  What a function pointer runs. The natives of the thread library run on the operating system's
  threads; they are the argument \<open>thr\<close>.
\<close>

fun run_native :: "libm \<Rightarrow> natives \<Rightarrow> natives" where
  "run_native lm thr Math_abs argc args vm = math_abs args vm"
| "run_native lm thr Math_ceil argc args vm = math_ceil args vm"
| "run_native lm thr Math_cos argc args vm = math_cos lm args vm"
| "run_native lm thr Math_floor argc args vm = math_floor args vm"
| "run_native lm thr Math_log argc args vm = math_log lm args vm"
| "run_native lm thr Math_log10 argc args vm = math_log10 lm args vm"
| "run_native lm thr Math_pow argc args vm = math_pow lm args vm"
| "run_native lm thr Math_sin argc args vm = math_sin lm args vm"
| "run_native lm thr Math_sqrt argc args vm = math_sqrt lm args vm"
| "run_native lm thr f argc args vm = thr f argc args vm"

subsection \<open>Globals and libraries\<close>

definition set_global :: "string \<Rightarrow> val_t \<Rightarrow> vm_t \<Rightarrow> vm_t res" where
  "set_global name value vm =
     bindr (str_copy name (length name) True vm) (\<lambda>(a, vm).
     bindr (PUSH (VAL_OBJ a) vm) (\<lambda>vm.
     bindr (PUSH value vm) (\<lambda>vm.
     bindr (global_set a value vm) (\<lambda>(_, vm).
     bindr (POP vm) (\<lambda>(_, vm).
     bindr (POP vm) (\<lambda>(_, vm). Inr vm))))))"

fun map_set_all :: "addr \<Rightarrow> (string \<times> cfn) list \<Rightarrow> vm_t \<Rightarrow> vm_t res" where
  "map_set_all m [] vm = Inr vm"
| "map_set_all m ((key, f) # fs) vm = bindr (map_set m key (VAL_CFN f) vm) (map_set_all m fs)"

definition load_libmath :: "vm_t \<Rightarrow> vm_t res" where
  "load_libmath vm =
     bindr (map_new vm) (\<lambda>(math, vm).
     bindr (map_set_all math
              [(''abs'', Math_abs), (''ceil'', Math_ceil), (''cos'', Math_cos), (''floor'', Math_floor),
               (''log'', Math_log), (''log10'', Math_log10), (''pow'', Math_pow), (''sin'', Math_sin),
               (''sqrt'', Math_sqrt)] vm)
       (set_global ''math'' (VAL_OBJ math)))"

definition load_libthread :: "vm_t \<Rightarrow> vm_t res" where
  "load_libthread vm =
     bindr (map_new vm) (\<lambda>(thread, vm).
     bindr (map_set_all thread
              [(''sleep'', Thread_sleep), (''create'', Thread_create), (''exit'', Thread_exit),
               (''start'', Thread_start), (''join'', Thread_join), (''cancel'', Thread_cancel),
               (''close'', Thread_close)] vm)
       (set_global ''thread'' (VAL_OBJ thread)))"

subsection \<open>The machine's life\<close>

text \<open>\<open>memset\<close> to zero makes every value a null; the collector's struct is not cleared.\<close>

definition vm_create :: "(addr \<Rightarrow> bool) \<Rightarrow> vm_t" where
  "vm_create mem =
     (let vm = gc_init
        \<lparr>stack = (\<lambda>_. VAL_NULL), vm_top = 0, frames = [], tempRoots = [], openUpvalues = None,
         heap = Map.empty, next_addr = 0, junk = mem, gc_vm = False, gc_allocated = 0,
         gc_nextGC = 0, gc_objects = None, gc_gray = [], gc_grayCapacity = 0,
         strings = tab_init, globals = tab_init, stdout = [], stderr = []\<rparr>
      in resetStack vm)"

definition vm_close :: "vm_t \<Rightarrow> vm_t res" where
  "vm_close vm = gc_free (vm\<lparr>globals := tab_free (globals vm), strings := tab_free (strings vm)\<rparr>)"

definition vm_dofile ::
  "natives \<Rightarrow> (string \<Rightarrow> string option) \<Rightarrow> (src_t \<Rightarrow> vm_t \<Rightarrow> (addr option \<times> vm_t) res) \<Rightarrow>
     string \<Rightarrow> vm_t \<Rightarrow> (vm_result \<times> vm_t) res" where
  "vm_dofile native read_file compile fname vm =
     (case src_new read_file fname of
        None \<Rightarrow> Inr (VM_COMPILE_ERROR, vm)
      | Some source \<Rightarrow>
          bindr (compile source vm) (\<lambda>(function, vm).
          case function of
            None \<Rightarrow> Inr (VM_COMPILE_ERROR, vm)
          | Some f \<Rightarrow>
              bindr (PUSH (VAL_OBJ f) vm) (\<lambda>vm.
              bindr (vm_call native (VAL_OBJ f) 0 vm) (\<lambda>(_, vm).
              bindr (returns (vm_execute native vm)) (\<lambda>r. r)))))"

text \<open>
  \<open>main\<close> of \<open>src/src/main.c\<close>: the exit code and what the program has written to its output. The last argument
  is the file; \<open>VM_INIT_ERROR\<close> is the result of an allocation that fails, which is not modelled.
\<close>

definition au3_main ::
  "natives \<Rightarrow> (string \<Rightarrow> string option) \<Rightarrow> (src_t \<Rightarrow> vm_t \<Rightarrow> (addr option \<times> vm_t) res) \<Rightarrow>
     (addr \<Rightarrow> bool) \<Rightarrow> string list \<Rightarrow> (int \<times> out_item list) res" where
  "au3_main native read_file compile mem argv =
     (if length argv < 2 then Inr (0, [Out_text (''usage: au3 [file]'' @ [CHR 0x0A])])
      else
        bindr (load_libmath (vm_create mem)) (\<lambda>vm.
        bindr (load_libthread vm) (\<lambda>vm.
        bindr (vm_dofile native read_file compile (last argv) vm) (\<lambda>(ret, vm).
        bindr (vm_close vm) (\<lambda>vm. Inr (vm_result_code ret, stdout vm))))))"

subsection \<open>Properties\<close>

lemma machine_create: "machine_ok (vm_create mem)" "hashes_ok (vm_create mem)"
  by (simp_all add: vm_create_def gc_init_def resetStack_def machine_ok_def strings_ok_def
      tab_good_def maps_good_def in_bounds_def hashes_ok_def is_str_def)

lemma math_natives_keep:
  assumes "\<And>f n i vm. machine_ok vm \<Longrightarrow> okr (\<lambda>_. True) (\<lambda>(_, vm'). machine_ok vm') (thr f n i vm)"
    and "machine_ok vm"
  shows "okr (\<lambda>_. True) (\<lambda>(_, vm'). machine_ok vm') (run_native lm thr f n i vm)"
  using assms(2) assms(1) [OF assms(2)]
  by (cases f) (auto simp: math_abs_def math_ceil_def math_cos_def math_floor_def math_log_def
      math_log10_def math_pow_def math_sin_def math_sqrt_def elim!: bindr_Inr_E)

text \<open>The library \<open>math\<close> can be called with a value that is no number: its bits are used.\<close>

lemma math_abs_spec:
  assumes "args < STACK_MAX"
  shows "math_abs args vm = Inr (VAL_NUM (let x = AS_RAW (stack vm args) in
           if d_lt x 0 then d_neg x else x), vm)"
  using assms by (simp add: math_abs_def arg_num_def AS_NUM_def Let_def)

lemma set_global_spec:
  assumes ok: "machine_ok vm" and idle: "gc_idle SIZEOF_STR vm" and room: "vm_top vm + 2 \<le> STACK_MAX"
  shows "\<exists>a vm'. set_global name v vm = Inr vm' \<and> machine_ok vm' \<and>
           str_match (str_of vm') (length name) (hash_string name (length name) True) a \<and>
           tab_model (globals vm') = (tab_model (globals vm))(a \<mapsto> v) \<and>
           stack_list vm' = stack_list vm"
proof -
  have sok: "strings_ok vm" using ok by (simp add: machine_ok_def)
  from str_copy_spec [OF this idle le_refl, of name True] obtain a vm1 where
    1: "str_copy name (length name) True vm = Inr (a, vm1)" "strings_ok vm1" "str_extends vm vm1"
      "is_str (heap vm1) a"
      "str_match (str_of vm1) (length name) (hash_string name (length name) True) a" by blast
  have ok1: "machine_ok vm1" using machine_extends(1) [OF ok 1(2,3)] .
  have s1: "stack_list vm1 = stack_list vm" "vm_top vm1 = vm_top vm" "globals vm1 = globals vm"
    using 1(3) by (simp_all add: str_extends_def stack_list_def)
  obtain vm2 where 2: "PUSH (VAL_OBJ a) vm1 = Inr vm2" "stack_list vm2 = VAL_OBJ a # stack_list vm1"
    "only_stack vm1 vm2" using PUSH_ok [of vm1] s1(2) room by auto
  obtain vm3 where 3: "PUSH v vm2 = Inr vm3" "stack_list vm3 = v # VAL_OBJ a # stack_list vm1"
    "only_stack vm2 vm3" using PUSH_ok [of vm2] stack_top [OF 2(2)] 2(2) s1(2) room by auto
  have os3: "only_stack vm1 vm3" using 2(3) 3(3) only_stack_trans by blast
  have ok3: "machine_ok vm3"
    using machine_only_stack [OF ok1 os3] stack_top [OF 3(2)] s1(2) room by simp
  have h3: "heap vm3 = heap vm1" "globals vm3 = globals vm"
    using os3 s1(3) by (simp_all add: only_stack_def same_store_def)
  have tok3: "tab_ok (strs_of (heap vm3)) (globals vm3)"
    using ok3 by (simp add: machine_ok_def tab_good_def)
  have str3: "is_str (heap vm3) a" using 1(4) h3 by simp
  have "okr returns_ok (\<lambda>(_, vm'). machine_ok vm') (global_set a v vm3)"
    by (rule okr_mono [OF machine_global_ops(2) [OF ok3 str3]]) auto
  moreover obtain t where t: "tab_set (strs_of (heap vm3)) (globals vm3) a v =
      Some (t, tab_model (globals vm) a = None)" "tab_model t = (tab_model (globals vm))(a \<mapsto> v)"
    using tab_set_spec [OF tok3, of a v] unfolding h3(2) by blast
  ultimately have 4: "global_set a v vm3 = Inr (tab_model (globals vm) a = None, vm3\<lparr>globals := t\<rparr>)"
    "machine_ok (vm3\<lparr>globals := t\<rparr>)" by (simp_all add: global_set_def)
  have "stack_list (vm3\<lparr>globals := t\<rparr>) = v # VAL_OBJ a # stack_list vm1"
    using 3(2) by (simp add: stack_list_def)
  then obtain vm5 where 5: "POP (vm3\<lparr>globals := t\<rparr>) = Inr (v, vm5)"
    "stack_list vm5 = VAL_OBJ a # stack_list vm1" "only_stack (vm3\<lparr>globals := t\<rparr>) vm5"
    using POP_ok by blast
  obtain vm6 where 6: "POP vm5 = Inr (VAL_OBJ a, vm6)" "stack_list vm6 = stack_list vm1"
    "only_stack vm5 vm6" using POP_ok [OF 5(2)] by blast
  have os6: "only_stack (vm3\<lparr>globals := t\<rparr>) vm6" using 5(3) 6(3) only_stack_trans by blast
  have "vm_top vm6 \<le> STACK_MAX" using stack_top [OF 6(2)] s1(2) room by simp
  then have "machine_ok vm6" by (rule machine_only_stack [OF 4(2) os6])
  moreover have "globals vm6 = t" "heap vm6 = heap vm1"
    using os6 h3 by (simp_all add: only_stack_def same_store_def)
  moreover have "set_global name v vm = Inr vm6"
    using 1(1) 2(1) 3(1) 4(1) 5(1) 6(1) by (simp add: set_global_def)
  ultimately show ?thesis using t(2) 1(5) s1(1) 6(2) by (auto simp: str_of_def)
qed

end
