(* ===== verification/Examples.thy ===== *)
theory Examples
  imports Libs
begin

text \<open>
  Concrete machines, on which the witnesses of the properties run: a machine with given values
  on its stack, and one that is about to run given code.
\<close>

definition vm_blank :: vm_t where
  "vm_blank = vm_create (\<lambda>_. False)"

definition vm_with :: "val_t list \<Rightarrow> vm_t" where
  "vm_with vs = vm_blank\<lparr>stack := (\<lambda>i. if i < length vs then rev vs ! i else VAL_NULL),
     vm_top := length vs\<rparr>"

definition demo_chunk :: "u8 list \<Rightarrow> chunk_t" where
  "demo_chunk bytes =
     fold (\<lambda>b c. chunk_emit c b 1 1) bytes
       (chunk_init (Some \<lparr>src_buffer = [], src_fname = ''demo'', src_size = 0\<rparr>))"

text \<open>The code belongs to the function at address 0, which is in the only frame.\<close>

definition vm_code :: "u8 list \<Rightarrow> val_t list \<Rightarrow> vm_t" where
  "vm_code bytes vs = (vm_with vs)\<lparr>
     heap := [0 \<mapsto> \<lparr>isMarked = False, obj_next = None,
        body = OT_FUN \<lparr>fn_arity = 0, fn_upvalues = None, fn_name = None,
          fn_chunk = demo_chunk bytes\<rparr>\<rparr>],
     next_addr := 1, gc_objects := Some 0,
     frames := [\<lparr>fr_function = 0, fr_ip = 0, fr_slots = 0\<rparr>]\<rparr>"

lemma vm_blank_simps [simp]:
  "vm_top vm_blank = 0" "frames vm_blank = []" "heap vm_blank = Map.empty" "next_addr vm_blank = 0"
  "strings vm_blank = tab_init" "globals vm_blank = tab_init" "gc_vm vm_blank = False"
  "gc_allocated vm_blank = 0" "gc_nextGC vm_blank = 524288" "stdout vm_blank = []" "stderr vm_blank = []"
  "stack vm_blank = (\<lambda>_. VAL_NULL)" "gc_objects vm_blank = None"
  by (simp_all add: vm_blank_def vm_create_def gc_init_def resetStack_def)

lemma chunk_emit_simps:
  "ck_count (chunk_emit c b l k) = Suc (ck_count c)" "ck_source (chunk_emit c b l k) = ck_source c"
  "ck_lines (chunk_emit c b l k) = ck_lines c @ [word_of_int l]"
  "ck_columns (chunk_emit c b l k) = ck_columns c @ [word_of_int k]"
  by (simp_all add: chunk_emit_def Let_def)

lemma demo_chunk_simps:
  "ck_code (demo_chunk bytes) = bytes" "ck_count (demo_chunk bytes) = length bytes"
  "ck_constants (demo_chunk bytes) = arr_init" "chunk_ok (demo_chunk bytes)"
  "ck_source (demo_chunk bytes) = Some \<lparr>src_buffer = [], src_fname = ''demo'', src_size = 0\<rparr>"
  "ck_lines (demo_chunk bytes) = replicate (length bytes) 1"
  "ck_columns (demo_chunk bytes) = replicate (length bytes) 1"
  unfolding demo_chunk_def
  by (induction bytes rule: rev_induct)
    (simp_all add: chunk_emit_simps chunk_emit_ok replicate_append_same flip: replicate_Suc,
      simp_all add: chunk_init_def)

lemma stack_list_with [simp]: "stack_list (vm_with vs) = vs"
proof (rule nth_equalityI)
  show "stack_list (vm_with vs) ! i = vs ! i" if "i < length (stack_list (vm_with vs))" for i
  proof -
    have "length vs - Suc i < length vs" using that by (simp add: vm_with_def)
    with that show ?thesis by (simp add: vm_with_def nth_stack_list rev_nth)
  qed
qed (simp add: vm_with_def)

lemma stack_list_code [simp]: "stack_list (vm_code bytes vs) = vs"
  using stack_list_with [of vs] by (simp add: vm_code_def stack_list_def)

lemma vm_with_ok: "length vs \<le> STACK_MAX \<Longrightarrow> machine_ok (vm_with vs)"
  by (rule machine_same_store(1) [OF _ machine_create(1) [of "\<lambda>_. False"]])
    (simp_all add: vm_with_def same_store_def in_bounds_def flip: vm_blank_def)

lemma vm_code_ok:
  assumes "length vs \<le> STACK_MAX"
  shows "machine_ok (vm_code bytes vs)" and "hashes_ok (vm_code bytes vs)"
proof -
  have "FRAMES_MAX = 64" by (simp add: FRAMES_MAX_def)
  then show "machine_ok (vm_code bytes vs)"
    using assms
    by (simp add: vm_code_def vm_with_def machine_ok_def strings_ok_def str_of_def tab_good_def
        maps_good_def in_bounds_def is_str_def)
  show "hashes_ok (vm_code bytes vs)"
    by (simp add: vm_code_def vm_with_def hashes_ok_def)
qed

lemma vm_code_byte:
  "bytes \<noteq> [] \<Longrightarrow> READ_BYTE (vm_code bytes vs) = Inr (hd bytes, set_ip 1 (vm_code bytes vs))"
  by (simp add: READ_BYTE_def get_ip_def cur_frame_def cur_chunk_def get_fun_def vm_code_def vm_with_def
      demo_chunk_simps hd_conv_nth set_ip_def)

subsection \<open>Running code\<close>

text \<open>The code of the current frame.\<close>

definition running :: "vm_t \<Rightarrow> addr \<Rightarrow> chunk_t \<Rightarrow> nat \<Rightarrow> bool" where
  "running vm a c ip \<longleftrightarrow>
     (\<exists>f fs ob fn. frames vm = f # fs \<and> fr_function f = a \<and> fr_ip f = ip \<and>
        heap vm a = Some ob \<and> body ob = OT_FUN fn \<and> fn_chunk fn = c)"

lemma running_set_ip: "running vm a c ip \<Longrightarrow> running (set_ip ip' vm) a c ip'"
  by (auto simp: running_def set_ip_def)

lemma running_only_stack: "only_stack vm vm' \<Longrightarrow> running vm a c ip \<Longrightarrow> running vm' a c ip"
  by (simp add: running_def only_stack_def same_store_def)

lemma running_byte:
  assumes "running vm a c ip" and "ip < ck_count c"
  shows "READ_BYTE vm = Inr (ck_code c ! ip, set_ip (ip + 1) vm)"
  using assms
  by (auto simp: running_def READ_BYTE_def get_ip_def cur_frame_def cur_chunk_def get_fun_def)

lemma running_code: "running (vm_code bytes vs) 0 (demo_chunk bytes) 0"
  by (simp add: running_def vm_code_def vm_with_def)

lemma vm_step_op:
  assumes "running vm a c ip" and "ip < ck_count c" and "ck_code c ! ip = opcode_byte op"
  shows "vm_step native vm = exec_op native op (set_ip (ip + 1) vm)"
  using running_byte [OF assms(1,2)] assms(3) by (simp add: vm_step_def)

lemma vm_execute_next:
  "vm_step native vm = Inr (NEXT, vm') \<Longrightarrow> vm_execute native vm = vm_execute native vm'"
  by (subst vm_execute.simps) simp

lemma vm_execute_return:
  "vm_step native vm = Inr (RETURN r, vm') \<Longrightarrow> vm_execute native vm = Some (Inr (r, vm'))"
  by (subst vm_execute.simps) simp

text \<open>The return of the script.\<close>

lemma op_RET_last:
  assumes "frames vm = [f]" and "stack_list vm = result # script # rest"
  shows "\<exists>vm'. op_RET vm = Inr (RETURN VM_OK, vm') \<and> stack_list vm' = rest \<and> frames vm' = [] \<and>
           stdout vm' = stdout vm \<and> stderr vm' = stderr vm \<and> same_store vm vm'"
proof -
  obtain vm1 where 1: "POP vm = Inr (result, vm1)" "stack_list vm1 = script # rest" "only_stack vm vm1"
    using POP_ok [OF assms(2)] by blast
  let ?vm2 = "vm1\<lparr>frames := []\<rparr>"
  have "stack_list ?vm2 = script # rest" using 1(2) by (simp add: stack_list_def)
  then obtain vm3 where 3: "POP ?vm2 = Inr (script, vm3)" "stack_list vm3 = rest" "only_stack ?vm2 vm3"
    using POP_ok by blast
  have "frames vm1 = [f]" using 1(3) assms(1) by (simp add: only_stack_def)
  then have "op_RET vm = Inr (RETURN VM_OK, vm3)"
    using 1(1) 3(1) by (simp add: op_RET_def cur_frame_def)
  with 1(3) 3(2,3) show ?thesis by (auto simp: only_stack_def same_store_def)
qed

text \<open>A function object added to a machine, and the machine about to run it.\<close>

definition with_fun :: "fun_t \<Rightarrow> vm_t \<Rightarrow> vm_t" where
  "with_fun fn vm = vm\<lparr>
     heap := (heap vm)(next_addr vm \<mapsto> \<lparr>isMarked = False, obj_next = gc_objects vm, body = OT_FUN fn\<rparr>),
     next_addr := next_addr vm + 1, gc_objects := Some (next_addr vm),
     frames := [\<lparr>fr_function = next_addr vm, fr_ip = 0, fr_slots = 0\<rparr>]\<rparr>"

lemma machine_with_fun:
  assumes "machine_ok vm"
  shows "machine_ok (with_fun fn vm)" and "hashes_ok vm \<Longrightarrow> hashes_ok (with_fun fn vm)"
proof -
  let ?n = "next_addr vm"
  let ?ob = "\<lparr>isMarked = False, obj_next = gc_objects vm, body = OT_FUN fn\<rparr>"
  have sok: "strings_ok vm" using assms by (simp add: machine_ok_def)
  have free: "heap vm ?n = None" using strings_ok_free [OF sok] by simp
  then have ns: "\<not> is_str (heap vm) ?n" by (simp add: is_str_def)
  note upd = heap_update_strs [OF ns, of ?ob]
  have "strings_ok (with_fun fn vm)"
    using upd strings_ok_free [OF sok] by (intro strings_ok_heap [OF sok]) (simp_all add: with_fun_def)
  moreover have "tab_good (heap (with_fun fn vm)) (globals (with_fun fn vm))"
    using assms upd by (simp add: machine_ok_def tab_good_def with_fun_def)
  moreover have "maps_good (heap (with_fun fn vm))"
    using assms maps_good_update [OF _ ns, of ?ob] by (auto simp: machine_ok_def with_fun_def)
  ultimately show "machine_ok (with_fun fn vm)"
    using assms by (simp add: machine_ok_def in_bounds_def with_fun_def FRAMES_MAX_def)
  show "hashes_ok vm \<Longrightarrow> hashes_ok (with_fun fn vm)"
    by (simp add: hashes_ok_def with_fun_def)
qed

definition demo_fun :: "u8 list \<Rightarrow> val_t list \<Rightarrow> fun_t" where
  "demo_fun bytes consts = \<lparr>fn_arity = 0, fn_upvalues = None, fn_name = None,
     fn_chunk = (demo_chunk bytes)\<lparr>ck_constants :=
       \<lparr>arr_count = length consts, arr_capacity = length consts, arr_values = consts\<rparr>\<rparr>\<rparr>"

lemma with_fun_READ_STR:
  assumes "is_str (heap vm) a" and "heap vm (next_addr vm) = None"
  shows "READ_STR (with_fun (demo_fun [0] [VAL_OBJ a]) vm) =
    Inr (a, set_ip 1 (with_fun (demo_fun [0] [VAL_OBJ a]) vm))"
proof -
  let ?fn = "demo_fun [0] [VAL_OBJ a]" and ?vm = "with_fun (demo_fun [0] [VAL_OBJ a]) vm"
  have r: "running ?vm (next_addr vm) (fn_chunk ?fn) 0" by (simp add: running_def with_fun_def)
  have c: "ck_count (fn_chunk ?fn) = 1" "ck_code (fn_chunk ?fn) ! 0 = 0"
    "arr_count (ck_constants (fn_chunk ?fn)) = 1" "arr_values (ck_constants (fn_chunk ?fn)) ! 0 = VAL_OBJ a"
    by (simp_all add: demo_fun_def demo_chunk_simps)
  have b: "READ_BYTE ?vm = Inr (0, set_ip 1 ?vm)" using running_byte [OF r] c by simp
  have "cur_chunk (set_ip 1 ?vm) = Inr (fn_chunk ?fn)"
    using running_set_ip [OF r, of 1] by (auto simp: running_def cur_chunk_def cur_frame_def get_fun_def)
  then have k: "READ_CONST ?vm = Inr (VAL_OBJ a, set_ip 1 ?vm)" using b c by (simp add: READ_CONST_def)
  have "a \<noteq> next_addr vm" using assms by (auto simp: is_str_def)
  with assms(1) have "is_str (heap ?vm) a" by (simp add: with_fun_def is_str_def)
  then have "is_str (heap (set_ip 1 ?vm)) a" by (simp add: set_ip_def split: list.split)
  with k show ?thesis by (simp add: READ_STR_def AS_STR_def)
qed

lemma stack_list_with_fun [simp]: "stack_list (with_fun fn vm) = stack_list vm"
  by (simp add: stack_list_def with_fun_def)

subsection \<open>Natives\<close>

definition no_threads :: natives where
  "no_threads f argc args vm = Inr (VAL_NULL, vm)"

definition demo_libm :: libm where
  "demo_libm = \<lparr>lm_cos = (\<lambda>x. x), lm_log = (\<lambda>x. x), lm_log10 = (\<lambda>x. x), lm_pow = (\<lambda>x y. x),
     lm_sin = (\<lambda>x. x), lm_sqrt = (\<lambda>x. x)\<rparr>"

abbreviation demo_native :: natives where
  "demo_native \<equiv> run_native demo_libm no_threads"

lemma run_native_cases:
  "run_native lm thr f n i vm = thr f n i vm \<or> (\<exists>v. run_native lm thr f n i vm = Inr (v, vm)) \<or>
   (\<exists>u. run_native lm thr f n i vm = Inl (Undefined u))"
  by (cases f) (auto simp: math_abs_def math_ceil_def math_cos_def math_floor_def math_log_def
      math_log10_def math_pow_def math_sin_def math_sqrt_def arg_num_def)

end
