(* ===== verification/Store_Props.thy ===== *)
theory Store_Props
  imports Examples
begin

text \<open>
  The properties of the data structures: the two hash tables, values and their packing, the
  constant array, chunks and the name of a source file.
\<close>

subsection \<open>Witness data\<close>

definition demo_strs :: strs where
  "demo_strs a = \<lparr>str_length = 1, str_hash = word_of_nat a, str_chars = [CHR ''x'']\<rparr>"

definition ent_full :: "ent_t list" where
  "ent_full = replicate 8 (ent 3 (VAL_BOOL True))"

lemma two_sets:
  "\<exists>t b t' b'. tab_set demo_strs tab_init 3 (VAL_BOOL True) = Some (t, b) \<and>
     tab_set demo_strs t 11 VAL_NULL = Some (t', b') \<and> tab_ok demo_strs t \<and> tab_ok demo_strs t' \<and>
     tab_model t = [3 \<mapsto> VAL_BOOL True] \<and> tab_model t' = [3 \<mapsto> VAL_BOOL True, 11 \<mapsto> VAL_NULL]"
  using tab_set_spec [of demo_strs tab_init 3 "VAL_BOOL True"]
    tab_set_spec [of demo_strs _ 11 VAL_NULL] by fastforce

subsection \<open>The table of strings\<close>

text \<open>
  C31. \<open>tab_set\<close> returns on every well-formed table; it keeps the table well-formed, reports
  whether the key was new, and the table then stands for the map updated at the key: \<open>tab_get\<close>
  finds the value under the key and what it found before under every other key.
\<close>

theorem tab_set_get:
  assumes "tab_ok S t"
  shows "\<exists>t'. tab_set S t k v = Some (t', tab_model t k = None) \<and> tab_ok S t' \<and>
           tab_model t' = (tab_model t)(k \<mapsto> v) \<and>
           (\<forall>l. tab_get S t' l = (if l = k then Some (Some v) else tab_get S t l))"
proof -
  from tab_set_spec [OF assms] obtain t' where t': "tab_set S t k v = Some (t', tab_model t k = None)"
    "tab_ok S t'" "tab_model t' = (tab_model t)(k \<mapsto> v)" by blast
  moreover have "tab_get S t' l = (if l = k then Some (Some v) else tab_get S t l)" for l
    using tab_store.get_after_set [OF assms _ _ t'(1)] by simp
  ultimately show ?thesis by blast
qed

lemma tab_set_get_witness:
  "\<exists>t b t' b'. tab_set demo_strs tab_init 3 (VAL_BOOL True) = Some (t, b) \<and>
     tab_set demo_strs t 11 VAL_NULL = Some (t', b') \<and> b' \<and>
     tab_get demo_strs t' 3 = Some (Some (VAL_BOOL True)) \<and> tab_get demo_strs t' 11 = Some (Some VAL_NULL)"
proof -
  obtain t b where t: "tab_set demo_strs tab_init 3 (VAL_BOOL True) = Some (t, b)" "tab_ok demo_strs t"
    "tab_model t = [3 \<mapsto> VAL_BOOL True]" using two_sets by blast
  from tab_set_get [OF t(2), of 11 VAL_NULL] t(3) tab_get_spec [OF t(2), of 3]
  show ?thesis using t(1) by fastforce
qed

text \<open>
  C32. \<open>tab_remove\<close> returns, reports whether the key was present, and leaves a well-formed table
  that stands for the map without the key; the tombstone does not hide the other keys.
\<close>

theorem tab_remove_model:
  assumes "tab_ok S t"
  shows "\<exists>t'. tab_remove S t k = Some (t', tab_model t k \<noteq> None) \<and> tab_ok S t' \<and>
           tab_model t' = (tab_model t)(k := None) \<and>
           (\<forall>l. tab_get S t' l = (if l = k then Some None else tab_get S t l))"
proof -
  from tab_remove_spec [OF assms] obtain t' where t':
    "tab_remove S t k = Some (t', tab_model t k \<noteq> None)" "tab_ok S t'"
    "tab_model t' = (tab_model t)(k := None)" by blast
  then have "tab_get S t' l = (if l = k then Some None else tab_get S t l)" for l
    by (simp add: tab_get_spec assms)
  with t' show ?thesis by blast
qed

lemma tab_remove_model_witness:
  "\<exists>t t'. tab_model t = [3 \<mapsto> VAL_BOOL True, 11 \<mapsto> VAL_NULL] \<and>
     tab_remove demo_strs t 3 = Some (t', True) \<and> tab_get demo_strs t' 11 = Some (Some VAL_NULL)"
proof -
  obtain t where t: "tab_ok demo_strs t" "tab_model t = [3 \<mapsto> VAL_BOOL True, 11 \<mapsto> VAL_NULL]"
    using two_sets by blast
  from tab_remove_model [OF t(1), of 3] t(2) tab_get_spec [OF t(1), of 11] show ?thesis
    by fastforce
qed

text \<open>
  C33. \<open>tab_add\<close> returns, and the target then stands for its own map overridden by the source's.
\<close>

theorem tab_add_model:
  assumes "tab_ok S to" and "tab_ok S' from"
  shows "\<exists>to'. tab_add S from to = Some to' \<and> tab_ok S to' \<and>
           tab_model to' = tab_model to ++ tab_model from"
  using assms by (rule tab_add_spec)

lemma tab_add_model_witness:
  "\<exists>from to'. tab_add demo_strs from tab_init = Some to' \<and>
     tab_model to' = [3 \<mapsto> VAL_BOOL True, 11 \<mapsto> VAL_NULL]"
proof -
  obtain t where t: "tab_ok demo_strs t" "tab_model t = [3 \<mapsto> VAL_BOOL True, 11 \<mapsto> VAL_NULL]"
    using two_sets by blast
  from tab_add_model [OF tab_init_ok t(1), of demo_strs] t(2) show ?thesis by auto
qed

text \<open>
  C34. \<open>tab_findstr\<close> returns on a well-formed table, and finds a key exactly when one of the
  requested length and hash is present; the characters it is given play no part.
\<close>

theorem tab_findstr_finds:
  assumes "tab_ok S t"
  shows "\<exists>r. tab_findstr S t chars len hash = Some r \<and>
           (r = None \<longleftrightarrow> (\<forall>k. tab_model t k \<noteq> None \<longrightarrow> \<not> str_match S len hash k)) \<and>
           (\<forall>k. r = Some k \<longrightarrow> tab_model t k \<noteq> None \<and> str_match S len hash k) \<and>
           tab_findstr S t chars' len hash = Some r"
proof -
  have same: "tab_findstr S t chars' len hash = tab_findstr S t chars len hash"
    by (simp add: tab_findstr_def)
  from tab_findstr_spec [OF assms, of chars len hash] obtain r where
    "tab_findstr S t chars len hash = Some r"
    "case r of
       None \<Rightarrow> \<forall>k. tab_model t k \<noteq> None \<longrightarrow> \<not> str_match S len hash k
     | Some k \<Rightarrow> tab_model t k \<noteq> None \<and> str_match S len hash k" by blast
  with same show ?thesis by (cases r) auto
qed

lemma tab_findstr_finds_witness:
  "\<exists>t. tab_findstr demo_strs t ''y'' 1 11 = Some (Some 11)"
proof -
  obtain t where t: "tab_ok demo_strs t" "tab_model t = [3 \<mapsto> VAL_BOOL True, 11 \<mapsto> VAL_NULL]"
    using two_sets by blast
  have ns: "\<not> str_match demo_strs 1 11 3" "str_match demo_strs 1 11 11"
    by (simp_all add: str_match_def demo_strs_def)
  have in11: "tab_model t 11 \<noteq> None" using t(2) by simp
  from tab_findstr_finds [OF t(1), of "''y''" 1 11] obtain r where
    r: "tab_findstr demo_strs t ''y'' 1 11 = Some r"
    and none: "r = None \<longleftrightarrow> (\<forall>k. tab_model t k \<noteq> None \<longrightarrow> \<not> str_match demo_strs 1 11 k)"
    and some: "\<forall>k. r = Some k \<longrightarrow> tab_model t k \<noteq> None \<and> str_match demo_strs 1 11 k" by blast
  from none in11 ns(2) obtain k where k: "r = Some k" by blast
  have "k = 3 \<or> k = 11" using some k t(2) by (cases "k = 3"; cases "k = 11") simp_all
  with some k ns(1) have "r = Some 11" by blast
  with r show ?thesis by blast
qed

text \<open>
  C35. The load factor is what makes the search end: over an array without a vacant slot, the
  loop of \<open>findEntry\<close> for an absent key never returns, from any slot.
\<close>

theorem findEntry_diverges:
  assumes "\<forall>e \<in> set es. \<not> ent_vacant e \<and> ent_key e \<noteq> Some k" and "es \<noteq> []"
  shows "findEntry S es (length es) k = None"
  using assms findEntry_loop_full [OF assms(1)] by (simp add: findEntry_def)

lemma findEntry_diverges_witness: "findEntry demo_strs ent_full 8 4 = None"
  using findEntry_diverges [of ent_full 4 demo_strs]
  by (simp add: ent_full_def ent_vacant_def ent_def)

subsection \<open>The table of numbers\<close>

text \<open>
  C36. For every key but the reserved one, \<open>hash_set\<close> returns, keeps the table well-formed,
  reports whether the key was new, and updates the map; \<open>hash_get\<close> then finds the value under
  the key and what it found before under every other key.
\<close>

theorem hash_set_get:
  assumes "hash_ok h" and "k \<noteq> UNUSED_INDEX"
  shows "\<exists>h'. hash_set h k v = Some (h', hash_model h k = None) \<and> hash_ok h' \<and>
           hash_model h' = (hash_model h)(k \<mapsto> v) \<and>
           (\<forall>l. hash_get h' l = (if l = k then Some (Some v) else hash_get h l))"
proof -
  from hash_set_spec [OF assms] obtain h' where h':
    "hash_set h k v = Some (h', hash_model h k = None)" "hash_ok h'"
    "hash_model h' = (hash_model h)(k \<mapsto> v)" by blast
  then have "hash_get h' l = (if l = k then Some (Some v) else hash_get h l)" for l
    by (simp add: hash_get_spec assms)
  with h' show ?thesis by blast
qed

lemma hash_set_get_witness:
  "\<exists>h h'. hash_set hash_init 5 (VAL_BOOL True) = Some (h, True) \<and> hash_set h 13 VAL_NULL = Some (h', True) \<and>
     hash_get h' 5 = Some (Some (VAL_BOOL True)) \<and> hash_get h' 13 = Some (Some VAL_NULL)"
proof -
  obtain h where h: "hash_set hash_init 5 (VAL_BOOL True) = Some (h, True)" "hash_ok h"
    "hash_model h = [5 \<mapsto> VAL_BOOL True]"
    using hash_set_get [OF hash_init_ok, of 5 "VAL_BOOL True"] by (auto simp: UNUSED_INDEX_def)
  with hash_set_get [OF h(2), of 13 VAL_NULL] hash_get_spec [OF h(2), of 5] show ?thesis
    by (fastforce simp: UNUSED_INDEX_def)
qed



subsection \<open>Values, constants and code\<close>

text \<open>
  Equality of values is symmetric and transitive, across booleans and numbers too, and
  reflexive but on NaN.
\<close>

theorem val_equal_equivalence:
  "(val_equal a b \<longleftrightarrow> val_equal b a) \<and> (val_equal a b \<and> val_equal b c \<longrightarrow> val_equal a c) \<and>
   (val_equal a a \<longleftrightarrow> \<not> (\<exists>n. a = VAL_NUM n \<and> is_nan n))"
proof -
  have sym: "val_equal a b \<longleftrightarrow> val_equal b a"
    by (cases a; cases b) (auto simp: d_eq_sym)
  have b: "d_eq (d_of_bool p) (d_of_bool q) \<longleftrightarrow> p = q" for p q
    by (cases p; cases q) (simp_all add: unit_eval d_eq_def d_key_def d_sign_def d_mag_def)
  have bn: "p = q" if "d_eq (d_of_bool p) x" "d_eq x (d_of_bool q)" for p q x
    using d_eq_trans [OF that] b by simp
  have "val_equal a b \<and> val_equal b c \<longrightarrow> val_equal a c"
    by (cases a; cases b; cases c) (auto intro: d_eq_trans dest: bn bn [simplified d_eq_sym])
  moreover have "val_equal a a \<longleftrightarrow> \<not> (\<exists>n. a = VAL_NUM n \<and> is_nan n)" by (cases a) auto
  ultimately show ?thesis using sym by simp
qed

lemma val_equal_equivalence_witness:
  "val_equal (VAL_NUM 0) (VAL_BOOL False) \<and> val_equal (VAL_BOOL False) (VAL_NUM 0x8000000000000000) \<and>
   val_equal (VAL_NUM 0) (VAL_NUM 0x8000000000000000)"
proof -
  have "val_equal (VAL_NUM 0) (VAL_BOOL False)" "val_equal (VAL_BOOL False) (VAL_NUM 0x8000000000000000)"
    by (simp_all add: d_of_bool_bits d_eq_def d_key_def d_sign_def d_mag_def is_nan_def inf_mag_def)
  then show ?thesis using val_equal_equivalence by blast
qed

text \<open>
  \<open>arr_add\<close> keeps the array well-formed and gives the index of an element equal to the value:
  an old one if there is one and duplicates are not allowed, and then the first; otherwise the
  value itself, appended.
\<close>

theorem arr_add_index:
  assumes "arr_ok a" and "arr_add a v dup = (a', i)"
  shows "arr_ok a' \<and> i < arr_count a' \<and>
    (if \<not> dup \<and> (\<exists>x \<in> set (arr_values a). val_equal x v)
     then a' = a \<and> val_equal (arr_values a ! i) v \<and> (\<forall>j < i. \<not> val_equal (arr_values a ! j) v)
     else i = arr_count a \<and> arr_values a' = arr_values a @ [v])"
proof -
  have push: "arr_add a v dup = arr_push a v" if "dup \<or> (\<forall>x \<in> set (arr_values a). \<not> val_equal x v)"
  proof (cases dup)
    case False
    with that have "arr_scan (arr_values a) v 0 = None"
      using arr_scan_Some [of "arr_values a" v 0] by (cases "arr_scan (arr_values a) v 0") auto
    with False show ?thesis by (simp add: arr_add_def)
  qed (simp add: arr_add_def)
  show ?thesis
  proof (cases "\<not> dup \<and> (\<exists>x \<in> set (arr_values a). val_equal x v)")
    case True
    then obtain j where j: "arr_scan (arr_values a) v 0 = Some j"
      using arr_scan_None [of "arr_values a" v 0] by (cases "arr_scan (arr_values a) v 0") auto
    with True assms(2) have "a' = a" "i = j" by (simp_all add: arr_add_def)
    with arr_scan_Some [OF j] True assms(1) show ?thesis by (simp add: arr_ok_def)
  next
    case False
    then have "arr_push a v = (a', i)" using push assms(2) by auto
    with arr_push_spec [OF assms(1), of v] have "arr_ok a'" "arr_values a' = arr_values a @ [v]"
      "i = length (arr_values a)" by simp_all
    with False assms(1) show ?thesis by (auto simp: arr_ok_def)
  qed
qed

lemma arr_add_index_witness:
  "snd (arr_add (fst (arr_add arr_init (VAL_BOOL True) False)) (VAL_BOOL True) False) = 0"
proof -
  let ?a = "fst (arr_add arr_init (VAL_BOOL True) False)"
  have ok: "arr_ok ?a" by (simp add: arr_add_def arr_push_def arr_init_def arr_ok_def GROW_CAP_def)
  obtain a' i where r: "arr_add ?a (VAL_BOOL True) False = (a', i)" by fastforce
  have v: "arr_values ?a = [VAL_BOOL True]" by (simp add: arr_add_def arr_push_def arr_init_def)
  from arr_add_index [OF ok r] v have "\<forall>j < i. False" by auto
  then have "i = 0" by (cases i) auto
  with r show ?thesis by simp
qed

text \<open>
  C38. \<open>chunk_emit\<close> appends the byte, keeps the chunk well-formed and the earlier code and
  positions as they are, and records the line and column of the byte modulo 65536.
\<close>

theorem chunk_emit_records:
  assumes "chunk_ok c" and "c' = chunk_emit c b line column"
  shows "chunk_ok c' \<and> ck_count c' = ck_count c + 1 \<and> ck_code c' = ck_code c @ [b] \<and>
    (\<forall>i < ck_count c. ck_lines c' ! i = ck_lines c ! i \<and> ck_columns c' ! i = ck_columns c ! i) \<and>
    ck_lines c' ! ck_count c = word_of_int line \<and> ck_columns c' ! ck_count c = word_of_int column"
  using assms chunk_emit_ok [OF assms(1)] chunk_emit_position [OF assms(1)]
  by (simp add: chunk_emit_simps nth_append chunk_ok_def)

lemma chunk_emit_records_witness:
  "ck_lines (chunk_emit (chunk_init None) 7 65537 3) ! 0 = 1"
  using chunk_emit_records [OF chunk_init_ok refl, of None 7 65537 3] by (simp add: chunk_init_def)


text \<open>
  The name that \<open>src_new\<close> keeps is cut at the last backslash only: a path with slashes alone
  keeps its directories, although the code looks for a slash first.
\<close>

theorem src_basename_slash:
  assumes "CHR 0x5C \<notin> set fname"
  shows "src_basename fname = fname"
proof -
  have "strrchr s (CHR 0x5C) = None" if "CHR 0x5C \<notin> set s" for s
    using that by (induction s) auto
  with assms show ?thesis by (simp add: src_basename_def Let_def)
qed

lemma src_basename_slash_witness: "src_basename ''lib/a.au3'' = ''lib/a.au3''"
  using src_basename_slash [of "''lib/a.au3''"] by simp

end
