(* ===== verification/Marking.thy ===== *)
theory Marking
  imports Collector
begin

text \<open>
  The mark phase of the collector against a specification: the objects reachable from the roots.
  All marking functions are instances of one, \<open>mark_refs\<close>, on the list of addresses they visit;
  \<open>marks R vm vm'\<close> is its effect, and the trace loop is proved to close the marked set under the
  references of the objects.
\<close>

subsection \<open>References\<close>

fun val_refs :: "val_t \<Rightarrow> addr list" where
  "val_refs (VAL_OBJ a) = [a]"
| "val_refs _ = []"

definition ptr_refs :: "addr option \<Rightarrow> addr list" where
  "ptr_refs p = (case p of None \<Rightarrow> [] | Some a \<Rightarrow> [a])"

definition table_refs :: "ent_t list \<Rightarrow> addr list" where
  "table_refs es = concat (map (\<lambda>e. ptr_refs (ent_key e) @ val_refs (ent_value e)) es)"

fun body_refs :: "obj_body \<Rightarrow> addr list" where
  "body_refs (OT_STR s) = []"
| "body_refs (OT_UPV u) = val_refs (upv_closed u)"
| "body_refs (OT_FUN f) =
     ptr_refs (fn_name f) @ concat (map val_refs (arr_values (ck_constants (fn_chunk f)))) @
     (case fn_upvalues f of None \<Rightarrow> [] | Some us \<Rightarrow> concat (map ptr_refs us))"
| "body_refs (OT_MAP m) =
     table_refs (tab_entries (map_table m)) @
     concat (map (\<lambda>e. val_refs (index_value e)) (hash_indexes (map_hash m)))"

definition edge :: "obj_heap \<Rightarrow> addr \<Rightarrow> addr \<Rightarrow> bool" where
  "edge h a b \<longleftrightarrow> (\<exists>ob. h a = Some ob \<and> b \<in> set (body_refs (body ob)))"

inductive reaches :: "obj_heap \<Rightarrow> addr set \<Rightarrow> addr \<Rightarrow> bool" for h R where
  root: "a \<in> R \<Longrightarrow> reaches h R a"
| step: "reaches h R a \<Longrightarrow> edge h a b \<Longrightarrow> reaches h R b"

text \<open>No dangling reference; no function with an unwritten upvalue count.\<close>

definition heap_closed :: "obj_heap \<Rightarrow> bool" where
  "heap_closed h \<longleftrightarrow> (\<forall>a b. edge h a b \<longrightarrow> b \<in> dom h)"

definition upvalues_ready :: "obj_heap \<Rightarrow> bool" where
  "upvalues_ready h \<longleftrightarrow>
     (\<forall>a ob f. h a = Some ob \<longrightarrow> body ob = OT_FUN f \<longrightarrow> fn_upvalues f \<noteq> None)"

definition marked :: "obj_heap \<Rightarrow> addr set" where
  "marked h = {a. \<exists>ob. h a = Some ob \<and> isMarked ob}"

definition mark_heap :: "addr set \<Rightarrow> obj_heap \<Rightarrow> obj_heap" where
  "mark_heap R h a = map_option (\<lambda>ob. ob\<lparr>isMarked := isMarked ob \<or> a \<in> R\<rparr>) (h a)"

lemma reaches_mono: "reaches h R a \<Longrightarrow> R \<subseteq> Q \<Longrightarrow> reaches h Q a"
  by (induction rule: reaches.induct) (auto intro: reaches.intros)

lemma reaches_least:
  assumes "reaches h R a" and "R \<subseteq> Q" and "\<And>a b. a \<in> Q \<Longrightarrow> edge h a b \<Longrightarrow> b \<in> Q"
  shows "a \<in> Q"
  using assms(1,2) by (induction rule: reaches.induct) (auto intro: assms(3))

lemma reaches_dom:
  assumes "heap_closed h" and "R \<subseteq> dom h" and "reaches h R a"
  shows "a \<in> dom h"
  using assms(3,2) by (rule reaches_least) (use assms(1) in \<open>auto simp: heap_closed_def\<close>)

lemma mark_heap_dom [simp]: "dom (mark_heap R h) = dom h"
  by (auto simp: mark_heap_def dom_def)

lemma mark_heap_empty [simp]: "mark_heap {} h = h"
  by (rule ext) (simp add: mark_heap_def option.map_ident)

lemma mark_heap_compose: "mark_heap Q (mark_heap R h) = mark_heap (R \<union> Q) h"
  by (rule ext) (simp add: mark_heap_def option.map_comp comp_def disj_assoc)

lemma marked_mark_heap: "marked (mark_heap R h) = marked h \<union> (R \<inter> dom h)"
  by (auto simp: marked_def mark_heap_def)

lemma mark_heap_marked:
  assumes "R \<subseteq> marked h"
  shows "mark_heap R h = h"
proof (rule ext)
  fix a
  show "mark_heap R h a = h a"
  proof (cases "h a")
    case (Some ob)
    then have "(isMarked ob \<or> a \<in> R) = isMarked ob" using assms by (auto simp: marked_def)
    with Some show ?thesis by (simp add: mark_heap_def)
  qed (simp add: mark_heap_def)
qed

lemma edge_mark_heap [simp]: "edge (mark_heap R h) a b = edge h a b"
  by (auto simp: edge_def mark_heap_def)

lemma reaches_mark_heap [simp]: "reaches (mark_heap R h) Q a = reaches h Q a"
proof -
  have "reaches h' Q a" if "reaches h Q a" "\<And>a b. edge h a b \<Longrightarrow> edge h' a b" for h h'
    using that by (induction rule: reaches.induct) (auto intro: reaches.intros)
  from this [of h "mark_heap R h"] this [of "mark_heap R h" h] show ?thesis by auto
qed

lemma heap_closed_mark_heap [simp]: "heap_closed (mark_heap R h) = heap_closed h"
  by (simp add: heap_closed_def)

lemma upvalues_ready_mark_heap [simp]: "upvalues_ready (mark_heap R h) = upvalues_ready h"
  by (fastforce simp: upvalues_ready_def mark_heap_def)

subsection \<open>Marking a list of addresses\<close>

fun mark_refs :: "addr list \<Rightarrow> vm_t \<Rightarrow> vm_t res" where
  "mark_refs [] vm = Inr vm"
| "mark_refs (a # as) vm = bindr (markObject (Some a) vm) (mark_refs as)"

lemma mark_refs_append: "mark_refs (xs @ ys) = (\<lambda>vm. bindr (mark_refs xs vm) (mark_refs ys))"
proof (induction xs)
  case Nil
  then show ?case by (simp add: fun_eq_iff)
next
  case (Cons a xs)
  show ?case by (rule ext) (simp add: Cons.IH bindr_assoc)
qed

lemma markObject_refs: "markObject p = mark_refs (ptr_refs p)"
proof (rule ext)
  fix vm
  show "markObject p vm = mark_refs (ptr_refs p) vm"
    by (cases p) (simp_all add: ptr_refs_def markObject_def bindr_def split: option.split sum.split)
qed

lemma markValue_refs: "markValue v = mark_refs (val_refs v)"
  by (rule ext, cases v) (simp_all add: markValue_def bindr_def split: sum.split)

lemma markTable_refs: "markTable es = mark_refs (table_refs es)"
proof (induction es)
  case Nil
  then show ?case by (simp add: table_refs_def fun_eq_iff)
next
  case (Cons e es)
  show ?case
    by (rule ext) (simp add: Cons.IH table_refs_def mark_refs_append markObject_refs
        markValue_refs bindr_assoc)
qed

lemma mark_hash_refs: "mark_hash es = mark_refs (concat (map (\<lambda>e. val_refs (index_value e)) es))"
  by (induction es) (rule ext, simp add: mark_refs_append markValue_refs)+

lemma mark_array_refs: "mark_array vs = mark_refs (concat (map val_refs vs))"
  by (induction vs) (rule ext, simp add: mark_refs_append markValue_refs)+

lemma mark_pointers_refs: "mark_pointers ps = mark_refs (concat (map ptr_refs ps))"
  by (induction ps) (rule ext, simp add: mark_refs_append markObject_refs)+

lemmas marking_as_refs =
  markObject_refs markValue_refs markTable_refs mark_hash_refs mark_array_refs mark_pointers_refs

lemma blackenObject_refs:
  assumes "heap vm a = Some ob" and "upvalues_ready (heap vm)"
  shows "blackenObject a vm = mark_refs (body_refs (body ob)) vm"
proof (cases "body ob")
  case (OT_FUN f)
  with assms have "fn_upvalues f \<noteq> None" by (auto simp: upvalues_ready_def)
  with OT_FUN assms(1) show ?thesis
    by (auto simp: blackenObject_def marking_as_refs mark_refs_append)
qed (use assms(1) in \<open>simp_all add: blackenObject_def marking_as_refs mark_refs_append\<close>)

subsection \<open>The effect of marking\<close>

definition marks :: "addr set \<Rightarrow> vm_t \<Rightarrow> vm_t \<Rightarrow> bool" where
  "marks R vm vm' \<longleftrightarrow>
     (\<exists>gs c. vm' = vm\<lparr>heap := mark_heap R (heap vm), gc_gray := gs @ gc_gray vm,
                      gc_grayCapacity := c\<rparr> \<and>
             set gs = R - marked (heap vm) \<and> distinct gs)"

lemma marks_refl: "marks {} vm vm"
  by (auto simp: marks_def intro!: exI [of _ "[]"] exI [of _ "gc_grayCapacity vm"])

lemma marks_trans:
  assumes "marks R vm vm1" and "marks Q vm1 vm2" and "R \<subseteq> dom (heap vm)"
  shows "marks (R \<union> Q) vm vm2"
proof -
  from assms(1) obtain gs c where 1: "vm1 = vm\<lparr>heap := mark_heap R (heap vm),
      gc_gray := gs @ gc_gray vm, gc_grayCapacity := c\<rparr>"
    "set gs = R - marked (heap vm)" "distinct gs" by (auto simp: marks_def)
  from assms(2) obtain gs' c' where 2: "vm2 = vm1\<lparr>heap := mark_heap Q (heap vm1),
      gc_gray := gs' @ gc_gray vm1, gc_grayCapacity := c'\<rparr>"
    "set gs' = Q - marked (heap vm1)" "distinct gs'" by (auto simp: marks_def)
  have "set (gs' @ gs) = (R \<union> Q) - marked (heap vm)" and "distinct (gs' @ gs)"
    using 1 2 assms(3) by (auto simp: marked_mark_heap)
  moreover have "vm2 = vm\<lparr>heap := mark_heap (R \<union> Q) (heap vm),
      gc_gray := (gs' @ gs) @ gc_gray vm, gc_grayCapacity := c'\<rparr>"
    using 1(1) 2(1) by (simp add: mark_heap_compose)
  ultimately show ?thesis unfolding marks_def by blast
qed

lemma marks_dom: "marks R vm vm' \<Longrightarrow> dom (heap vm') = dom (heap vm)"
  by (clarsimp simp: marks_def)

lemma push_gray_eq:
  "\<exists>c. push_gray a vm = vm\<lparr>gc_gray := a # gc_gray vm, gc_grayCapacity := c\<rparr>"
proof (cases "gc_grayCapacity vm < length (gc_gray vm) + 1")
  case True
  then have "push_gray a vm = vm\<lparr>gc_gray := a # gc_gray vm,
      gc_grayCapacity := GROW_CAP (gc_grayCapacity vm)\<rparr>" by (simp add: push_gray_def)
  then show ?thesis by blast
next
  case False
  then have "push_gray a vm = vm\<lparr>gc_gray := a # gc_gray vm, gc_grayCapacity := gc_grayCapacity vm\<rparr>"
    by (simp add: push_gray_def)
  then show ?thesis by blast
qed

lemma markObject_marks:
  assumes "a \<in> dom (heap vm)"
  shows "\<exists>vm'. markObject (Some a) vm = Inr vm' \<and> marks {a} vm vm'"
proof -
  from assms obtain ob where ob: "heap vm a = Some ob" by blast
  show ?thesis
  proof (cases "isMarked ob")
    case True
    with ob have "{a} \<subseteq> marked (heap vm)" by (auto simp: marked_def)
    then have "mark_heap {a} (heap vm) = heap vm" by (rule mark_heap_marked)
    with True ob show ?thesis
      by (auto simp: markObject_def marks_def marked_def intro!: exI [of _ "[]"]
          exI [of _ "gc_grayCapacity vm"])
  next
    case False
    have "(heap vm)(a \<mapsto> ob\<lparr>isMarked := True\<rparr>) = mark_heap {a} (heap vm)"
      using ob by (auto simp: mark_heap_def fun_eq_iff option.map_ident)
    then have "set_mark a ob True vm = vm\<lparr>heap := mark_heap {a} (heap vm)\<rparr>"
      by (simp add: set_mark_def)
    then obtain c where c: "markObject (Some a) vm =
        Inr (vm\<lparr>heap := mark_heap {a} (heap vm), gc_gray := [a] @ gc_gray vm, gc_grayCapacity := c\<rparr>)"
      using push_gray_eq [of a "set_mark a ob True vm"] False ob by (auto simp: markObject_def)
    have "set [a] = {a} - marked (heap vm)" using False ob by (auto simp: marked_def)
    then have "marks {a} vm (vm\<lparr>heap := mark_heap {a} (heap vm), gc_gray := [a] @ gc_gray vm,
        gc_grayCapacity := c\<rparr>)" unfolding marks_def by (metis distinct_singleton)
    with c show ?thesis by blast
  qed
qed

lemma mark_refs_marks:
  assumes "set as \<subseteq> dom (heap vm)"
  shows "\<exists>vm'. mark_refs as vm = Inr vm' \<and> marks (set as) vm vm'"
  using assms
proof (induction as arbitrary: vm)
  case Nil
  then show ?case by (simp add: marks_refl)
next
  case (Cons a as)
  then obtain vm1 where 1: "markObject (Some a) vm = Inr vm1" "marks {a} vm vm1"
    using markObject_marks [of a vm] by auto
  with Cons.prems have "set as \<subseteq> dom (heap vm1)" by (simp add: marks_dom)
  from Cons.IH [OF this] obtain vm2 where "mark_refs as vm1 = Inr vm2" "marks (set as) vm1 vm2"
    by blast
  with 1 Cons.prems marks_trans [of "{a}" vm vm1 "set as" vm2] show ?case by auto
qed

subsection \<open>The trace loop\<close>

text \<open>The tricolour invariant: an object that is marked and no longer gray has marked children.\<close>

definition tricolour :: "vm_t \<Rightarrow> bool" where
  "tricolour vm \<longleftrightarrow>
     set (gc_gray vm) \<subseteq> marked (heap vm) \<and>
     (\<forall>a b. a \<in> marked (heap vm) \<longrightarrow> a \<notin> set (gc_gray vm) \<longrightarrow> edge (heap vm) a b \<longrightarrow>
        b \<in> marked (heap vm))"

lemma marked_dom: "marked h \<subseteq> dom h"
  by (auto simp: marked_def)

lemma trace_step:
  assumes "tricolour vm" and "gc_gray vm = a # gs"
    and "heap_closed (heap vm)" and "upvalues_ready (heap vm)"
  obtains vm' ob where "heap vm a = Some ob"
    and "blackenObject a (vm\<lparr>gc_gray := gs\<rparr>) = Inr vm'"
    and "marks (set (body_refs (body ob))) (vm\<lparr>gc_gray := gs\<rparr>) vm'"
    and "set (body_refs (body ob)) \<subseteq> dom (heap vm)" and "tricolour vm'"
proof -
  have "a \<in> marked (heap vm)" using assms(1,2) by (auto simp: tricolour_def)
  then obtain ob where ob: "heap vm a = Some ob" by (auto simp: marked_def)
  let ?R = "set (body_refs (body ob))" and ?vm = "vm\<lparr>gc_gray := gs\<rparr>"
  have R: "?R \<subseteq> dom (heap vm)"
    using assms(3) ob unfolding heap_closed_def edge_def by blast
  then obtain vm' where vm': "mark_refs (body_refs (body ob)) ?vm = Inr vm'" "marks ?R ?vm vm'"
    using mark_refs_marks [of "body_refs (body ob)" ?vm] by auto
  have "blackenObject a ?vm = Inr vm'"
    using blackenObject_refs [of ?vm a ob] vm'(1) ob assms(4) by simp
  moreover have "tricolour vm'"
  proof -
    from vm'(2) obtain ns c where e: "vm' = ?vm\<lparr>heap := mark_heap ?R (heap vm),
        gc_gray := ns @ gs, gc_grayCapacity := c\<rparr>" "set ns = ?R - marked (heap vm)"
      by (auto simp: marks_def)
    have m: "marked (heap vm') = marked (heap vm) \<union> ?R"
      using e(1) R by (auto simp: marked_mark_heap)
    have gray: "set (gc_gray vm) = insert a (set gs)" using assms(2) by simp
    have "y \<in> marked (heap vm) \<union> ?R"
      if x: "x \<in> marked (heap vm) \<union> ?R" "x \<notin> set ns \<union> set gs" and xy: "edge (heap vm) x y" for x y
    proof (cases "x = a")
      case True
      with xy ob show ?thesis by (simp add: edge_def)
    next
      case False
      with x e(2) gray have "x \<in> marked (heap vm)" "x \<notin> set (gc_gray vm)" by auto
      with assms(1) xy show ?thesis unfolding tricolour_def by blast
    qed
    moreover have "set ns \<union> set gs \<subseteq> marked (heap vm) \<union> ?R"
      using assms(1) e(2) gray by (auto simp: tricolour_def)
    moreover have "set (gc_gray vm') = set ns \<union> set gs" and "edge (heap vm') = edge (heap vm)"
      using e(1) by (auto simp: fun_eq_iff)
    ultimately show ?thesis unfolding tricolour_def m by auto
  qed
  ultimately show ?thesis using that ob vm'(2) R by blast
qed

lemma traceReferences_spec:
  assumes "tricolour vm" and "finite (dom (heap vm))"
    and "heap_closed (heap vm)" and "upvalues_ready (heap vm)"
  shows "\<exists>c. traceReferences vm =
           Some (Inr (vm\<lparr>heap := mark_heap {a. reaches (heap vm) (marked (heap vm)) a} (heap vm),
                         gc_gray := [], gc_grayCapacity := c\<rparr>))"
  using assms
proof (induction "2 * card (dom (heap vm) - marked (heap vm)) + length (gc_gray vm)"
    arbitrary: vm rule: less_induct)
  case less
  let ?h = "heap vm" and ?M = "{a. reaches (heap vm) (marked (heap vm)) a}"
  show ?case
  proof (cases "gc_gray vm")
    case Nil
    then have "?M \<subseteq> marked ?h"
      using less.prems(1) by (auto simp: tricolour_def elim: reaches_least)
    then have "mark_heap ?M ?h = ?h" by (rule mark_heap_marked)
    with Nil show ?thesis
      by (subst traceReferences.simps) (auto intro!: exI [of _ "gc_grayCapacity vm"])
  next
    case (Cons a gs)
    obtain vm' ob where ob: "?h a = Some ob"
      and bl: "blackenObject a (vm\<lparr>gc_gray := gs\<rparr>) = Inr vm'"
      and mk: "marks (set (body_refs (body ob))) (vm\<lparr>gc_gray := gs\<rparr>) vm'"
      and R: "set (body_refs (body ob)) \<subseteq> dom ?h" and tri: "tricolour vm'"
      using trace_step [OF less.prems(1) Cons less.prems(3,4)] by blast
    let ?R = "set (body_refs (body ob))"
    from mk obtain ns c where e: "vm' = vm\<lparr>heap := mark_heap ?R ?h,
        gc_gray := ns @ gs, gc_grayCapacity := c\<rparr>" "set ns = ?R - marked ?h" "distinct ns"
      by (auto simp: marks_def)
    have m: "marked (heap vm') = marked ?h \<union> ?R" using e(1) R by (auto simp: marked_mark_heap)
    let ?U = "dom ?h - marked ?h"
    have "dom (heap vm') - marked (heap vm') = ?U - set ns" using m e R by auto
    moreover have sub: "set ns \<subseteq> ?U" using e(2) R by auto
    moreover have fin: "finite ?U" using less.prems(2) by simp
    moreover have "length ns \<le> card ?U"
      using card_mono [OF fin sub] e(3) by (simp add: distinct_card)
    ultimately have "card (dom (heap vm') - marked (heap vm')) + length ns = card ?U"
      using e(3) by (simp add: card_Diff_subset distinct_card)
    then have "2 * card (dom (heap vm') - marked (heap vm')) + length (gc_gray vm')
        < 2 * card ?U + length (gc_gray vm)" using e(1) Cons by simp
    moreover have "finite (dom (heap vm'))" "heap_closed (heap vm')" "upvalues_ready (heap vm')"
      using e(1) less.prems by simp_all
    ultimately obtain c' where c': "traceReferences vm' =
        Some (Inr (vm'\<lparr>heap := mark_heap {b. reaches (heap vm') (marked (heap vm')) b} (heap vm'),
           gc_gray := [], gc_grayCapacity := c'\<rparr>))"
      using less.hyps tri by blast
    have am: "a \<in> marked ?h" using less.prems(1) Cons by (auto simp: tricolour_def)
    then have RM: "?R \<subseteq> ?M" using ob by (auto simp: edge_def intro: reaches.intros)
    have "reaches ?h (marked ?h \<union> ?R) b \<longleftrightarrow> reaches ?h (marked ?h) b" for b
    proof
      assume "reaches ?h (marked ?h \<union> ?R) b"
      moreover have "marked ?h \<union> ?R \<subseteq> ?M" using RM by (auto intro: reaches.root)
      ultimately have "b \<in> ?M" by (rule reaches_least) (auto intro: reaches.step)
      then show "reaches ?h (marked ?h) b" by simp
    qed (auto intro: reaches_mono)
    then have "{b. reaches (heap vm') (marked (heap vm')) b} = ?M" using m e(1) by simp
    with c' e(1) RM have "traceReferences vm' = Some (Inr (vm\<lparr>heap := mark_heap ?M ?h,
        gc_gray := [], gc_grayCapacity := c'\<rparr>))"
      by (simp add: mark_heap_compose Un_absorb1)
    moreover have "traceReferences vm = traceReferences vm'"
      using Cons bl by (subst traceReferences.simps) simp
    ultimately show ?thesis by auto
  qed
qed

subsection \<open>The mark phase\<close>

definition root_refs :: "vm_t \<Rightarrow> addr list" where
  "root_refs vm =
     concat (map ptr_refs (tempRoots vm)) @ concat (map val_refs (map (stack vm) [0..<vm_top vm])) @
     concat (map ptr_refs (map (Some \<circ> fr_function) (rev (frames vm)))) @
     table_refs (tab_entries (globals vm))"

definition live_set :: "vm_t \<Rightarrow> addr set" where
  "live_set vm = {a. reaches (heap vm) (set (root_refs vm)) a}"

definition gc_ready :: "vm_t \<Rightarrow> bool" where
  "gc_ready vm \<longleftrightarrow>
     finite (dom (heap vm)) \<and> heap_closed (heap vm) \<and> upvalues_ready (heap vm) \<and>
     set (root_refs vm) \<subseteq> dom (heap vm) \<and> marked (heap vm) = {} \<and> gc_gray vm = [] \<and>
     openUpvalues vm = None"

lemma bindr_marks:
  assumes "set as \<subseteq> dom (heap vm)"
    and "\<And>vm'. marks (set as) vm vm' \<Longrightarrow> f vm' = g vm'"
  shows "bindr (mark_refs as vm) f = bindr (mark_refs as vm) g"
  using mark_refs_marks [OF assms(1)] assms(2) by auto

lemma mark_refs_same:
  assumes "mark_refs as vm = Inr vm'"
  shows "stack vm' = stack vm \<and> vm_top vm' = vm_top vm \<and> frames vm' = frames vm \<and>
         openUpvalues vm' = openUpvalues vm \<and> globals vm' = globals vm"
  using assms
proof (induction as arbitrary: vm)
  case Nil
  then show ?case by simp
next
  case (Cons a as)
  then obtain vm1 where 1: "markObject (Some a) vm = Inr vm1" "mark_refs as vm1 = Inr vm'" by auto
  have "stack vm1 = stack vm \<and> vm_top vm1 = vm_top vm \<and> frames vm1 = frames vm \<and>
      openUpvalues vm1 = openUpvalues vm \<and> globals vm1 = globals vm"
    using 1(1) by (auto simp: markObject_def push_gray_def set_mark_def Let_def
        split: option.splits if_splits)
  with Cons.IH [OF 1(2)] show ?case by simp
qed

lemma bindr_mark_refs_cong:
  assumes "\<And>vm'. stack vm' = stack vm \<Longrightarrow> vm_top vm' = vm_top vm \<Longrightarrow> frames vm' = frames vm \<Longrightarrow>
             openUpvalues vm' = openUpvalues vm \<Longrightarrow> globals vm' = globals vm \<Longrightarrow> f vm' = g vm'"
  shows "bindr (mark_refs as vm) f = bindr (mark_refs as vm) g"
proof (cases "mark_refs as vm")
  case (Inr vm')
  with mark_refs_same [OF this] show ?thesis by (simp add: assms)
qed simp

lemma roots_as_refs:
  assumes "openUpvalues vm = None"
  shows "bindr (markRoots vm) (\<lambda>vm. markTable (tab_entries (globals vm)) vm) =
         mark_refs (root_refs vm) vm"
proof -
  have up: "mark_upvalues None = (\<lambda>vm. Some (Inr vm))"
    by (rule ext) (subst mark_upvalues.simps, simp)
  show ?thesis
    unfolding markRoots_def root_refs_def marking_as_refs mark_refs_append bindr_assoc
    apply (rule bindr_mark_refs_cong, simp)
    apply (rule bindr_mark_refs_cong, simp)
    apply (rule bindr_mark_refs_cong, simp add: assms up)
    done
qed

lemma gc_mark_spec:
  assumes "gc_ready vm"
  shows "\<exists>c. gc_mark vm = Inr (vm\<lparr>heap := mark_heap (live_set vm) (heap vm),
               gc_gray := [], gc_grayCapacity := c\<rparr>)"
proof -
  let ?R = "set (root_refs vm)" and ?h = "heap vm"
  have R: "?R \<subseteq> dom ?h" and u: "openUpvalues vm = None" and un: "marked ?h = {}"
    and g: "gc_gray vm = []" using assms by (auto simp: gc_ready_def)
  from R obtain vm1 where 1: "mark_refs (root_refs vm) vm = Inr vm1" and mk: "marks ?R vm vm1"
    using mark_refs_marks by blast
  from mk un g obtain gs c where e: "vm1 = vm\<lparr>heap := mark_heap ?R ?h, gc_gray := gs,
      gc_grayCapacity := c\<rparr>" "set gs = ?R" by (auto simp: marks_def)
  have m: "marked (heap vm1) = ?R" using e(1) R un by (auto simp: marked_mark_heap)
  then have "tricolour vm1" using e by (simp add: tricolour_def)
  then obtain c' where "traceReferences vm1 =
      Some (Inr (vm1\<lparr>heap := mark_heap {a. reaches (heap vm1) ?R a} (heap vm1),
         gc_gray := [], gc_grayCapacity := c'\<rparr>))"
    using traceReferences_spec [of vm1] e(1) assms m by (auto simp: gc_ready_def)
  moreover have "?R \<subseteq> live_set vm" by (auto simp: live_set_def intro: reaches.root)
  ultimately have tr: "traceReferences vm1 = Some (Inr (vm\<lparr>heap := mark_heap (live_set vm) ?h,
      gc_gray := [], gc_grayCapacity := c'\<rparr>))"
    using e(1) by (simp add: mark_heap_compose Un_absorb1 live_set_def)
  have "gc_mark vm = bindr (bindr (markRoots vm) (\<lambda>vm. markTable (tab_entries (globals vm)) vm))
      (\<lambda>vm. bindr (returns (traceReferences vm)) (\<lambda>r. r))"
    by (simp add: gc_mark_def bindr_assoc)
  also have "\<dots> = Inr (vm\<lparr>heap := mark_heap (live_set vm) ?h, gc_gray := [], gc_grayCapacity := c'\<rparr>)"
    unfolding roots_as_refs [OF u] 1 by (simp add: tr)
  finally show ?thesis by blast
qed

end
