(* ===== verification/Sweeping.thy ===== *)
theory Sweeping
  imports Marking
begin

text \<open>
  The sweep phase, the purge of the table of interned strings, and the whole collection. The list
  of all objects that starts at \<open>gc->objects\<close> is represented by the addresses on it (\<open>chain\<close>).
  \<open>sweep\<close> of \<open>src/src/gc.c\<close> tests the mark the wrong way round: it keeps the objects that are not
  marked and frees the marked ones; the lemmas state what the code does.
\<close>

subsection \<open>The list of objects\<close>

fun chain :: "obj_heap \<Rightarrow> addr option \<Rightarrow> addr list \<Rightarrow> bool" where
  "chain h p [] = (p = None)"
| "chain h p (a # as) =
     (p = Some a \<and> (case h a of None \<Rightarrow> False | Some ob \<Rightarrow> chain h (obj_next ob) as))"

lemma chain_cong:
  "(\<And>a. a \<in> set xs \<Longrightarrow> map_option obj_next (h' a) = map_option obj_next (h a)) \<Longrightarrow>
     chain h' p xs = chain h p xs"
proof (induction xs arbitrary: p)
  case (Cons a xs)
  have "map_option obj_next (h' a) = map_option obj_next (h a)" by (rule Cons.prems) simp
  moreover have "chain h' q xs = chain h q xs" for q by (rule Cons.IH) (simp add: Cons.prems)
  ultimately show ?case by (cases "h a"; cases "h' a") simp_all
qed simp

lemma obj_next_self: "ob\<lparr>obj_next := obj_next ob\<rparr> = ob"
  by simp

lemma chain_dom: "chain h p xs \<Longrightarrow> set xs \<subseteq> dom h"
  by (induction xs arbitrary: p) (auto split: option.splits)

definition has_upv :: "obj_heap \<Rightarrow> bool" where
  "has_upv h \<longleftrightarrow> (\<exists>a ob u. h a = Some ob \<and> body ob = OT_UPV u)"

text \<open>The pointer that \<open>unlink\<close> writes.\<close>

definition link :: "addr option \<Rightarrow> vm_t \<Rightarrow> addr option" where
  "link prev vm =
     (case prev of
        None \<Rightarrow> gc_objects vm
      | Some p \<Rightarrow> (case heap vm p of None \<Rightarrow> None | Some ob \<Rightarrow> obj_next ob))"

text \<open>The fields of the machine that neither marking nor sweeping writes.\<close>

definition same_machine :: "vm_t \<Rightarrow> vm_t \<Rightarrow> bool" where
  "same_machine vm vm' \<longleftrightarrow>
     stack vm' = stack vm \<and> vm_top vm' = vm_top vm \<and> frames vm' = frames vm \<and>
     tempRoots vm' = tempRoots vm \<and> globals vm' = globals vm \<and>
     stdout vm' = stdout vm \<and> stderr vm' = stderr vm \<and> next_addr vm' = next_addr vm"

lemma same_machine_refl [simp]: "same_machine vm vm"
  by (simp add: same_machine_def)

lemma same_machine_trans: "same_machine vm vm1 \<Longrightarrow> same_machine vm1 vm2 \<Longrightarrow> same_machine vm vm2"
  by (simp add: same_machine_def)

lemma obj_free_frees:
  assumes "heap vm a = Some ob" and "\<forall>u. body ob \<noteq> OT_UPV u"
  shows "\<exists>vm'. obj_free a vm = Inr vm' \<and> heap vm' = (heap vm)(a := None) \<and>
           gc_objects vm' = gc_objects vm \<and> strings vm' = strings vm \<and> same_machine vm vm'"
  using assms by (cases "body ob") (auto simp: obj_free_def gc_release_def same_machine_def)

text \<open>One marked object taken off the list and freed.\<close>

lemma unlink_and_free:
  assumes a: "heap vm a = Some ob" and nu: "\<forall>u. body ob \<noteq> OT_UPV u"
    and prev: "\<And>p. prev = Some p \<Longrightarrow> p \<noteq> a \<and> p \<in> dom (heap vm)"
  shows "\<exists>vm'. bindr (unlink prev nxt vm) (obj_free a) = Inr vm' \<and> heap vm' a = None \<and>
           (\<forall>b. b \<noteq> a \<longrightarrow> Some b \<noteq> prev \<longrightarrow> heap vm' b = heap vm b) \<and>
           (\<forall>p. prev = Some p \<longrightarrow> heap vm' p = Some ((the (heap vm p))\<lparr>obj_next := nxt\<rparr>)) \<and>
           link prev vm' = nxt \<and> (prev \<noteq> None \<longrightarrow> gc_objects vm' = gc_objects vm) \<and>
           strings vm' = strings vm \<and> same_machine vm vm'"
proof (cases prev)
  case None
  let ?vm = "vm\<lparr>gc_objects := nxt\<rparr>"
  obtain vm' where "obj_free a ?vm = Inr vm'" "heap vm' = (heap ?vm)(a := None)"
    "gc_objects vm' = gc_objects ?vm" "strings vm' = strings ?vm" "same_machine ?vm vm'"
    using obj_free_frees [of ?vm a ob] a nu by auto
  with None show ?thesis by (auto simp: unlink_def link_def same_machine_def)
next
  case (Some p)
  with prev obtain po where p: "p \<noteq> a" "heap vm p = Some po" by blast
  let ?vm = "vm\<lparr>heap := (heap vm)(p \<mapsto> po\<lparr>obj_next := nxt\<rparr>)\<rparr>"
  obtain vm' where "obj_free a ?vm = Inr vm'" "heap vm' = (heap ?vm)(a := None)"
    "gc_objects vm' = gc_objects ?vm" "strings vm' = strings ?vm" "same_machine ?vm vm'"
    using obj_free_frees [of ?vm a ob] a nu p by auto
  with Some p show ?thesis by (auto simp: unlink_def link_def same_machine_def)
qed

subsection \<open>The sweep loop\<close>

lemma sweep_loop_spec:
  assumes "chain (heap vm) obj xs" and "distinct xs" and "\<not> has_upv (heap vm)"
    and "\<And>p. prev = Some p \<Longrightarrow> p \<notin> set xs \<and> p \<in> dom (heap vm)" and "link prev vm = obj"
  shows "\<exists>vm'. sweep_loop prev obj vm = Some (Inr vm') \<and>
           (\<forall>a. a \<notin> set xs \<longrightarrow> Some a \<noteq> prev \<longrightarrow> heap vm' a = heap vm a) \<and>
           (\<forall>p. prev = Some p \<longrightarrow>
              (\<exists>q. heap vm' p = Some ((the (heap vm p))\<lparr>obj_next := q\<rparr>))) \<and>
           (\<forall>a \<in> set xs. a \<in> marked (heap vm) \<longrightarrow> heap vm' a = None) \<and>
           (\<forall>a \<in> set xs. a \<notin> marked (heap vm) \<longrightarrow>
              (\<exists>q. heap vm' a = Some ((the (heap vm a))\<lparr>obj_next := q\<rparr>))) \<and>
           chain (heap vm') (link prev vm') (filter (\<lambda>a. a \<notin> marked (heap vm)) xs) \<and>
           (prev \<noteq> None \<longrightarrow> gc_objects vm' = gc_objects vm) \<and>
           strings vm' = strings vm \<and> same_machine vm vm'"
  using assms
proof (induction xs arbitrary: prev obj vm)
  case Nil
  have "\<exists>q. heap vm p = Some ((the (heap vm p))\<lparr>obj_next := q\<rparr>)" if "prev = Some p" for p
  proof -
    from Nil.prems(4) [OF that] obtain ob where "heap vm p = Some ob" by blast
    then show ?thesis by (intro exI [of _ "obj_next ob"]) simp
  qed
  moreover have "sweep_loop prev obj vm = Some (Inr vm)"
    using Nil.prems(1) by (subst sweep_loop.simps) simp
  ultimately show ?case using Nil.prems(1,5) by simp
next
  case (Cons a xs)
  from Cons.prems(1) obtain ob where o: "obj = Some a" "heap vm a = Some ob"
    and ch: "chain (heap vm) (obj_next ob) xs" by (auto split: option.splits)
  have nu: "\<forall>u. body ob \<noteq> OT_UPV u" using Cons.prems(3) o(2) by (auto simp: has_upv_def)
  have ax: "a \<notin> set xs" "distinct xs" using Cons.prems(2) by auto
  show ?case
  proof (cases "isMarked ob")
    case False
    then have "ob\<lparr>isMarked := False\<rparr> = ob" by simp
    then have vm: "set_mark a ob False vm = vm" using o(2) by (simp add: set_mark_def fun_upd_idem)
    have st: "sweep_loop prev obj vm = sweep_loop (Some a) (obj_next ob) vm"
      using o False vm by (subst sweep_loop.simps) simp
    have pre: "\<And>p. Some a = Some p \<Longrightarrow> p \<notin> set xs \<and> p \<in> dom (heap vm)" using ax o by auto
    have lk: "link (Some a) vm = obj_next ob" using o by (simp add: link_def)
    obtain vm' where r: "sweep_loop (Some a) (obj_next ob) vm = Some (Inr vm')"
      and f: "\<forall>b. b \<notin> set xs \<longrightarrow> Some b \<noteq> Some a \<longrightarrow> heap vm' b = heap vm b"
      and fa: "\<exists>q. heap vm' a = Some ((the (heap vm a))\<lparr>obj_next := q\<rparr>)"
      and m: "\<forall>b \<in> set xs. b \<in> marked (heap vm) \<longrightarrow> heap vm' b = None"
      and k: "\<forall>b \<in> set xs. b \<notin> marked (heap vm) \<longrightarrow>
              (\<exists>q. heap vm' b = Some ((the (heap vm b))\<lparr>obj_next := q\<rparr>))"
      and c: "chain (heap vm') (link (Some a) vm') (filter (\<lambda>a. a \<notin> marked (heap vm)) xs)"
      and g: "gc_objects vm' = gc_objects vm" "strings vm' = strings vm" "same_machine vm vm'"
      using Cons.IH [OF ch ax(2) Cons.prems(3) pre lk] by auto
    have am: "a \<notin> marked (heap vm)" using o False by (simp add: marked_def)
    have "link prev vm' = Some a"
    proof (cases prev)
      case None
      with Cons.prems(5) o(1) g show ?thesis by (simp add: link_def)
    next
      case (Some p)
      with Cons.prems(4) have "p \<notin> set (a # xs)" by blast
      with f have "heap vm' p = heap vm p" by auto
      with Some Cons.prems(5) o(1) show ?thesis by (simp add: link_def)
    qed
    moreover from fa obtain q where "heap vm' a = Some (ob\<lparr>obj_next := q\<rparr>)" using o by auto
    moreover from this c have "chain (heap vm') q (filter (\<lambda>a. a \<notin> marked (heap vm)) xs)"
      by (simp add: link_def)
    ultimately have chain': "chain (heap vm') (link prev vm')
        (filter (\<lambda>a. a \<notin> marked (heap vm)) (a # xs))" using am by simp
    have "\<exists>q. heap vm' p = Some ((the (heap vm p))\<lparr>obj_next := q\<rparr>)" if p: "prev = Some p" for p
    proof -
      from Cons.prems(4) [OF p] obtain po where "p \<notin> set (a # xs)" "heap vm p = Some po" by blast
      with f have "heap vm' p = Some po" by auto
      with \<open>heap vm p = Some po\<close> show ?thesis
        by (intro exI [of _ "obj_next po"]) simp
    qed
    with st r f fa m k chain' g am show ?thesis by auto
  next
    case True
    have prev: "p \<noteq> a \<and> p \<in> dom (heap vm)" if "prev = Some p" for p
      using Cons.prems(4) [OF that] by auto
    obtain vm1 where 1: "bindr (unlink prev (obj_next ob) vm) (obj_free a) = Inr vm1"
      "heap vm1 a = None" and f1: "\<forall>b. b \<noteq> a \<longrightarrow> Some b \<noteq> prev \<longrightarrow> heap vm1 b = heap vm b"
      and p1: "\<forall>p. prev = Some p \<longrightarrow> heap vm1 p = Some ((the (heap vm p))\<lparr>obj_next := obj_next ob\<rparr>)"
      and l1: "link prev vm1 = obj_next ob" and g1: "prev \<noteq> None \<longrightarrow> gc_objects vm1 = gc_objects vm"
      "strings vm1 = strings vm" "same_machine vm vm1"
      using unlink_and_free [OF o(2) nu prev, where nxt = "obj_next ob"] by blast
    have st: "sweep_loop prev obj vm = sweep_loop prev (obj_next ob) vm1"
      using o True 1 by (subst sweep_loop.simps) simp
    have onxs: "heap vm1 b = heap vm b" if "b \<in> set xs" for b
    proof -
      have "b \<noteq> a" using that ax by auto
      moreover have "Some b \<noteq> prev" using that Cons.prems(4) [of b] by auto
      ultimately show ?thesis using f1 by simp
    qed
    have "chain (heap vm1) (obj_next ob) xs" using ch onxs by (subst chain_cong) simp_all
    moreover have "\<not> has_upv (heap vm1)"
    proof -
      have "\<not> (\<exists>u. body bo = OT_UPV u)" if b: "heap vm1 b = Some bo" for b bo
      proof (cases "Some b = prev")
        case True
        with prev [of b] obtain po where "heap vm b = Some po" by auto
        with True p1 b have "body bo = body po" by auto
        with \<open>heap vm b = Some po\<close> Cons.prems(3) show ?thesis by (auto simp: has_upv_def)
      next
        case False
        moreover have "b \<noteq> a" using b 1 by auto
        ultimately have "heap vm b = Some bo" using f1 b by simp
        with Cons.prems(3) show ?thesis by (auto simp: has_upv_def)
      qed
      then show ?thesis by (auto simp: has_upv_def)
    qed
    moreover have "p \<notin> set xs \<and> p \<in> dom (heap vm1)" if "prev = Some p" for p
      using Cons.prems(4) [OF that] p1 that by auto
    ultimately obtain vm' where r: "sweep_loop prev (obj_next ob) vm1 = Some (Inr vm')"
      and f: "\<forall>b. b \<notin> set xs \<longrightarrow> Some b \<noteq> prev \<longrightarrow> heap vm' b = heap vm1 b"
      and fp: "\<forall>p. prev = Some p \<longrightarrow> (\<exists>q. heap vm' p = Some ((the (heap vm1 p))\<lparr>obj_next := q\<rparr>))"
      and m: "\<forall>b \<in> set xs. b \<in> marked (heap vm1) \<longrightarrow> heap vm' b = None"
      and k: "\<forall>b \<in> set xs. b \<notin> marked (heap vm1) \<longrightarrow>
              (\<exists>q. heap vm' b = Some ((the (heap vm1 b))\<lparr>obj_next := q\<rparr>))"
      and c: "chain (heap vm') (link prev vm') (filter (\<lambda>a. a \<notin> marked (heap vm1)) xs)"
      and g: "prev \<noteq> None \<longrightarrow> gc_objects vm' = gc_objects vm1" "strings vm' = strings vm1"
        "same_machine vm1 vm'"
      using Cons.IH [of vm1 "obj_next ob" prev] ax(2) l1 by auto
    have mk: "b \<in> marked (heap vm1) \<longleftrightarrow> b \<in> marked (heap vm)" if "b \<in> set xs" for b
      using onxs [OF that] by (simp add: marked_def)
    have am: "a \<in> marked (heap vm)" using o True by (simp add: marked_def)
    have "filter (\<lambda>a. a \<notin> marked (heap vm1)) xs = filter (\<lambda>a. a \<notin> marked (heap vm)) (a # xs)"
      using am mk by (auto intro: filter_cong)
    with c have c': "chain (heap vm') (link prev vm')
        (filter (\<lambda>a. a \<notin> marked (heap vm)) (a # xs))" by simp
    have a': "heap vm' a = None"
      using f ax 1(2) prev by auto
    have p': "\<exists>q. heap vm' p = Some ((the (heap vm p))\<lparr>obj_next := q\<rparr>)" if "prev = Some p" for p
      using fp p1 that by auto
    have "\<forall>b. b \<notin> set (a # xs) \<longrightarrow> Some b \<noteq> prev \<longrightarrow> heap vm' b = heap vm b" using f f1 by simp
    moreover have "\<forall>b \<in> set (a # xs). b \<in> marked (heap vm) \<longrightarrow> heap vm' b = None"
      using m mk a' by auto
    moreover have "\<forall>b \<in> set (a # xs). b \<notin> marked (heap vm) \<longrightarrow>
        (\<exists>q. heap vm' b = Some ((the (heap vm b))\<lparr>obj_next := q\<rparr>))"
      using k mk am onxs by auto
    moreover have "sweep_loop prev obj vm = Some (Inr vm')" using st r by simp
    moreover have "prev \<noteq> None \<longrightarrow> gc_objects vm' = gc_objects vm" "strings vm' = strings vm"
      "same_machine vm vm'" using g g1 same_machine_trans [of vm vm1 vm'] by simp_all
    ultimately show ?thesis using p' c' by (intro exI [of _ vm'] conjI) simp_all
  qed
qed

lemma sweep_spec:
  assumes "chain (heap vm) (gc_objects vm) xs" and "distinct xs" and "\<not> has_upv (heap vm)"
  shows "\<exists>vm'. sweep vm = Inr vm' \<and>
           (\<forall>a. a \<notin> set xs \<longrightarrow> heap vm' a = heap vm a) \<and>
           (\<forall>a \<in> set xs. a \<in> marked (heap vm) \<longrightarrow> heap vm' a = None) \<and>
           (\<forall>a \<in> set xs. a \<notin> marked (heap vm) \<longrightarrow>
              (\<exists>q. heap vm' a = Some ((the (heap vm a))\<lparr>obj_next := q\<rparr>))) \<and>
           chain (heap vm') (gc_objects vm') (filter (\<lambda>a. a \<notin> marked (heap vm)) xs) \<and>
           strings vm' = strings vm \<and> same_machine vm vm'"
proof -
  have "link None vm = gc_objects vm" by (simp add: link_def)
  from sweep_loop_spec [OF assms, of None, OF _ this] show ?thesis
    by (auto simp: sweep_def link_def)
qed

subsection \<open>The purge of the interned strings\<close>

lemma tab_remove_entries:
  assumes "tab_remove S t k = Some (t', b)"
  shows "tab_capacity t' = tab_capacity t \<and> length (tab_entries t') = length (tab_entries t) \<and>
         (\<forall>j. ent_key (tab_entries t' ! j) = ent_key (tab_entries t ! j) \<or>
              ent_key (tab_entries t' ! j) = None)"
  using assms
  by (auto simp: tab_remove_def bind_Some_iff nth_update ent_tomb_def split: if_splits)

lemma tab_model_entry:
  assumes "tab_model t k = None" and "j < length (tab_entries t)"
  shows "ent_key (tab_entries t ! j) \<noteq> Some k"
  using assms by (auto simp: tab_model_contents ta.contents_None_iff ta.present_def)

lemma entry_tab_model:
  assumes "ent_key (tab_entries t ! j) = Some k" and "j < length (tab_entries t)"
  shows "tab_model t k \<noteq> None"
  using tab_model_entry assms by blast

text \<open>
  The state of the table after the slots \<open>I\<close> have been visited: only unmarked keys have gone, and
  no slot of \<open>I\<close> holds an unmarked key.
\<close>

definition purged :: "obj_heap \<Rightarrow> nat set \<Rightarrow> tab_t \<Rightarrow> tab_t \<Rightarrow> bool" where
  "purged h I t t' \<longleftrightarrow>
     tab_capacity t' = tab_capacity t \<and>
     (\<forall>k. tab_model t' k = tab_model t k \<or> (k \<notin> marked h \<and> tab_model t' k = None)) \<and>
     (\<forall>j. ent_key (tab_entries t' ! j) = ent_key (tab_entries t ! j) \<or>
          ent_key (tab_entries t' ! j) = None) \<and>
     (\<forall>i \<in> I. \<forall>k. ent_key (tab_entries t' ! i) = Some k \<longrightarrow> k \<in> marked h)"

lemma purged_insert:
  assumes "purged h I t t'" and "\<And>k. ent_key (tab_entries t ! i) = Some k \<Longrightarrow> k \<in> marked h"
  shows "purged h (insert i I) t t'"
proof -
  have "k \<in> marked h" if "ent_key (tab_entries t' ! i) = Some k" for k
    using assms that unfolding purged_def by (metis option.distinct(1))
  with assms(1) show ?thesis by (simp add: purged_def)
qed

lemma purged_remove:
  assumes r: "tab_remove S t k = Some (t1, b)" and m: "tab_model t1 = (tab_model t)(k := None)"
    and k: "k \<notin> marked h" and p: "purged h I t1 t'"
  shows "purged h I t t'"
proof -
  note e = tab_remove_entries [OF r]
  have "tab_model t' j = tab_model t j \<or> j \<notin> marked h \<and> tab_model t' j = None" for j
  proof (cases "j = k")
    case True
    with p m have "tab_model t' k = None" by (auto simp: purged_def dest: spec [of _ k])
    with True k show ?thesis by simp
  next
    case False
    with m have "tab_model t1 j = tab_model t j" by simp
    with p show ?thesis unfolding purged_def by metis
  qed
  moreover have "ent_key (tab_entries t' ! j) = ent_key (tab_entries t ! j) \<or>
      ent_key (tab_entries t' ! j) = None" for j
    using p e unfolding purged_def by metis
  ultimately show ?thesis using p e unfolding purged_def by simp
qed

lemma removeWhite_loop_spec:
  assumes "tab_ok (strs_of h) t" and "dom (tab_model t) \<subseteq> dom h"
    and "\<forall>i \<in> set is. i < tab_capacity t"
  shows "\<exists>t'. removeWhite_loop h is t = Inr t' \<and> tab_ok (strs_of h) t' \<and> purged h (set is) t t'"
  using assms
proof (induction "is" arbitrary: t)
  case Nil
  then show ?case by (simp add: purged_def)
next
  case (Cons i "is")
  have il: "i < length (tab_entries t)"
    using Cons.prems(1,3) tab_okD(1) by fastforce
  have keep: ?case if step: "removeWhite_loop h (i # is) t = removeWhite_loop h is t"
    and clean: "\<And>k. ent_key (tab_entries t ! i) = Some k \<Longrightarrow> k \<in> marked h"
  proof -
    obtain t' where "removeWhite_loop h is t = Inr t'" "tab_ok (strs_of h) t'" "purged h (set is) t t'"
      using Cons.IH [OF Cons.prems(1,2)] Cons.prems(3) by auto
    with purged_insert [OF this(3) clean] step show ?thesis by simp
  qed
  show ?case
  proof (cases "ent_key (tab_entries t ! i)")
    case None
    then show ?thesis by (intro keep) simp_all
  next
    case (Some k)
    then have tk: "tab_model t k \<noteq> None" using il by (rule entry_tab_model)
    with Cons.prems(2) obtain ob where ob: "h k = Some ob" by blast
    show ?thesis
    proof (cases "isMarked ob")
      case True
      with Some ob show ?thesis by (intro keep) (simp_all add: marked_def)
    next
      case False
      then have km: "k \<notin> marked h" using ob by (simp add: marked_def)
      obtain t1 where t1: "tab_remove (strs_of h) t k = Some (t1, True)" "tab_ok (strs_of h) t1"
        and m1: "tab_model t1 = (tab_model t)(k := None)"
        using tab_remove_spec [OF Cons.prems(1), of k] tk by auto
      note e1 = tab_remove_entries [OF t1(1)]
      have "dom (tab_model t1) \<subseteq> dom h" using m1 Cons.prems(2) by auto
      moreover have "\<forall>i \<in> set is. i < tab_capacity t1" using e1 Cons.prems(3) by simp
      ultimately obtain t' where t': "removeWhite_loop h is t1 = Inr t'" "tab_ok (strs_of h) t'"
        "purged h (set is) t1 t'" using Cons.IH t1(2) by blast
      have "ent_key (tab_entries t1 ! i) \<noteq> Some k"
        using il e1 m1 by (intro tab_model_entry) simp_all
      with e1 Some have "ent_key (tab_entries t1 ! i) = None" by metis
      with purged_insert [OF t'(3), of i] have "purged h (insert i (set is)) t1 t'" by simp
      with purged_remove [OF t1(1) m1 km] have "purged h (set (i # is)) t t'" by simp
      moreover have "removeWhite_loop h (i # is) t = Inr t'" using Some ob False t1(1) t'(1) by simp
      ultimately show ?thesis using t'(2) by blast
    qed
  qed
qed

lemma removeWhite_spec:
  assumes "tab_ok (strs_of h) t" and "dom (tab_model t) \<subseteq> dom h"
  shows "\<exists>t'. removeWhite h t = Inr t' \<and> tab_ok (strs_of h) t' \<and>
           tab_model t' = (\<lambda>k. if k \<in> marked h then tab_model t k else None)"
proof -
  obtain t' where t': "removeWhite_loop h [0..<tab_capacity t] t = Inr t'" "tab_ok (strs_of h) t'"
    and p: "purged h {0..<tab_capacity t} t t'"
    using removeWhite_loop_spec [OF assms, of "[0..<tab_capacity t]"] by auto
  have "tab_model t' k = None" if "k \<notin> marked h" for k
  proof -
    have "ent_key (tab_entries t' ! i) \<noteq> Some k" if "i < length (tab_entries t')" for i
      using that p tab_okD(1) [OF t'(2)] \<open>k \<notin> marked h\<close> by (auto simp: purged_def)
    then show ?thesis by (auto simp: tab_model_contents ta.contents_None_iff ta.present_def)
  qed
  with p t' show ?thesis by (auto simp: removeWhite_def purged_def fun_eq_iff)
qed

subsection \<open>A whole collection\<close>

lemma strs_of_mark_heap [simp]: "strs_of (mark_heap R h) = strs_of h"
  by (rule ext) (auto simp: strs_of_def mark_heap_def split: option.splits)

lemma has_upv_mark_heap [simp]: "has_upv (mark_heap R h) = has_upv h"
  by (fastforce simp: has_upv_def mark_heap_def)

lemma chain_mark_heap [simp]: "chain (mark_heap R h) p xs = chain h p xs"
  by (rule chain_cong) (simp add: mark_heap_def option.map_comp comp_def)

text \<open>Every object is on the list that starts at \<open>gc->objects\<close>.\<close>

definition all_listed :: "vm_t \<Rightarrow> bool" where
  "all_listed vm \<longleftrightarrow>
     (\<exists>xs. chain (heap vm) (gc_objects vm) xs \<and> distinct xs \<and> set xs = dom (heap vm))"

lemma gc_collect_spec:
  assumes ready: "gc_ready vm" and "gc_vm vm" and "all_listed vm" and nu: "\<not> has_upv (heap vm)"
    and tab: "tab_ok (strs_of (heap vm)) (strings vm)"
    and keys: "dom (tab_model (strings vm)) \<subseteq> dom (heap vm)"
  shows "\<exists>vm'. gc_collect vm = Inr vm' \<and>
           dom (heap vm') = dom (heap vm) - live_set vm \<and>
           tab_model (strings vm') = (\<lambda>k. if k \<in> live_set vm then tab_model (strings vm) k else None) \<and>
           all_listed vm' \<and> same_machine vm vm'"
proof -
  let ?L = "live_set vm" and ?h = "heap vm"
  from gc_mark_spec [OF ready] obtain c where mk: "gc_mark vm =
      Inr (vm\<lparr>heap := mark_heap ?L ?h, gc_gray := [], gc_grayCapacity := c\<rparr>)" by blast
  let ?vm1 = "vm\<lparr>heap := mark_heap ?L ?h, gc_gray := [], gc_grayCapacity := c\<rparr>"
  have L: "?L \<subseteq> dom ?h" using ready reaches_dom by (auto simp: gc_ready_def live_set_def)
  have m: "marked (heap ?vm1) = ?L" using ready L by (auto simp: marked_mark_heap gc_ready_def)
  obtain t where t: "removeWhite (heap ?vm1) (strings ?vm1) = Inr t"
    and tm: "tab_model t = (\<lambda>k. if k \<in> ?L then tab_model (strings vm) k else None)"
    using removeWhite_spec [of "heap ?vm1" "strings vm"] tab keys m by auto
  let ?vm2 = "?vm1\<lparr>strings := t\<rparr>"
  from assms(3) obtain xs where xs: "chain ?h (gc_objects vm) xs" "distinct xs" "set xs = dom ?h"
    by (auto simp: all_listed_def)
  obtain vm3 where sw: "sweep ?vm2 = Inr vm3"
    and f: "\<forall>a. a \<notin> set xs \<longrightarrow> heap vm3 a = heap ?vm2 a"
    and freed: "\<forall>a \<in> set xs. a \<in> marked (heap ?vm2) \<longrightarrow> heap vm3 a = None"
    and kept: "\<forall>a \<in> set xs. a \<notin> marked (heap ?vm2) \<longrightarrow>
        (\<exists>q. heap vm3 a = Some ((the (heap ?vm2 a))\<lparr>obj_next := q\<rparr>))"
    and ch: "chain (heap vm3) (gc_objects vm3) (filter (\<lambda>a. a \<notin> marked (heap ?vm2)) xs)"
    and s3: "strings vm3 = t" "same_machine ?vm2 vm3"
    using sweep_spec [of ?vm2 xs] xs nu by auto
  have m2: "marked (heap ?vm2) = ?L" using m by simp
  have dom3: "dom (heap vm3) = dom ?h - ?L"
  proof (rule set_eqI)
    fix a
    show "a \<in> dom (heap vm3) \<longleftrightarrow> a \<in> dom ?h - ?L"
    proof (cases "a \<in> set xs")
      case True
      with freed kept m2 xs(3) show ?thesis by (cases "a \<in> ?L") auto
    next
      case False
      with f xs(3) have "heap vm3 a = None" by (auto simp: mark_heap_def)
      with False xs(3) show ?thesis by auto
    qed
  qed
  have "set (filter (\<lambda>a. a \<notin> ?L) xs) = dom (heap vm3)" using dom3 xs(3) by auto
  with ch m2 xs(2) have listed: "all_listed (vm3\<lparr>gc_nextGC := gc_allocated vm3 * 2\<rparr>)"
    by (auto simp: all_listed_def intro!: exI [of _ "filter (\<lambda>a. a \<notin> ?L) xs"])
  have "gc_collect vm = Inr (vm3\<lparr>gc_nextGC := gc_allocated vm3 * 2\<rparr>)"
    using assms(2) mk t sw by (simp add: gc_collect_def)
  moreover have "same_machine vm (vm3\<lparr>gc_nextGC := gc_allocated vm3 * 2\<rparr>)"
    using s3(2) by (simp add: same_machine_def)
  ultimately show ?thesis using dom3 listed s3(1) tm by auto
qed

end
