(* ===== verification/Heap_Props.thy ===== *)
theory Heap_Props
  imports Examples Sweeping
begin

text \<open>
  The properties of the string pool and of the collector.
\<close>

subsection \<open>Interning\<close>

lemma blank_idle: "gc_idle SIZEOF_STR vm_blank" "strings_ok vm_blank"
  using machine_create(1) [of "\<lambda>_. False"]
  by (simp_all add: gc_idle_def SIZEOF_STR_def machine_ok_def flip: vm_blank_def)

text \<open>
  C18. When no collection is due, \<open>str_copy\<close> returns a string object of the requested length and
  hash and keeps the invariant of the pool. It leaves every existing object alone; the object
  is either an old one, and then nothing changes, or new, and then it holds the characters asked
  for, in lower case if case is ignored.
\<close>

theorem str_copy_interns:
  assumes "strings_ok vm" and "gc_idle SIZEOF_STR vm" and "len \<le> length chars"
  shows "\<exists>a vm'. str_copy chars len ic vm = Inr (a, vm') \<and> strings_ok vm' \<and>
           is_str (heap vm') a \<and> str_length (str_of vm' a) = len \<and>
           str_hash (str_of vm' a) = hash_string chars len ic \<and>
           (\<forall>b. heap vm b \<noteq> None \<longrightarrow> heap vm' b = heap vm b) \<and>
           (heap vm a \<noteq> None \<longrightarrow> vm' = vm) \<and>
           (heap vm a = None \<longrightarrow> str_chars (str_of vm' a) =
              (if ic then map c_tolower (take len chars) else take len chars))"
  using str_copy_spec [OF assms, of ic]
  by (fastforce simp: str_match_def str_extends_def copied_def)

lemma str_copy_interns_witness:
  "\<exists>a vm'. str_copy ''Ab+'' 2 True vm_blank = Inr (a, vm') \<and> str_chars (str_of vm' a) = ''ab''"
proof -
  from str_copy_interns [OF blank_idle(2,1), of 2 "''Ab+''" True]
  obtain a vm' where "str_copy ''Ab+'' 2 True vm_blank = Inr (a, vm')"
    "str_chars (str_of vm' a) = map c_tolower (take 2 ''Ab+'')" by auto
  moreover have "map c_tolower (take 2 ''Ab+'') = ''ab''" by code_simp
  ultimately show ?thesis by auto
qed

text \<open>
  C19. Once a string has been interned, interning it again gives the same object, however many
  strings were added in between; so equality of strings is equality of pointers.
\<close>

theorem str_copy_same_object:
  assumes "strings_ok vm" and "gc_idle SIZEOF_STR vm" and "len \<le> length chars"
    and "str_copy chars len ic vm = Inr (a, vm1)" and "str_extends vm1 vm2" and "strings_ok vm2"
  shows "str_copy chars len ic vm2 = Inr (a, vm2)"
  using assms by (rule str_copy_again)

lemma str_copy_same_object_witness:
  "\<exists>a vm1. str_copy ''x'' 1 False vm_blank = Inr (a, vm1) \<and> str_copy ''x'' 1 False vm1 = Inr (a, vm1)"
proof -
  have len: "1 \<le> length ''x''" by simp
  obtain a vm1 where "str_copy ''x'' 1 False vm_blank = Inr (a, vm1)" "strings_ok vm1"
    using str_copy_spec [OF blank_idle(2,1) len] by blast
  with str_copy_same_object [OF blank_idle(2,1) len this(1) str_extends_refl this(2)] show ?thesis
    by blast
qed

text \<open>
  C20. The converse fails: two texts of equal length and hash are given one object, which holds
  the characters of the text that came first. \<open>tab_findstr\<close> receives the characters and does not
  compare them.
\<close>

theorem str_copy_collision:
  assumes "strings_ok vm" and "gc_idle SIZEOF_STR vm"
    and "\<And>b. is_str (heap vm) b \<Longrightarrow> \<not> str_match (str_of vm) (length xs) (hash_string xs (length xs) False) b"
    and "length ys = length xs"
    and "hash_string ys (length ys) False = hash_string xs (length xs) False"
  shows "\<exists>a vm1. str_copy xs (length xs) False vm = Inr (a, vm1) \<and>
           str_copy ys (length ys) False vm1 = Inr (a, vm1) \<and> str_chars (str_of vm1 a) = xs"
proof -
  obtain a vm1 where 1: "str_copy xs (length xs) False vm = Inr (a, vm1)" "strings_ok vm1" "is_str (heap vm1) a"
      "str_match (str_of vm1) (length xs) (hash_string xs (length xs) False) a"
    and new: "heap vm a = None \<longrightarrow> str_chars (str_of vm1 a) = copied xs (length xs) False"
    and old: "heap vm a \<noteq> None \<longrightarrow> vm1 = vm"
    using str_copy_spec [OF assms(1,2) le_refl, of xs False] by (elim exE conjE) (rule that)
  have "heap vm a = None" using old assms(3) 1(3,4) by blast
  with new have "str_chars (str_of vm1 a) = xs" by (simp add: copied_def)
  moreover have "str_copy ys (length ys) False vm1 = Inr (a, vm1)"
    using str_copy_present [OF 1(2,3), of "length ys" ys False] 1(4) assms(4,5) by simp
  ultimately show ?thesis using 1(1) by blast
qed

lemma str_copy_collision_witness:
  "\<exists>a vm1. str_copy ''declinate'' 9 False vm_blank = Inr (a, vm1) \<and>
     str_copy ''macallums'' 9 False vm1 = Inr (a, vm1) \<and> str_chars (str_of vm1 a) = ''declinate''"
proof -
  have h: "hash_string ''macallums'' 9 False = hash_string ''declinate'' 9 False"
    by (simp add: hash_string_def hash_step_def sign_extend_def)
  have no: "\<not> is_str (heap vm_blank) b" for b by (simp add: is_str_def)
  have len: "length ''macallums'' = length ''declinate''" and n: "length ''declinate'' = 9" by simp_all
  have h': "hash_string ''macallums'' (length ''macallums'') False =
      hash_string ''declinate'' (length ''declinate'') False" unfolding len n by (rule h)
  from str_copy_collision [OF blank_idle(2,1) _ len h'] no show ?thesis
    unfolding len n by blast
qed

subsection \<open>The collector\<close>


definition empty_map :: "addr option \<Rightarrow> obj_t" where
  "empty_map p = \<lparr>isMarked = False, obj_next = p,
     body = OT_MAP \<lparr>map_hash = hash_init, map_table = tab_init\<rparr>\<rparr>"

text \<open>Two maps, of which the first is on the stack and the second is garbage.\<close>

definition vm_two_maps :: vm_t where
  "vm_two_maps = (vm_with [VAL_OBJ 0])\<lparr>heap := [0 \<mapsto> empty_map None, 1 \<mapsto> empty_map (Some 0)],
     next_addr := 2, gc_objects := Some 1, gc_vm := True\<rparr>"

lemma two_maps_edges: "\<not> edge (heap vm_two_maps) a b"
  by (auto simp: edge_def vm_two_maps_def empty_map_def hash_init_def tab_init_def table_refs_def
      split: if_splits)

lemma two_maps_live: "live_set vm_two_maps = {0}"
proof -
  have "a = 0" if "reaches (heap vm_two_maps) (set (root_refs vm_two_maps)) a" for a
    using that
  proof induction
    case (root a)
    then show ?case
      by (auto simp: root_refs_def vm_two_maps_def vm_with_def table_refs_def tab_init_def
          vm_blank_def vm_create_def gc_init_def resetStack_def)
  next
    case (step a b)
    then show ?case using two_maps_edges by blast
  qed
  moreover have "0 \<in> set (root_refs vm_two_maps)"
    by (simp add: root_refs_def vm_two_maps_def vm_with_def)
  ultimately show ?thesis by (auto simp: live_set_def intro: reaches.root)
qed

lemma two_maps_ready: "gc_ready vm_two_maps"
  using two_maps_edges
  by (auto simp: gc_ready_def heap_closed_def upvalues_ready_def marked_def root_refs_def
      vm_two_maps_def vm_with_def empty_map_def table_refs_def tab_init_def vm_blank_def vm_create_def
      gc_init_def resetStack_def split: if_splits)




text \<open>
  C23. \<open>removeWhite\<close> returns and removes from the pool exactly the strings that are not marked;
  the pool stays a well-formed table.
\<close>

theorem removeWhite_keeps_marked:
  assumes "tab_ok (strs_of h) t" and "dom (tab_model t) \<subseteq> dom h"
  shows "\<exists>t'. removeWhite h t = Inr t' \<and> tab_ok (strs_of h) t' \<and>
           tab_model t' = tab_model t |` marked h"
  using removeWhite_spec [OF assms] by (auto simp: restrict_map_def)

lemma removeWhite_keeps_marked_witness:
  "\<exists>a vm1 t'. str_copy ''x'' 1 False vm_blank = Inr (a, vm1) \<and>
     removeWhite (heap vm1) (strings vm1) = Inr t' \<and>
     tab_model t' = tab_model (strings vm1) |` marked (heap vm1)"
proof -
  have len: "1 \<le> length ''x''" by simp
  obtain a vm1 where 1: "str_copy ''x'' 1 False vm_blank = Inr (a, vm1)" "strings_ok vm1"
    using str_copy_spec [OF blank_idle(2,1) len] by blast
  have "tab_ok (strs_of (heap vm1)) (strings vm1)" "dom (tab_model (strings vm1)) \<subseteq> dom (heap vm1)"
    using 1(2) unfolding strings_ok_def str_of_def is_str_def by blast+
  from removeWhite_keeps_marked [OF this] 1(1) show ?thesis by blast
qed

end
