(* ===== verification/Frames.thy ===== *)
theory Frames
  imports Machine_Ok
begin

text \<open>
  What an instruction does to the frames, and with them to the instruction pointers: it passes its
  operands, jumps forward, enters a function or leaves one. There is no instruction that goes
  back.
\<close>

subsection \<open>Functions stay what they are\<close>

definition fun_at :: "obj_heap \<Rightarrow> addr \<Rightarrow> fun_t option" where
  "fun_at h a =
     (case h a of None \<Rightarrow> None | Some ob \<Rightarrow> (case body ob of OT_FUN fn \<Rightarrow> Some fn | _ \<Rightarrow> None))"

lemma fun_at_get_fun: "get_fun a vm = Inr fn \<longleftrightarrow> fun_at (heap vm) a = Some fn"
  by (auto simp: get_fun_def fun_at_def split: option.splits obj_body.splits)

lemma fun_at_upd:
  assumes "fun_at h a = None" and "\<And>fn. body ob \<noteq> OT_FUN fn"
  shows "fun_at (h(a \<mapsto> ob)) = fun_at h"
  using assms by (auto simp: fun_eq_iff fun_at_def split: option.splits obj_body.splits)

lemma fun_at_extends:
  assumes "str_extends vm vm'"
  shows "fun_at (heap vm') = fun_at (heap vm)"
proof
  fix a
  show "fun_at (heap vm') a = fun_at (heap vm) a"
  proof (cases "heap vm a")
    case None
    with assms have "heap vm' a = None \<or> is_str (heap vm') a" by (simp add: str_extends_def)
    with None show ?thesis by (auto simp: fun_at_def is_str_def)
  next
    case (Some ob)
    with assms have "heap vm' a = Some ob" by (simp add: str_extends_def)
    with Some show ?thesis by (simp add: fun_at_def)
  qed
qed

text \<open>No instruction changes a function, as an instance of the contract.\<close>

lemma fun_at_put_map: "get_map a vm = Inr m0 \<Longrightarrow> fun_at (heap (put_map a m vm)) = fun_at (heap vm)"
  by (auto simp: fun_eq_iff fun_at_def put_map_def get_map_def split: option.splits obj_body.splits)

lemma fun_at_map_new:
  assumes "machine_ok vm" and "map_new vm = Inr (a, vm')"
  shows "fun_at (heap vm') = fun_at (heap vm)"
proof (cases "gc_idle SIZEOF_MAP vm")
  case True
  have "heap vm (next_addr vm) = None"
    using assms(1) strings_ok_free by (simp add: machine_ok_def)
  with assms(2) True show ?thesis
    by (auto simp: map_new_def allocObj_idle fun_at_def intro!: fun_at_upd)
next
  case False
  then have "allocObj SIZEOF_MAP bdy vm = Inl (Undefined Uninitialised)" for bdy
    using assms(1) by (intro allocObj_collects) (simp_all add: SIZEOF_MAP_def machine_ok_def)
  with assms(2) show ?thesis by (simp add: map_new_def)
qed

definition funs_are :: "(addr \<Rightarrow> fun_t option) \<Rightarrow> vm_t \<Rightarrow> bool" where
  "funs_are F vm \<longleftrightarrow> machine_ok vm \<and> hashes_ok vm \<and> fun_at (heap vm) = F"

lemma funs_are_extends:
  assumes "funs_are F vm" and "str_extends vm vm'" and "strings_ok vm'"
  shows "funs_are F vm'"
  using assms machine_extends [of vm vm'] fun_at_extends [OF assms(2)] by (simp add: funs_are_def)

interpretation mf: vm_contract "funs_are F" returns_ok "\<lambda>_. True" for F
proof
  fix vm :: vm_t and vm' chars len name v m key
  show "funs_are F vm \<Longrightarrow> in_bounds vm" by (simp add: funs_are_def machine_ok_def)
  show "funs_are F vm \<Longrightarrow> same_store vm vm' \<Longrightarrow> in_bounds vm' \<Longrightarrow> funs_are F vm'"
    using machine_same_store [of vm vm'] by (auto simp: funs_are_def same_store_def)
  show "funs_are F vm \<Longrightarrow> is_str (heap vm) a \<Longrightarrow> str_coherent (str_of vm a)" for a
    using machine_coherent by (simp add: funs_are_def)
  show "funs_are F vm \<Longrightarrow> length chars = len \<Longrightarrow>
      okr returns_ok (\<lambda>(_, vm'). funs_are F vm') (str_take chars len vm)"
    using machine_take [of vm chars len] funs_are_extends [of F vm] by (fastforce simp: funs_are_def)
  show "funs_are F vm \<Longrightarrow> okr returns_ok (\<lambda>_. True) (global_get name vm)"
    using machine_global_ops(1) by (simp add: funs_are_def)
  show "funs_are F vm \<Longrightarrow> is_str (heap vm) name \<Longrightarrow>
      okr returns_ok (\<lambda>(_, vm'). funs_are F vm') (global_set name v vm)"
    by (rule okr_mono [OF machine_global_ops(2)])
      (auto simp: funs_are_def global_set_def elim!: bindr_Inr_E)
  show "funs_are F vm \<Longrightarrow> okr returns_ok (funs_are F) (global_remove name vm)"
    by (rule okr_mono [OF machine_global_ops(3)])
      (auto simp: funs_are_def global_remove_def elim!: bindr_Inr_E)
  show "funs_are F vm \<Longrightarrow> okr returns_ok (\<lambda>(_, vm'). funs_are F vm') (map_new vm)"
    by (rule okr_mono [OF machine_ok_map_new]) (auto simp: funs_are_def fun_at_map_new)
  show "funs_are F vm \<Longrightarrow> okr returns_ok (\<lambda>_. True) (map_table_get m name vm)"
    using machine_map_tables(1) by (simp add: funs_are_def)
  show "funs_are F vm \<Longrightarrow> is_str (heap vm) name \<Longrightarrow>
      okr returns_ok (funs_are F) (map_table_set m name v vm)"
    by (rule okr_mono [OF machine_map_tables(2)])
      (auto simp: funs_are_def map_table_set_def fun_at_put_map elim!: bindr_Inr_E)
  show "funs_are F vm \<Longrightarrow> okr returns_ok (\<lambda>_. True) (map_hash_get m key vm)"
    using machine_hashes(1) by (simp add: funs_are_def)
  show "funs_are F vm \<Longrightarrow> True \<Longrightarrow> okr returns_ok (funs_are F) (map_hash_set m key v vm)"
    by (rule okr_mono [OF machine_hashes(2)])
      (auto simp: funs_are_def map_hash_set_def fun_at_put_map elim!: bindr_Inr_E)
qed simp_all

subsection \<open>The frames after an instruction\<close>

definition same_frames :: "vm_t \<Rightarrow> vm_t \<Rightarrow> bool" where
  "same_frames vm vm' \<longleftrightarrow> frames vm' = frames vm \<and> gc_vm vm' = gc_vm vm"

text \<open>The current frame's instruction pointer moved by \<open>n\<close>.\<close>

definition past :: "nat \<Rightarrow> vm_t \<Rightarrow> vm_t \<Rightarrow> bool" where
  "past n vm vm' \<longleftrightarrow> gc_vm vm' = gc_vm vm \<and>
     (\<exists>f fs. frames vm = f # fs \<and> frames vm' = f\<lparr>fr_ip := fr_ip f + n\<rparr> # fs)"

lemma same_frames_refl [simp]: "same_frames vm vm"
  by (simp add: same_frames_def)

lemma past_past: "past n vm vm1 \<Longrightarrow> past m vm1 vm2 \<Longrightarrow> past (n + m) vm vm2"
  by (auto simp: past_def)

lemma frames_PUSH: "PUSH v vm = Inr vm' \<Longrightarrow> same_frames vm vm'"
  and frames_POP: "POP vm = Inr (w, vm') \<Longrightarrow> same_frames vm vm'"
  and frames_POPN: "POPN n vm = Inr vm' \<Longrightarrow> same_frames vm vm'"
  and frames_push_next: "push_next v vm = Inr (fl, vm') \<Longrightarrow> same_frames vm vm' \<and> fl = NEXT"
  and frames_next_op: "next_op vm = Inr (fl, vm') \<Longrightarrow> same_frames vm vm' \<and> fl = NEXT"
  and frames_global_set: "global_set name v vm = Inr (b, vm') \<Longrightarrow> same_frames vm vm'"
  and frames_global_remove: "global_remove name vm = Inr vm' \<Longrightarrow> same_frames vm vm'"
  and frames_table_set: "map_table_set m name v vm = Inr vm' \<Longrightarrow> same_frames vm vm'"
  and frames_hash_set: "map_hash_set m key v vm = Inr vm' \<Longrightarrow> same_frames vm vm'"
  by (auto simp: PUSH_def POP_def POPN_def push_next_def next_op_def global_set_def global_remove_def
      map_table_set_def map_hash_set_def put_map_def same_frames_def elim!: bindr_Inr_E split: if_splits)

lemma frames_ERROR: "ERROR msg vm \<noteq> Inr (NEXT, vm')"
  by (auto simp: ERROR_def elim!: bindr_Inr_E)

lemma frames_undefined: "undefined_variable name vm \<noteq> Inr (NEXT, vm')"
  by (simp add: undefined_variable_def frames_ERROR)

lemma past_READ_BYTE: "READ_BYTE vm = Inr (b, vm') \<Longrightarrow> past 1 vm vm'"
  by (auto simp: READ_BYTE_def past_def get_ip_def cur_frame_def set_ip_def elim!: bindr_Inr_E
      split: list.splits if_splits)

lemma past_READ_SHORT: "READ_SHORT vm = Inr (s, vm') \<Longrightarrow> past 2 vm vm'"
  by (auto simp: READ_SHORT_def numeral_2_eq_2 elim!: bindr_Inr_E
      dest!: past_READ_BYTE intro: past_past [of 1 _ _ 1, simplified])

lemma past_READ_CONST: "READ_CONST vm = Inr (v, vm') \<Longrightarrow> past 1 vm vm'"
  by (auto simp: READ_CONST_def elim!: bindr_Inr_E dest!: past_READ_BYTE split: if_splits)

lemma past_READ_STR: "READ_STR vm = Inr (a, vm') \<Longrightarrow> past 1 vm vm'"
  by (auto simp: READ_STR_def elim!: bindr_Inr_E dest!: past_READ_CONST)

lemma frames_allocObj:
  assumes "allocObj n bdy vm = Inr (a, vm')" and "\<not> gc_vm vm" and "n \<noteq> 0"
  shows "same_frames vm vm'"
proof (cases "gc_idle n vm")
  case True
  with assms(1) show ?thesis by (auto simp: allocObj_idle same_frames_def)
next
  case False
  with assms show ?thesis by (simp add: allocObj_collects)
qed

lemma frames_str_take:
  "str_take cs n vm = Inr (a, vm') \<Longrightarrow> \<not> gc_vm vm \<Longrightarrow> same_frames vm vm'"
  by (auto simp: str_take_def allocStr_def Let_def SIZEOF_STR_def same_frames_def elim!: bindr_Inr_E
      dest!: frames_allocObj split: option.splits)

lemma frames_map_new: "map_new vm = Inr (a, vm') \<Longrightarrow> \<not> gc_vm vm \<Longrightarrow> same_frames vm vm'"
  by (auto simp: map_new_def SIZEOF_MAP_def dest!: frames_allocObj)

lemma frames_concatenate:
  assumes "concatenate vm = Inr vm'" and "\<not> gc_vm vm"
  shows "same_frames vm vm'"
  using assms
  by (auto simp: concatenate_def Let_def same_frames_def elim!: bindr_Inr_E
      dest!: frames_PUSH frames_POP frames_str_take)

lemma frames_map_fill: "map_fill m n vm = Inr vm' \<Longrightarrow> same_frames vm vm'"
  by (induction n arbitrary: vm) (auto simp: same_frames_def elim!: bindr_Inr_E dest!: frames_hash_set)

text \<open>The number of operand bytes of an opcode.\<close>

fun op_len :: "opcode_t \<Rightarrow> nat" where
  "op_len OP_PRINT = 1" | "op_len OP_CALL = 1" | "op_len OP_CONST = 1" | "op_len OP_DEF = 1"
| "op_len OP_GLD = 1" | "op_len OP_GST = 1" | "op_len OP_JMP = 2" | "op_len OP_JMPF = 2"
| "op_len OP_LD = 1" | "op_len OP_ST = 1" | "op_len OP_MAP = 1" | "op_len OP_GET = 1"
| "op_len OP_SET = 1" | "op_len _ = 0"

definition ahead :: "nat \<Rightarrow> vm_t \<Rightarrow> vm_t \<Rightarrow> bool" where
  "ahead n vm vm' \<longleftrightarrow> (if n = 0 then same_frames vm vm' else past n vm vm')"

lemmas frames_dests =
  frames_PUSH frames_POP frames_POPN frames_push_next frames_next_op frames_global_set
  frames_global_remove frames_table_set frames_hash_set frames_concatenate frames_map_new
  frames_map_fill past_READ_BYTE past_READ_SHORT past_READ_CONST past_READ_STR

lemma past_gc: "past n vm vm' \<Longrightarrow> gc_vm vm' = gc_vm vm"
  by (simp add: past_def)

lemma ahead_binary_op:
  assumes "binary_op nn bb other vm = Inr (NEXT, vm')"
    and "\<And>vm'. other vm = Inr (NEXT, vm') \<Longrightarrow> same_frames vm vm'"
  shows "same_frames vm vm'"
  using assms by (fastforce simp: binary_op_def same_frames_def elim!: bindr_Inr_E dest!: frames_dests
      split: option.splits)

lemma ahead_operators:
  assumes "\<not> gc_vm vm" and "exec_op native op vm = Inr (NEXT, vm')"
    and "op \<in> {OP_ADD, OP_SUB, OP_MUL, OP_DIV, OP_LT, OP_LE}"
  shows "same_frames vm vm'"
proof (cases "op = OP_ADD")
  case False
  have bad: "binary_op nn bb bad_operands vm = Inr (NEXT, vm') \<Longrightarrow> same_frames vm vm'" for nn bb
    by (erule ahead_binary_op) (simp add: bad_operands_def frames_ERROR)
  from False assms(2,3) show ?thesis
    by (auto simp: op_SUB_def op_MUL_def op_DIV_def op_LT_def op_LE_def intro: bad)
next
  case True
  with assms(1,2) show ?thesis
    by (auto simp: op_ADD_def frames_ERROR elim!: ahead_binary_op bindr_Inr_E dest!: frames_dests
        split: if_splits) (simp add: same_frames_def)
qed

lemma ahead_stack_ops:
  assumes "exec_op native op vm = Inr (NEXT, vm')"
    and "op \<in> {OP_PRINT, OP_POP, OP_NIL, OP_TRUE, OP_FALSE, OP_CONST, OP_NOT, OP_NEG, OP_EQ}"
  shows "ahead (op_len op) vm vm'"
  using assms
  by (auto simp: ahead_def past_def same_frames_def op_PRINT_def op_POP_def op_NIL_def op_TRUE_def op_FALSE_def op_CONST_def
      op_NOT_def op_NEG_def op_EQ_def frames_ERROR Let_def elim!: bindr_Inr_E dest!: frames_dests
      split: vtype.splits)
 
lemma ahead_variables:
  assumes "exec_op native op vm = Inr (NEXT, vm')"
    and "op \<in> {OP_DEF, OP_GLD, OP_GST, OP_LD, OP_ST}"
  shows "ahead (op_len op) vm vm'"
  using assms
  by (auto simp: ahead_def past_def same_frames_def op_DEF_def op_GLD_def op_GST_def op_LD_def op_ST_def
      frames_undefined Let_def elim!: bindr_Inr_E dest!: frames_dests split: option.splits if_splits)

lemma ahead_maps:
  assumes "\<not> gc_vm vm" and "exec_op native op vm = Inr (NEXT, vm')"
    and "op \<in> {OP_MAP, OP_GET, OP_SET, OP_GETI, OP_SETI}"
  shows "ahead (op_len op) vm vm'"
proof -
  have map: "past 1 vm vm'" if "op_MAP vm = Inr (NEXT, vm')"
  proof -
    from that obtain n vm1 m vm2 vm3 vm4 where
      1: "READ_BYTE vm = Inr (n, vm1)" and 2: "map_new vm1 = Inr (m, vm2)"
      and 3: "map_fill m (unat n) vm2 = Inr vm3" "POPN (unat n) vm3 = Inr vm4"
        "push_next (VAL_OBJ m) vm4 = Inr (NEXT, vm')"
      by (auto simp: op_MAP_def elim!: bindr_Inr_E)
    have p: "past 1 vm vm1" by (rule past_READ_BYTE [OF 1])
    then have "\<not> gc_vm vm1" using assms(1) by (simp add: past_gc)
    then have "same_frames vm1 vm2" using frames_map_new [OF 2] by simp
    with p 3 show ?thesis by (auto simp: past_def same_frames_def dest!: frames_dests)
  qed
  from assms(2,3) map show ?thesis
    by (auto simp: ahead_def past_def same_frames_def op_GET_def op_SET_def op_GETI_def op_SETI_def
        frames_ERROR elim!: bindr_Inr_E dest!: frames_dests split: option.splits if_splits)
qed

text \<open>A jump passes its two operand bytes and their value.\<close>

lemma past_jumps:
  assumes "exec_op native op vm = Inr (NEXT, vm')" and "op = OP_JMP \<or> op = OP_JMPF"
  shows "\<exists>s vm1. READ_SHORT vm = Inr (s, vm1) \<and>
    (past (2 + unat s) vm vm' \<or> op = OP_JMPF \<and> past 2 vm vm')"
proof -
  obtain s vm1 where 1: "READ_SHORT vm = Inr (s, vm1)"
    and 2: "jump s vm1 = Inr vm' \<or> op = OP_JMPF \<and> vm' = vm1"
    using assms by (auto simp: op_JMP_def op_JMPF_def next_op_def elim!: bindr_Inr_E split: if_splits)
  from past_READ_SHORT [OF 1] 2 have "past (2 + unat s) vm vm' \<or> op = OP_JMPF \<and> past 2 vm vm'"
    by (auto simp: past_def jump_def get_ip_def cur_frame_def set_ip_def elim!: bindr_Inr_E)
  with 1 show ?thesis by blast
qed

lemma frames_RET:
  assumes "op_RET vm = Inr (NEXT, vm')"
  shows "frames vm' = tl (frames vm) \<and> frames vm' \<noteq> [] \<and> gc_vm vm' = gc_vm vm"
  using assms
  by (auto simp: op_RET_def same_frames_def Let_def elim!: bindr_Inr_E dest!: frames_dests split: if_splits)

lemma frames_CALL:
  assumes "op_CALL native vm = Inr (NEXT, vm')"
    and "\<And>f n i vm v vm'. native f n i vm = Inr (v, vm') \<Longrightarrow> same_frames vm vm'"
  shows "past 1 vm vm' \<or>
    (\<exists>a vm1. past 1 vm vm1 \<and> gc_vm vm' = gc_vm vm \<and> length (frames vm1) \<noteq> FRAMES_MAX \<and>
       (\<exists>g. frames vm' = g # frames vm1 \<and> fr_function g = a \<and> fr_ip g = 0 \<and> fun_at (heap vm') a \<noteq> None))"
proof -
  from assms(1) obtain n vm1 callee where
    b: "READ_BYTE vm = Inr (n, vm1)" and c: "vm_call native callee (unat n) vm1 = Inr (True, vm')"
    by (auto simp: op_CALL_def next_op_def elim!: bindr_Inr_E split: if_splits)
  have p: "past 1 vm vm1" by (rule past_READ_BYTE [OF b])
  show ?thesis
  proof (cases callee)
    case (VAL_OBJ a)
    with c have "prepareCall a (unat n) vm1 = Inr (True, vm')"
      by (auto simp: vm_call_def Let_def elim!: bindr_Inr_E split: option.splits obj_body.splits)
    then show ?thesis
      using p by (auto simp: prepareCall_def past_def fun_at_get_fun Let_def elim!: bindr_Inr_E
          split: if_splits)
  next
    case (VAL_CFN f)
    with c have "same_frames vm1 vm'"
      by (auto simp: vm_call_def same_frames_def elim!: bindr_Inr_E dest!: assms(2) frames_dests)
    with p show ?thesis by (auto simp: past_def same_frames_def)
  qed (use c in \<open>auto simp: vm_call_def Let_def elim!: bindr_Inr_E\<close>)
qed

end
