(* ===== verification/Terminates.thy ===== *)
theory Terminates
  imports Frames
begin

text \<open>
  Every run of the machine ends. Instructions only move forward in the code of their function, and at
  most 64 functions are active, so the remaining code of the active functions, the outermost first,
  decreases lexicographically.
\<close>

subsection \<open>The code that remains\<close>

definition rest_code :: "(addr \<Rightarrow> fun_t option) \<Rightarrow> frame_t \<Rightarrow> nat" where
  "rest_code F f =
     (case F (fr_function f) of None \<Rightarrow> 0 | Some fn \<Rightarrow> ck_count (fn_chunk fn) - fr_ip f)"

definition weights :: "(addr \<Rightarrow> fun_t option) \<Rightarrow> frame_t list \<Rightarrow> nat list" where
  "weights F fs = map (\<lambda>f. Suc (rest_code F f)) (rev fs) @ replicate (FRAMES_MAX - length fs) 0"

lemma length_weights: "length fs \<le> FRAMES_MAX \<Longrightarrow> length (weights F fs) = FRAMES_MAX"
  by (simp add: weights_def)

definition lighter :: "nat list \<Rightarrow> nat list \<Rightarrow> bool" where
  "lighter xs ys \<longleftrightarrow> (xs, ys) \<in> lex less_than"

lemma wf_lighter: "wfP lighter"
proof -
  have "{(xs, ys). lighter xs ys} = lex less_than" by (auto simp: lighter_def)
  then show ?thesis using wf_lex [OF wf_less_than] by (simp add: wfp_def)
qed

lemma lighterI: "a < b \<Longrightarrow> length xs = length ys \<Longrightarrow> lighter (pre @ a # xs) (pre @ b # ys)"
  unfolding lighter_def lex_conv by (simp, rule exI [of _ pre], auto)

lemma weights_Cons:
  "weights F (f # fs) = map (\<lambda>f. Suc (rest_code F f)) (rev fs) @
     Suc (rest_code F f) # replicate (FRAMES_MAX - Suc (length fs)) 0"
  by (simp add: weights_def)

lemma lighter_ahead:
  "rest_code F f' < rest_code F f \<Longrightarrow> lighter (weights F (f' # fs)) (weights F (f # fs))"
  unfolding weights_Cons by (rule lighterI) simp_all

lemma lighter_call:
  assumes "length (g # f # fs) \<le> FRAMES_MAX" and "rest_code F f' < rest_code F f"
  shows "lighter (weights F (g # f' # fs)) (weights F (f # fs))"
proof -
  have "weights F (g # f' # fs) = map (\<lambda>f. Suc (rest_code F f)) (rev fs) @
      Suc (rest_code F f') # Suc (rest_code F g) # replicate (FRAMES_MAX - Suc (Suc (length fs))) 0"
    by (simp add: weights_def)
  then show ?thesis unfolding weights_Cons [of F f] using assms by (simp add: lighterI)
qed

lemma lighter_return:
  assumes "length (f # fs) \<le> FRAMES_MAX"
  shows "lighter (weights F fs) (weights F (f # fs))"
proof -
  have "FRAMES_MAX - length fs = Suc (FRAMES_MAX - Suc (length fs))" using assms by simp
  then have "weights F fs = map (\<lambda>f. Suc (rest_code F f)) (rev fs) @
      0 # replicate (FRAMES_MAX - Suc (length fs)) 0"
    by (simp add: weights_def)
  then show ?thesis unfolding weights_Cons by (simp add: lighterI)
qed

subsection \<open>Each instruction makes the frames lighter\<close>

lemma READ_BYTE_rest:
  assumes "READ_BYTE vm = Inr (b, vm1)" and "past k vm1 vm2"
  obtains f fs f' where "frames vm = f # fs" and "frames vm2 = f' # fs"
    and "rest_code (fun_at (heap vm)) f' < rest_code (fun_at (heap vm)) f"
proof -
  from assms(1) obtain f fs fn where f: "frames vm = f # fs"
    "fun_at (heap vm) (fr_function f) = Some fn" "fr_ip f < ck_count (fn_chunk fn)"
    "vm1 = set_ip (fr_ip f + 1) vm"
    by (auto simp: READ_BYTE_def get_ip_def cur_frame_def cur_chunk_def fun_at_get_fun elim!: bindr_Inr_E
        split: list.splits if_splits)
  with assms(2) have "frames vm2 = f\<lparr>fr_ip := fr_ip f + 1 + k\<rparr> # fs" by (auto simp: past_def set_ip_def)
  with f show ?thesis by (intro that [of f fs]) (auto simp: rest_code_def)
qed

lemma past_0: "frames vm \<noteq> [] \<Longrightarrow> same_frames vm vm' \<Longrightarrow> past 0 vm vm'"
  by (cases "frames vm") (auto simp: past_def same_frames_def)

lemma exec_op_frames:
  assumes "exec_op native op vm = Inr (NEXT, vm')" and "\<not> gc_vm vm" and "frames vm \<noteq> []"
    and "\<And>f n i vm v vm'. native f n i vm = Inr (v, vm') \<Longrightarrow> same_frames vm vm'"
  shows "(\<exists>k. past k vm vm') \<or> (\<exists>k g vm1. past k vm vm1 \<and> frames vm' = g # frames vm1 \<and>
      length (frames vm1) \<noteq> FRAMES_MAX) \<or> frames vm' = tl (frames vm)"
proof -
  have ahead: "\<exists>k. past k vm vm'" if "ahead n vm vm'" for n
    using that past_0 [OF assms(3)] by (auto simp: ahead_def split: if_splits)
  consider "op = OP_CALL" | "op = OP_RET" | "op = OP_JMP \<or> op = OP_JMPF"
    | "op \<in> {OP_ADD, OP_SUB, OP_MUL, OP_DIV, OP_LT, OP_LE}"
    | "op \<in> {OP_PRINT, OP_POP, OP_NIL, OP_TRUE, OP_FALSE, OP_CONST, OP_NOT, OP_NEG, OP_EQ}"
    | "op \<in> {OP_DEF, OP_GLD, OP_GST, OP_LD, OP_ST}" | "op \<in> {OP_MAP, OP_GET, OP_SET, OP_GETI, OP_SETI}"
    by (cases op) auto
  then show ?thesis
  proof cases
    case 1
    with assms(1) have "op_CALL native vm = Inr (NEXT, vm')" by simp
    then show ?thesis using frames_CALL [of native vm vm'] assms(4) by blast
  next
    case 2
    with assms(1) frames_RET [of vm vm'] show ?thesis by simp
  next
    case 3
    from past_jumps [OF assms(1) this] show ?thesis by blast
  next
    case 4
    from ahead_operators [OF assms(2,1) this] past_0 [OF assms(3)] show ?thesis by blast
  next
    case 5
    from ahead_stack_ops [OF assms(1) this] ahead show ?thesis by blast
  next
    case 6
    from ahead_variables [OF assms(1) this] ahead show ?thesis by blast
  next
    case 7
    from ahead_maps [OF assms(2,1) this] ahead show ?thesis by blast
  qed
qed

lemma vm_step_lighter:
  assumes "vm_step native vm = Inr (NEXT, vm')" and "machine_ok vm" and "machine_ok vm'"
    and "\<And>f n i vm v vm'. native f n i vm = Inr (v, vm') \<Longrightarrow> same_frames vm vm'"
  shows "lighter (weights (fun_at (heap vm)) (frames vm')) (weights (fun_at (heap vm)) (frames vm))"
proof -
  obtain b vm1 op where b: "READ_BYTE vm = Inr (b, vm1)" and op: "exec_op native op vm1 = Inr (NEXT, vm')"
    using assms(1) by (auto simp: vm_step_def frames_ERROR elim!: bindr_Inr_E split: option.splits)
  have p1: "past 1 vm vm1" by (rule past_READ_BYTE [OF b])
  have gc: "\<not> gc_vm vm1" and ne: "frames vm1 \<noteq> []"
    using p1 assms(2) by (auto simp: past_def machine_ok_def)
  have len: "length (frames vm) \<le> FRAMES_MAX" "length (frames vm') \<le> FRAMES_MAX"
    using assms(2,3) by (simp_all add: machine_ok_def in_bounds_def)
  have "(\<exists>k. past k vm1 vm') \<or> (\<exists>k g vm2. past k vm1 vm2 \<and> frames vm' = g # frames vm2 \<and>
      length (frames vm2) \<noteq> FRAMES_MAX) \<or> frames vm' = tl (frames vm1)"
    by (rule exec_op_frames [OF op gc ne]) (rule assms(4))
  then show ?thesis
  proof (elim disjE exE conjE)
    fix k assume "past k vm1 vm'"
    from READ_BYTE_rest [OF b this] show ?thesis by (metis lighter_ahead)
  next
    fix k g vm2 assume p: "past k vm1 vm2" and fr: "frames vm' = g # frames vm2"
    from READ_BYTE_rest [OF b p] obtain f fs f' where f: "frames vm = f # fs" "frames vm2 = f' # fs"
      "rest_code (fun_at (heap vm)) f' < rest_code (fun_at (heap vm)) f" .
    then show ?thesis using len fr by (simp add: lighter_call)
  next
    assume "frames vm' = tl (frames vm1)"
    with p1 len show ?thesis by (auto simp: past_def lighter_return)
  qed
qed

subsection \<open>Runs end\<close>

lemma vm_execute_terminates:
  assumes "funs_are F vm"
    and "\<And>f n i vm v vm'. native f n i vm = Inr (v, vm') \<Longrightarrow> same_frames vm vm'"
    and "\<And>F f n i vm. funs_are F vm \<Longrightarrow> okr returns_ok (\<lambda>(_, vm'). funs_are F vm') (native f n i vm)"
  shows "\<exists>r. vm_execute native vm = Some r \<and> r \<noteq> Inl NoReturn"
  using assms(1)
proof (induction "weights F (frames vm)" arbitrary: vm rule: wfp_induct_rule [OF wf_lighter])
  case (1 vm)
  have step: "okr returns_ok (\<lambda>(_, vm'). funs_are F vm') (vm_step native vm)"
    by (rule mf.keeps_step [OF 1(2) index_keys_True assms(3)])
  show ?case
  proof (cases "vm_step native vm")
    case (Inl e)
    with step show ?thesis by (auto simp: returns_ok_def vm_execute.simps [of native vm])
  next
    case (Inr r)
    then obtain fl vm' where r: "vm_step native vm = Inr (fl, vm')" by (cases r) simp
    with step have ok: "funs_are F vm'" by simp
    show ?thesis
    proof (cases fl)
      case NEXT
      have "lighter (weights F (frames vm')) (weights F (frames vm))"
        using vm_step_lighter [OF r [unfolded NEXT] _ _ assms(2)] 1(2) ok by (simp add: funs_are_def)
      from 1(1) [OF this ok] r NEXT show ?thesis by (subst vm_execute.simps) simp
    next
      case (RETURN res)
      with r show ?thesis by (subst vm_execute.simps) simp
    qed
  qed
qed

end
