(* ===== verification/VM_Props.thy ===== *)
theory VM_Props
  imports Examples Terminates
begin

text \<open>
  The properties of the virtual machine: what holds along every run, and what single instructions
  do.
\<close>

subsection \<open>Runs\<close>

lemma run_NIL_RET:
  "\<exists>vm'. vm_execute native (vm_code [4, 3] [VAL_OBJ 0]) = Some (Inr (VM_OK, vm'))"
proof -
  let ?vm = "vm_code [4, 3] [VAL_OBJ 0]" and ?c = "demo_chunk [4, 3]"
  have r: "running ?vm 0 ?c 0" by (rule running_code)
  have "vm_step native ?vm = push_next VAL_NULL (set_ip 1 ?vm)"
    using vm_step_op [OF r, of OP_NIL] by (simp add: demo_chunk_simps op_NIL_def)
  moreover have "vm_top (set_ip 1 ?vm) < STACK_MAX"
    by (simp add: vm_code_def vm_with_def STACK_MAX_def FRAMES_MAX_def)
  ultimately obtain vm1 where 1: "vm_step native ?vm = Inr (NEXT, vm1)"
    "stack_list vm1 = [VAL_NULL, VAL_OBJ 0]" "only_stack (set_ip 1 ?vm) vm1"
    using push_next_ok [of "set_ip 1 ?vm" VAL_NULL] by auto
  have r1: "running vm1 0 ?c 1"
    using running_only_stack [OF 1(3)] running_set_ip [OF r] by blast
  have step: "vm_step native vm1 = op_RET (set_ip 2 vm1)"
    using vm_step_op [OF r1, of OP_RET] by (simp add: demo_chunk_simps numeral_2_eq_2)
  obtain f where "frames (set_ip 2 vm1) = [f]"
    using 1(3) by (auto simp: only_stack_def vm_code_def set_ip_def)
  then obtain vm2 where "vm_step native vm1 = Inr (RETURN VM_OK, vm2)"
    using op_RET_last [of "set_ip 2 vm1"] 1(2) step by auto
  then show ?thesis using vm_execute_next [OF 1(1)] vm_execute_return by metis
qed

text \<open>
  C1. The invariant of the machine holds whenever \<open>vm_execute\<close> returns, for all code and whatever
  the result: the pool interns every string, the tables of globals and maps are well-formed and
  keyed by strings of the heap, and the stack and the frames are within their arrays. The
  natives of the thread library are assumed to keep it; those of the math library do.
\<close>

theorem vm_execute_keeps_machine:
  assumes "\<And>f n i vm. machine_ok vm \<Longrightarrow> okr (\<lambda>_. True) (\<lambda>(_, vm'). machine_ok vm') (thr f n i vm)"
    and "machine_ok vm" and "vm_execute (run_native lm thr) vm = Some (Inr (res, vm'))"
  shows "machine_ok vm'"
proof -
  note nat = math_natives_keep [OF assms(1)]
  obtain vm1 where run: "vm_runs (run_native lm thr) vm vm1"
    and last: "vm_step (run_native lm thr) vm1 = Inr (RETURN res, vm')"
    using vm_execute_runs [OF assms(3)] by auto
  have ok: "machine_ok vm1" by (rule mk.keeps_runs [OF run assms(2) index_keys_True]) (rule nat)
  have "okr (\<lambda>_. True) (\<lambda>(_, vm'). machine_ok vm') (vm_step (run_native lm thr) vm1)"
    by (rule mk.keeps_step [OF ok index_keys_True]) (rule nat)
  from okr_Inr [OF this last] show ?thesis by simp
qed

lemma vm_execute_keeps_machine_witness:
  "\<exists>vm'. vm_execute demo_native (vm_code [4, 3] [VAL_OBJ 0]) = Some (Inr (VM_OK, vm')) \<and> machine_ok vm'"
proof -
  obtain vm2 where run: "vm_execute demo_native (vm_code [4, 3] [VAL_OBJ 0]) = Some (Inr (VM_OK, vm2))"
    using run_NIL_RET by blast
  have ok: "machine_ok (vm_code [4, 3] [VAL_OBJ 0])"
    by (rule vm_code_ok) (simp add: STACK_MAX_def FRAMES_MAX_def)
  have "machine_ok vm2"
    by (rule vm_execute_keeps_machine [OF _ ok run]) (simp add: no_threads_def)
  with run show ?thesis by blast
qed

text \<open>
  C2. Every run of the machine ends, for all code: \<open>vm_execute\<close> returns a result, or reaches undefined
  behaviour, after finitely many instructions, and no search in a table runs forever. No
  instruction jumps back, and only 64 functions are active at a time. The natives of the thread library are
  assumed to return, to keep the invariant and to leave the frames alone; those of the math library do.
\<close>

theorem vm_execute_ends:
  assumes "machine_ok vm" and "hashes_ok vm"
    and "\<And>f n i vm v vm'. thr f n i vm = Inr (v, vm') \<Longrightarrow> same_frames vm vm'"
    and "\<And>F f n i vm. funs_are F vm \<Longrightarrow> okr returns_ok (\<lambda>(_, vm'). funs_are F vm') (thr f n i vm)"
  shows "\<exists>r. vm_execute (run_native lm thr) vm = Some r \<and> r \<noteq> Inl NoReturn"
proof (rule vm_execute_terminates)
  show "funs_are (fun_at (heap vm)) vm" using assms(1,2) by (simp add: funs_are_def)
  show "same_frames vm vm'" if "run_native lm thr f n i vm = Inr (v, vm')" for f n i vm v vm'
    using run_native_cases [of lm thr f n i vm] assms(3) [of f n i vm v vm'] that by auto
  show "okr returns_ok (\<lambda>(_, vm'). funs_are F vm') (run_native lm thr f n i vm)"
    if "funs_are F vm" for F f n i vm
    using run_native_cases [of lm thr f n i vm] assms(4) [OF that, of f n i] that by auto
qed

lemma vm_execute_ends_witness:
  "\<exists>r. vm_execute demo_native (vm_code [20, 0, 5] []) = Some r \<and> r \<noteq> Inl NoReturn"
  by (rule vm_execute_ends) (simp_all add: vm_code_ok no_threads_def)

subsection \<open>Arithmetic\<close>




text \<open>A machine with one string on the stack twice.\<close>

lemma machine_two_strings:
  "\<exists>a vm. machine_ok vm \<and> gc_idle SIZEOF_STR vm \<and> is_str (heap vm) a \<and>
     str_chars (str_of vm a) = ''x'' \<and> stack_list vm = [VAL_OBJ a, VAL_OBJ a]"
proof -
  have ok: "machine_ok vm_blank" and idle: "gc_idle SIZEOF_STR vm_blank"
    using machine_create(1) [of "\<lambda>_. False"] by (simp_all add: gc_idle_def SIZEOF_STR_def flip: vm_blank_def)
  then have sok: "strings_ok vm_blank" by (simp add: machine_ok_def)
  have len: "1 \<le> length ''x''" by simp
  obtain a vm1 where 1: "str_copy ''x'' 1 False vm_blank = Inr (a, vm1)" "strings_ok vm1"
      "str_extends vm_blank vm1" "is_str (heap vm1) a"
    and new: "heap vm_blank a = None \<longrightarrow> str_chars (str_of vm1 a) = copied ''x'' 1 False"
    using str_copy_spec [OF sok idle len, of False] by (elim exE conjE) (rule that)
  have "gc_allocated vm1 = SIZEOF_STR" "gc_nextGC vm1 = 524288"
    using 1(1) idle
    by (auto simp: str_copy_def tab_findstr_def tab_init_def allocStr_def allocObj_idle Let_def
        elim!: bindr_Inr_E split: prod.splits)
  then have idle1: "gc_idle SIZEOF_STR vm1" by (simp add: gc_idle_def SIZEOF_STR_def)
  have ok1: "machine_ok vm1" by (rule machine_extends(1) [OF ok 1(2,3)])
  let ?vm = "vm1\<lparr>stack := (\<lambda>_. VAL_OBJ a), vm_top := 2\<rparr>"
  have os: "only_stack vm1 ?vm" by (simp add: only_stack_def same_store_def)
  have "machine_ok ?vm"
    by (rule machine_only_stack [OF ok1 os]) (simp add: STACK_MAX_def FRAMES_MAX_def)
  moreover have "stack_list ?vm = [VAL_OBJ a, VAL_OBJ a]" by (simp add: stack_list_def upt_rec)
  moreover have "gc_idle SIZEOF_STR ?vm" using idle1 by (simp add: gc_idle_def)
  moreover have "str_chars (str_of ?vm a) = ''x''" using new by (simp add: copied_def str_of_def)
  ultimately show ?thesis using 1(4) by (intro exI [of _ a] exI [of _ ?vm]) simp
qed


subsection \<open>Variables\<close>

text \<open>
  C15. A definition binds the name to the popped value. An assignment to a variable that exists
  changes its value only and leaves the value on the stack; an assignment to one that does not
  exist ends with an error, and the variables are what they were, although the
  code inserts the name before it looks. A use pushes the value, or ends with the error.
\<close>

theorem global_variables:
  assumes "machine_ok vm" and "READ_STR vm = Inr (name, vm1)" and "stack_list vm = v # rest"
  shows "(\<exists>vm'. op_DEF vm = Inr (NEXT, vm') \<and> stack_list vm' = rest \<and>
            tab_model (globals vm') = (tab_model (globals vm))(name \<mapsto> v)) \<and>
    (case tab_model (globals vm) name of
       Some w \<Rightarrow>
         (\<exists>vm'. op_GST vm = Inr (NEXT, vm') \<and> stack_list vm' = v # rest \<and>
            tab_model (globals vm') = (tab_model (globals vm))(name \<mapsto> v)) \<and>
         op_GLD vm = push_next w vm1
     | None \<Rightarrow>
         (\<exists>t. op_GST vm = undefined_variable name (vm1\<lparr>globals := t\<rparr>) \<and>
            tab_model t = tab_model (globals vm)) \<and>
         op_GLD vm = undefined_variable name vm1)"
  using op_DEF_spec [OF assms] op_GST_spec [OF assms] op_GLD_spec [OF assms(1,2)]
  by (auto split: option.split)

lemma global_variables_witness:
  "\<exists>vm name v t vm1. tab_model (globals vm) name = None \<and>
     op_GST vm = undefined_variable name (vm1\<lparr>globals := t\<rparr>) \<and> tab_model t = Map.empty"
proof -
  obtain a vm where vm: "machine_ok vm" "is_str (heap vm) a" "stack_list vm = [VAL_OBJ a, VAL_OBJ a]"
    using machine_two_strings by blast
  let ?vm = "with_fun (demo_fun [0] [VAL_OBJ a]) (vm\<lparr>globals := tab_init\<rparr>)"
  have ok: "machine_ok (vm\<lparr>globals := tab_init\<rparr>)"
    using vm(1) by (simp add: machine_ok_def in_bounds_def strings_ok_def str_of_def)
  have "heap vm (next_addr vm) = None" using vm(1) strings_ok_free by (simp add: machine_ok_def)
  then have r: "READ_STR ?vm = Inr (a, set_ip 1 ?vm)" using vm(2) by (intro with_fun_READ_STR) simp_all
  have s: "stack_list ?vm = VAL_OBJ a # [VAL_OBJ a]" using vm(3) by (simp add: stack_list_def with_fun_def)
  have "globals ?vm = tab_init" by (simp add: with_fun_def)
  with global_variables [OF machine_with_fun(1) [OF ok] r s] show ?thesis
    by (intro exI [of _ ?vm] exI [of _ a]) auto
qed

subsection \<open>Calls\<close>

text \<open>
  C16. A call of a function with the right number of arguments adds a frame whose slot 0 is the
  function and whose next slots are the arguments, unless there are 64 frames already; whatever
  the function leaves above its slots, its return removes them all, puts the result in
  the function's place, and the caller's frame is current again. A wrong number of arguments, or
  the 65th frame, is an error.
\<close>

theorem call_and_return:
  assumes "READ_BYTE vm = Inr (argc, vm1)" and "in_bounds vm1"
    and "stack_list vm1 = args @ VAL_OBJ f # rest" and "length args = unat argc"
    and "get_fun f vm1 = Inr fn"
  shows "(if unat argc \<noteq> fn_arity fn then
      op_CALL native vm = ERROR (''Expected '' @ show_nat (fn_arity fn) @ '' arguments but got '' @
        show_nat (unat argc) @ ''.'') vm1
    else if length (frames vm1) = FRAMES_MAX then op_CALL native vm = ERROR ''Stack overflow.'' vm1
    else op_CALL native vm = Inr (NEXT, vm1\<lparr>frames :=
           \<lparr>fr_function = f, fr_ip = 0, fr_slots = length rest\<rparr> # frames vm1\<rparr>) \<and>
      stack vm1 (length rest) = VAL_OBJ f \<and>
      (\<forall>vm2 ip result locals.
         frames vm2 = \<lparr>fr_function = f, fr_ip = ip, fr_slots = length rest\<rparr> # frames vm1 \<longrightarrow>
         stack_list vm2 = result # locals @ rest \<longrightarrow>
         (\<exists>vm3. op_RET vm2 = Inr (NEXT, vm3) \<and> stack_list vm3 = result # rest \<and>
            frames vm3 = frames vm1)))"
proof -
  have fr: "frames vm1 \<noteq> []"
    using assms(1)
    by (auto simp: READ_BYTE_def get_ip_def cur_frame_def set_ip_def split: list.splits if_splits
        elim!: bindr_Inr_E)
  have top: "vm_top vm1 = unat argc + 1 + length rest" using stack_top [OF assms(3)] assms(4) by simp
  have slot: "stack vm1 (length rest) = VAL_OBJ f"
    using nth_stack_list [of "unat argc" vm1] assms(3,4) top by (simp add: nth_append)
  have room: "length rest < STACK_MAX" using top assms(2) by (simp add: in_bounds_def)
  have ret: "\<exists>vm3. op_RET vm2 = Inr (NEXT, vm3) \<and> stack_list vm3 = result # rest \<and> frames vm3 = frames vm1"
    if "frames vm2 = \<lparr>fr_function = f, fr_ip = ip, fr_slots = length rest\<rparr> # frames vm1"
      "stack_list vm2 = result # locals @ rest" for vm2 ip result locals
  proof -
    obtain f' fs where fs: "frames vm1 = f' # fs" using fr by (cases "frames vm1") auto
    from op_RET_spec [OF that(1) [unfolded fs] that(2) _ room] fs show ?thesis by auto
  qed
  have pk: "PEEK (unat argc) vm1 = Inr (VAL_OBJ f)"
    using PEEK_ok [of "unat argc" vm1] assms(3,4) by (simp add: nth_append)
  have bd: "obj_body_of (VAL_OBJ f) vm1 = Inr (Some (OT_FUN fn))"
    using assms(5) by (auto simp: get_fun_def obj_body_of_def split: option.splits obj_body.splits)
  have arity: "op_CALL native vm = ERROR (''Expected '' @ show_nat (fn_arity fn) @
      '' arguments but got '' @ show_nat (unat argc) @ ''.'') vm1" if "unat argc \<noteq> fn_arity fn"
    using that assms(1,5) pk bd
    by (cases "runtimeError (''Expected '' @ show_nat (fn_arity fn) @ '' arguments but got '' @
          show_nat (unat argc) @ ''.'') vm1")
      (simp_all add: op_CALL_def vm_call_def prepareCall_def ERROR_def)
  have "length (frames vm1) \<le> FRAMES_MAX" using assms(2) by (simp add: in_bounds_def)
  with op_CALL_fun [OF assms(1,3,4,5), of native] op_CALL_full [OF assms(1,3,4,5), of native] arity slot ret
  show ?thesis by auto
qed

lemma call_and_return_witness:
  "\<exists>vm2. op_CALL demo_native (vm_code [0] [VAL_OBJ 0]) = Inr (NEXT, vm2) \<and> length (frames vm2) = 2"
proof -
  let ?vm = "vm_code [0] [VAL_OBJ 0]"
  have b: "READ_BYTE ?vm = Inr (0, set_ip 1 ?vm)" using vm_code_byte [of "[0]"] by simp
  have "in_bounds (set_ip 1 ?vm)"
    by (simp add: in_bounds_def vm_code_def vm_with_def set_ip_def STACK_MAX_def FRAMES_MAX_def)
  moreover have "stack_list (set_ip 1 ?vm) = [] @ VAL_OBJ 0 # []" by simp
  moreover have "get_fun 0 (set_ip 1 ?vm) = Inr \<lparr>fn_arity = 0, fn_upvalues = None, fn_name = None,
      fn_chunk = demo_chunk [0]\<rparr>"
    by (simp add: get_fun_def vm_code_def vm_with_def)
  moreover have "length (frames (set_ip 1 ?vm)) = 1" by (simp add: vm_code_def)
  ultimately show ?thesis using call_and_return [OF b, of "[]" 0 "[]"] by (simp add: FRAMES_MAX_def)
qed

subsection \<open>Maps\<close>



subsection \<open>Output\<close>



end
