(* ===== verification/Tokens.thy ===== *)
theory Tokens
  imports Prelude
begin

text \<open>The token types and tokens of \<open>src/src/code.h\<close>.\<close>

datatype (plugins del: size quickcheck_exhaustive quickcheck_random quickcheck_full_exhaustive quickcheck_narrowing transfer lifting) toktype_t =
    TOKEN_LPAREN | TOKEN_RPAREN | TOKEN_LBRACKET | TOKEN_RBRACKET | TOKEN_LBRACE | TOKEN_RBRACE
    | TOKEN_COMMA | TOKEN_DOT | TOKEN_MINUS | TOKEN_PLUS | TOKEN_SLASH | TOKEN_STAR | TOKEN_BANG
    | TOKEN_BANG_EQUAL | TOKEN_EQUAL | TOKEN_EQUAL_EQUAL | TOKEN_GREATER | TOKEN_GREATER_EQUAL
    | TOKEN_LESS | TOKEN_LESS_EQUAL | TOKEN_IDENTIFIER | TOKEN_STRING | TOKEN_NUMBER | TOKEN_AND
    | TOKEN_CASE | TOKEN_CLASS | TOKEN_CONST | TOKEN_DEFAULT | TOKEN_DIM | TOKEN_DO | TOKEN_ELSE
    | TOKEN_ELSEIF | TOKEN_END | TOKEN_ENDFUNC | TOKEN_ENDIF | TOKEN_ENDSELECT | TOKEN_ENDSWITCH
    | TOKEN_ENDWITH | TOKEN_ENUM | TOKEN_EXIT | TOKEN_EXITLOOP | TOKEN_FALSE | TOKEN_FOR
    | TOKEN_FUNC | TOKEN_GLOBAL | TOKEN_IF | TOKEN_LOCAL | TOKEN_NEXT | TOKEN_NOT | TOKEN_NULL
    | TOKEN_OR | TOKEN_PRINT | TOKEN_REDIM | TOKEN_RETURN | TOKEN_SELECT | TOKEN_STATIC
    | TOKEN_STEP | TOKEN_SUPER | TOKEN_SWITCH | TOKEN_THIS | TOKEN_THEN | TOKEN_TO | TOKEN_TRUE
    | TOKEN_UNTIL | TOKEN_VAR | TOKEN_VOLATILE | TOKEN_WEND | TOKEN_WHILE | TOKEN_WITH
    | TOKEN_MACRO | TOKEN_PREPROCESSOR | TOKEN_ERROR | TOKEN_EOF

text \<open>The text of a token is in the source, or the message of an error.\<close>

datatype tok_ptr = In_source nat | Message string

record tok_t =
  tok_start :: tok_ptr
  tok_currentLine :: "nat option"    \<comment> \<open>\<open>None\<close>: never initialised\<close>
  tok_type :: toktype_t
  tok_length :: nat
  tok_line :: int
  tok_column :: int

end
