(* ===== verification/Lexer.thy ===== *)
theory Lexer
  imports Tokens Values StrHash
begin

text \<open>
  \<open>src/src/lexer.c\<close>. The source is a list of characters;
  reading at its end gives the terminating NUL. Pointers into the source are indices. A loop
  that advances over characters stops at the NUL at the latest, so every loop is a terminating
  recursion.
\<close>

subsection \<open>State\<close>

record lexer_t =
  lx_start :: nat
  lx_current :: nat
  lx_currentLine :: nat
  lx_line :: int
  lx_position :: int

definition lexer_init :: lexer_t where
  "lexer_init = \<lparr>lx_start = 0, lx_current = 0, lx_currentLine = 0, lx_line = 1, lx_position = 1\<rparr>"

abbreviation NUL :: char where
  "NUL \<equiv> CHR 0x00"

definition char_at :: "string \<Rightarrow> nat \<Rightarrow> char" where
  "char_at src i = (if i < length src then src ! i else NUL)"

subsection \<open>Characters\<close>

definition char_in :: "char \<Rightarrow> char \<Rightarrow> char \<Rightarrow> bool" where
  "char_in lo c hi \<longleftrightarrow> (of_char lo :: nat) \<le> of_char c \<and> (of_char c :: nat) \<le> of_char hi"

definition isAlpha :: "char \<Rightarrow> bool" where
  "isAlpha c \<longleftrightarrow> char_in (CHR ''a'') c (CHR ''z'') \<or> char_in (CHR ''A'') c (CHR ''Z'') \<or>
     c = CHR ''_'' \<or> c = CHR ''$''"

definition isDigit :: "char \<Rightarrow> bool" where
  "isDigit c \<longleftrightarrow> char_in (CHR ''0'') c (CHR ''9'')"

definition isHexa :: "char \<Rightarrow> bool" where
  "isHexa c \<longleftrightarrow> char_in (CHR ''0'') c (CHR ''9'') \<or> char_in (CHR ''a'') c (CHR ''f'') \<or>
     char_in (CHR ''A'') c (CHR ''F'')"

fun equal_str :: "string \<Rightarrow> string \<Rightarrow> nat \<Rightarrow> bool" where
  "equal_str a b 0 = True"
| "equal_str (x # a) (y # b) (Suc n) = (c_tolower x = c_tolower y \<and> equal_str a b n)"
| "equal_str _ _ (Suc n) = False"

subsection \<open>Moving through the source\<close>

definition isAtEnd :: "string \<Rightarrow> lexer_t \<Rightarrow> bool" where
  "isAtEnd src L \<longleftrightarrow> char_at src (lx_current L) = NUL"

definition lx_step :: "lexer_t \<Rightarrow> lexer_t" where
  "lx_step L = L\<lparr>lx_current := lx_current L + 1, lx_position := lx_position L + 1\<rparr>"

definition advance :: "string \<Rightarrow> lexer_t \<Rightarrow> char \<times> lexer_t" where
  "advance src L = (c_tolower (char_at src (lx_current L)), lx_step L)"

definition peek :: "string \<Rightarrow> lexer_t \<Rightarrow> char" where
  "peek src L = c_tolower (char_at src (lx_current L))"

definition peekNext :: "string \<Rightarrow> lexer_t \<Rightarrow> char" where
  "peekNext src L = (if isAtEnd src L then NUL else c_tolower (char_at src (lx_current L + 1)))"

definition newLine :: "lexer_t \<Rightarrow> lexer_t" where
  "newLine L = L\<lparr>lx_line := lx_line L + 1, lx_position := 0, lx_currentLine := lx_current L + 1\<rparr>"

definition lx_match :: "string \<Rightarrow> lexer_t \<Rightarrow> char \<Rightarrow> bool \<times> lexer_t" where
  "lx_match src L expected =
     (if isAtEnd src L then (False, L)
      else if char_at src (lx_current L) \<noteq> expected then (False, L)
      else (True, lx_step L))"

subsection \<open>Tokens\<close>

definition makeToken :: "lexer_t \<Rightarrow> toktype_t \<Rightarrow> tok_t" where
  "makeToken L ty =
     \<lparr>tok_start = In_source (lx_start L), tok_currentLine = Some (lx_currentLine L), tok_type = ty,
      tok_length = lx_current L - lx_start L, tok_line = lx_line L,
      tok_column = lx_position L - int (lx_current L - lx_start L)\<rparr>"

definition errorToken :: "lexer_t \<Rightarrow> string \<Rightarrow> tok_t" where
  "errorToken L message =
     \<lparr>tok_start = Message message, tok_currentLine = None, tok_type = TOKEN_ERROR,
      tok_length = length message, tok_line = lx_line L, tok_column = lx_position L - 1\<rparr>"

text \<open>The test of \<open>checkKeyword\<close>, and the function.\<close>

definition isKeyword :: "string \<Rightarrow> lexer_t \<Rightarrow> nat \<Rightarrow> nat \<Rightarrow> string \<Rightarrow> bool" where
  "isKeyword src L start len rest \<longleftrightarrow>
     lx_current L = lx_start L + (start + len) \<and> equal_str (drop (lx_start L + start) src) rest len"

definition checkKeyword ::
  "string \<Rightarrow> lexer_t \<Rightarrow> nat \<Rightarrow> nat \<Rightarrow> string \<Rightarrow> toktype_t \<Rightarrow> toktype_t" where
  "checkKeyword src L start len rest ty =
     (if isKeyword src L start len rest then ty else TOKEN_IDENTIFIER)"

subsection \<open>White space and comments\<close>

lemma peek_NUL: "length src \<le> lx_current L \<Longrightarrow> peek src L = NUL"
  by (simp add: peek_def char_at_def c_tolower_def)

lemma lx_step_simps [simp]:
  "lx_current (lx_step L) = lx_current L + 1" "lx_start (lx_step L) = lx_start L"
  "lx_current (newLine L) = lx_current L" "lx_start (newLine L) = lx_start L"
  by (simp_all add: lx_step_def newLine_def)

lemma not_isAtEnd: "\<not> isAtEnd src L \<Longrightarrow> lx_current L < length src"
  by (auto simp: isAtEnd_def char_at_def split: if_splits)

function line_comment :: "string \<Rightarrow> lexer_t \<Rightarrow> lexer_t" where
  "line_comment src L =
     (if peek src L \<noteq> CHR 0x0A \<and> \<not> isAtEnd src L then line_comment src (lx_step L) else L)"
  by auto
termination
  by (relation "measure (\<lambda>(src, L). length src - lx_current L)") (auto dest: not_isAtEnd)

declare line_comment.simps [simp del]

function block_comment :: "string \<Rightarrow> lexer_t \<Rightarrow> lexer_t" where
  "block_comment src L =
     (if isAtEnd src L then L
      else
        let L = (if peek src L = CHR 0x0A then newLine L else L)
        in if peek src L = CHR ''#'' \<and> \<not> isAtEnd src L \<and>
              (isKeyword src L 1 2 ''ce'' \<or> isKeyword src L 1 12 ''comments-end'')
           then L
           else block_comment src (lx_step L))"
  by auto
termination
  by (relation "measure (\<lambda>(src, L). length src - lx_current L)") (auto dest: not_isAtEnd)

declare block_comment.simps [simp del]

lemma line_comment_current: "lx_current L \<le> lx_current (line_comment src L)"
proof (induction src L rule: line_comment.induct)
  case (1 src L)
  then show ?case by (subst line_comment.simps) auto
qed

lemma block_comment_current: "lx_current L \<le> lx_current (block_comment src L)"
proof (induction src L rule: block_comment.induct)
  case (1 src L)
  then show ?case by (subst block_comment.simps) (auto simp: Let_def)
qed

function skipWhitespace :: "string \<Rightarrow> lexer_t \<Rightarrow> lexer_t" where
  "skipWhitespace src L =
     (let c = peek src L
      in if c = CHR '' '' \<or> c = CHR 0x0D \<or> c = CHR 0x09 then skipWhitespace src (lx_step L)
         else if c = CHR 0x0A then skipWhitespace src (lx_step (newLine L))
         else if c = CHR '';'' then skipWhitespace src (line_comment src L)
         else if c = CHR ''#'' then
           (if isKeyword src L 1 2 ''cs'' \<or> isKeyword src L 1 14 ''comments-start''
            then skipWhitespace src (block_comment src (lx_step L))
            else L)
         else L)"
  by auto

lemma line_comment_progress:
  assumes "peek src L = CHR '';''"
  shows "lx_current L < lx_current (line_comment src L)"
proof -
  have "\<not> isAtEnd src L" using assms by (auto simp: peek_def isAtEnd_def c_tolower_def)
  with assms have "line_comment src L = line_comment src (lx_step L)"
    by (subst line_comment.simps) simp
  with line_comment_current [of "lx_step L" src] show ?thesis by simp
qed

lemma peek_inside: "peek src L \<noteq> NUL \<Longrightarrow> lx_current L < length src"
  using peek_NUL [of src L] by (cases "lx_current L < length src") simp_all

lemma block_comment_progress: "lx_current L < lx_current (block_comment src (lx_step L))"
  using block_comment_current [of "lx_step L" src] by simp

lemma skip_decreases:
  assumes "peek src L \<noteq> NUL" and "lx_current L < lx_current L'"
  shows "length src - lx_current L' < length src - lx_current L"
  using peek_inside [OF assms(1)] assms(2) by (rule diff_less_mono2 [rotated])

termination skipWhitespace
proof (relation "measure (\<lambda>(src, L). length src - lx_current L)", goal_cases)
  case (2 src L c)
  then show ?case unfolding in_measure prod.case by (intro skip_decreases) auto
next
  case (3 src L c)
  then show ?case unfolding in_measure prod.case by (intro skip_decreases) auto
next
  case (4 src L c)
  then show ?case unfolding in_measure prod.case
    using line_comment_progress [of src L] by (intro skip_decreases) auto
next
  case (5 src L c)
  then show ?case unfolding in_measure prod.case
    using block_comment_progress by (intro skip_decreases) auto
qed simp

declare skipWhitespace.simps [simp del]

subsection \<open>Identifiers and keywords\<close>

text \<open>
  The decision tree of \<open>identifierType\<close>. \<open>c i\<close> is \<open>START(i)\<close>, \<open>n\<close> is \<open>LENGTH()\<close>. A case without
  a match falls out of the switch to \<open>TOKEN_IDENTIFIER\<close>.
\<close>

definition identifierType :: "string \<Rightarrow> lexer_t \<Rightarrow> toktype_t" where
  "identifierType src L =
     (let c = (\<lambda>i. c_tolower (char_at src (lx_start L + i)));
          n = lx_current L - lx_start L;
          kw = checkKeyword src L
      in if c 0 = CHR ''a'' then kw 1 2 ''nd'' TOKEN_AND
         else if c 0 = CHR ''c'' then
           (if n > 1 then
              (if c 1 = CHR ''a'' then kw 2 2 ''se'' TOKEN_CASE
               else if c 1 = CHR ''l'' then kw 2 3 ''ass'' TOKEN_CLASS
               else if c 1 = CHR ''o'' then kw 2 3 ''nst'' TOKEN_CONST
               else TOKEN_IDENTIFIER)
            else TOKEN_IDENTIFIER)
         else if c 0 = CHR ''d'' then
           (if n > 1 then
              (if c 1 = CHR ''e'' then kw 2 5 ''fault'' TOKEN_DEFAULT
               else if c 1 = CHR ''i'' then kw 2 1 ''m'' TOKEN_DIM
               else if c 1 = CHR ''o'' then kw 2 0 [] TOKEN_DO
               else TOKEN_IDENTIFIER)
            else TOKEN_IDENTIFIER)
         else if c 0 = CHR ''e'' then
           (if n = 3 then kw 1 2 ''nd'' TOKEN_END
            else if n = 4 then
              (if c 1 = CHR ''l'' then kw 1 3 ''lse'' TOKEN_ELSE
               else if c 3 = CHR ''n'' then kw 1 3 ''num'' TOKEN_ENUM
               else TOKEN_IDENTIFIER)
            else if n = 5 then kw 1 4 ''ndif'' TOKEN_ENDIF
            else if n = 7 then
              (if c 3 = CHR ''f'' then kw 1 6 ''ndfunc'' TOKEN_ENDFUNC
               else if c 3 = CHR ''w'' then kw 1 6 ''ndwith'' TOKEN_ENDWITH
               else TOKEN_IDENTIFIER)
            else if n = 9 then
              (if c 4 = CHR ''e'' then kw 1 8 ''ndselect'' TOKEN_ENDSELECT
               else if c 4 = CHR ''w'' then kw 1 8 ''ndswitch'' TOKEN_ENDSWITCH
               else TOKEN_IDENTIFIER)
            else TOKEN_IDENTIFIER)
         else if c 0 = CHR ''f'' then
           (if n > 1 then
              (if c 1 = CHR ''a'' then kw 2 3 ''lse'' TOKEN_FALSE
               else if c 1 = CHR ''o'' then kw 2 1 ''r'' TOKEN_FOR
               else if c 1 = CHR ''u'' then kw 2 2 ''nc'' TOKEN_FUNC
               else TOKEN_IDENTIFIER)
            else TOKEN_IDENTIFIER)
         else if c 0 = CHR ''g'' then kw 1 5 ''lobal'' TOKEN_GLOBAL
         else if c 0 = CHR ''i'' then kw 1 1 ''f'' TOKEN_IF
         else if c 0 = CHR ''l'' then kw 1 4 ''ocal'' TOKEN_LOCAL
         else if c 0 = CHR ''n'' then
           (if n > 1 then
              (if c 1 = CHR ''e'' then kw 2 2 ''xt'' TOKEN_NEXT
               else if c 1 = CHR ''o'' then kw 2 1 ''t'' TOKEN_NOT
               else if c 1 = CHR ''u'' then kw 2 2 ''ll'' TOKEN_NULL
               else TOKEN_IDENTIFIER)
            else TOKEN_IDENTIFIER)
         else if c 0 = CHR ''o'' then kw 1 1 ''r'' TOKEN_OR
         else if c 0 = CHR ''p'' then kw 1 4 ''rint'' TOKEN_PRINT
         else if c 0 = CHR ''r'' then
           (if n > 2 \<and> c 1 = CHR ''e'' then
              (if c 2 = CHR ''t'' then kw 3 3 ''urn'' TOKEN_RETURN
               else if c 2 = CHR ''d'' then kw 3 2 ''im'' TOKEN_REDIM
               else TOKEN_IDENTIFIER)
            else TOKEN_IDENTIFIER)
         else if c 0 = CHR ''s'' then
           (if n > 1 then
              (if c 1 = CHR ''e'' then kw 2 4 ''lect'' TOKEN_SELECT
               else if c 1 = CHR ''t'' then
                 (if n > 2 then
                    (if c 2 = CHR ''a'' then kw 3 3 ''tic'' TOKEN_STATIC
                     else if c 2 = CHR ''e'' then kw 3 1 ''p'' TOKEN_STEP
                     else TOKEN_IDENTIFIER)
                  else TOKEN_IDENTIFIER)
               else if c 1 = CHR ''u'' then kw 2 3 ''per'' TOKEN_SUPER
               else if c 1 = CHR ''w'' then kw 2 4 ''itch'' TOKEN_SWITCH
               else TOKEN_IDENTIFIER)
            else TOKEN_IDENTIFIER)
         else if c 0 = CHR ''t'' then
           (if n > 1 then
              (if c 1 = CHR ''h'' then
                 (if n > 2 then
                    (if c 2 = CHR ''e'' then kw 3 1 ''n'' TOKEN_THEN
                     else if c 2 = CHR ''i'' then kw 3 1 ''s'' TOKEN_THIS
                     else TOKEN_IDENTIFIER)
                  else TOKEN_IDENTIFIER)
               else if c 1 = CHR ''r'' then kw 2 2 ''ue'' TOKEN_TRUE
               else if c 1 = CHR ''o'' then kw 2 2 [] TOKEN_TO
               else TOKEN_IDENTIFIER)
            else TOKEN_IDENTIFIER)
         else if c 0 = CHR ''v'' then
           (if n > 1 then
              (if c 1 = CHR ''a'' then kw 2 1 ''r'' TOKEN_VAR
               else if c 1 = CHR ''o'' then kw 2 6 ''latile'' TOKEN_VOLATILE
               else TOKEN_IDENTIFIER)
            else TOKEN_IDENTIFIER)
         else if c 0 = CHR ''w'' then
           (if n > 1 then
              (if c 1 = CHR ''e'' then kw 2 2 ''nd'' TOKEN_WEND
               else if c 1 = CHR ''h'' then kw 2 3 ''ile'' TOKEN_WHILE
               else if c 1 = CHR ''i'' then kw 2 2 ''th'' TOKEN_WITH
               else TOKEN_IDENTIFIER)
            else TOKEN_IDENTIFIER)
         else TOKEN_IDENTIFIER)"

text \<open>The loops over letters and digits stop at the NUL, which is neither.\<close>

lemma not_word_NUL: "\<not> isAlpha NUL" "\<not> isDigit NUL"
  by (simp_all add: isAlpha_def isDigit_def char_in_def)

function skip_word :: "string \<Rightarrow> lexer_t \<Rightarrow> lexer_t" where
  "skip_word src L =
     (if isAlpha (peek src L) \<or> isDigit (peek src L) then skip_word src (lx_step L) else L)"
  by auto
termination
proof (relation "measure (\<lambda>(src, L). length src - lx_current L)", goal_cases)
  case (2 src L)
  then have "peek src L \<noteq> NUL" using not_word_NUL by auto
  then show ?case unfolding in_measure prod.case by (rule skip_decreases) simp
qed simp

declare skip_word.simps [simp del]

function skip_digits :: "string \<Rightarrow> lexer_t \<Rightarrow> lexer_t" where
  "skip_digits src L = (if isDigit (peek src L) then skip_digits src (lx_step L) else L)"
  by auto
termination
proof (relation "measure (\<lambda>(src, L). length src - lx_current L)", goal_cases)
  case (2 src L)
  then have "peek src L \<noteq> NUL" using not_word_NUL by auto
  then show ?case unfolding in_measure prod.case by (rule skip_decreases) simp
qed simp

declare skip_digits.simps [simp del]

function skip_string :: "string \<Rightarrow> char \<Rightarrow> lexer_t \<Rightarrow> lexer_t" where
  "skip_string src start L =
     (if peek src L \<noteq> start \<and> \<not> isAtEnd src L then
        (let L = (if peek src L = CHR 0x0A then newLine L else L)
         in skip_string src start (lx_step L))
      else L)"
  by auto
termination
  by (relation "measure (\<lambda>(src, start, L). length src - lx_current L)") (auto dest: not_isAtEnd)

declare skip_string.simps [simp del]

subsection \<open>Scanning a token\<close>

definition lx_identifier :: "string \<Rightarrow> lexer_t \<Rightarrow> tok_t \<times> lexer_t" where
  "lx_identifier src L =
     (let L = skip_word src L in (makeToken L (identifierType src L), L))"

definition lx_number :: "string \<Rightarrow> lexer_t \<Rightarrow> tok_t \<times> lexer_t" where
  "lx_number src L =
     (let L = skip_digits src L;
          L = (if peek src L = CHR ''.'' \<and> isDigit (peekNext src L)
               then skip_digits src (lx_step L) else L)
      in (makeToken L TOKEN_NUMBER, L))"

definition lx_string :: "string \<Rightarrow> char \<Rightarrow> lexer_t \<Rightarrow> tok_t \<times> lexer_t" where
  "lx_string src start L =
     (let L = skip_string src start L
      in if isAtEnd src L then (errorToken L ''Unterminated string.'', L)
         else let L = lx_step L in (makeToken L TOKEN_STRING, L))"

definition lx_macro :: "string \<Rightarrow> lexer_t \<Rightarrow> tok_t \<times> lexer_t" where
  "lx_macro src L = (let L = skip_word src L in (makeToken L TOKEN_MACRO, L))"

definition lx_preprocessor :: "string \<Rightarrow> lexer_t \<Rightarrow> tok_t \<times> lexer_t" where
  "lx_preprocessor src L = (let L = skip_word src L in (makeToken L TOKEN_PREPROCESSOR, L))"

definition one_or_two :: "string \<Rightarrow> lexer_t \<Rightarrow> toktype_t \<Rightarrow> toktype_t \<Rightarrow> tok_t \<times> lexer_t" where
  "one_or_two src L two one =
     (let (m, L) = lx_match src L (CHR ''='') in (makeToken L (if m then two else one), L))"

definition single_tokens :: "(char \<times> toktype_t) list" where
  "single_tokens =
     [(CHR ''('', TOKEN_LPAREN), (CHR '')'', TOKEN_RPAREN), (CHR ''['', TOKEN_LBRACKET),
      (CHR '']'', TOKEN_RBRACKET), (CHR ''{'', TOKEN_LBRACE), (CHR ''}'', TOKEN_RBRACE),
      (CHR '','', TOKEN_COMMA), (CHR ''.'', TOKEN_DOT), (CHR ''-'', TOKEN_MINUS),
      (CHR ''+'', TOKEN_PLUS), (CHR ''/'', TOKEN_SLASH), (CHR ''*'', TOKEN_STAR)]"

text \<open>The switch on the first character that is no letter and no digit.\<close>

definition lx_symbol :: "string \<Rightarrow> char \<Rightarrow> lexer_t \<Rightarrow> tok_t \<times> lexer_t" where
  "lx_symbol src c L =
     (case map_of single_tokens c of
        Some ty \<Rightarrow> (makeToken L ty, L)
      | None \<Rightarrow>
          if c = CHR 0x21 then one_or_two src L TOKEN_BANG_EQUAL TOKEN_BANG
          else if c = CHR ''='' then one_or_two src L TOKEN_EQUAL_EQUAL TOKEN_EQUAL
          else if c = CHR ''<'' then one_or_two src L TOKEN_LESS_EQUAL TOKEN_LESS
          else if c = CHR ''>'' then one_or_two src L TOKEN_GREATER_EQUAL TOKEN_GREATER
          else if c = CHR 0x27 \<or> c = CHR 0x22 then lx_string src c L
          else if c = CHR ''@'' then lx_macro src L
          else if c = CHR ''#'' then lx_preprocessor src L
          else (errorToken L ''Unexpected character.'', L))"

definition lexer_scan :: "string \<Rightarrow> lexer_t \<Rightarrow> tok_t \<times> lexer_t" where
  "lexer_scan src L =
     (let L = skipWhitespace src L;
          L = L\<lparr>lx_start := lx_current L\<rparr>
      in if isAtEnd src L then (makeToken L TOKEN_EOF, L)
         else
           let (c, L) = advance src L
           in if isAlpha c then lx_identifier src L
              else if isDigit c then lx_number src L
              else lx_symbol src c L)"

end
