(* ===== verification/Lexing.thy ===== *)
theory Lexing
  imports Lexer
begin

text \<open>
  What the scanner of \<open>src/src/lexer.c\<close> promises: it stays inside the source and moves on with every
  token but the last, tokens lie one after the other, and the decision tree of keywords is a
  table; with the keywords that the tree misses and the comments that are never skipped.
\<close>

subsection \<open>The scanner stays in the source\<close>

text \<open>\<open>L'\<close> is \<open>L\<close> moved forward, at most to the end of the source.\<close>

definition moved :: "string \<Rightarrow> lexer_t \<Rightarrow> lexer_t \<Rightarrow> bool" where
  "moved src L L' \<longleftrightarrow> lx_current L \<le> lx_current L' \<and> lx_start L' = lx_start L \<and>
     (lx_current L \<le> length src \<longrightarrow> lx_current L' \<le> length src)"

lemma moved_refl [simp]: "moved src L L"
  by (simp add: moved_def)

lemma moved_trans: "moved src L L' \<Longrightarrow> moved src L' L'' \<Longrightarrow> moved src L L''"
  by (auto simp: moved_def)

lemma moved_newLine [simp]: "moved src (newLine L) L' \<longleftrightarrow> moved src L L'"
  by (simp add: moved_def)

lemma moved_newLine' [simp]: "moved src L (newLine L)"
  by (simp add: moved_def)

lemma moved_step: "lx_current L < length src \<Longrightarrow> moved src L (lx_step L)"
  by (simp add: moved_def)

lemma peek_newLine [simp]: "peek src (newLine L) = peek src L" "isAtEnd src (newLine L) = isAtEnd src L"
  by (simp_all add: peek_def isAtEnd_def)

lemma moved_step_trans:
  "lx_current L < length src \<Longrightarrow> moved src (lx_step L) L' \<Longrightarrow> moved src L L'"
  using moved_trans moved_step by blast

lemma moved_line_comment: "moved src L (line_comment src L)"
proof (induction src L rule: line_comment.induct)
  case (1 src L)
  then show ?case
    by (subst line_comment.simps) (auto intro: moved_step_trans dest: not_isAtEnd)
qed

lemma moved_block_comment: "moved src L (block_comment src L)"
proof (induction src L rule: block_comment.induct)
  case (1 src L)
  let ?L = "if peek src L = CHR 0x0A then newLine L else L"
  have step: "moved src L L'" if "\<not> isAtEnd src L" "moved src (lx_step ?L) L'" for L'
  proof -
    have "lx_current ?L < length src" using not_isAtEnd [OF that(1)] by simp
    from moved_step_trans [OF this that(2)] show ?thesis by (simp split: if_splits)
  qed
  show ?case
    by (subst block_comment.simps) (use 1 step in \<open>auto simp: Let_def split: if_splits\<close>)
qed

lemma moved_skip_word: "moved src L (skip_word src L)"
proof (induction src L rule: skip_word.induct)
  case (1 src L)
  have "lx_current L < length src" if "isAlpha (peek src L) \<or> isDigit (peek src L)"
    using that not_word_NUL peek_inside by metis
  with 1 show ?case by (subst skip_word.simps) (auto intro: moved_step_trans)
qed

lemma moved_skip_digits: "moved src L (skip_digits src L)"
proof (induction src L rule: skip_digits.induct)
  case (1 src L)
  have "lx_current L < length src" if "isDigit (peek src L)"
    using that not_word_NUL peek_inside by metis
  with 1 show ?case by (subst skip_digits.simps) (auto intro: moved_step_trans)
qed

lemma moved_skip_string: "moved src L (skip_string src c L)"
proof (induction src c L rule: skip_string.induct)
  case (1 src c L)
  let ?L = "if peek src L = CHR 0x0A then newLine L else L"
  have step: "moved src L L'" if "\<not> isAtEnd src L" "moved src (lx_step ?L) L'" for L'
  proof -
    have "lx_current ?L < length src" using not_isAtEnd [OF that(1)] by simp
    from moved_step_trans [OF this that(2)] show ?thesis by (simp split: if_splits)
  qed
  show ?case
    by (subst skip_string.simps) (use 1 step in \<open>auto simp: Let_def split: if_splits\<close>)
qed

lemma moved_skipWhitespace: "moved src L (skipWhitespace src L)"
proof (induction src L rule: skipWhitespace.induct)
  case (1 src L)
  have inside: "lx_current L < length src" if "peek src L \<noteq> NUL" using peek_inside that .
  have nl: "moved src L L'" if "peek src L = CHR 0x0A" "moved src (lx_step (newLine L)) L'" for L'
    using moved_step_trans [of "newLine L" src L'] inside that by simp
  have blk: "moved src L L'" if "peek src L = CHR ''#''" "moved src (block_comment src (lx_step L)) L'" for L'
    using moved_step_trans [OF _ moved_trans [OF moved_block_comment that(2)]] inside that(1) by simp
  show ?case
    by (subst skipWhitespace.simps)
      (use 1 inside nl blk in \<open>auto simp: Let_def intro: moved_step_trans moved_trans moved_line_comment\<close>)
qed

text \<open>Tokens that lie in the source.\<close>

definition tok_inside :: "string \<Rightarrow> lexer_t \<Rightarrow> tok_t \<Rightarrow> lexer_t \<Rightarrow> bool" where
  "tok_inside src L t L' \<longleftrightarrow>
     lx_current L \<le> lx_current L' \<and> lx_current L' \<le> length src \<and>
     (tok_type t \<noteq> TOKEN_EOF \<longrightarrow> lx_current L < lx_current L') \<and>
     ((\<exists>i. tok_start t = In_source i \<and> lx_current L \<le> i \<and> i + tok_length t = lx_current L') \<or>
      tok_type t = TOKEN_ERROR \<and> (\<exists>m. tok_start t = Message m \<and> tok_length t = length m))"

lemma tok_inside_make:
  assumes "lx_current L0 \<le> lx_start L" and "lx_start L < lx_current L"
    and "moved src L L'" and "lx_current L \<le> length src"
  shows "tok_inside src L0 (makeToken L' ty) L'"
  using assms by (auto simp: tok_inside_def makeToken_def moved_def)

lemma tok_inside_error:
  assumes "lx_current L0 < lx_current L" and "moved src L L'" and "lx_current L \<le> length src"
  shows "tok_inside src L0 (errorToken L' msg) L'"
  using assms by (auto simp: tok_inside_def errorToken_def moved_def)

lemma lx_symbol_inside:
  assumes "lx_current L0 \<le> lx_start L" and "lx_start L < lx_current L" and "lx_current L \<le> length src"
  shows "tok_inside src L0 (fst (lx_symbol src c L)) (snd (lx_symbol src c L))"
proof -
  note make = tok_inside_make [OF assms(1,2) _ assms(3)]
  have lt: "lx_current L0 < lx_current L" using assms(1,2) by simp
  have two: "tok_inside src L0 (fst (one_or_two src L a b)) (snd (one_or_two src L a b))" for a b
  proof -
    have m: "moved src L (snd (lx_match src L d))" for d
      by (auto simp: lx_match_def intro: moved_step dest: not_isAtEnd)
    obtain b L' where "lx_match src L (CHR ''='') = (b, L')" by (cases "lx_match src L (CHR ''='')")
    with m [of "CHR ''=''"] make show ?thesis by (simp add: one_or_two_def)
  qed
  have str: "tok_inside src L0 (fst (lx_string src d L)) (snd (lx_string src d L))" for d
  proof -
    have "moved src L (lx_step (skip_string src d L))" if "\<not> isAtEnd src (skip_string src d L)"
      using moved_trans [OF moved_skip_string moved_step] not_isAtEnd [OF that] .
    then show ?thesis
      by (auto simp: lx_string_def Let_def intro!: make tok_inside_error [OF lt _ assms(3)] moved_skip_string)
  qed
  show ?thesis
    using two str make [OF moved_refl] make [OF moved_skip_word] tok_inside_error [OF lt moved_refl assms(3)]
    by (auto simp: lx_symbol_def lx_macro_def lx_preprocessor_def Let_def split: option.split)
qed

lemma lexer_scan_inside:
  assumes "lx_current L \<le> length src"
  shows "tok_inside src L (fst (lexer_scan src L)) (snd (lexer_scan src L))"
proof -
  define L1 where "L1 = (skipWhitespace src L)\<lparr>lx_start := lx_current (skipWhitespace src L)\<rparr>"
  have m: "lx_current L \<le> lx_current L1" "lx_current L1 \<le> length src" "lx_start L1 = lx_current L1"
    using moved_skipWhitespace [of src L] assms by (simp_all add: L1_def moved_def)
  show ?thesis
  proof (cases "isAtEnd src L1")
    case True
    then have "lexer_scan src L = (makeToken L1 TOKEN_EOF, L1)"
      by (simp add: lexer_scan_def Let_def flip: L1_def)
    with m show ?thesis by (simp add: tok_inside_def makeToken_def)
  next
    case False
    let ?L2 = "lx_step L1" and ?c = "c_tolower (char_at src (lx_current L1))"
    have in1: "lx_current L1 < length src" using not_isAtEnd [OF False] .
    have scan: "lexer_scan src L = (if isAlpha ?c then lx_identifier src ?L2
        else if isDigit ?c then lx_number src ?L2 else lx_symbol src ?c ?L2)"
      using False by (simp add: lexer_scan_def advance_def Let_def flip: L1_def)
    note pre = m(1) [folded m(3)]
    have at: "lx_current L \<le> lx_start ?L2" "lx_start ?L2 < lx_current ?L2" "lx_current ?L2 \<le> length src"
      using m in1 by simp_all
    note make = tok_inside_make [OF at(1,2) _ at(3)]
    have num: "moved src ?L2 (let L = skip_digits src ?L2 in
        if peek src L = CHR ''.'' \<and> isDigit (peekNext src L) then skip_digits src (lx_step L) else L)"
      (is "moved src ?L2 ?M")
    proof -
      let ?D = "skip_digits src ?L2"
      have "moved src ?D (skip_digits src (lx_step ?D))" if "peek src ?D = CHR ''.''"
        using moved_step_trans [OF _ moved_skip_digits] peek_inside that by simp
      then show ?thesis using moved_trans [OF moved_skip_digits] moved_skip_digits by (simp add: Let_def)
    qed
    have "tok_inside src L (fst (lx_number src ?L2)) (snd (lx_number src ?L2))"
      using make [OF num] by (simp add: lx_number_def Let_def)
    moreover have "tok_inside src L (fst (lx_identifier src ?L2)) (snd (lx_identifier src ?L2))"
      using make [OF moved_skip_word] by (simp add: lx_identifier_def Let_def)
    ultimately show ?thesis using scan lx_symbol_inside [OF at] by simp
  qed
qed

subsection \<open>Keywords\<close>

definition keyword_table :: "(string \<times> toktype_t) list" where
  "keyword_table =
     [(''and'', TOKEN_AND), (''case'', TOKEN_CASE), (''class'', TOKEN_CLASS),
      (''const'', TOKEN_CONST), (''default'', TOKEN_DEFAULT), (''dim'', TOKEN_DIM),
      (''do'', TOKEN_DO), (''else'', TOKEN_ELSE), (''end'', TOKEN_END),
      (''endfunc'', TOKEN_ENDFUNC), (''endif'', TOKEN_ENDIF), (''endselect'', TOKEN_ENDSELECT),
      (''endswitch'', TOKEN_ENDSWITCH), (''endwith'', TOKEN_ENDWITH), (''false'', TOKEN_FALSE),
      (''for'', TOKEN_FOR), (''func'', TOKEN_FUNC), (''global'', TOKEN_GLOBAL),
      (''if'', TOKEN_IF), (''local'', TOKEN_LOCAL), (''next'', TOKEN_NEXT), (''not'', TOKEN_NOT),
      (''null'', TOKEN_NULL), (''or'', TOKEN_OR), (''print'', TOKEN_PRINT),
      (''redim'', TOKEN_REDIM), (''return'', TOKEN_RETURN), (''select'', TOKEN_SELECT),
      (''static'', TOKEN_STATIC), (''step'', TOKEN_STEP), (''super'', TOKEN_SUPER),
      (''switch'', TOKEN_SWITCH), (''this'', TOKEN_THIS), (''then'', TOKEN_THEN),
      (''true'', TOKEN_TRUE), (''var'', TOKEN_VAR), (''volatile'', TOKEN_VOLATILE),
      (''wend'', TOKEN_WEND), (''while'', TOKEN_WHILE), (''with'', TOKEN_WITH)]"

definition lexeme :: "string \<Rightarrow> lexer_t \<Rightarrow> string" where
  "lexeme src L = map c_tolower (take (lx_current L - lx_start L) (drop (lx_start L) src))"

lemma equal_str_iff:
  "length b = n \<Longrightarrow> equal_str a b n \<longleftrightarrow> n \<le> length a \<and> map c_tolower (take n a) = map c_tolower b"
proof (induction n arbitrary: a b)
  case (Suc n)
  then show ?case by (cases a; cases b) auto
qed simp

lemma isKeyword_iff:
  assumes "lx_start L < lx_current L" and "lx_current L \<le> length src"
    and "length rest = len" and "map c_tolower rest = rest"
  shows "isKeyword src L s len rest \<longleftrightarrow> length (lexeme src L) = s + len \<and> drop s (lexeme src L) = rest"
proof -
  have n: "length (lexeme src L) = lx_current L - lx_start L" using assms(1,2) by (simp add: lexeme_def)
  have "isKeyword src L s len rest \<longleftrightarrow> lx_current L = lx_start L + (s + len) \<and>
      len \<le> length src - (lx_start L + s) \<and> map c_tolower (take len (drop (lx_start L + s) src)) = rest"
    using assms(4) by (simp add: isKeyword_def equal_str_iff [OF assms(3)])
  also have "\<dots> \<longleftrightarrow> length (lexeme src L) = s + len \<and> drop s (lexeme src L) = rest"
  proof (cases "lx_current L = lx_start L + (s + len)")
    case True
    then show ?thesis
      using assms(1,2) by (auto simp: n lexeme_def drop_map drop_take add.commute)
  next
    case False
    then show ?thesis using assms(1) by (auto simp: n)
  qed
  finally show ?thesis .
qed

lemma c_tolower_letters:
  "c_tolower (CHR ''a'') = CHR ''a''" "c_tolower (CHR ''b'') = CHR ''b''" "c_tolower (CHR ''c'') = CHR ''c''"
  "c_tolower (CHR ''d'') = CHR ''d''" "c_tolower (CHR ''e'') = CHR ''e''" "c_tolower (CHR ''f'') = CHR ''f''"
  "c_tolower (CHR ''g'') = CHR ''g''" "c_tolower (CHR ''h'') = CHR ''h''" "c_tolower (CHR ''i'') = CHR ''i''"
  "c_tolower (CHR ''j'') = CHR ''j''" "c_tolower (CHR ''k'') = CHR ''k''" "c_tolower (CHR ''l'') = CHR ''l''"
  "c_tolower (CHR ''m'') = CHR ''m''" "c_tolower (CHR ''n'') = CHR ''n''" "c_tolower (CHR ''o'') = CHR ''o''"
  "c_tolower (CHR ''p'') = CHR ''p''" "c_tolower (CHR ''q'') = CHR ''q''" "c_tolower (CHR ''r'') = CHR ''r''"
  "c_tolower (CHR ''s'') = CHR ''s''" "c_tolower (CHR ''t'') = CHR ''t''" "c_tolower (CHR ''u'') = CHR ''u''"
  "c_tolower (CHR ''v'') = CHR ''v''" "c_tolower (CHR ''w'') = CHR ''w''" "c_tolower (CHR ''x'') = CHR ''x''"
  "c_tolower (CHR ''y'') = CHR ''y''" "c_tolower (CHR ''z'') = CHR ''z''"
  by (simp_all add: c_tolower_def)

text \<open>The decision tree over the lower-case text of the token.\<close>

lemma START_lexeme:
  assumes "i < length (lexeme src L)"
  shows "c_tolower (char_at src (lx_start L + i)) = lexeme src L ! i"
  using assms by (auto simp: lexeme_def char_at_def)

lemma identifierType_lookup:
  assumes "lx_start L < lx_current L" and "lx_current L \<le> length src"
  shows "identifierType src L =
    (case map_of keyword_table (lexeme src L) of Some ty \<Rightarrow> ty | None \<Rightarrow> TOKEN_IDENTIFIER)"
proof -
  define w where "w = lexeme src L"
  have n: "lx_current L - lx_start L = length w" using assms by (simp add: w_def lexeme_def)
  have pos: "0 < length w" using assms(1) n by (simp del: length_greater_0_conv)
  have c: "c_tolower (char_at src (lx_start L + i)) = w ! i" if "i < length w" for i
    using START_lexeme that by (simp add: w_def)
  have kw: "checkKeyword src L s len rest ty =
      (if length w = s + len \<and> drop s w = rest then ty else TOKEN_IDENTIFIER)"
    if "length rest = len" "map c_tolower rest = rest" for s len rest ty
    using isKeyword_iff [OF assms that] by (simp add: checkKeyword_def w_def)
  have to: "checkKeyword src L 2 2 [] TOKEN_TO = TOKEN_IDENTIFIER"
  proof -
    have "\<not> equal_str a [] 2" for a by (cases a) (simp_all add: numeral_2_eq_2)
    then show ?thesis by (simp add: checkKeyword_def isKeyword_def)
  qed
  obtain c0 v where w: "w = c0 # v" using pos by (cases w) auto
  have c0: "c_tolower (char_at src (lx_start L)) = c0" using c [of 0] w by simp
  have c1: "c_tolower (char_at src (lx_start L + 1)) = v ! 0" if "v \<noteq> []"
    using c [of 1] that by (simp add: w)
  have c2: "c_tolower (char_at src (lx_start L + 2)) = v ! 1" if "1 < length v"
    using c [of 2] that by (simp add: w)
  have c3: "c_tolower (char_at src (lx_start L + 3)) = v ! 2" if "2 < length v"
    using c [of 3] that by (simp add: w)
  have c4: "c_tolower (char_at src (lx_start L + 4)) = v ! 3" if "3 < length v"
    using c [of 4] that by (simp add: w)
  note kws = kw [unfolded w] c_tolower_letters
  let ?tree = "identifierType src L = (case map_of keyword_table w of Some ty \<Rightarrow> ty | None \<Rightarrow> TOKEN_IDENTIFIER)"
  note tree = identifierType_def [of src L, unfolded Let_def n [unfolded w] add_0_right c0]
    keyword_table_def w
  have one: ?tree if "c0 \<in> set ''agilop''"
    using that unfolding list.set by (elim insertE emptyE; simp add: tree kws)
  have other: ?tree if "c0 \<notin> set (''agilop'' @ ''cdfnvw'' @ ''rst'' @ ''e'')"
    using that by (simp add: tree)
  have two: ?tree if c0: "c0 \<in> set ''cdfnvw''"
  proof (cases v)
    case Nil
    with c0 show ?thesis unfolding list.set by (elim insertE emptyE; simp add: tree)
  next
    case (Cons d u)
    with c0 c1 show ?thesis unfolding list.set by (elim insertE emptyE; simp add: tree kws)
  qed
  have three: ?tree if c0: "c0 \<in> set ''rst''"
  proof (cases v)
    case Nil
    with c0 show ?thesis unfolding list.set by (elim insertE emptyE; simp add: tree)
  next
    case v: (Cons d u)
    show ?thesis
    proof (cases u)
      case Nil
      with v c0 c1 to show ?thesis unfolding list.set by (elim insertE emptyE; simp add: tree kws)
    next
      case (Cons e t)
      with v c0 c1 c2 to show ?thesis unfolding list.set by (elim insertE emptyE; simp add: tree kws)
    qed
  qed
  have e: ?tree if c0: "c0 = CHR ''e''"
  proof -
    consider "length v = 2" | "length v = 3" | "length v = 4" | "length v = 6" | "length v = 8"
      | "length v \<notin> {2, 3, 4, 6, 8}" by blast
    then show ?thesis
    proof cases
      case 1
      then obtain x y where "v = [x, y]" by (auto simp: length_Suc_conv numeral_eq_Suc)
      then show ?thesis using c0 by (simp add: tree kws)
    next
      case 2
      then obtain x y z where "v = [x, y, z]" by (auto simp: length_Suc_conv numeral_eq_Suc)
      then show ?thesis using c0 c1 c3 by (simp add: tree kws)
    next
      case 3
      then obtain x1 x2 x3 x4 where "v = [x1, x2, x3, x4]"
        by (auto simp: length_Suc_conv numeral_eq_Suc)
      then show ?thesis using c0 by (simp add: tree kws)
    next
      case 4
      then obtain x1 x2 x3 x4 x5 x6 where "v = [x1, x2, x3, x4, x5, x6]"
        by (auto simp: length_Suc_conv numeral_eq_Suc)
      then show ?thesis using c0 c3 by (simp add: tree kws)
    next
      case 5
      then obtain x1 x2 x3 x4 x5 x6 x7 x8 where "v = [x1, x2, x3, x4, x5, x6, x7, x8]"
        by (auto simp: length_Suc_conv numeral_eq_Suc)
      then show ?thesis using c0 c4 by (simp add: tree kws)
    next
      case 6
      then have "v \<notin> {''nd'', ''lse'', ''ndfunc'', ''ndif'', ''ndselect'', ''ndswitch'', ''ndwith''}"
        and "Suc (length v) \<noteq> 3" "Suc (length v) \<noteq> 4" "Suc (length v) \<noteq> 5" "Suc (length v) \<noteq> 7"
        "Suc (length v) \<noteq> 9" by auto
      then show ?thesis using c0 by (simp add: tree)
    qed
  qed
  have ?tree
  proof (cases "c0 \<in> set (''agilop'' @ ''cdfnvw'' @ ''rst'' @ ''e'')")
    case True
    then have "c0 \<in> set ''agilop'' \<or> c0 \<in> set ''cdfnvw'' \<or> c0 \<in> set ''rst'' \<or> c0 \<in> set ''e''"
      unfolding set_append Un_iff .
    moreover have "c0 = CHR ''e''" if "c0 \<in> set ''e''" using that by simp
    ultimately show ?thesis using one two three e by argo
  qed (fact other)
  then show ?thesis by (simp only: w_def)
qed

text \<open>Words that have a token type in \<open>code.h\<close> and are still scanned as identifiers.\<close>

lemma identifierType_missed:
  assumes "lx_start L < lx_current L" and "lx_current L \<le> length src"
    and "lexeme src L \<in> set [''to'', ''enum'', ''exit'', ''exitloop'', ''elseif'', ''until'']"
  shows "identifierType src L = TOKEN_IDENTIFIER"
  using assms(3) by (auto simp: identifierType_lookup [OF assms(1,2)] keyword_table_def)

subsection \<open>Comments\<close>

text \<open>
  A \<open>#\<close> is compared with the text of the token before it, and never with what follows it: at
  the start of a source, no text makes it a comment.
\<close>

lemma scan_hash:
  "tok_type (fst (lexer_scan (CHR ''#'' # rest) lexer_init)) = TOKEN_PREPROCESSOR"
proof -
  let ?src = "CHR ''#'' # rest"
  have p: "peek ?src lexer_init = CHR ''#''"
    by (simp add: peek_def char_at_def lexer_init_def c_tolower_def)
  have "\<not> isKeyword ?src lexer_init 1 2 ''cs''" "\<not> isKeyword ?src lexer_init 1 14 ''comments-start''"
    by (simp_all add: isKeyword_def lexer_init_def)
  with p have "skipWhitespace ?src lexer_init = lexer_init"
    by (subst skipWhitespace.simps) simp
  moreover have "\<not> isAtEnd ?src lexer_init" by (simp add: isAtEnd_def char_at_def lexer_init_def)
  moreover have "advance ?src lexer_init = (CHR ''#'', lx_step lexer_init)"
    using p by (simp add: advance_def peek_def)
  ultimately show ?thesis
    by (simp add: lexer_scan_def lexer_init_def isAlpha_def isDigit_def char_in_def lx_symbol_def
        single_tokens_def lx_preprocessor_def makeToken_def Let_def)
qed

subsection \<open>Every source has an end\<close>

definition lx_after :: "string \<Rightarrow> lexer_t \<Rightarrow> lexer_t" where
  "lx_after src L = snd (lexer_scan src L)"

lemma scan_reaches_end:
  assumes "lx_current L \<le> length src"
  shows "\<exists>n \<le> length src - lx_current L.
           tok_type (fst (lexer_scan src ((lx_after src ^^ n) L))) = TOKEN_EOF"
  using assms
proof (induction "length src - lx_current L" arbitrary: L rule: less_induct)
  case less
  show ?case
  proof (cases "tok_type (fst (lexer_scan src L)) = TOKEN_EOF")
    case True
    then show ?thesis by (intro exI [of _ 0]) simp
  next
    case False
    let ?L = "lx_after src L"
    from lexer_scan_inside [OF less.prems] False
    have "lx_current L < lx_current ?L" "lx_current ?L \<le> length src"
      by (auto simp: tok_inside_def lx_after_def)
    then have "length src - lx_current ?L < length src - lx_current L"
      and le: "Suc (length src - lx_current ?L) \<le> length src - lx_current L" by simp_all
    from less.hyps [OF this(1) \<open>lx_current ?L \<le> length src\<close>] obtain n where
      "n \<le> length src - lx_current ?L"
      "tok_type (fst (lexer_scan src ((lx_after src ^^ n) ?L))) = TOKEN_EOF" by blast
    with le show ?thesis
      by (intro exI [of _ "Suc n"]) (simp add: funpow_swap1)
  qed
qed

end
