(* ===== verification/Lexer_Props.thy ===== *)
theory Lexer_Props
  imports Lexing
begin

text \<open>The properties of the lexer.\<close>

subsection \<open>Scanning a word\<close>

definition word_char :: "char \<Rightarrow> bool" where
  "word_char c \<longleftrightarrow> isAlpha c \<or> isDigit c"

lemma char_eq_code: "(c :: char) = d \<longleftrightarrow> (of_char c :: nat) = of_char d"
  by simp

lemma isAlpha_lower: "isAlpha (c_tolower c) \<longleftrightarrow> isAlpha c"
  unfolding isAlpha_def char_in_def char_eq_code of_char_c_tolower by simp

lemma isDigit_lower: "isDigit (c_tolower c) \<longleftrightarrow> isDigit c"
  unfolding isDigit_def char_in_def of_char_c_tolower by simp

lemma char_at_drop:
  "drop i src = w \<Longrightarrow> char_at src i = (case w of [] \<Rightarrow> NUL | c # cs \<Rightarrow> c)"
  by (cases "i < length src") (auto simp: char_at_def simp flip: Cons_nth_drop_Suc)

lemma peek_drop:
  "drop (lx_current L) src = w \<Longrightarrow> peek src L = (case w of [] \<Rightarrow> NUL | c # cs \<Rightarrow> c_tolower c)"
  using char_at_drop [of "lx_current L" src w]
  by (simp add: peek_def c_tolower_def split: list.splits)

text \<open>The state after a run of \<open>n\<close> characters that are no newlines.\<close>

definition lx_skip :: "nat \<Rightarrow> lexer_t \<Rightarrow> lexer_t" where
  "lx_skip n L = L\<lparr>lx_current := lx_current L + n, lx_position := lx_position L + int n\<rparr>"

lemma lx_skip_step: "lx_skip n (lx_step L) = lx_skip (Suc n) L" "lx_skip 0 L = L"
  by (simp_all add: lx_skip_def lx_step_def)

lemma drop_step: "drop i src = c # cs \<Longrightarrow> drop (Suc i) src = cs"
  by (simp add: drop_Suc flip: tl_drop)

lemma skip_word_run:
  assumes "drop (lx_current L) src = w @ rest" and "\<forall>c \<in> set w. word_char c"
    and "rest = [] \<or> \<not> word_char (hd rest)"
  shows "skip_word src L = lx_skip (length w) L"
  using assms(1,2)
proof (induction w arbitrary: L)
  case Nil
  then have "\<not> (isAlpha (peek src L) \<or> isDigit (peek src L))"
    using assms(3) not_word_NUL peek_drop [of L src rest]
    by (auto simp: isAlpha_lower isDigit_lower word_char_def split: list.splits)
  then show ?case by (subst skip_word.simps) (simp add: lx_skip_step)
next
  case (Cons c w)
  have "isAlpha (peek src L) \<or> isDigit (peek src L)"
    using Cons.prems peek_drop [of L src] by (auto simp: isAlpha_lower isDigit_lower word_char_def)
  moreover have "skip_word src (lx_step L) = lx_skip (length w) (lx_step L)"
    using Cons.prems drop_step by (intro Cons.IH) auto
  ultimately show ?case by (subst skip_word.simps) (simp add: lx_skip_step)
qed

lemma isAlpha_not_blank:
  assumes "isAlpha c"
  shows "c \<noteq> CHR '' ''" "c \<noteq> CHR 0x0D" "c \<noteq> CHR 0x09" "c \<noteq> CHR 0x0A" "c \<noteq> CHR '';''" "c \<noteq> CHR ''#''"
    "c \<noteq> NUL"
  using assms by (auto simp: isAlpha_def char_in_def)

lemma skipWhitespace_alpha: "isAlpha (peek src L) \<Longrightarrow> skipWhitespace src L = L"
  using isAlpha_not_blank by (subst skipWhitespace.simps) (auto simp: Let_def)

lemma scan_word_run:
  assumes "drop (lx_current L) src = (c # w) @ rest" and "isAlpha c" and "\<forall>c \<in> set w. word_char c"
    and "rest = [] \<or> \<not> word_char (hd rest)"
  defines "L' \<equiv> lx_skip (Suc (length w)) (L\<lparr>lx_start := lx_current L\<rparr>)"
  shows "lexer_scan src L = (makeToken L' (identifierType src L'), L')"
    and "lexeme src L' = map c_tolower (c # w)" and "lx_start L' < lx_current L'"
    and "lx_current L' \<le> length src"
proof -
  let ?L = "L\<lparr>lx_start := lx_current L\<rparr>"
  have p: "peek src L = c_tolower c" "char_at src (lx_current L) = c"
    using peek_drop [of L src] char_at_drop [of "lx_current L" src] assms(1) by simp_all
  have sw: "skipWhitespace src L = L" using p assms(2) by (simp add: skipWhitespace_alpha isAlpha_lower)
  have inside: "\<not> isAtEnd src ?L" using isAlpha_not_blank(7) [OF assms(2)] p by (simp add: isAtEnd_def)
  have adv: "advance src ?L = (c_tolower c, lx_step ?L)" using p by (simp add: advance_def)
  have "skip_word src (lx_step ?L) = lx_skip (length w) (lx_step ?L)"
    using assms(1,3,4) drop_step by (intro skip_word_run) auto
  then have sk: "skip_word src (lx_step ?L) = L'" by (simp add: L'_def lx_skip_step)
  show "lexer_scan src L = (makeToken L' (identifierType src L'), L')"
    using assms(2) sk by (simp add: lexer_scan_def sw inside adv isAlpha_lower lx_identifier_def)
  show "lexeme src L' = map c_tolower (c # w)" using assms(1) by (simp add: lexeme_def L'_def lx_skip_def)
  show "lx_start L' < lx_current L'" by (simp add: L'_def lx_skip_def)
  have "length src - lx_current L = length ((c # w) @ rest)" using assms(1) by (metis length_drop)
  then show "lx_current L' \<le> length src" by (simp add: L'_def lx_skip_def)
qed

subsection \<open>Numbers and symbols\<close>

lemma tolower_symbol: "(of_char d :: nat) < 65 \<Longrightarrow> c_tolower c = d \<longleftrightarrow> c = d"
  unfolding char_eq_code of_char_c_tolower by auto

lemma skipWhitespace_stops:
  assumes "drop (lx_current L) src = c # rest" and "c \<notin> {CHR '' '', CHR 0x0D, CHR 0x09, CHR 0x0A, CHR '';'', CHR ''#''}"
  shows "skipWhitespace src L = L"
proof -
  have "c_tolower c \<notin> {CHR '' '', CHR 0x0D, CHR 0x09, CHR 0x0A, CHR '';'', CHR ''#''}"
    using assms(2) by (simp add: tolower_symbol)
  with assms(1) show ?thesis using peek_drop [of L src] by (subst skipWhitespace.simps) (simp add: Let_def)
qed

lemma skip_digits_run:
  assumes "drop (lx_current L) src = w @ rest" and "\<forall>c \<in> set w. isDigit c" and "rest = [] \<or> \<not> isDigit (hd rest)"
  shows "skip_digits src L = lx_skip (length w) L"
  using assms(1,2)
proof (induction w arbitrary: L)
  case Nil
  then have "\<not> isDigit (peek src L)"
    using assms(3) not_word_NUL peek_drop [of L src rest] by (auto simp: isDigit_lower split: list.splits)
  then show ?case by (subst skip_digits.simps) (simp add: lx_skip_step)
next
  case (Cons c w)
  have "isDigit (peek src L)"
    using Cons.prems peek_drop [of L src] by (auto simp: isDigit_lower)
  moreover have "skip_digits src (lx_step L) = lx_skip (length w) (lx_step L)"
    using Cons.prems drop_step by (intro Cons.IH) auto
  ultimately show ?case by (subst skip_digits.simps) (simp add: lx_skip_step)
qed

lemma isDigit_other:
  assumes "isDigit c"
  shows "c \<notin> {CHR '' '', CHR 0x0D, CHR 0x09, CHR 0x0A, CHR '';'', CHR ''#''}" and "c \<noteq> NUL" and "\<not> isAlpha c"
  using assms by (auto simp: isDigit_def isAlpha_def char_in_def)

text \<open>A run of digits that no point follows is one token.\<close>

lemma scan_digits_run:
  assumes "drop (lx_current L) src = (c # w) @ rest" and "isDigit c" and "\<forall>c \<in> set w. isDigit c"
    and "rest = [] \<or> \<not> isDigit (hd rest) \<and> hd rest \<noteq> CHR ''.''"
  defines "L' \<equiv> lx_skip (Suc (length w)) (L\<lparr>lx_start := lx_current L\<rparr>)"
  shows "lexer_scan src L = (makeToken L' TOKEN_NUMBER, L')"
proof -
  let ?L = "L\<lparr>lx_start := lx_current L\<rparr>"
  have sw: "skipWhitespace src L = L" using assms(1) isDigit_other(1) [OF assms(2)] by (intro skipWhitespace_stops) auto
  have at: "char_at src (lx_current L) = c" using char_at_drop [OF assms(1)] by simp
  have inside: "\<not> isAtEnd src ?L" using isDigit_other(2) [OF assms(2)] at by (simp add: isAtEnd_def)
  have "skip_digits src (lx_step ?L) = lx_skip (length w) (lx_step ?L)"
    using assms(1,3,4) drop_step by (intro skip_digits_run) auto
  then have sk: "skip_digits src (lx_step ?L) = L'" by (simp add: L'_def lx_skip_step)
  have "drop (lx_current L') src = drop (Suc (length w)) (drop (lx_current L) src)"
    by (simp add: L'_def lx_skip_def add.commute)
  then have "drop (lx_current L') src = rest" using assms(1) by simp
  then have "peek src L' \<noteq> CHR ''.''"
    using assms(4) peek_drop [of L' src rest] by (auto simp: tolower_symbol split: list.splits)
  then show ?thesis
    using assms(2) isDigit_other(3) [OF assms(2)] at sk
    by (simp add: lexer_scan_def sw inside advance_def isAlpha_lower isDigit_lower lx_number_def)
qed

lemma scan_symbol:
  assumes "drop (lx_current L) src = c # rest" and "c \<notin> {CHR '' '', CHR 0x0D, CHR 0x09, CHR 0x0A, CHR '';'', CHR ''#''}"
    and "c \<noteq> NUL" and "\<not> isAlpha c" and "\<not> isDigit c"
  shows "lexer_scan src L = lx_symbol src (c_tolower c) (lx_step (L\<lparr>lx_start := lx_current L\<rparr>))"
proof -
  have at: "char_at src (lx_current L) = c" using char_at_drop [OF assms(1)] by simp
  then have "\<not> isAtEnd src (L\<lparr>lx_start := lx_current L\<rparr>)" using assms(3) by (simp add: isAtEnd_def)
  with at assms(4,5) show ?thesis
    by (simp add: lexer_scan_def skipWhitespace_stops [OF assms(1,2)] advance_def isAlpha_lower isDigit_lower)
qed

lemma scan_end:
  assumes "drop (lx_current L) src = []"
  shows "lexer_scan src L = (makeToken (L\<lparr>lx_start := lx_current L\<rparr>) TOKEN_EOF, L\<lparr>lx_start := lx_current L\<rparr>)"
proof -
  have "peek src L = NUL" using peek_drop [OF assms] by simp
  then have "skipWhitespace src L = L" by (subst skipWhitespace.simps) (simp add: Let_def)
  moreover have "char_at src (lx_current L) = NUL" using char_at_drop [OF assms] by simp
  ultimately show ?thesis by (simp add: lexer_scan_def isAtEnd_def Let_def)
qed

text \<open>
  C26. A word, that is a letter, underscore or dollar sign followed by such characters and digits, that
  is not followed by another of them is scanned as one token with exactly its text. Its type is that of
  the keyword it spells in upper or lower case, and \<open>TOKEN_IDENTIFIER\<close> when it spells none.
\<close>

theorem word_token:
  assumes "drop (lx_current L) src = w @ rest" and "w \<noteq> []" and "isAlpha (hd w)"
    and "\<forall>c \<in> set w. word_char c" and "rest = [] \<or> \<not> word_char (hd rest)"
  shows "let (t, L') = lexer_scan src L in
    tok_start t = In_source (lx_current L) \<and> tok_length t = length w \<and>
    lx_current L' = lx_current L + length w \<and> drop (lx_current L') src = rest \<and>
    tok_type t = (case map_of keyword_table (map c_tolower w) of
                    Some ty \<Rightarrow> ty | None \<Rightarrow> TOKEN_IDENTIFIER)"
proof -
  obtain c v where w: "w = c # v" using assms(2) by (cases w) auto
  have d: "drop (lx_current L) src = (c # v) @ rest" and a: "isAlpha c" and v: "\<forall>c \<in> set v. word_char c"
    using assms w by simp_all
  note run = scan_word_run [OF d a v assms(5)]
  have "drop (lx_current L + length w) src = rest" using assms(1) by (metis append_eq_conv_conj drop_drop add.commute)
  then show ?thesis
    using run(2) identifierType_lookup [OF run(3,4)]
    by (simp add: run(1) makeToken_def lx_skip_def w)
qed

lemma lower_WHILE: "map c_tolower ''WHILE'' = ''while''"
  by (simp add: c_tolower_def char_of_eq_iff)

lemma word_token_witness:
  "tok_type (fst (lexer_scan ''WHILE x'' lexer_init)) = TOKEN_WHILE \<and>
   tok_length (fst (lexer_scan ''WHILE x'' lexer_init)) = 5"
proof -
  have "map_of keyword_table (map c_tolower ''WHILE'') = Some TOKEN_WHILE"
    unfolding lower_WHILE by (simp add: keyword_table_def)
  with word_token [of lexer_init "''WHILE x''" "''WHILE''" "'' x''"] show ?thesis
    by (simp add: lexer_init_def word_char_def isAlpha_def isDigit_def char_in_def split: prod.splits)
qed



subsection \<open>Every scan\<close>

text \<open>
  C28. A scan that starts within the source stays within it, passes at least one character unless it
  finds the end, and the text of its token, unless an error message, is a piece of the source
  between where it started and where it stopped.
\<close>

theorem scan_stays_inside:
  assumes "lx_current L \<le> length src" and "lexer_scan src L = (t, L')"
  shows "lx_current L' \<le> length src \<and>
    (tok_type t = TOKEN_EOF \<or> lx_current L < lx_current L') \<and>
    (tok_type t = TOKEN_ERROR \<or>
       (\<exists>i. tok_start t = In_source i \<and> lx_current L \<le> i \<and> i + tok_length t = lx_current L'))"
  using lexer_scan_inside [OF assms(1)] assms(2) by (auto simp: tok_inside_def)

lemma scan_stays_inside_witness:
  "lx_current (snd (lexer_scan ''Dim $x'' lexer_init)) \<le> 6"
  using scan_stays_inside [of lexer_init "''Dim $x''"]
  by (cases "lexer_scan ''Dim $x'' lexer_init") (simp add: lexer_init_def)

text \<open>
  C29. Repeated scans reach the end of every source, after at most as many tokens as it has
  characters.
\<close>

theorem scan_reaches_EOF:
  assumes "lx_current L \<le> length src"
  shows "\<exists>n \<le> length src - lx_current L.
           tok_type (fst (lexer_scan src (((\<lambda>L. snd (lexer_scan src L)) ^^ n) L))) = TOKEN_EOF"
  using scan_reaches_end [OF assms] by (simp add: lx_after_def [abs_def])

lemma scan_reaches_EOF_witness:
  "\<exists>n \<le> 4. tok_type (fst (lexer_scan ''1+$x'' (((\<lambda>L. snd (lexer_scan ''1+$x'' L)) ^^ n) lexer_init))) =
     TOKEN_EOF"
  using scan_reaches_EOF [of lexer_init "''1+$x''"] by (simp add: lexer_init_def numeral_eq_Suc)

text \<open>
  C30. A \<open>#\<close> at the start of a source is always scanned as a preprocessor token: no block comment
  \<open>#cs\<close> is recognised there, because the test reads the text of the token before it.
\<close>

theorem hash_never_comment:
  "tok_type (fst (lexer_scan (CHR ''#'' # rest) lexer_init)) = TOKEN_PREPROCESSOR"
  by (rule scan_hash)

end
