(* ===== verification/Strtod.thy ===== *)
theory Strtod
  imports Lexer CDouble
begin

text \<open>
  \<open>strtod\<close> of the C library, on a text that starts with a digit (the compiler calls it on number
  tokens only): a decimal number with an optional fraction and exponent, or a hexadecimal one. The
  longest such prefix is converted, and the result is correctly rounded. It reads on past the end
  of the token that the lexer has cut.
\<close>

definition digit_val :: "char \<Rightarrow> nat" where
  "digit_val c = (let n = of_char (c_tolower c) in if n < 58 then n - 48 else n - 87)"

definition nat_of_digits :: "nat \<Rightarrow> string \<Rightarrow> nat" where
  "nat_of_digits base ds = foldl (\<lambda>n c. base * n + digit_val c) 0 ds"

text \<open>The optional exponent: the letter, a sign and at least one digit.\<close>

definition strtod_exponent :: "char \<Rightarrow> string \<Rightarrow> int" where
  "strtod_exponent letter s =
     (case s of
        [] \<Rightarrow> 0
      | c # cs \<Rightarrow>
          if c_tolower c \<noteq> letter then 0
          else
            let neg = (cs \<noteq> [] \<and> hd cs = CHR ''-'');
                cs = (if cs \<noteq> [] \<and> (hd cs = CHR ''-'' \<or> hd cs = CHR ''+'') then tl cs else cs);
                n = int (nat_of_digits 10 (takeWhile isDigit cs))
            in if neg then - n else n)"

text \<open>The digits before and after the point, and what follows.\<close>

definition strtod_mantissa :: "(char \<Rightarrow> bool) \<Rightarrow> string \<Rightarrow> string \<times> string \<times> string" where
  "strtod_mantissa digit s =
     (let ip = takeWhile digit s; r = dropWhile digit s
      in case r of
           [] \<Rightarrow> (ip, [], [])
         | c # cs \<Rightarrow>
             if c = CHR ''.'' then (ip, takeWhile digit cs, dropWhile digit cs) else (ip, [], r))"

text \<open>\<open>n * 10 ^ e\<close>, correctly rounded.\<close>

definition double_of_decimal :: "nat \<Rightarrow> int \<Rightarrow> double" where
  "double_of_decimal n e =
     mk_double False (if n = 0 then 0
       else if 0 \<le> e then round_mag (n * 10 ^ nat e) 0 else div_mag n 0 (10 ^ nat (- e)) 0)"

definition strtod :: "string \<Rightarrow> double" where
  "strtod s =
     (let hex = (case s of z # x # cs \<Rightarrow> z = CHR ''0'' \<and> c_tolower x = CHR ''x'' | _ \<Rightarrow> False);
          (hi, hf, hr) = strtod_mantissa isHexa (drop 2 s);
          (di, df, dr) = strtod_mantissa isDigit s
      in if hex \<and> hi @ hf \<noteq> []
         then mk_double False (round_mag (nat_of_digits 16 (hi @ hf))
                (strtod_exponent (CHR ''p'') hr - 4 * int (length hf)))
         else double_of_decimal (nat_of_digits 10 (di @ df))
                (strtod_exponent (CHR ''e'') dr - int (length df)))"

subsection \<open>Decimal integers\<close>

lemma strtod_mantissa_digits:
  assumes "\<forall>c \<in> set ds. digit c" and "rest = [] \<or> \<not> digit (hd rest) \<and> hd rest \<noteq> CHR ''.''"
  shows "strtod_mantissa digit (ds @ rest) = (ds, [], rest)"
proof -
  have "takeWhile digit ds = ds" "dropWhile digit ds = []" using assms(1) by simp_all
  with assms show ?thesis
    by (cases rest) (auto simp: strtod_mantissa_def takeWhile_append dropWhile_append Let_def
        simp del: dropWhile_eq_Nil_conv takeWhile_eq_all_conv)
qed

text \<open>
  A run of digits that no point, digit, exponent letter or hexadecimal prefix follows is
  converted to the double nearest to its value.
\<close>

lemma strtod_integer:
  assumes "ds \<noteq> []" and "\<forall>c \<in> set ds. isDigit c"
    and "rest = [] \<or> \<not> isDigit (hd rest) \<and> hd rest \<noteq> CHR ''.'' \<and>
           c_tolower (hd rest) \<noteq> CHR ''e'' \<and> c_tolower (hd rest) \<noteq> CHR ''x''"
  shows "strtod (ds @ rest) = d_of_int (int (nat_of_digits 10 ds))"
proof -
  have m: "strtod_mantissa isDigit (ds @ rest) = (ds, [], rest)"
    using assms(2,3) by (intro strtod_mantissa_digits) auto
  have x: "c_tolower c \<noteq> CHR ''x''" if "isDigit c" for c
    using that by (auto simp: isDigit_def char_in_def c_tolower_def Let_def)
  have hex: "\<not> (case ds @ rest of z # x # cs \<Rightarrow> z = CHR ''0'' \<and> c_tolower x = CHR ''x'' | _ \<Rightarrow> False)"
    using assms x by (cases ds; cases "tl ds"; cases rest) (auto split: list.split)
  have e: "strtod_exponent (CHR ''e'') rest = 0"
    using assms(3) by (auto simp: strtod_exponent_def split: list.split)
  have "round_mag 0 0 = 0" by (simp add: round_mag_def)
  then show ?thesis
    using m hex e by (auto simp: strtod_def double_of_decimal_def d_of_int_def Let_def split: prod.splits)
qed

end
