(* ===== verification/Parser.thy ===== *)
theory Parser
  imports Strtod Runtime
begin

text \<open>
  The state of the compiler (\<open>src/src/parser.c\<close>) and its operations that do not recurse: error messages,
  the two tokens of lookahead, the emission of code, scopes and variables. The functions compiled
  at the moment are a stack (\<open>enclosing\<close>), the innermost first; their chunks are written in the heap. Of the
  name of a local the code reads the text only. \<open>parser.current\<close> is not initialised before
  the first token is read, and the first statement reads the type it had: what it held is an argument
  of \<open>compile\<close>.
\<close>

subsection \<open>State\<close>

datatype funtype_t = TYPE_FUNCTION | TYPE_SCRIPT

record local_t =
  lc_start :: tok_ptr
  lc_length :: nat
  lc_depth :: int

record compiler_t =
  cp_function :: addr
  cp_type :: funtype_t
  cp_locals :: "local_t list"        \<comment> \<open>the first \<open>localCount\<close> of \<open>locals\<close>\<close>
  cp_scopeDepth :: int

record parser_t =
  ps_vm :: vm_t
  ps_lexer :: lexer_t
  ps_source :: src_t
  ps_compilers :: "compiler_t list"
  ps_current :: tok_t
  ps_previous :: tok_t
  ps_subExprs :: nat
  ps_hadCall :: bool
  ps_hadAssign :: bool
  ps_hadError :: bool
  ps_panicMode :: bool

text \<open>
  An operation of the compiler: it does not return (\<open>None\<close>), reaches undefined behaviour, or gives
  a result and the next state.
\<close>

type_synonym 'a parse = "parser_t \<Rightarrow> ('a \<times> parser_t) res option"

definition ret :: "'a \<Rightarrow> 'a parse" where
  "ret x p = Some (Inr (x, p))"

definition bindp :: "'a parse \<Rightarrow> ('a \<Rightarrow> 'b parse) \<Rightarrow> 'b parse" where
  "bindp m k p =
     (case m p of
        None \<Rightarrow> None
      | Some (Inl e) \<Rightarrow> Some (Inl e)
      | Some (Inr (x, p')) \<Rightarrow> k x p')"

definition seqp :: "unit parse \<Rightarrow> 'b parse \<Rightarrow> 'b parse" where
  "seqp m n = bindp m (\<lambda>_. n)"

definition gets :: "(parser_t \<Rightarrow> 'a) \<Rightarrow> 'a parse" where
  "gets f p = Some (Inr (f p, p))"

definition modify :: "(parser_t \<Rightarrow> parser_t) \<Rightarrow> unit parse" where
  "modify f p = Some (Inr ((), f p))"

definition whenp :: "bool \<Rightarrow> unit parse \<Rightarrow> unit parse" where
  "whenp b m = (if b then m else ret ())"

text \<open>
  The rules by which a recursive function through these combinators is monotone in its recursive
  calls, hence well-defined.
\<close>

lemma bindp_bind:
  "bindp m k p = Option.bind (m p) (\<lambda>r. case r of Inl e \<Rightarrow> Some (Inl e) | Inr (x, p') \<Rightarrow> k x p')"
  by (auto simp: bindp_def split: option.split sum.split)

lemma bindp_mono [partial_function_mono]:
  fixes m :: "('x \<Rightarrow> 'y option) \<Rightarrow> 'a parse" and k :: "('x \<Rightarrow> 'y option) \<Rightarrow> 'a \<Rightarrow> 'b parse"
  assumes "\<And>p. monotone (fun_ord option_ord) option_ord (\<lambda>f. m f p)"
    and "\<And>x p. monotone (fun_ord option_ord) option_ord (\<lambda>f. k f x p)"
  shows "monotone (fun_ord option_ord) option_ord (\<lambda>f. bindp (m f) (k f) p)"
  unfolding bindp_bind
proof (rule bind_mono [OF assms(1)])
  fix r :: "fault + 'a \<times> parser_t"
  show "monotone (fun_ord option_ord) option_ord
      (\<lambda>f. case r of Inl e \<Rightarrow> Some (Inl e) | Inr (x, p') \<Rightarrow> k f x p')"
    using assms(2) by (cases r) (auto simp: option.const_mono split: prod.split)
qed

lemma seqp_mono [partial_function_mono]:
  assumes "\<And>p. monotone (fun_ord option_ord) option_ord (\<lambda>f. m f p)"
    and "\<And>p. monotone (fun_ord option_ord) option_ord (\<lambda>f. k f p)"
  shows "monotone (fun_ord option_ord) option_ord (\<lambda>f. seqp (m f) (k f) p)"
  unfolding seqp_def by (rule bindp_mono [OF assms])

text \<open>An operation of the machine.\<close>

definition on_vm :: "(vm_t \<Rightarrow> ('a \<times> vm_t) res) \<Rightarrow> 'a parse" where
  "on_vm f p = Some (bindr (f (ps_vm p)) (\<lambda>(x, vm). Inr (x, p\<lparr>ps_vm := vm\<rparr>)))"

subsection \<open>Errors\<close>

text \<open>The text of a token, and a piece of the source.\<close>

definition tok_text :: "src_t \<Rightarrow> tok_ptr \<Rightarrow> nat \<Rightarrow> string" where
  "tok_text source start len =
     take len (case start of In_source i \<Rightarrow> drop i (src_buffer source) | Message m \<Rightarrow> m)"

text \<open>
  \<open>errorAt\<close> reads the start of the token's line, which \<open>errorToken\<close> does not set.
\<close>

definition errorAt :: "(parser_t \<Rightarrow> tok_t) \<Rightarrow> string \<Rightarrow> unit parse" where
  "errorAt tok message p =
     (if ps_panicMode p then Some (Inr ((), p))
      else
        let token = tok p; source = ps_source p
        in case (tok_start token, tok_currentLine token) of
             (In_source start, Some line) \<Rightarrow>
               let length = start - line + tok_length token;
                   item = \<lparr>ce_file = src_fname source, ce_line = tok_line token,
                     ce_column = tok_column token,
                     ce_at = (if tok_type token = TOKEN_EOF then At_end
                              else if tok_type token = TOKEN_ERROR then At_nothing
                              else At_text (tok_text source (tok_start token) (tok_length token))),
                     ce_message = message, ce_excerpt = take length (drop line (src_buffer source))\<rparr>;
                   vm = (ps_vm p)\<lparr>stderr := stderr (ps_vm p) @ [Compile_error item]\<rparr>
               in Some (Inr ((), p\<lparr>ps_vm := vm, ps_panicMode := True, ps_hadError := True\<rparr>))
           | _ \<Rightarrow> Some (Inl (Undefined Uninitialised)))"

definition error :: "string \<Rightarrow> unit parse" where
  "error = errorAt ps_previous"

definition errorAtCurrent :: "string \<Rightarrow> unit parse" where
  "errorAtCurrent = errorAt ps_current"

subsection \<open>Tokens\<close>

definition scan_current :: "parser_t \<Rightarrow> parser_t" where
  "scan_current p =
     (let (tok, L) = lexer_scan (src_buffer (ps_source p)) (ps_lexer p)
      in p\<lparr>ps_current := tok, ps_lexer := L\<rparr>)"

partial_function (option) advance_loop :: "parser_t \<Rightarrow> (unit \<times> parser_t) res option" where
  "advance_loop p =
     (let p = scan_current p
      in if tok_type (ps_current p) \<noteq> TOKEN_ERROR then Some (Inr ((), p))
         else bindp (errorAtCurrent (case tok_start (ps_current p) of Message m \<Rightarrow> m | In_source _ \<Rightarrow> []))
                (\<lambda>_. advance_loop) p)"

declare advance_loop.simps [code]

definition ps_advance :: "unit parse" where
  "ps_advance p = advance_loop (p\<lparr>ps_previous := ps_current p\<rparr>)"

definition check :: "toktype_t \<Rightarrow> parser_t \<Rightarrow> bool" where
  "check ty p \<longleftrightarrow> tok_type (ps_current p) = ty"

definition checkPrev :: "toktype_t \<Rightarrow> parser_t \<Rightarrow> bool" where
  "checkPrev ty p \<longleftrightarrow> tok_type (ps_previous p) = ty"

definition consume :: "toktype_t \<Rightarrow> string \<Rightarrow> unit parse" where
  "consume ty message p = (if check ty p then ps_advance p else errorAtCurrent message p)"

definition consumes :: "toktype_t \<Rightarrow> toktype_t \<Rightarrow> string \<Rightarrow> unit parse" where
  "consumes ty1 ty2 message p =
     (if check ty1 p \<or> check ty2 p then ps_advance p else errorAtCurrent message p)"

definition ps_match :: "toktype_t \<Rightarrow> bool parse" where
  "ps_match ty p =
     (if \<not> check ty p then Some (Inr (False, p)) else bindp ps_advance (\<lambda>_. ret True) p)"

subsection \<open>Emitting code\<close>

definition put_fun :: "addr \<Rightarrow> fun_t \<Rightarrow> vm_t \<Rightarrow> vm_t" where
  "put_fun a f vm =
     vm\<lparr>heap := (heap vm)(a := map_option (\<lambda>ob. ob\<lparr>body := OT_FUN f\<rparr>) (heap vm a))\<rparr>"

definition cur_compiler :: "parser_t \<Rightarrow> compiler_t res" where
  "cur_compiler p =
     (case ps_compilers p of [] \<Rightarrow> Inl (Undefined Bad_pointer) | c # cs \<Rightarrow> Inr c)"

definition set_compiler :: "compiler_t \<Rightarrow> parser_t \<Rightarrow> parser_t" where
  "set_compiler c p = p\<lparr>ps_compilers := c # tl (ps_compilers p)\<rparr>"

definition get_compiler :: "compiler_t parse" where
  "get_compiler p = Some (bindr (cur_compiler p) (\<lambda>c. Inr (c, p)))"

text \<open>The function that is compiled, read and changed; \<open>currentChunk\<close> is its chunk.\<close>

definition cur_fun :: "fun_t parse" where
  "cur_fun p =
     Some (bindr (cur_compiler p) (\<lambda>c. bindr (get_fun (cp_function c) (ps_vm p)) (\<lambda>f. Inr (f, p))))"

definition set_cur_fun :: "fun_t \<Rightarrow> unit parse" where
  "set_cur_fun f p =
     Some (bindr (cur_compiler p) (\<lambda>c. Inr ((), p\<lparr>ps_vm := put_fun (cp_function c) f (ps_vm p)\<rparr>)))"

definition currentChunk :: "chunk_t parse" where
  "currentChunk = bindp cur_fun (\<lambda>f. ret (fn_chunk f))"

definition set_chunk :: "chunk_t \<Rightarrow> unit parse" where
  "set_chunk c = bindp cur_fun (\<lambda>f. set_cur_fun (f\<lparr>fn_chunk := c\<rparr>))"

definition emitByte :: "u8 \<Rightarrow> unit parse" where
  "emitByte byte =
     bindp currentChunk (\<lambda>c.
     bindp (gets ps_previous) (\<lambda>t.
     set_chunk (chunk_emit c byte (tok_line t) (tok_column t))))"

definition emitOp :: "opcode_t \<Rightarrow> unit parse" where
  "emitOp op = emitByte (opcode_byte op)"

definition emitBytes :: "u8 \<Rightarrow> u8 \<Rightarrow> unit parse" where
  "emitBytes byte1 byte2 = seqp (emitByte byte1) (emitByte byte2)"

definition emitJump :: "opcode_t \<Rightarrow> nat parse" where
  "emitJump instruction =
     seqp (emitOp instruction)
    (seqp (emitBytes 0 0)
    (bindp currentChunk (\<lambda>c. ret (ck_count c - 2))))"

definition emitReturn :: "unit parse" where
  "emitReturn = seqp (emitOp OP_NIL) (emitOp OP_RET)"

definition makeConstant :: "val_t \<Rightarrow> u8 parse" where
  "makeConstant value =
     bindp currentChunk (\<lambda>c.
     let (constants, constant) = arr_add (ck_constants c) value False
     in seqp (set_chunk (c\<lparr>ck_constants := constants\<rparr>))
       (if 255 < constant
        then seqp (error ''Too many constants in one chunk.'') (ret 0)
        else ret (word_of_nat constant)))"

definition emitSmart :: "opcode_t \<Rightarrow> u8 \<Rightarrow> unit parse" where
  "emitSmart op arg = emitBytes (opcode_byte op) arg"

definition emitConstant :: "val_t \<Rightarrow> unit parse" where
  "emitConstant value = bindp (makeConstant value) (emitSmart OP_CONST)"

text \<open>The two bytes of a jump are written also when the distance does not fit.\<close>

definition jump_hi :: "nat \<Rightarrow> u8" where
  "jump_hi jump = word_of_nat (jump div 256 mod 256)"

definition jump_lo :: "nat \<Rightarrow> u8" where
  "jump_lo jump = word_of_nat (jump mod 256)"

definition patchJump :: "nat \<Rightarrow> unit parse" where
  "patchJump offset =
     bindp currentChunk (\<lambda>c.
     let jump = ck_count c - offset - 2
     in seqp (whenp (65535 < jump) (error ''Too much code to jump over.''))
       (set_chunk (c\<lparr>ck_code := (ck_code c)[offset := jump_hi jump, offset + 1 := jump_lo jump]\<rparr>)))"

subsection \<open>Functions\<close>

text \<open>The token that \<open>previous\<close> points to gives the name, in lower case.\<close>

definition copy_text :: "tok_t \<Rightarrow> addr parse" where
  "copy_text t p =
     on_vm (str_copy (tok_text (ps_source p) (tok_start t) (tok_length t)) (tok_length t) True) p"

definition initCompiler :: "funtype_t \<Rightarrow> unit parse" where
  "initCompiler ty =
     bindp (gets ps_source) (\<lambda>source.
     bindp (on_vm (fun_new (Some source))) (\<lambda>f.
     bindp (gets ps_previous) (\<lambda>name.
     seqp
       (whenp (ty \<noteq> TYPE_SCRIPT)
         (bindp (copy_text name) (\<lambda>a.
          bindp (on_vm (\<lambda>vm. bindr (get_fun f vm) (\<lambda>fn. Inr ((), put_fun f (fn\<lparr>fn_name := Some a\<rparr>) vm))))
            ret)))
       (modify (\<lambda>p. p\<lparr>ps_compilers :=
          \<lparr>cp_function = f, cp_type = ty,
           cp_locals = [\<lparr>lc_start = Message [], lc_length = 0, lc_depth = 0\<rparr>],
           cp_scopeDepth = 0\<rparr> # ps_compilers p\<rparr>)))))"

definition endCompiler :: "addr parse" where
  "endCompiler =
     seqp emitReturn
    (bindp get_compiler (\<lambda>c.
     seqp (modify (\<lambda>p. p\<lparr>ps_compilers := tl (ps_compilers p)\<rparr>))
       (ret (cp_function c))))"

subsection \<open>Scopes and variables\<close>

definition beginScope :: "unit parse" where
  "beginScope =
     bindp get_compiler (\<lambda>c. modify (set_compiler (c\<lparr>cp_scopeDepth := cp_scopeDepth c + 1\<rparr>)))"

text \<open>The locals deeper than \<open>depth\<close> at the end of the list are dropped, with an \<open>OP_POP\<close> for each.\<close>

definition deeper :: "int \<Rightarrow> local_t list \<Rightarrow> nat" where
  "deeper depth ls = length (takeWhile (\<lambda>l. depth < lc_depth l) (rev ls))"

fun emit_pops :: "nat \<Rightarrow> unit parse" where
  "emit_pops 0 = ret ()"
| "emit_pops (Suc n) =
     seqp (emitOp OP_POP)
    (seqp (bindp get_compiler (\<lambda>c. modify (set_compiler (c\<lparr>cp_locals := butlast (cp_locals c)\<rparr>))))
       (emit_pops n))"

definition endScope :: "unit parse" where
  "endScope =
     bindp get_compiler (\<lambda>c.
     let c = c\<lparr>cp_scopeDepth := cp_scopeDepth c - 1\<rparr>
     in seqp (modify (set_compiler c)) (emit_pops (deeper (cp_scopeDepth c) (cp_locals c))))"

definition identifierConstant :: "tok_t \<Rightarrow> u8 parse" where
  "identifierConstant name = bindp (copy_text name) (\<lambda>a. makeConstant (VAL_OBJ a))"

text \<open>The comparison of names is that of their bytes: the case of letters matters here.\<close>

definition identifiersEqual :: "src_t \<Rightarrow> tok_t \<Rightarrow> local_t \<Rightarrow> bool" where
  "identifiersEqual source a b \<longleftrightarrow>
     tok_length a = lc_length b \<and>
     tok_text source (tok_start a) (tok_length a) = tok_text source (lc_start b) (lc_length b)"

text \<open>The index of the last local with the name.\<close>

fun find_local :: "src_t \<Rightarrow> tok_t \<Rightarrow> local_t list \<Rightarrow> nat \<Rightarrow> nat option" where
  "find_local source name ls 0 = None"
| "find_local source name ls (Suc i) =
     (if identifiersEqual source name (ls ! i) then Some i else find_local source name ls i)"

definition resolveLocal :: "tok_t \<Rightarrow> nat option parse" where
  "resolveLocal name =
     bindp get_compiler (\<lambda>c.
     bindp (gets ps_source) (\<lambda>source.
     case find_local source name (cp_locals c) (length (cp_locals c)) of
       None \<Rightarrow> ret None
     | Some i \<Rightarrow>
         seqp (whenp (lc_depth (cp_locals c ! i) = -1)
                 (error ''Cannot read local variable in its own initializer.''))
           (ret (Some i))))"

definition addLocal :: "tok_t \<Rightarrow> unit parse" where
  "addLocal name =
     bindp get_compiler (\<lambda>c.
     if length (cp_locals c) = 256 then error ''Too many local variables in function.''
     else modify (set_compiler (c\<lparr>cp_locals := cp_locals c @
            [\<lparr>lc_start = tok_start name, lc_length = tok_length name, lc_depth = -1\<rparr>]\<rparr>)))"

text \<open>The number of locals, from the end, that have the name and are in the current scope.\<close>

fun same_scope :: "int \<Rightarrow> local_t list \<Rightarrow> local_t list" where
  "same_scope depth ls = takeWhile (\<lambda>l. \<not> (lc_depth l \<noteq> -1 \<and> lc_depth l < depth)) (rev ls)"

fun report_each :: "string \<Rightarrow> 'a list \<Rightarrow> unit parse" where
  "report_each message [] = ret ()"
| "report_each message (x # xs) = seqp (error message) (report_each message xs)"

definition declareVariable :: "unit parse" where
  "declareVariable =
     bindp get_compiler (\<lambda>c.
     bindp (gets ps_source) (\<lambda>source.
     bindp (gets ps_previous) (\<lambda>name.
     if cp_scopeDepth c = 0 then ret ()
     else
       seqp (report_each ''Variable with this name already declared in this scope.''
              (filter (identifiersEqual source name) (same_scope (cp_scopeDepth c) (cp_locals c))))
         (addLocal name))))"

definition parseVariable :: "string \<Rightarrow> u8 parse" where
  "parseVariable errorMessage =
     seqp (consume TOKEN_IDENTIFIER errorMessage)
    (seqp declareVariable
    (bindp get_compiler (\<lambda>c.
     if 0 < cp_scopeDepth c then ret 0
     else bindp (gets ps_previous) identifierConstant)))"

definition markInitialized :: "unit parse" where
  "markInitialized =
     bindp get_compiler (\<lambda>c.
     if cp_scopeDepth c = 0 then ret ()
     else
       let n = length (cp_locals c) - 1
       in modify (set_compiler (c\<lparr>cp_locals :=
            (cp_locals c)[n := (cp_locals c ! n)\<lparr>lc_depth := cp_scopeDepth c\<rparr>]\<rparr>)))"

definition defineVariable :: "u8 \<Rightarrow> unit parse" where
  "defineVariable global =
     bindp get_compiler (\<lambda>c.
     if 0 < cp_scopeDepth c then markInitialized else emitSmart OP_DEF global)"

end
