(* ===== verification/Compiler.thy ===== *)
theory Compiler
  imports Parser
begin

text \<open>
  The recursive part of \<open>src/src/parser.c\<close>: expressions, statements and declarations, and \<open>compile\<close>.
  Each C function is a definition whose argument \<open>rec\<close> stands for the recursive calls, and the loops
  that contain such calls are goals of their own; \<open>parse\<close> ties the knot. Nothing bounds the
  depth of the recursion: the compiler may call itself forever.
\<close>

subsection \<open>Rules\<close>

datatype parsefn = P_grouping | P_map | P_unary | P_variable | P_string | P_number | P_literal
  | P_call | P_index | P_dot | P_binary | P_and | P_or

record rule_t =
  r_prefix :: "parsefn option"
  r_infix :: "parsefn option"
  r_precedence :: nat

abbreviation (input) PREC_NONE :: nat where "PREC_NONE \<equiv> 0"
abbreviation (input) PREC_ASSIGNMENT :: nat where "PREC_ASSIGNMENT \<equiv> 1"
abbreviation (input) PREC_OR :: nat where "PREC_OR \<equiv> 2"
abbreviation (input) PREC_AND :: nat where "PREC_AND \<equiv> 3"
abbreviation (input) PREC_EQUALITY :: nat where "PREC_EQUALITY \<equiv> 4"
abbreviation (input) PREC_COMPARISON :: nat where "PREC_COMPARISON \<equiv> 5"
abbreviation (input) PREC_TERM :: nat where "PREC_TERM \<equiv> 6"
abbreviation (input) PREC_FACTOR :: nat where "PREC_FACTOR \<equiv> 7"
abbreviation (input) PREC_UNARY :: nat where "PREC_UNARY \<equiv> 8"
abbreviation (input) PREC_CALL :: nat where "PREC_CALL \<equiv> 9"

definition rules :: "(toktype_t \<times> parsefn option \<times> parsefn option \<times> nat) list" where
  "rules =
     [(TOKEN_LPAREN, Some P_grouping, Some P_call, PREC_CALL),
      (TOKEN_LBRACKET, Some P_map, Some P_index, PREC_CALL),
      (TOKEN_DOT, None, Some P_dot, PREC_CALL),
      (TOKEN_MINUS, Some P_unary, Some P_binary, PREC_TERM),
      (TOKEN_PLUS, None, Some P_binary, PREC_TERM),
      (TOKEN_SLASH, None, Some P_binary, PREC_FACTOR),
      (TOKEN_STAR, None, Some P_binary, PREC_FACTOR),
      (TOKEN_BANG, Some P_unary, None, PREC_NONE),
      (TOKEN_BANG_EQUAL, None, Some P_binary, PREC_EQUALITY),
      (TOKEN_EQUAL_EQUAL, None, Some P_binary, PREC_EQUALITY),
      (TOKEN_GREATER, None, Some P_binary, PREC_COMPARISON),
      (TOKEN_GREATER_EQUAL, None, Some P_binary, PREC_COMPARISON),
      (TOKEN_LESS, None, Some P_binary, PREC_COMPARISON),
      (TOKEN_LESS_EQUAL, None, Some P_binary, PREC_COMPARISON),
      (TOKEN_IDENTIFIER, Some P_variable, None, PREC_NONE),
      (TOKEN_STRING, Some P_string, None, PREC_NONE),
      (TOKEN_NUMBER, Some P_number, None, PREC_NONE),
      (TOKEN_AND, None, Some P_and, PREC_AND),
      (TOKEN_FALSE, Some P_literal, None, PREC_NONE),
      (TOKEN_FUNC, Some P_literal, None, PREC_NONE),
      (TOKEN_NOT, Some P_unary, None, PREC_NONE),
      (TOKEN_NULL, Some P_literal, None, PREC_NONE),
      (TOKEN_OR, None, Some P_or, PREC_OR),
      (TOKEN_TRUE, Some P_literal, None, PREC_NONE)]"

text \<open>The rows of null pointers and the types without a row give the zero rule.\<close>

definition getRule :: "toktype_t \<Rightarrow> rule_t" where
  "getRule ty =
     (case map_of rules ty of
        Some (prefix_rule, infix_rule, prec) \<Rightarrow> \<lparr>r_prefix = prefix_rule, r_infix = infix_rule, r_precedence = prec\<rparr>
      | None \<Rightarrow> \<lparr>r_prefix = None, r_infix = None, r_precedence = PREC_NONE\<rparr>)"

subsection \<open>Recursive calls\<close>

datatype goal =
    Precedence nat         \<comment> \<open>\<open>parsePrecedence\<close>\<close>
  | Infixes nat bool       \<comment> \<open>its loop over the infix operators\<close>
  | Declaration
  | Statement
  | Arguments u8           \<comment> \<open>the loop of \<open>argumentList\<close>\<close>
  | Elements u8            \<comment> \<open>the loop of \<open>map\<close>\<close>
  | Values nat             \<comment> \<open>the loop of \<open>printStatement\<close>\<close>
  | Parameters             \<comment> \<open>the loop of \<open>function\<close>\<close>
  | Globals                \<comment> \<open>the loop of \<open>globalDeclaration\<close>\<close>
  | Declarations "toktype_t list"   \<comment> \<open>\<open>while (!check(..) && ..) declaration(parser)\<close>\<close>
  | Synchronize            \<comment> \<open>the loop of \<open>synchronize\<close>\<close>
  | Script                 \<comment> \<open>the loop of \<open>compile\<close>\<close>

type_synonym rec = "goal \<times> parser_t \<Rightarrow> (u8 \<times> parser_t) res option"

definition go :: "rec \<Rightarrow> goal \<Rightarrow> u8 parse" where
  "go rec g p = rec (g, p)"

definition run :: "rec \<Rightarrow> goal \<Rightarrow> unit parse" where
  "run rec g = bindp (go rec g) (\<lambda>_. ret ())"

definition if_match :: "toktype_t \<Rightarrow> 'a parse \<Rightarrow> 'a parse \<Rightarrow> 'a parse" where
  "if_match ty m n = bindp (ps_match ty) (\<lambda>b. if b then m else n)"

definition expression :: "rec \<Rightarrow> unit parse" where
  "expression rec = run rec (Precedence PREC_ASSIGNMENT)"

subsection \<open>Expressions\<close>

definition arguments_loop :: "rec \<Rightarrow> u8 \<Rightarrow> u8 parse" where
  "arguments_loop rec argCount =
     seqp (expression rec)
       (let argCount = argCount + 1
        in seqp (whenp (argCount = 32) (error ''Cannot have more than 32 arguments.''))
             (if_match TOKEN_COMMA (go rec (Arguments argCount)) (ret argCount)))"

definition argumentList :: "rec \<Rightarrow> u8 parse" where
  "argumentList rec =
     bindp (gets (check TOKEN_RPAREN)) (\<lambda>none.
     bindp (if none then ret 0 else go rec (Arguments 0)) (\<lambda>argCount.
     seqp (consume TOKEN_RPAREN ''Expect ')' after arguments.'') (ret argCount)))"

definition ps_and :: "rec \<Rightarrow> unit parse" where
  "ps_and rec =
     bindp (emitJump OP_JMPF) (\<lambda>endJump.
     seqp (emitOp OP_POP)
    (seqp (run rec (Precedence PREC_AND))
       (patchJump endJump)))"

text \<open>The instructions for an operator.\<close>

fun binary_ops :: "toktype_t \<Rightarrow> unit parse" where
  "binary_ops TOKEN_EQUAL_EQUAL = emitOp OP_EQ"
| "binary_ops TOKEN_LESS = emitOp OP_LT"
| "binary_ops TOKEN_LESS_EQUAL = emitOp OP_LE"
| "binary_ops TOKEN_BANG_EQUAL = emitBytes (opcode_byte OP_EQ) (opcode_byte OP_NOT)"
| "binary_ops TOKEN_GREATER = emitBytes (opcode_byte OP_LE) (opcode_byte OP_NOT)"
| "binary_ops TOKEN_GREATER_EQUAL = emitBytes (opcode_byte OP_LT) (opcode_byte OP_NOT)"
| "binary_ops TOKEN_PLUS = emitOp OP_ADD"
| "binary_ops TOKEN_MINUS = emitOp OP_SUB"
| "binary_ops TOKEN_STAR = emitOp OP_MUL"
| "binary_ops TOKEN_SLASH = emitOp OP_DIV"
| "binary_ops _ = ret ()"

definition binary :: "rec \<Rightarrow> unit parse" where
  "binary rec =
     bindp (gets (\<lambda>p. tok_type (ps_previous p))) (\<lambda>operatorType.
     seqp (run rec (Precedence (r_precedence (getRule operatorType) + 1)))
       (binary_ops operatorType))"

definition call :: "rec \<Rightarrow> unit parse" where
  "call rec = bindp (argumentList rec) (emitSmart OP_CALL)"

definition dot :: "rec \<Rightarrow> bool \<Rightarrow> unit parse" where
  "dot rec canAssign =
     seqp (consume TOKEN_IDENTIFIER ''Expect member name.'')
    (bindp (gets ps_previous) (\<lambda>t.
     bindp (identifierConstant t) (\<lambda>name.
     bindp (if canAssign then ps_match TOKEN_EQUAL else ret False) (\<lambda>assign.
     if assign then seqp (expression rec) (emitSmart OP_SET name)
     else emitSmart OP_GET name))))"

definition ps_index :: "rec \<Rightarrow> bool \<Rightarrow> unit parse" where
  "ps_index rec canAssign =
     seqp (expression rec)
    (seqp (consume TOKEN_RBRACKET (''Expected closing ']'' @ [CHR 0x27]))
    (bindp (if canAssign then ps_match TOKEN_EQUAL else ret False) (\<lambda>assign.
     if assign
     then seqp (expression rec)
         (seqp (emitOp OP_SETI) (modify (\<lambda>p. p\<lparr>ps_hadAssign := True\<rparr>)))
     else emitOp OP_GETI)))"

fun literal_ops :: "toktype_t \<Rightarrow> unit parse" where
  "literal_ops TOKEN_FALSE = emitOp OP_FALSE"
| "literal_ops TOKEN_NULL = emitOp OP_NIL"
| "literal_ops TOKEN_TRUE = emitOp OP_TRUE"
| "literal_ops TOKEN_FUNC = emitSmart OP_LD 0"
| "literal_ops _ = ret ()"

definition literal :: "unit parse" where
  "literal = bindp (gets (\<lambda>p. tok_type (ps_previous p))) literal_ops"

definition grouping :: "rec \<Rightarrow> unit parse" where
  "grouping rec = seqp (expression rec) (consume TOKEN_RPAREN ''Expect ')' after expression.'')"

text \<open>\<open>strtod\<close> is called on the rest of the source.\<close>

definition number :: "unit parse" where
  "number =
     bindp (gets (\<lambda>p. case tok_start (ps_previous p) of
        In_source i \<Rightarrow> drop i (src_buffer (ps_source p)) | Message m \<Rightarrow> m)) (\<lambda>s.
     emitConstant (VAL_NUM (strtod s)))"

definition ps_string :: "unit parse" where
  "ps_string =
     bindp (gets ps_previous) (\<lambda>t.
     bindp (gets ps_source) (\<lambda>source.
     let text = tok_text source (tok_start t) (tok_length t); len = tok_length t - 2
     in bindp (on_vm (str_copy (take len (drop 1 text)) len False)) (\<lambda>s.
        emitConstant (VAL_OBJ s))))"

definition elements_loop :: "rec \<Rightarrow> u8 \<Rightarrow> u8 parse" where
  "elements_loop rec count =
     seqp (expression rec)
       (if_match TOKEN_COMMA (go rec (Elements (count + 1))) (ret (count + 1)))"

definition ps_map :: "rec \<Rightarrow> unit parse" where
  "ps_map rec =
     bindp (gets (check TOKEN_RBRACKET)) (\<lambda>none.
     bindp (if none then ret 0 else go rec (Elements 0)) (\<lambda>count.
     seqp (consume TOKEN_RBRACKET ''Expected closing ']'.'') (emitSmart OP_MAP count)))"

definition namedVariable :: "rec \<Rightarrow> tok_t \<Rightarrow> bool \<Rightarrow> unit parse" where
  "namedVariable rec name canAssign =
     bindp (resolveLocal name) (\<lambda>arg.
     bindp (case arg of
              Some i \<Rightarrow> ret (word_of_nat i, OP_LD, OP_ST)
            | None \<Rightarrow> bindp (identifierConstant name) (\<lambda>k. ret (k, OP_GLD, OP_GST)))
       (\<lambda>(arg, getOp, setOp).
     bindp (if canAssign then ps_match TOKEN_EQUAL else ret False) (\<lambda>assign.
     if assign
     then seqp (expression rec)
         (seqp (emitSmart setOp arg) (modify (\<lambda>p. p\<lparr>ps_hadAssign := True\<rparr>)))
     else emitSmart getOp arg)))"

definition variable :: "rec \<Rightarrow> bool \<Rightarrow> unit parse" where
  "variable rec canAssign = bindp (gets ps_previous) (\<lambda>name. namedVariable rec name canAssign)"

definition ps_or :: "rec \<Rightarrow> unit parse" where
  "ps_or rec =
     bindp (emitJump OP_JMPF) (\<lambda>elseJump.
     bindp (emitJump OP_JMP) (\<lambda>endJump.
     seqp (patchJump elseJump)
    (seqp (emitOp OP_POP)
    (seqp (run rec (Precedence PREC_OR))
       (patchJump endJump)))))"

fun unary_ops :: "toktype_t \<Rightarrow> unit parse" where
  "unary_ops TOKEN_NOT = emitOp OP_NOT"
| "unary_ops TOKEN_BANG = emitOp OP_NOT"
| "unary_ops TOKEN_MINUS = emitOp OP_NEG"
| "unary_ops _ = ret ()"

definition unary :: "rec \<Rightarrow> unit parse" where
  "unary rec =
     bindp (gets (\<lambda>p. tok_type (ps_previous p))) (\<lambda>operatorType.
     seqp (run rec (Precedence PREC_UNARY)) (unary_ops operatorType))"

definition run_rule :: "rec \<Rightarrow> parsefn \<Rightarrow> bool \<Rightarrow> unit parse" where
  "run_rule rec r canAssign =
     (case r of
        P_grouping \<Rightarrow> grouping rec
      | P_map \<Rightarrow> ps_map rec
      | P_unary \<Rightarrow> unary rec
      | P_variable \<Rightarrow> variable rec canAssign
      | P_string \<Rightarrow> ps_string
      | P_number \<Rightarrow> number
      | P_literal \<Rightarrow> literal
      | P_call \<Rightarrow> call rec
      | P_index \<Rightarrow> ps_index rec canAssign
      | P_dot \<Rightarrow> dot rec canAssign
      | P_binary \<Rightarrow> binary rec
      | P_and \<Rightarrow> ps_and rec
      | P_or \<Rightarrow> ps_or rec)"

definition infixes_loop :: "rec \<Rightarrow> nat \<Rightarrow> bool \<Rightarrow> unit parse" where
  "infixes_loop rec precedence canAssign =
     bindp (gets (\<lambda>p. p)) (\<lambda>p.
     if r_precedence (getRule (tok_type (ps_current p))) < precedence \<or>
        tok_line (ps_previous p) < tok_line (ps_current p) then ret ()
     else
       seqp (whenp (check TOKEN_LPAREN p) (modify (\<lambda>p. p\<lparr>ps_hadCall := True\<rparr>)))
      (seqp ps_advance
      (bindp (gets (\<lambda>p. r_infix (getRule (tok_type (ps_previous p))))) (\<lambda>infixRule.
       case infixRule of
         None \<Rightarrow> (\<lambda>p. Some (Inl (Undefined Bad_pointer)))
       | Some r \<Rightarrow> seqp (run_rule rec r canAssign) (run rec (Infixes precedence canAssign))))))"

definition parsePrecedence :: "rec \<Rightarrow> nat \<Rightarrow> unit parse" where
  "parsePrecedence rec precedence =
     seqp ps_advance
    (bindp (gets (\<lambda>p. r_prefix (getRule (tok_type (ps_previous p))))) (\<lambda>prefixRule.
     case prefixRule of
       None \<Rightarrow> error ''Expect expression.''
     | Some r \<Rightarrow>
         let canAssign = precedence \<le> PREC_ASSIGNMENT
         in seqp (run_rule rec r canAssign)
           (seqp (modify (\<lambda>p. p\<lparr>ps_subExprs := ps_subExprs p + 1\<rparr>))
           (seqp (run rec (Infixes precedence canAssign))
             (if canAssign
              then if_match TOKEN_EQUAL (error ''Invalid assignment target.'') (ret ())
              else ret ())))))"

subsection \<open>Declarations\<close>

text \<open>\<open>while (!check(a) && ...) declaration(parser)\<close>.\<close>

definition declarations_loop :: "rec \<Rightarrow> toktype_t list \<Rightarrow> unit parse" where
  "declarations_loop rec stop =
     bindp (gets (\<lambda>p. tok_type (ps_current p))) (\<lambda>ty.
     if ty \<in> set stop then ret ()
     else seqp (run rec Declaration) (run rec (Declarations stop)))"

definition block :: "rec \<Rightarrow> unit parse" where
  "block rec =
     seqp (run rec (Declarations [TOKEN_RBRACE, TOKEN_EOF]))
       (consume TOKEN_RBRACE ''Expect '}' after block.'')"

definition inlineBlock :: "rec \<Rightarrow> unit parse" where
  "inlineBlock rec =
     bindp (gets (\<lambda>p. p)) (\<lambda>p.
     if tok_line (ps_current p) = tok_line (ps_previous p) \<and> \<not> check TOKEN_EOF p
     then run rec Declaration
     else run rec (Declarations [TOKEN_ELSE, TOKEN_EOF]))"

definition parameters_loop :: "rec \<Rightarrow> unit parse" where
  "parameters_loop rec =
     bindp cur_fun (\<lambda>f.
     let arity = fn_arity f + 1
     in seqp (set_cur_fun (f\<lparr>fn_arity := arity\<rparr>))
       (seqp (whenp (32 < arity) (errorAtCurrent ''Cannot have more than 32 parameters.''))
       (bindp (parseVariable ''Expect parameter name.'') (\<lambda>paramConstant.
        seqp (defineVariable paramConstant)
          (if_match TOKEN_COMMA (run rec Parameters) (ret ()))))))"

definition ps_function :: "rec \<Rightarrow> funtype_t \<Rightarrow> unit parse" where
  "ps_function rec ty =
     seqp (initCompiler ty)
    (seqp beginScope
    (seqp (consume TOKEN_LPAREN ''Expect '(' after function name.'')
    (bindp (gets (check TOKEN_RPAREN)) (\<lambda>none.
     seqp (whenp (\<not> none) (run rec Parameters))
    (seqp (consume TOKEN_RPAREN ''Expect ')' after parameters.'')
    (seqp (run rec (Declarations [TOKEN_END, TOKEN_ENDFUNC, TOKEN_EOF]))
    (seqp (consumes TOKEN_END TOKEN_ENDFUNC ''Expect 'End' or 'EndFunc' after function body.'')
    (bindp endCompiler (\<lambda>f.
     bindp (makeConstant (VAL_OBJ f)) (emitSmart OP_CONST))))))))))"

definition funDeclaration :: "rec \<Rightarrow> unit parse" where
  "funDeclaration rec =
     bindp (parseVariable ''Expect function name.'') (\<lambda>global.
     seqp markInitialized
    (seqp (ps_function rec TYPE_FUNCTION)
       (defineVariable global)))"

definition varDeclaration :: "rec \<Rightarrow> unit parse" where
  "varDeclaration rec =
     bindp (parseVariable ''Expect variable name.'') (\<lambda>global.
     seqp (if_match TOKEN_EQUAL (expression rec) (emitOp OP_NIL))
       (defineVariable global))"

definition globals_loop :: "rec \<Rightarrow> unit parse" where
  "globals_loop rec =
     bindp (parseVariable ''Expect variable name.'') (\<lambda>global.
     seqp (if_match TOKEN_EQUAL (expression rec) (emitOp OP_NIL))
    (seqp (emitSmart OP_DEF global)
       (if_match TOKEN_COMMA (run rec Globals) (ret ()))))"

definition globalDeclaration :: "rec \<Rightarrow> unit parse" where
  "globalDeclaration rec = run rec Globals"

subsection \<open>Statements\<close>

definition expressionStatement :: "rec \<Rightarrow> unit parse" where
  "expressionStatement rec =
     seqp (modify (\<lambda>p. p\<lparr>ps_hadCall := False, ps_hadAssign := False, ps_subExprs := 0\<rparr>))
    (seqp (expression rec)
    (seqp (emitOp OP_POP)
    (bindp (gets (\<lambda>p. p)) (\<lambda>p.
     whenp (ps_subExprs p \<le> 1 \<and> \<not> ps_hadCall p \<and> \<not> ps_hadAssign p)
       (error ''Unexpected expression syntax.'')))))"

definition ifStatement :: "rec \<Rightarrow> unit parse" where
  "ifStatement rec =
     seqp (expression rec)
    (seqp (consume TOKEN_THEN ''Expect 'Then' after condition.'')
    (bindp (gets (\<lambda>p. tok_line (ps_current p) = tok_line (ps_previous p))) (\<lambda>isInline.
     bindp (emitJump OP_JMPF) (\<lambda>thenJump.
     seqp (emitOp OP_POP)
    (seqp (run rec Statement)
    (bindp (emitJump OP_JMP) (\<lambda>elseJump.
     seqp (patchJump thenJump)
    (seqp (emitOp OP_POP)
    (seqp (if_match TOKEN_ELSE (run rec Statement) (ret ()))
    (seqp (patchJump elseJump)
       (whenp (\<not> isInline)
          (consumes TOKEN_END TOKEN_ENDIF ''Expect 'End' or 'EndIf' after block.''))))))))))))"

definition values_loop :: "rec \<Rightarrow> nat \<Rightarrow> unit parse" where
  "values_loop rec count =
     seqp (expression rec)
       (if 32 < count + 1 then error ''Too many values in 'print' statement.''
        else if_match TOKEN_COMMA (run rec (Values (count + 1)))
               (emitSmart OP_PRINT (word_of_nat (count + 1))))"

definition printStatement :: "rec \<Rightarrow> unit parse" where
  "printStatement rec = run rec (Values 0)"

definition returnStatement :: "rec \<Rightarrow> unit parse" where
  "returnStatement rec =
     bindp get_compiler (\<lambda>c.
     if cp_type c = TYPE_SCRIPT then error ''Cannot return from top-level code.''
     else
       bindp (gets (\<lambda>p. p)) (\<lambda>p.
       if check TOKEN_RBRACE p \<or> check TOKEN_END p \<or> check TOKEN_ENDFUNC p \<or>
          tok_line (ps_previous p) < tok_line (ps_current p) then emitReturn
       else seqp (expression rec) (emitOp OP_RET)))"

text \<open>No instruction leaves the program: the value stays on the stack.\<close>

definition exitStatement :: "rec \<Rightarrow> unit parse" where
  "exitStatement rec =
     bindp (gets (\<lambda>p. p)) (\<lambda>p.
     seqp (if tok_line (ps_current p) = tok_line (ps_previous p) \<and> \<not> check TOKEN_RPAREN p
           then expression rec else emitOp OP_NIL)
       (whenp (check TOKEN_LPAREN p) (consume TOKEN_RPAREN ''Expected ')' closing.'')))"

definition synchronize_loop :: "rec \<Rightarrow> unit parse" where
  "synchronize_loop rec =
     bindp (gets (\<lambda>p. tok_type (ps_current p))) (\<lambda>ty.
     if ty \<in> set [TOKEN_EOF, TOKEN_CLASS, TOKEN_FUNC, TOKEN_VAR, TOKEN_FOR, TOKEN_IF, TOKEN_WHILE,
          TOKEN_PRINT, TOKEN_RETURN] then ret ()
     else seqp ps_advance (run rec Synchronize))"

definition synchronize :: "rec \<Rightarrow> unit parse" where
  "synchronize rec = seqp (modify (\<lambda>p. p\<lparr>ps_panicMode := False\<rparr>)) (run rec Synchronize)"

definition ps_declaration :: "rec \<Rightarrow> unit parse" where
  "ps_declaration rec =
     seqp (if_match TOKEN_FUNC (funDeclaration rec)
          (if_match TOKEN_VAR (varDeclaration rec)
          (if_match TOKEN_GLOBAL (globalDeclaration rec)
             (run rec Statement))))
    (bindp (gets ps_panicMode) (\<lambda>panicMode. whenp panicMode (synchronize rec)))"

definition scoped :: "unit parse \<Rightarrow> unit parse" where
  "scoped m = seqp beginScope (seqp m endScope)"

definition statement :: "rec \<Rightarrow> unit parse" where
  "statement rec =
     if_match TOKEN_PRINT (printStatement rec)
    (if_match TOKEN_IF (ifStatement rec)
    (if_match TOKEN_RETURN (returnStatement rec)
    (if_match TOKEN_EXIT (exitStatement rec)
    (if_match TOKEN_LBRACE (scoped (block rec))
    (bindp (gets (\<lambda>p. tok_type (ps_previous p))) (\<lambda>previous.
     if previous = TOKEN_THEN then scoped (inlineBlock rec)
     else if previous = TOKEN_ELSE then scoped (run rec (Declarations [TOKEN_ENDIF, TOKEN_EOF]))
     else expressionStatement rec))))))"

definition script_loop :: "rec \<Rightarrow> unit parse" where
  "script_loop rec = if_match TOKEN_EOF (ret ()) (seqp (run rec Declaration) (run rec Script))"

subsection \<open>The recursion\<close>

definition no_result :: "unit parse \<Rightarrow> u8 parse" where
  "no_result m = seqp m (ret 0)"

definition parse_goal :: "rec \<Rightarrow> goal \<Rightarrow> u8 parse" where
  "parse_goal rec g =
     (case g of
        Precedence n \<Rightarrow> no_result (parsePrecedence rec n)
      | Infixes n b \<Rightarrow> no_result (infixes_loop rec n b)
      | Declaration \<Rightarrow> no_result (ps_declaration rec)
      | Statement \<Rightarrow> no_result (statement rec)
      | Arguments n \<Rightarrow> arguments_loop rec n
      | Elements n \<Rightarrow> elements_loop rec n
      | Values n \<Rightarrow> no_result (values_loop rec n)
      | Parameters \<Rightarrow> no_result (parameters_loop rec)
      | Globals \<Rightarrow> no_result (globals_loop rec)
      | Declarations stop \<Rightarrow> no_result (declarations_loop rec stop)
      | Synchronize \<Rightarrow> no_result (synchronize_loop rec)
      | Script \<Rightarrow> no_result (script_loop rec))"

text \<open>Each definition is monotone in the recursive calls.\<close>

lemma go_mono [partial_function_mono]:
  "monotone (fun_ord option_ord) option_ord (\<lambda>rec. go rec g p)"
  unfolding go_def by (rule call_mono)

lemma run_mono [partial_function_mono]:
  "monotone (fun_ord option_ord) option_ord (\<lambda>rec. run rec g p)"
  unfolding run_def by (intro partial_function_mono option.const_mono)

lemma if_app_mono [partial_function_mono]:
  assumes "monotone (fun_ord option_ord) option_ord (\<lambda>f. m f p)"
    and "monotone (fun_ord option_ord) option_ord (\<lambda>f. k f p)"
  shows "monotone (fun_ord option_ord) option_ord (\<lambda>f. (if b then m f else k f) p)"
  using assms by (cases b) simp_all

lemma option_app_mono [partial_function_mono]:
  assumes "monotone (fun_ord option_ord) option_ord (\<lambda>f. m f p)"
    and "\<And>y. monotone (fun_ord option_ord) option_ord (\<lambda>f. k f y p)"
  shows "monotone (fun_ord option_ord) option_ord
    (\<lambda>f. (case x of None \<Rightarrow> m f | Some y \<Rightarrow> k f y) p)"
  using assms by (cases x) simp_all

lemma prod_app_mono [partial_function_mono]:
  assumes "\<And>y z. monotone (fun_ord option_ord) option_ord (\<lambda>f. k f y z p)"
  shows "monotone (fun_ord option_ord) option_ord (\<lambda>f. (case x of (y, z) \<Rightarrow> k f y z) p)"
  using assms by (cases x) simp

lemma whenp_mono [partial_function_mono]:
  "monotone (fun_ord option_ord) option_ord (\<lambda>f. m f p) \<Longrightarrow>
     monotone (fun_ord option_ord) option_ord (\<lambda>f. whenp b (m f) p)"
  unfolding whenp_def by (intro partial_function_mono option.const_mono)

lemma if_match_mono [partial_function_mono]:
  assumes "\<And>p. monotone (fun_ord option_ord) option_ord (\<lambda>f. m f p)"
    and "\<And>p. monotone (fun_ord option_ord) option_ord (\<lambda>f. k f p)"
  shows "monotone (fun_ord option_ord) option_ord (\<lambda>f. if_match ty (m f) (k f) p)"
  unfolding if_match_def by (intro partial_function_mono option.const_mono assms)

lemma no_result_mono [partial_function_mono]:
  assumes "\<And>p. monotone (fun_ord option_ord) option_ord (\<lambda>f. m f p)"
  shows "monotone (fun_ord option_ord) option_ord (\<lambda>f. no_result (m f) p)"
  unfolding no_result_def by (intro partial_function_mono option.const_mono assms)

lemma scoped_mono [partial_function_mono]:
  assumes "\<And>p. monotone (fun_ord option_ord) option_ord (\<lambda>f. m f p)"
  shows "monotone (fun_ord option_ord) option_ord (\<lambda>f. scoped (m f) p)"
  unfolding scoped_def by (intro partial_function_mono option.const_mono assms)

lemmas expression_defs =
  expression_def arguments_loop_def argumentList_def ps_and_def binary_def call_def dot_def
  ps_index_def grouping_def elements_loop_def ps_map_def namedVariable_def variable_def ps_or_def
  unary_def

lemmas statement_defs =
  infixes_loop_def parsePrecedence_def declarations_loop_def block_def inlineBlock_def
  parameters_loop_def ps_function_def funDeclaration_def varDeclaration_def globals_loop_def
  globalDeclaration_def expressionStatement_def ifStatement_def values_loop_def
  printStatement_def returnStatement_def exitStatement_def synchronize_loop_def synchronize_def
  ps_declaration_def statement_def script_loop_def

lemma run_rule_mono [partial_function_mono]:
  "monotone (fun_ord option_ord) option_ord (\<lambda>rec. run_rule rec r b p)"
  unfolding run_rule_def expression_defs Let_def
  by (cases r; simp only: parsefn.case; intro partial_function_mono option.const_mono)

lemma parse_goal_mono [partial_function_mono]:
  "monotone (fun_ord option_ord) option_ord (\<lambda>rec. parse_goal rec g p)"
  unfolding parse_goal_def expression_defs statement_defs Let_def
  by (cases g; simp only: goal.case; intro partial_function_mono option.const_mono)

partial_function (option) parse :: "goal \<times> parser_t \<Rightarrow> (u8 \<times> parser_t) res option" where
  "parse x = parse_goal parse (fst x) (snd x)"

declare parse.simps [code]

subsection \<open>Compiling a source\<close>

text \<open>
  \<open>tok0\<close> is what \<open>parser.current\<close> holds before the first token. The counters of expression
  statements are reset before each use, and start at zero here.
\<close>

definition parser_init :: "tok_t \<Rightarrow> src_t \<Rightarrow> vm_t \<Rightarrow> parser_t" where
  "parser_init tok0 source vm =
     \<lparr>ps_vm = vm, ps_lexer = lexer_init, ps_source = source, ps_compilers = [], ps_current = tok0,
      ps_previous = tok0, ps_subExprs = 0, ps_hadCall = False, ps_hadAssign = False,
      ps_hadError = False, ps_panicMode = False\<rparr>"

definition compile_source :: "addr parse" where
  "compile_source =
     seqp (initCompiler TYPE_SCRIPT)
    (seqp ps_advance
    (seqp (run parse Script)
       endCompiler))"

definition compile :: "tok_t \<Rightarrow> src_t \<Rightarrow> vm_t \<Rightarrow> (addr option \<times> vm_t) res" where
  "compile tok0 source vm =
     bindr (returns (compile_source (parser_init tok0 source vm))) (\<lambda>r.
     bindr r (\<lambda>(f, p). Inr (if ps_hadError p then None else Some f, ps_vm p)))"

end
