(* ===== verification/Bytecode.thy ===== *)
theory Bytecode
  imports Frames "HOL-Library.Sublist"
begin

text \<open>
  Well-formed bytecode: the code is a sequence of whole instructions, jumps lead to the start of an instruction,
  operands that select constants select existing ones (strings, where the machine reads a
  name), and the last instruction is a return. \<open>OP_DEF\<close> is the exception: the compiler emits it
  with the operand 0 for a \<open>Global\<close> in a scope, where no constant has been made.
\<close>

subsection \<open>Instructions\<close>

text \<open>The opcodes without operands, and those whose operand can be any byte.\<close>

definition bare_op :: "opcode_t \<Rightarrow> bool" where
  "bare_op op \<longleftrightarrow> op \<in> {OP_POP, OP_RET, OP_NIL, OP_TRUE, OP_FALSE, OP_NEG, OP_NOT, OP_LT, OP_LE, OP_EQ,
     OP_ADD, OP_SUB, OP_MUL, OP_DIV, OP_GETI, OP_SETI}"

definition free_op :: "opcode_t \<Rightarrow> bool" where
  "free_op op \<longleftrightarrow> op \<in> {OP_PRINT, OP_CALL, OP_LD, OP_ST, OP_MAP, OP_DEF}"

definition name_op :: "opcode_t \<Rightarrow> bool" where
  "name_op op \<longleftrightarrow> op \<in> {OP_GLD, OP_GST, OP_GET, OP_SET}"

function instrs :: "u8 list \<Rightarrow> (opcode_t \<times> u8 list) list option" where
  "instrs [] = Some []"
| "instrs (b # bs) =
     (case decode_op b of
        None \<Rightarrow> None
      | Some op \<Rightarrow>
          if length bs < op_len op then None
          else map_option (\<lambda>is. (op, take (op_len op) bs) # is) (instrs (drop (op_len op) bs)))"
  by pat_completeness auto
termination by (relation "measure length") auto

text \<open>The length of the code of a sequence of opcodes.\<close>

definition off :: "opcode_t list \<Rightarrow> nat" where
  "off ops = sum_list (map (\<lambda>op. Suc (op_len op)) ops)"

lemma off_simps [simp]: "off [] = 0" "off (op # ops) = Suc (op_len op) + off ops"
  "off (xs @ ys) = off xs + off ys"
  by (simp_all add: off_def)

lemma instrs_Cons:
  assumes "instrs (b # bs) = Some is"
  obtains op is' where "decode_op b = Some op" and "op_len op \<le> length bs"
    and "instrs (drop (op_len op) bs) = Some is'" and "is = (op, take (op_len op) bs) # is'"
  using assms by (auto split: option.splits if_splits)

lemma instrs_length: "instrs cs = Some is \<Longrightarrow> length cs = off (map fst is)"
proof (induction cs arbitrary: "is" rule: instrs.induct)
  case (2 b bs)
  from 2(2) obtain op is' where "decode_op b = Some op" "op_len op \<le> length bs"
    "instrs (drop (op_len op) bs) = Some is'" "is = (op, take (op_len op) bs) # is'"
    by (rule instrs_Cons)
  with 2(1) [of op is'] show ?case by simp
qed simp

lemma instrs_append: "instrs cs = Some is \<Longrightarrow> instrs (cs @ ds) = map_option ((@) is) (instrs ds)"
proof (induction cs arbitrary: "is" rule: instrs.induct)
  case (2 b bs)
  from 2(2) obtain op is' where "decode_op b = Some op" "op_len op \<le> length bs"
    "instrs (drop (op_len op) bs) = Some is'" "is = (op, take (op_len op) bs) # is'"
    by (rule instrs_Cons)
  with 2(1) [of op is'] show ?case by (simp add: option.map_comp comp_def)
qed (cases "instrs ds"; simp)

lemma instrs_one: "length args = op_len op \<Longrightarrow> instrs (opcode_byte op # args) = Some [(op, args)]"
  by simp

text \<open>The instruction with index \<open>k\<close> starts at \<open>off (take k ops)\<close>.\<close>

lemma instrs_nth:
  assumes "instrs cs = Some is" and "k < length is"
  shows "off (take k (map fst is)) + Suc (op_len (fst (is ! k))) \<le> length cs \<and>
    decode_op (cs ! off (take k (map fst is))) = Some (fst (is ! k)) \<and>
    take (op_len (fst (is ! k))) (drop (Suc (off (take k (map fst is)))) cs) = snd (is ! k)"
  using assms
proof (induction cs arbitrary: "is" k rule: instrs.induct)
  case (2 b bs)
  from 2(2) obtain op is' where i: "decode_op b = Some op" "op_len op \<le> length bs"
    "instrs (drop (op_len op) bs) = Some is'" "is = (op, take (op_len op) bs) # is'"
    by (rule instrs_Cons)
  show ?case
  proof (cases k)
    case (Suc j)
    with 2(3) i have "j < length is'" by simp
    with 2(1) [of op is' j] i have IH: "off (take j (map fst is')) + Suc (op_len (fst (is' ! j))) \<le> length bs - op_len op"
      "decode_op (drop (op_len op) bs ! off (take j (map fst is'))) = Some (fst (is' ! j))"
      "take (op_len (fst (is' ! j))) (drop (Suc (off (take j (map fst is')))) (drop (op_len op) bs)) = snd (is' ! j)"
      by simp_all
    from IH(1) i(2) have "off (take j (map fst is')) + op_len op < length bs" by arith
    with IH i Suc show ?thesis by (simp add: add.commute add.left_commute)
  qed (use i in simp)
qed simp

lemma instrs_update:
  assumes "instrs cs = Some is" and "k < length is" and "op_len (fst (is ! k)) = 2"
    and "n = Suc (off (take k (map fst is)))"
  shows "instrs (cs[n := h, Suc n := l]) = Some (is[k := (fst (is ! k), [h, l])])"
  using assms
proof (induction cs arbitrary: "is" k n rule: instrs.induct)
  case (2 b bs)
  from 2(2) obtain op is' where i: "decode_op b = Some op" "op_len op \<le> length bs"
    "instrs (drop (op_len op) bs) = Some is'" "is = (op, take (op_len op) bs) # is'"
    by (rule instrs_Cons)
  show ?case
  proof (cases k)
    case 0
    with 2(4,5) i have n: "n = 1" "op_len op = 2" by simp_all
    with i(2) obtain x y zs where "bs = x # y # zs"
      by (cases bs; cases "tl bs") auto
    with n i 0 show ?thesis by (simp add: numeral_2_eq_2)
  next
    case (Suc j)
    let ?n = "Suc (off (take j (map fst is')))"
    have n: "n = Suc (op_len op + ?n)" using 2(5) i Suc by simp
    have IH: "instrs ((drop (op_len op) bs)[?n := h, Suc ?n := l]) = Some (is'[j := (fst (is' ! j), [h, l])])"
      using 2(1) [of op is' j ?n] 2(3,4) i Suc by simp
    have "drop (op_len op) (bs[op_len op + ?n := h, Suc (op_len op + ?n) := l]) =
        (drop (op_len op) bs)[?n := h, Suc ?n := l]"
      by (simp add: drop_update_swap)
    moreover have "take (op_len op) (bs[op_len op + ?n := h, Suc (op_len op + ?n) := l]) = take (op_len op) bs"
      by simp
    ultimately show ?thesis using IH i n Suc by simp
  qed
qed simp

lemma off_take_Suc:
  "k < length ops \<Longrightarrow> off (take (Suc k) ops) = off (take k ops) + Suc (op_len (ops ! k))"
  by (simp add: take_Suc_conv_app_nth)

subsection \<open>Well-formed code\<close>

text \<open>Where the jump with index \<open>k\<close> leads, relative to the byte behind it.\<close>

definition jump_target :: "(opcode_t \<times> u8 list) list \<Rightarrow> nat \<Rightarrow> nat" where
  "jump_target is k = off (take (Suc k) (map fst is)) + unat (short_of (snd (is ! k) ! 0) (snd (is ! k) ! 1))"

definition jumps_in :: "(opcode_t \<times> u8 list) list \<Rightarrow> nat \<Rightarrow> bool" where
  "jumps_in is b \<longleftrightarrow> (\<forall>k < length is. op_len (fst (is ! k)) = 2 \<longrightarrow>
     (\<exists>m \<le> b. jump_target is k = off (take m (map fst is))))"

definition operand_ok :: "obj_heap \<Rightarrow> val_t list \<Rightarrow> opcode_t \<Rightarrow> u8 list \<Rightarrow> bool" where
  "operand_ok h consts op args \<longleftrightarrow>
     (op = OP_CONST \<longrightarrow> unat (hd args) < length consts) \<and>
     (name_op op \<longrightarrow> unat (hd args) < length consts \<and>
        (case consts ! unat (hd args) of VAL_OBJ a \<Rightarrow> is_str h a | _ \<Rightarrow> False))"

definition body_ok :: "obj_heap \<Rightarrow> fun_t \<Rightarrow> (opcode_t \<times> u8 list) list \<Rightarrow> nat \<Rightarrow> bool" where
  "body_ok h f is b \<longleftrightarrow>
     chunk_ok (fn_chunk f) \<and> instrs (ck_code (fn_chunk f)) = Some is \<and> jumps_in is b \<and>
     (\<forall>(op, args) \<in> set is. operand_ok h (arr_values (ck_constants (fn_chunk f))) op args)"

text \<open>A function that is compiled at the moment, and a finished one.\<close>

definition open_code :: "obj_heap \<Rightarrow> fun_t \<Rightarrow> bool" where
  "open_code h f \<longleftrightarrow> (\<exists>is. body_ok h f is (length is))"

definition code_ok :: "obj_heap \<Rightarrow> fun_t \<Rightarrow> bool" where
  "code_ok h f \<longleftrightarrow> (\<exists>is. body_ok h f is (length is - 1) \<and> is \<noteq> [] \<and> fst (last is) = OP_RET)"

lemma operand_ok_mono:
  assumes "operand_ok h cs op args" and "prefix cs cs'" and "\<And>a. is_str h a \<Longrightarrow> is_str h' a"
  shows "operand_ok h' cs' op args"
  using assms by (auto simp: operand_ok_def prefix_def nth_append split: val_t.splits)

lemma body_ok_heap:
  "body_ok h f is b \<Longrightarrow> (\<And>a. is_str h a \<Longrightarrow> is_str h' a) \<Longrightarrow> body_ok h' f is b"
  unfolding body_ok_def by (blast intro: operand_ok_mono [OF _ prefix_order.refl])

lemma code_heap:
  assumes "\<And>a. is_str h a \<Longrightarrow> is_str h' a"
  shows "open_code h f \<Longrightarrow> open_code h' f" and "code_ok h f \<Longrightarrow> code_ok h' f"
  using body_ok_heap [OF _ assms] unfolding open_code_def code_ok_def by blast+

end
