(* ===== verification/Parser_Contract.thy ===== *)
theory Parser_Contract
  imports Compiler Bytecode
begin

text \<open>
  What the whole compiler keeps. The locale \<open>parser_contract\<close> lists what an invariant of the compiler has to
  guarantee of its basic operations: reading a token, reporting an error, emitting an
  instruction, adding a constant, patching a jump, entering and leaving a function. Inside
  it the invariant is shown for every function of the parser, and for \<open>parse\<close> by induction on its
  recursive calls, once for all invariants. \<open>R\<close> relates a state to the later ones at the same
  nesting of functions.
\<close>

subsection \<open>Post-conditions\<close>

definition okp :: "('a \<Rightarrow> parser_t \<Rightarrow> bool) \<Rightarrow> ('a \<times> parser_t) res option \<Rightarrow> bool" where
  "okp Q r \<longleftrightarrow> (\<forall>x p. r = Some (Inr (x, p)) \<longrightarrow> Q x p)"

lemma okp_simps [simp]:
  "okp Q None" "okp Q (Some (Inl e))" "okp Q (Some (Inr (x, p))) \<longleftrightarrow> Q x p"
  by (simp_all add: okp_def)

lemma okp_bindp [simp]: "okp Q (bindp m k p) \<longleftrightarrow> okp (\<lambda>x. okp Q \<circ> k x) (m p)"
  by (auto simp: bindp_def okp_def split: option.splits sum.splits)

lemma okp_seqp [simp]: "okp Q (seqp m n p) \<longleftrightarrow> okp (\<lambda>_. okp Q \<circ> n) (m p)"
  by (simp add: seqp_def)

lemma okp_basic [simp]:
  "okp P (ret x p) \<longleftrightarrow> P x p" "okp Q (gets f p) \<longleftrightarrow> Q (f p) p" "okp R (modify g p) \<longleftrightarrow> R () (g p)"
  by (simp_all add: ret_def gets_def modify_def)

lemma okp_get_compiler [simp]:
  "okp Q (get_compiler p) \<longleftrightarrow> (\<forall>c. cur_compiler p = Inr c \<longrightarrow> Q c p)"
  by (cases "cur_compiler p") (simp_all add: get_compiler_def)

lemma okp_cur_fun [simp]:
  "okp Q (cur_fun p) \<longleftrightarrow> (\<forall>f. cur_fun p = Some (Inr (f, p)) \<longrightarrow> Q f p)"
  by (auto simp: okp_def cur_fun_def elim!: bindr_Inr_E)

lemma okp_mono: "okp P r \<Longrightarrow> (\<And>x p. P x p \<Longrightarrow> Q x p) \<Longrightarrow> okp Q r"
  by (simp add: okp_def)

lemma bindp_assoc: "bindp (bindp m k) l = bindp m (\<lambda>x. bindp (k x) l)"
  by (auto simp: fun_eq_iff bindp_def split: option.split sum.split)

lemma seqp_assoc: "seqp (seqp m n) k = seqp m (seqp n k)"
  "bindp (seqp m n') l = seqp m (bindp n' l)" "seqp (bindp m' h) k' = bindp m' (\<lambda>x. seqp (h x) k')"
  by (simp_all add: seqp_def bindp_assoc)

lemma bindp_gets: "bindp (gets f) k p = k (f p) p"
  by (simp add: bindp_def gets_def)

text \<open>A token whose text lies in the source, or in the message of an error.\<close>

definition tok_good :: "src_t \<Rightarrow> tok_t \<Rightarrow> bool" where
  "tok_good source t \<longleftrightarrow> length (tok_text source (tok_start t) (tok_length t)) = tok_length t"

subsection \<open>The contract\<close>

locale parser_errors =
  fixes I :: "parser_t \<Rightarrow> bool"
    and R :: "parser_t \<Rightarrow> parser_t \<Rightarrow> bool"
  assumes R_refl: "R p p"
    and R_trans: "R p1 p2 \<Longrightarrow> R p2 p3 \<Longrightarrow> R p1 p3"
    and R_source: "R p p' \<Longrightarrow> ps_source p' = ps_source p"
    and I_error: "I p \<Longrightarrow> p' = p\<lparr>ps_vm := (ps_vm p)\<lparr>stderr := stderr (ps_vm p) @ [Compile_error item]\<rparr>,
        ps_panicMode := True, ps_hadError := True\<rparr> \<Longrightarrow> I p' \<and> R p p'"
begin

lemma okp_errorAt:
  "I p \<Longrightarrow> okp (\<lambda>_ p'. I p' \<and> R p p') (errorAt tok message p)"
  using R_refl I_error
  by (auto simp: errorAt_def Let_def split: tok_ptr.split option.split)

lemma okp_errors:
  "I p \<Longrightarrow> okp (\<lambda>_ p'. I p' \<and> R p p') (error message p)"
  "I p \<Longrightarrow> okp (\<lambda>_ p'. I p' \<and> R p p') (errorAtCurrent message p)"
  by (simp_all add: error_def errorAtCurrent_def okp_errorAt)

end

text \<open>The whole contract.\<close>

locale parser_contract = parser_errors I R
  for I :: "parser_t \<Rightarrow> bool" and R :: "parser_t \<Rightarrow> parser_t \<Rightarrow> bool" +
  fixes A :: "parser_t \<Rightarrow> opcode_t \<Rightarrow> u8 \<Rightarrow> bool"    \<comment> \<open>a valid operand\<close>
    and J :: "parser_t \<Rightarrow> nat \<Rightarrow> bool"              \<comment> \<open>a jump to be patched\<close>
    and S :: "parser_t \<Rightarrow> parser_t \<Rightarrow> bool"        \<comment> \<open>a function has been entered\<close>
  assumes A_mono: "R p p' \<Longrightarrow> A p op k \<Longrightarrow> A p' op k"
    and J_mono: "R p p' \<Longrightarrow> J p n \<Longrightarrow> J p' n"
    and A_free: "free_op op \<Longrightarrow> A p op k"
    and I_token: "I p \<Longrightarrow> tok_good (ps_source p) (ps_previous p)"
    and I_flags: "I p \<Longrightarrow>
      p' = p\<lparr>ps_subExprs := subExprs, ps_hadCall := hadCall, ps_hadAssign := hadAssign,
        ps_panicMode := ps_panicMode p \<and> panic\<rparr>
      \<Longrightarrow> I p' \<and> R p p'"
    and I_scan: "I p \<Longrightarrow> I (scan_current p) \<and> R p (scan_current p)"
    and I_previous: "I p \<Longrightarrow> p' = p\<lparr>ps_previous := ps_current p\<rparr> \<Longrightarrow> I p' \<and> R p p'"
    and I_compiler: "I p \<Longrightarrow> cur_compiler p = Inr c \<Longrightarrow> p' = set_compiler c' p \<Longrightarrow>
      cp_function c' = cp_function c \<Longrightarrow> cp_type c' = cp_type c \<Longrightarrow> I p' \<and> R p p'"
    and I_op: "I p \<Longrightarrow> bare_op op \<Longrightarrow> okp (\<lambda>_ p'. I p' \<and> R p p') (emitOp op p)"
    and I_smart: "I p \<Longrightarrow> op_len op = 1 \<Longrightarrow> A p op k \<Longrightarrow> okp (\<lambda>_ p'. I p' \<and> R p p') (emitSmart op k p)"
    and I_jump: "I p \<Longrightarrow> op_len op = 2 \<Longrightarrow> okp (\<lambda>n p'. I p' \<and> R p p' \<and> J p' n) (emitJump op p)"
    and I_patch: "I p \<Longrightarrow> J p n \<Longrightarrow> okp (\<lambda>_ p'. I p' \<and> R p p') (patchJump n p)"
    and I_number: "I p \<Longrightarrow> okp (\<lambda>k p'. I p' \<and> R p p' \<and> A p' OP_CONST k) (makeConstant (VAL_NUM d) p)"
    and I_string: "I p \<Longrightarrow> length chars = len \<Longrightarrow> okp (\<lambda>k p'. I p' \<and> R p p' \<and> A p' OP_CONST k)
      (bindp (on_vm (str_copy chars len False)) (\<lambda>s. makeConstant (VAL_OBJ s)) p)"
    and I_name: "I p \<Longrightarrow> tok_good (ps_source p) t \<Longrightarrow>
      okp (\<lambda>k p'. I p' \<and> R p p' \<and> (\<forall>op. name_op op \<longrightarrow> A p' op k)) (identifierConstant t p)"
    and I_arity: "I p \<Longrightarrow> cur_fun p = Some (Inr (f, p)) \<Longrightarrow>
      okp (\<lambda>_ p'. I p' \<and> R p p') (set_cur_fun (f\<lparr>fn_arity := arity\<rparr>) p)"
    and I_enter: "I p \<Longrightarrow> okp (\<lambda>_ p'. I p' \<and> S p p') (initCompiler TYPE_FUNCTION p)"
    and I_leave: "S p p1 \<Longrightarrow> R p1 p2 \<Longrightarrow> I p2 \<Longrightarrow> okp (\<lambda>k p'. I p' \<and> R p p' \<and> A p' OP_CONST k)
      (bindp endCompiler (\<lambda>f. makeConstant (VAL_OBJ f)) p2)"
begin

text \<open>\<open>gives C m P\<close>: from a state with \<open>C\<close>, the invariant is kept and the result satisfies \<open>P\<close>.\<close>

definition stable :: "(parser_t \<Rightarrow> bool) \<Rightarrow> bool" where
  "stable C \<longleftrightarrow> (\<forall>p p'. R p p' \<longrightarrow> C p \<longrightarrow> C p')"

definition gives :: "(parser_t \<Rightarrow> bool) \<Rightarrow> 'a parse \<Rightarrow> ('a \<Rightarrow> parser_t \<Rightarrow> bool) \<Rightarrow> bool" where
  "gives C m P \<longleftrightarrow> (\<forall>p. I p \<longrightarrow> C p \<longrightarrow> okp (\<lambda>x p'. I p' \<and> R p p' \<and> P x p') (m p))"

abbreviation pres :: "(parser_t \<Rightarrow> bool) \<Rightarrow> 'a parse \<Rightarrow> bool" where
  "pres C m \<equiv> gives C m (\<lambda>_ _. True)"

lemma stable_rules:
  "stable (\<lambda>_. b)" "stable (\<lambda>p. A p op k)" "stable (\<lambda>p. J p n)" "stable (\<lambda>p. tok_good (ps_source p) t)"
  "stable C \<Longrightarrow> stable D \<Longrightarrow> stable (\<lambda>p. C p \<and> D p)"
  "(\<And>x. stable (H x)) \<Longrightarrow> stable (\<lambda>p. \<forall>x. g x \<longrightarrow> H x p)"
  using A_mono J_mono R_source by (auto simp: stable_def)

lemma gives_weaken: "gives C m P \<Longrightarrow> (\<And>p. D p \<Longrightarrow> C p) \<Longrightarrow> (\<And>x p. P x p \<Longrightarrow> Q x p) \<Longrightarrow> gives D m Q"
  unfolding gives_def by (blast intro: okp_mono)

lemma gives_bindp_from:
  assumes "gives C m P" and "stable D" and "\<And>p. C p \<Longrightarrow> D p"
    and "\<And>x. gives (\<lambda>p. D p \<and> P x p) (k x) Q"
  shows "gives C (bindp m k) Q"
  unfolding gives_def
proof (intro allI impI)
  fix p assume p: "I p" "C p"
  have "okp (\<lambda>x p'. I p' \<and> R p p' \<and> P x p') (m p)" using assms(1) p by (simp add: gives_def)
  then have "okp (\<lambda>x p1. okp (\<lambda>y p2. I p2 \<and> R p p2 \<and> Q y p2) (k x p1)) (m p)"
  proof (rule okp_mono)
    fix x p1 assume 1: "I p1 \<and> R p p1 \<and> P x p1"
    then have "D p1" using assms(2) assms(3) [OF p(2)] by (auto simp: stable_def)
    with 1 have "okp (\<lambda>y p2. I p2 \<and> R p1 p2 \<and> Q y p2) (k x p1)" using assms(4) by (simp add: gives_def)
    then show "okp (\<lambda>y p2. I p2 \<and> R p p2 \<and> Q y p2) (k x p1)"
      by (rule okp_mono) (use 1 R_trans in blast)
  qed
  then show "okp (\<lambda>x p'. I p' \<and> R p p' \<and> Q x p') (bindp m k p)" by (simp add: comp_def)
qed

lemma gives_bindp:
  "gives C m P \<Longrightarrow> stable C \<Longrightarrow> (\<And>x. gives (\<lambda>p. C p \<and> P x p) (k x) Q) \<Longrightarrow> gives C (bindp m k) Q"
  by (rule gives_bindp_from)

text \<open>The structural rules: the result of the first part may be used, or not.\<close>

lemma pres_okp: "pres C m \<longleftrightarrow> (\<forall>p. I p \<longrightarrow> C p \<longrightarrow> okp (\<lambda>_ p'. I p' \<and> R p p') (m p))"
  by (simp add: gives_def)

lemma pres_always: "pres (\<lambda>_. True) m \<Longrightarrow> pres C m"
  by (simp add: pres_okp)

lemma pres_bindp: "pres C m \<Longrightarrow> stable C \<Longrightarrow> (\<And>x. gives C (k x) Q) \<Longrightarrow> gives C (bindp m k) Q"
  by (rule gives_bindp [of C m "\<lambda>_ _. True"]) simp_all

lemma pres_seqp: "pres C m \<Longrightarrow> stable C \<Longrightarrow> gives C k Q \<Longrightarrow> gives C (seqp m k) Q"
  unfolding seqp_def by (rule pres_bindp)

lemma pres_basic: "pres C (ret x)" "pres C (gets f)"
  using R_refl by (simp_all add: pres_okp)

lemma pres_if: "gives C m Q \<Longrightarrow> gives C n Q \<Longrightarrow> gives C (if b then m else n) Q"
  by simp

lemma pres_whenp: "pres C m \<Longrightarrow> pres C (whenp b m)"
  by (simp add: whenp_def pres_basic)

lemma pres_option:
  "gives C m Q \<Longrightarrow> (\<And>y. gives C (k y) Q) \<Longrightarrow> gives C (case x of None \<Rightarrow> m | Some y \<Rightarrow> k y) Q"
  by (cases x) simp_all

lemma pres_fault: "gives C (\<lambda>p. Some (Inl e)) Q"
  by (simp add: gives_def)

lemma gives_previous: "gives C (gets ps_previous) (\<lambda>t p. tok_good (ps_source p) t)"
  using R_refl I_token by (simp add: gives_def)

lemmas pres_rules = pres_bindp pres_seqp pres_basic pres_if pres_whenp pres_option pres_fault stable_rules

subsection \<open>Tokens and errors\<close>

lemma pres_errors: "pres C (error message)" "pres C (errorAtCurrent message)"
  using okp_errors by (simp_all add: pres_okp)

lemma okp_advance_loop: "I p \<Longrightarrow> okp (\<lambda>_ p'. I p' \<and> R p p') (advance_loop p)"
proof -
  have "I p \<longrightarrow> (case r of Inl e \<Rightarrow> True | Inr (_, p') \<Rightarrow> I p' \<and> R p p')" if "advance_loop p = Some r" for p r
  proof (rule advance_loop.raw_induct [OF _ that, of
        "\<lambda>p r. I p \<longrightarrow> (case r of Inl e \<Rightarrow> True | Inr (_, p') \<Rightarrow> I p' \<and> R p p')"])
    fix f :: "parser_t \<Rightarrow> (unit \<times> parser_t) res option" and p r
    assume IH: "\<And>p r. f p = Some r \<Longrightarrow> I p \<longrightarrow> (case r of Inl e \<Rightarrow> True | Inr (_, p') \<Rightarrow> I p' \<and> R p p')"
    let ?p = "scan_current p" and ?m = "case tok_start (ps_current (scan_current p)) of
      Message m \<Rightarrow> m | In_source _ \<Rightarrow> []"
    assume eq: "(let p = scan_current p in
        if tok_type (ps_current p) \<noteq> TOKEN_ERROR then Some (Inr ((), p))
        else bindp (errorAtCurrent (case tok_start (ps_current p) of Message m \<Rightarrow> m | In_source _ \<Rightarrow> []))
               (\<lambda>_. f) p) = Some r"
    show "I p \<longrightarrow> (case r of Inl e \<Rightarrow> True | Inr (_, p') \<Rightarrow> I p' \<and> R p p')"
    proof (intro impI)
      assume "I p"
      then have s: "I ?p" "R p ?p" using I_scan by auto
      have e: "okp (\<lambda>_ p'. I p' \<and> R ?p p') (errorAtCurrent ?m ?p)"
        using okp_errorAt [OF s(1)] by (simp add: errorAtCurrent_def)
      show "case r of Inl e \<Rightarrow> True | Inr (_, p') \<Rightarrow> I p' \<and> R p p'"
      proof (cases "tok_type (ps_current ?p) = TOKEN_ERROR")
        case False
        with eq s show ?thesis by auto
      next
        case True
        with eq have b: "bindp (errorAtCurrent ?m) (\<lambda>_. f) ?p = Some r" by (simp add: Let_def)
        show ?thesis
        proof (cases r)
          case (Inr x)
          with b obtain p1 where 1: "errorAtCurrent ?m ?p = Some (Inr ((), p1))" "f p1 = Some r"
            by (auto simp: bindp_def split: option.splits sum.splits)
          from e 1(1) have "I p1" "R ?p p1" by simp_all
          with IH [OF 1(2)] Inr s(2) show ?thesis using R_trans by (cases x) fastforce
        qed simp
      qed
    qed
  qed
  then show "I p \<Longrightarrow> okp (\<lambda>_ p'. I p' \<and> R p p') (advance_loop p)"
    by (fastforce simp: okp_def)
qed

lemma pres_advance: "pres C ps_advance"
  unfolding pres_okp
proof (intro allI impI)
  fix p assume "I p"
  then have 1: "I (p\<lparr>ps_previous := ps_current p\<rparr>)" "R p (p\<lparr>ps_previous := ps_current p\<rparr>)"
    using I_previous by simp_all
  then show "okp (\<lambda>_ p'. I p' \<and> R p p') (ps_advance p)"
    unfolding ps_advance_def by (intro okp_mono [OF okp_advance_loop]) (use R_trans in auto)
qed

lemma pres_tokens:
  "pres C (consume ty message)" "pres C (consumes ty ty2 message)" "pres C (ps_match ty)"
  using pres_advance [of C] pres_errors(2) [of C message] R_refl
  by (simp_all add: pres_okp consume_def consumes_def ps_match_def comp_def)

lemma pres_flag:
  assumes "\<And>p. f p = p\<lparr>ps_subExprs := ps_subExprs (f p), ps_hadCall := ps_hadCall (f p),
    ps_hadAssign := ps_hadAssign (f p), ps_panicMode := ps_panicMode p \<and> ps_panicMode (f p)\<rparr>"
  shows "pres C (modify f)"
  using I_flags [OF _ assms] by (simp add: pres_okp)

lemma pres_flags:
  "pres C (modify (\<lambda>p. p\<lparr>ps_hadCall := True\<rparr>))" "pres C (modify (\<lambda>p. p\<lparr>ps_hadAssign := True\<rparr>))"
  "pres C (modify (\<lambda>p. p\<lparr>ps_subExprs := ps_subExprs p + 1\<rparr>))"
  "pres C (modify (\<lambda>p. p\<lparr>ps_panicMode := False\<rparr>))"
  "pres C (modify (\<lambda>p. p\<lparr>ps_hadCall := False, ps_hadAssign := False, ps_subExprs := 0\<rparr>))"
  by (rule pres_flag; simp)+

subsection \<open>Emitting code\<close>

lemma pres_emitOp: "bare_op op \<Longrightarrow> pres C (emitOp op)"
  using I_op by (simp add: pres_okp)

lemma pres_emitOps:
  "bare_op op1 \<Longrightarrow> bare_op op2 \<Longrightarrow> pres C (emitBytes (opcode_byte op1) (opcode_byte op2))"
  unfolding emitBytes_def emitOp_def [symmetric]
  by (rule pres_always) (intro pres_seqp pres_emitOp stable_rules)

lemma pres_emitReturn: "pres C emitReturn"
  unfolding emitReturn_def emitOp_def using pres_emitOps [of OP_NIL OP_RET C]
  by (simp add: emitBytes_def bare_op_def)

lemma pres_emitSmart:
  "(\<And>p. C p \<Longrightarrow> op_len op = 1 \<and> A p op k) \<Longrightarrow> pres C (emitSmart op k)"
  using I_smart by (simp add: pres_okp)

lemma pres_emit_free: "free_op op \<Longrightarrow> pres C (emitSmart op k)"
  using A_free by (intro pres_emitSmart) (auto simp: free_op_def)

lemma gives_emitJump: "op_len op = 2 \<Longrightarrow> gives C (emitJump op) (\<lambda>n p. J p n)"
  using I_jump by (simp add: gives_def)

lemma pres_patchJump: "(\<And>p. C p \<Longrightarrow> J p n) \<Longrightarrow> pres C (patchJump n)"
  using I_patch by (simp add: pres_okp)

lemma gives_identifierConstant:
  "(\<And>p. C p \<Longrightarrow> tok_good (ps_source p) t) \<Longrightarrow>
     gives C (identifierConstant t) (\<lambda>k p. \<forall>op. name_op op \<longrightarrow> A p op k)"
  using I_name by (simp add: gives_def)

lemma pres_identifierConstant:
  "(\<And>p. C p \<Longrightarrow> tok_good (ps_source p) t) \<Longrightarrow> pres C (identifierConstant t)"
  by (rule gives_weaken [of C, OF gives_identifierConstant]) simp_all

text \<open>A constant is made and loaded.\<close>

lemma okp_emit_made:
  assumes "okp (\<lambda>k p'. I p' \<and> R p p' \<and> A p' OP_CONST k) (m q)"
  shows "okp (\<lambda>_ p'. I p' \<and> R p p') (bindp m (emitSmart OP_CONST) q)"
  using assms I_smart [of _ OP_CONST] R_trans by (fastforce elim!: okp_mono)

lemma pres_number: "pres C number"
  unfolding number_def emitConstant_def
  by (rule pres_always, rule pres_bindp [OF pres_basic(2) stable_rules(1)])
    (simp add: gives_def I_number okp_emit_made del: okp_bindp)

lemma pres_string: "pres C ps_string"
proof (rule pres_always)
  have "okp (\<lambda>_ p'. I p' \<and> R p p')
      (bindp (on_vm (str_copy (take len (drop 1 chars)) len False)) (\<lambda>s. emitConstant (VAL_OBJ s)) p)"
    if "I p" "length chars = n" "len = n - 2" for p chars n len
    unfolding emitConstant_def bindp_assoc [symmetric]
    by (rule okp_emit_made, rule I_string) (use that in auto)
  then show "pres (\<lambda>_. True) ps_string"
    unfolding ps_string_def
    by (intro gives_bindp [OF gives_previous] stable_rules)
      (simp add: gives_def Let_def tok_good_def bindp_gets del: okp_bindp)
qed

subsection \<open>Scopes and variables\<close>

lemma pres_get_compiler:
  "(\<And>c. gives (\<lambda>p. C p \<and> cur_compiler p = Inr c) (k c) Q) \<Longrightarrow> gives C (bindp get_compiler k) Q"
  by (simp add: gives_def)

lemma pres_set_compiler:
  "cp_function c' = cp_function c \<Longrightarrow> cp_type c' = cp_type c \<Longrightarrow>
     pres (\<lambda>p. C p \<and> cur_compiler p = Inr c) (modify (set_compiler c'))"
  using I_compiler by (auto simp: pres_okp)

lemma pres_before: "pres C m \<Longrightarrow> pres (\<lambda>_. True) n \<Longrightarrow> pres C (seqp m n)"
  unfolding seqp_def by (rule gives_bindp_from [where D = "\<lambda>_. True"]) (simp_all add: stable_rules)

text \<open>A compiler whose function stays the same replaces the current one.\<close>

lemma pres_update:
  "(\<And>c. cp_function (g c) = cp_function c) \<Longrightarrow> (\<And>c. cp_type (g c) = cp_type c) \<Longrightarrow>
     pres C (bindp get_compiler (\<lambda>c. modify (set_compiler (g c))))"
  by (intro pres_get_compiler pres_set_compiler)

lemma pres_emit_pops: "pres C (emit_pops n)"
proof (rule pres_always, induction n)
  case (Suc n)
  then show ?case by (auto intro!: pres_seqp pres_emitOp pres_update simp: stable_rules bare_op_def)
qed (simp add: pres_basic)

lemma pres_scopes: "pres C beginScope" "pres C endScope"
proof -
  show "pres C beginScope"
    unfolding beginScope_def by (rule pres_update) simp_all
  show "pres C endScope"
    unfolding endScope_def Let_def
    by (intro pres_get_compiler pres_before pres_set_compiler pres_emit_pops) simp_all
qed

lemma pres_get: "pres C get_compiler" "pres C cur_fun"
  using R_refl by (auto simp: pres_okp get_compiler_def cur_fun_def okp_def elim!: bindr_Inr_E)

lemma pres_resolveLocal: "pres C (resolveLocal name)"
  unfolding resolveLocal_def
  by (rule pres_always) (intro pres_rules pres_get pres_errors)

lemma pres_addLocal: "pres C (addLocal name)"
  unfolding addLocal_def
  by (intro pres_get_compiler pres_if pres_errors pres_set_compiler) simp_all

lemma pres_report_each: "pres C (report_each message xs)"
  by (rule pres_always, induction xs) (auto intro!: pres_basic pres_seqp pres_errors stable_rules)

lemma pres_declareVariable: "pres C declareVariable"
  unfolding declareVariable_def
  by (rule pres_always) (intro pres_rules pres_get pres_report_each pres_addLocal)

lemma pres_parseVariable: "pres C (parseVariable message)"
  unfolding parseVariable_def
  by (rule pres_always)
    (intro pres_seqp pres_tokens pres_declareVariable pres_bindp [OF pres_get(1)] pres_if pres_basic stable_rules
      gives_bindp [OF gives_previous] pres_identifierConstant; simp)

lemma pres_markInitialized: "pres C markInitialized"
  unfolding markInitialized_def Let_def
  by (intro pres_get_compiler pres_if pres_basic pres_set_compiler) simp_all

lemma pres_defineVariable: "pres C (defineVariable global)"
  unfolding defineVariable_def
  by (rule pres_always) (intro pres_rules pres_get pres_markInitialized pres_emit_free, simp add: free_op_def)

subsection \<open>Expressions\<close>

definition rec_ok :: "rec \<Rightarrow> bool" where
  "rec_ok rec \<longleftrightarrow> (\<forall>g. pres (\<lambda>_. True) (go rec g))"

lemma pres_go: "rec_ok rec \<Longrightarrow> pres C (go rec g)"
  by (rule pres_always) (simp add: rec_ok_def)

lemma pres_run: "rec_ok rec \<Longrightarrow> pres C (run rec g)"
  unfolding run_def by (rule pres_always) (intro pres_rules pres_go)

lemma pres_expression: "rec_ok rec \<Longrightarrow> pres C (expression rec)"
  unfolding expression_def by (rule pres_run)

lemma pres_if_match: "stable C \<Longrightarrow> gives C m Q \<Longrightarrow> gives C n Q \<Longrightarrow> gives C (if_match ty m n) Q"
  unfolding if_match_def by (intro pres_bindp pres_tokens) auto

lemmas pres_parts =
  pres_if_match pres_run pres_expression pres_go pres_tokens pres_errors pres_flags pres_emitOps
  pres_emitReturn pres_scopes pres_parseVariable pres_defineVariable pres_declareVariable
  pres_markInitialized pres_resolveLocal

lemma pres_emit_named:
  "name_op op \<Longrightarrow> op_len op = 1 \<Longrightarrow> pres (\<lambda>p. C p \<and> (\<forall>op. name_op op \<longrightarrow> A p op k)) (emitSmart op k)"
  by (rule pres_emitSmart) simp_all

lemma pres_operators:
  "pres C (binary_ops ty)" "pres C (unary_ops ty)" "pres C (literal_ops ty)"
proof -
  show "pres C (binary_ops ty)"
    by (cases ty; simp only: binary_ops.simps; (rule pres_basic | rule pres_emitOp pres_emitOps; simp add: bare_op_def))
  show "pres C (unary_ops ty)"
    by (cases ty; simp only: unary_ops.simps; (rule pres_basic | rule pres_emitOp; simp add: bare_op_def))
  show "pres C (literal_ops ty)"
    by (cases ty; simp only: literal_ops.simps;
        (rule pres_basic | rule pres_emitOp, simp add: bare_op_def | rule pres_emit_free, simp add: free_op_def))
qed

lemma pres_arguments:
  assumes "rec_ok rec"
  shows "pres C (arguments_loop rec n)" "pres C (argumentList rec)" "pres C (elements_loop rec n)"
  unfolding arguments_loop_def argumentList_def elements_loop_def Let_def
  by (rule pres_always; intro pres_rules pres_parts assms)+

lemma pres_simple_rules:
  assumes "rec_ok rec"
  shows "pres C (binary rec)" "pres C (unary rec)" "pres C literal" "pres C (grouping rec)"
    "pres C (call rec)" "pres C (ps_map rec)"
  unfolding binary_def unary_def literal_def grouping_def call_def ps_map_def
  by (rule pres_always; intro pres_rules pres_parts pres_operators pres_arguments pres_emit_free assms;
      simp add: free_op_def)+

lemma pres_logic:
  assumes "rec_ok rec"
  shows "pres C (ps_and rec)" "pres C (ps_or rec)"
  unfolding ps_and_def ps_or_def
  by (rule pres_always; intro gives_bindp [OF gives_emitJump] pres_seqp pres_emitOp pres_patchJump pres_run
      stable_rules assms; simp add: bare_op_def)+

lemma pres_index: "rec_ok rec \<Longrightarrow> pres C (ps_index rec canAssign)"
  unfolding ps_index_def
  by (rule pres_always) (intro pres_rules pres_parts pres_emitOp; simp add: bare_op_def)

lemma pres_dot: "rec_ok rec \<Longrightarrow> pres C (dot rec canAssign)"
  unfolding dot_def
  by (rule pres_always)
    (intro pres_seqp pres_tokens gives_bindp [OF gives_previous] gives_bindp [OF gives_identifierConstant]
      pres_bindp pres_if pres_basic pres_expression pres_emit_named stable_rules; simp add: name_op_def)

lemma pres_namedVariable:
  assumes "rec_ok rec" and name: "\<And>p. C p \<Longrightarrow> tok_good (ps_source p) name" and "stable C"
  shows "pres C (namedVariable rec name canAssign)"
proof -
  let ?P = "\<lambda>(arg, getOp, setOp) p. A p getOp arg \<and> A p setOp arg \<and> op_len getOp = 1 \<and> op_len setOp = 1"
  have P: "gives C (case arg of
              Some i \<Rightarrow> ret (word_of_nat i, OP_LD, OP_ST)
            | None \<Rightarrow> bindp (identifierConstant name) (\<lambda>k. ret (k, OP_GLD, OP_GST))) ?P" for arg :: "nat option"
  proof (cases arg)
    case None
    have "gives C (bindp (identifierConstant name) (\<lambda>k. ret (k, OP_GLD, OP_GST))) ?P"
      by (rule gives_bindp [OF gives_identifierConstant]) (use name assms(3) R_refl in \<open>auto simp: gives_def name_op_def\<close>)
    with None show ?thesis by simp
  qed (use R_refl A_free in \<open>simp add: gives_def free_op_def\<close>)
  have "pres (\<lambda>p. C p \<and> ?P x p) (case x of (arg, getOp, setOp) \<Rightarrow>
     bindp (if canAssign then ps_match TOKEN_EQUAL else ret False) (\<lambda>assign.
     if assign
     then seqp (expression rec)
         (seqp (emitSmart setOp arg) (modify (\<lambda>p. p\<lparr>ps_hadAssign := True\<rparr>)))
     else emitSmart getOp arg))" for x :: "u8 \<times> opcode_t \<times> opcode_t"
    by (cases x, simp only: prod.case)
      (intro pres_rules pres_parts assms(1,3) pres_emitSmart; auto)
  with P show ?thesis
    unfolding namedVariable_def by (intro pres_bindp pres_resolveLocal gives_bindp assms(3))
qed

lemma pres_variable: "rec_ok rec \<Longrightarrow> pres C (variable rec canAssign)"
  unfolding variable_def
  by (rule pres_always) (intro gives_bindp [OF gives_previous] pres_namedVariable stable_rules; simp)

lemma pres_run_rule: "rec_ok rec \<Longrightarrow> pres C (run_rule rec r canAssign)"
  by (cases r; simp only: run_rule_def parsefn.case;
      intro pres_simple_rules pres_logic pres_index pres_dot pres_variable pres_string pres_number)

lemma pres_precedence:
  assumes "rec_ok rec"
  shows "pres C (infixes_loop rec n canAssign)" "pres C (parsePrecedence rec n)"
  unfolding infixes_loop_def parsePrecedence_def Let_def
  by (rule pres_always; intro pres_rules pres_parts pres_advance pres_run_rule assms)+

subsection \<open>Declarations and statements\<close>

lemma pres_blocks:
  assumes "rec_ok rec"
  shows "pres C (declarations_loop rec stop)" "pres C (block rec)" "pres C (inlineBlock rec)"
  unfolding declarations_loop_def block_def inlineBlock_def
  by (rule pres_always; intro pres_rules pres_parts assms)+

lemma pres_cur_fun:
  "(\<And>f. gives (\<lambda>p. C p \<and> cur_fun p = Some (Inr (f, p))) (k f) Q) \<Longrightarrow> gives C (bindp cur_fun k) Q"
  by (simp add: gives_def)

lemma pres_parameters_loop:
  assumes "rec_ok rec"
  shows "pres C (parameters_loop rec)"
proof -
  have "pres (\<lambda>p. cur_fun p = Some (Inr (f, p))) (set_cur_fun (f\<lparr>fn_arity := n\<rparr>))" for f n
    using I_arity by (simp add: pres_okp)
  then have "pres (\<lambda>p. C p \<and> cur_fun p = Some (Inr (f, p))) (set_cur_fun (f\<lparr>fn_arity := n\<rparr>))" for f n C
    by (rule gives_weaken) simp_all
  then show ?thesis
    unfolding parameters_loop_def Let_def
    by (intro pres_cur_fun pres_before) (assumption | intro pres_rules pres_parts assms)+
qed

text \<open>A function: what is done after it is entered happens in the same nesting.\<close>

lemma pres_ps_function:
  assumes "rec_ok rec"
  shows "pres C (ps_function rec TYPE_FUNCTION)"
proof -
  define body where "body =
     seqp beginScope
    (seqp (consume TOKEN_LPAREN ''Expect '(' after function name.'')
    (bindp (gets (check TOKEN_RPAREN)) (\<lambda>none.
     seqp (whenp (\<not> none) (run rec Parameters))
    (seqp (consume TOKEN_RPAREN ''Expect ')' after parameters.'')
    (seqp (run rec (Declarations [TOKEN_END, TOKEN_ENDFUNC, TOKEN_EOF]))
       (consumes TOKEN_END TOKEN_ENDFUNC ''Expect 'End' or 'EndFunc' after function body.''))))))"
  define finish where "finish = bindp (bindp endCompiler (\<lambda>f. makeConstant (VAL_OBJ f))) (emitSmart OP_CONST)"
  have eq: "ps_function rec TYPE_FUNCTION = seqp (initCompiler TYPE_FUNCTION) (seqp body finish)"
    by (simp add: ps_function_def body_def finish_def seqp_assoc bindp_assoc)
  have body: "pres (\<lambda>_. True) body"
    unfolding body_def by (intro pres_rules pres_parts assms)
  have "okp (\<lambda>_ p'. I p' \<and> R p p') (seqp (initCompiler TYPE_FUNCTION) (seqp body finish) p)" if p: "I p" for p
    unfolding okp_seqp comp_def
  proof (rule okp_mono [OF I_enter [OF p]])
    fix x :: unit and p1 assume 1: "I p1 \<and> S p p1"
    then have "okp (\<lambda>_ p2. I p2 \<and> R p1 p2) (body p1)" using body by (simp add: pres_okp)
    then show "okp (\<lambda>_ p2. okp (\<lambda>_ p'. I p' \<and> R p p') (finish p2)) (body p1)"
    proof (rule okp_mono)
      fix y :: unit and p2 assume "I p2 \<and> R p1 p2"
      with 1 have "okp (\<lambda>k p'. I p' \<and> R p p' \<and> A p' OP_CONST k)
          (bindp endCompiler (\<lambda>f. makeConstant (VAL_OBJ f)) p2)"
        by (intro I_leave) auto
      then show "okp (\<lambda>_ p'. I p' \<and> R p p') (finish p2)"
        unfolding finish_def okp_bindp [of _ "bindp endCompiler k" for k]
        by (rule okp_mono) (use I_smart [of _ OP_CONST] R_trans in \<open>fastforce elim!: okp_mono\<close>)
    qed
  qed
  then show ?thesis by (simp add: pres_okp eq)
qed

lemma pres_declarations:
  assumes "rec_ok rec"
  shows "pres C (funDeclaration rec)" "pres C (varDeclaration rec)" "pres C (globals_loop rec)"
    "pres C (globalDeclaration rec)"
  unfolding funDeclaration_def varDeclaration_def globals_loop_def globalDeclaration_def
  by (rule pres_always; intro pres_rules pres_parts pres_ps_function pres_emitOp pres_emit_free assms;
      simp add: bare_op_def free_op_def)+

lemma pres_ifStatement:
  assumes "rec_ok rec"
  shows "pres C (ifStatement rec)"
  unfolding ifStatement_def
  by (rule pres_always)
    (intro pres_seqp pres_bindp [OF pres_basic(2)] gives_bindp [OF gives_emitJump] pres_emitOp pres_patchJump
      pres_whenp pres_if_match pres_basic(1) pres_parts stable_rules assms; simp add: bare_op_def)

lemma pres_statements:
  assumes "rec_ok rec"
  shows "pres C (expressionStatement rec)" "pres C (values_loop rec n)" "pres C (printStatement rec)"
    "pres C (returnStatement rec)" "pres C (exitStatement rec)" "pres C (synchronize_loop rec)"
    "pres C (synchronize rec)"
  unfolding expressionStatement_def values_loop_def printStatement_def returnStatement_def exitStatement_def
    synchronize_loop_def synchronize_def
  by (rule pres_always; intro pres_rules pres_parts pres_get pres_advance pres_emitOp pres_emit_free assms;
      simp add: bare_op_def free_op_def)+

lemma pres_statement:
  assumes "rec_ok rec"
  shows "pres C (statement rec)" "pres C (ps_declaration rec)" "pres C (script_loop rec)"
  unfolding statement_def ps_declaration_def script_loop_def scoped_def
  by (rule pres_always; intro pres_rules pres_parts pres_statements pres_ifStatement pres_blocks
      pres_declarations assms)+

subsection \<open>The recursion\<close>

lemma pres_no_result: "pres C m \<Longrightarrow> pres C (no_result m)"
  unfolding no_result_def seqp_def
  by (rule gives_bindp_from [where D = "\<lambda>_. True"]) (simp_all add: stable_rules pres_basic)

lemma pres_goals:
  assumes "rec_ok rec"
  shows "pres (\<lambda>_. True) (parse_goal rec g)"
  by (cases g; simp only: parse_goal_def goal.case;
      intro pres_no_result pres_precedence pres_statement pres_arguments pres_statements pres_parameters_loop
        pres_declarations pres_blocks assms)

lemma parse_ok: "rec_ok parse"
proof -
  let ?P = "\<lambda>x r. I (snd x) \<longrightarrow> okp (\<lambda>_ p'. I p' \<and> R (snd x) p') (Some r)"
  have parse: "?P x r" if "parse x = Some r" for x r
  proof (rule parse.raw_induct [OF _ that, of ?P])
    fix rec :: rec and x r
    assume IH: "\<And>x r. rec x = Some r \<Longrightarrow> ?P x r" and eq: "parse_goal rec (fst x) (snd x) = Some r"
    have "okp (\<lambda>_ p'. I p' \<and> R p p') (rec (g, p))" if "I p" for g p
      using IH [of "(g, p)"] that by (cases "rec (g, p)") auto
    then have "rec_ok rec" by (simp add: rec_ok_def pres_okp go_def)
    then have "pres (\<lambda>_. True) (parse_goal rec (fst x))" by (rule pres_goals)
    then have "I (snd x) \<Longrightarrow> okp (\<lambda>_ p'. I p' \<and> R (snd x) p') (parse_goal rec (fst x) (snd x))"
      by (simp add: pres_okp)
    with eq show "?P x r" by simp
  qed
  have "okp (\<lambda>_ p'. I p' \<and> R p p') (parse (g, p))" if "I p" for g p
    using parse [of "(g, p)"] that by (cases "parse (g, p)") simp_all
  then show ?thesis by (simp add: rec_ok_def pres_okp go_def)
qed

text \<open>What \<open>compile\<close> does between entering the script and ending it.\<close>

lemma script_ok: "I p \<Longrightarrow> okp (\<lambda>_ p'. I p' \<and> R p p') (seqp ps_advance (run parse Script) p)"
  using pres_seqp [OF pres_advance stable_rules(1) [of True] pres_run [OF parse_ok, of _ Script]]
  unfolding pres_okp by simp

end

end
