(* ===== verification/Emitting.thy ===== *)
theory Emitting
  imports Parser_Contract Lexing
begin

text \<open>
  What the compiler does to the machine and to the function that it compiles. It adds strings and
  functions to the heap and writes into functions, and changes nothing else; an emission is one
  update of the current function.
\<close>

subsection \<open>The machine\<close>

definition untouched :: "vm_t \<Rightarrow> vm_t \<Rightarrow> bool" where
  "untouched vm vm' \<longleftrightarrow>
     (\<forall>a. is_str (heap vm) a \<longrightarrow> is_str (heap vm') a) \<and>
     stack vm' = stack vm \<and> vm_top vm' = vm_top vm \<and> frames vm' = frames vm \<and>
     globals vm' = globals vm \<and> stdout vm' = stdout vm"

definition vm_grown :: "vm_t \<Rightarrow> vm_t \<Rightarrow> bool" where
  "vm_grown vm vm' \<longleftrightarrow> machine_ok vm' \<and> (hashes_ok vm \<longrightarrow> hashes_ok vm') \<and> untouched vm vm'"

lemma untouched_refl [simp]: "untouched vm vm"
  by (simp add: untouched_def)

lemma untouched_trans: "untouched a b \<Longrightarrow> untouched b c \<Longrightarrow> untouched a c"
  by (simp add: untouched_def)

lemma untouched_stderr [simp]: "untouched vm (vm'\<lparr>stderr := e\<rparr>) = untouched vm vm'"
  by (simp add: untouched_def)

lemma copy_grown:
  assumes ok: "machine_ok vm" and copy: "str_copy chars len ic vm = Inr (a, vm')" and len: "len \<le> length chars"
  shows "vm_grown vm vm' \<and> stderr vm' = stderr vm \<and> is_str (heap vm') a \<and>
    fun_at (heap vm') = fun_at (heap vm)"
proof -
  have sok: "strings_ok vm" and gc: "\<not> gc_vm vm" using ok by (simp_all add: machine_ok_def)
  have "strings_ok vm' \<and> str_extends vm vm' \<and> is_str (heap vm') a"
  proof (cases "gc_idle SIZEOF_STR vm")
    case True
    from str_copy_spec [OF sok True len, of ic] copy show ?thesis by auto
  next
    case False
    obtain r where r: "tab_findstr (str_of vm) (strings vm) chars len (hash_string chars len ic) = Some r"
      and spec: "case r of
              None \<Rightarrow> \<forall>a. is_str (heap vm) a \<longrightarrow> \<not> str_match (str_of vm) len (hash_string chars len ic) a
            | Some a \<Rightarrow> is_str (heap vm) a \<and> str_match (str_of vm) len (hash_string chars len ic) a"
      using findstr_strings [OF sok] by blast
    have "allocObj SIZEOF_STR bdy vm = Inl (Undefined Uninitialised)" for bdy
      by (rule allocObj_collects [OF False _ gc]) (simp add: SIZEOF_STR_def)
    with r spec copy sok show ?thesis
      by (cases r) (auto simp: str_copy_def str_of_def allocStr_def Let_def)
  qed
  then have e: "strings_ok vm'" "str_extends vm vm'" "is_str (heap vm') a" by simp_all
  from machine_extends [OF ok e(1,2)] fun_at_extends [OF e(2)] e str_extends_str(1) [OF e(2)]
  show ?thesis by (simp add: vm_grown_def untouched_def str_extends_def)
qed

lemma fun_at_Some: "fun_at h a = Some f \<longleftrightarrow> (\<exists>ob. h a = Some ob \<and> body ob = OT_FUN f)"
  by (auto simp: fun_at_def split: option.split obj_body.split)

text \<open>An object that is no string and no map is written to a place that has neither.\<close>

lemma heap_fun_grown:
  assumes ok: "machine_ok vm" and ob: "body ob = OT_FUN f" and old: "\<not> is_str (heap vm) a"
    and free: "\<forall>b \<ge> next_addr vm'. heap vm' b = None"
    and vm': "heap vm' = (heap vm)(a \<mapsto> ob)" "strings vm' = strings vm" "globals vm' = globals vm"
      "gc_vm vm' = gc_vm vm" "stack vm' = stack vm" "vm_top vm' = vm_top vm" "frames vm' = frames vm"
      "stdout vm' = stdout vm"
  shows "vm_grown vm vm' \<and> fun_at (heap vm') = (fun_at (heap vm))(a \<mapsto> f)"
proof -
  have nb: "body ob \<noteq> OT_STR s" "body ob \<noteq> OT_MAP m" for s m using ob by simp_all
  note strs = heap_update_strs [OF old nb(1), folded vm'(1)]
  have "strings_ok vm'"
    by (rule strings_ok_heap [OF _ strs vm'(2) free]) (use ok in \<open>simp add: machine_ok_def\<close>)
  moreover have "tab_good (heap vm') (globals vm')"
    using ok strs vm'(3) by (simp add: machine_ok_def tab_good_def)
  moreover have "maps_good (heap vm')"
    unfolding vm'(1) using ok nb by (intro maps_good_update [OF _ old]) (auto simp: machine_ok_def)
  moreover have "hashes_ok vm \<Longrightarrow> hashes_ok vm'"
    using vm'(1) nb by (simp add: hashes_ok_def)
  moreover have "fun_at (heap vm') = (fun_at (heap vm))(a \<mapsto> f)"
    using vm'(1) ob by (auto simp: fun_eq_iff fun_at_def)
  moreover have "\<not> gc_vm vm'" "in_bounds vm'"
    using ok vm' by (simp_all add: machine_ok_def in_bounds_def)
  moreover have "is_str (heap vm') = is_str (heap vm)" by (rule strs)
  ultimately show ?thesis
    using vm'(3,5-) by (simp add: vm_grown_def untouched_def machine_ok_def)
qed

lemma fun_new_grown:
  assumes ok: "machine_ok vm" and new: "fun_new source vm = Inr (a, vm')"
  shows "vm_grown vm vm' \<and> stderr vm' = stderr vm \<and> heap vm a = None \<and>
    fun_at (heap vm') = (fun_at (heap vm))(a \<mapsto>
      \<lparr>fn_arity = 0, fn_upvalues = None, fn_name = None, fn_chunk = chunk_init source\<rparr>)"
proof (cases "gc_idle SIZEOF_FUN vm")
  case True
  let ?f = "\<lparr>fn_arity = 0, fn_upvalues = None, fn_name = None, fn_chunk = chunk_init source\<rparr>"
  have sok: "strings_ok vm" using ok by (simp add: machine_ok_def)
  have free: "heap vm b = None" if "next_addr vm \<le> b" for b using strings_ok_free [OF sok that] .
  from new True have a: "a = next_addr vm" and vm': "vm' = vm\<lparr>gc_allocated := gc_allocated vm + SIZEOF_FUN,
        heap := (heap vm)(a \<mapsto> \<lparr>isMarked = junk vm a, obj_next = gc_objects vm, body = OT_FUN ?f\<rparr>),
        gc_objects := Some a, next_addr := a + 1\<rparr>"
    by (auto simp: fun_new_def allocObj_idle)
  have "\<not> is_str (heap vm) a" using free [of a] a by (simp add: is_str_def)
  with ok free a have "vm_grown vm vm' \<and> fun_at (heap vm') = (fun_at (heap vm))(a \<mapsto> ?f)"
    by (intro heap_fun_grown [where ob = "\<lparr>isMarked = junk vm a, obj_next = gc_objects vm, body = OT_FUN ?f\<rparr>"])
      (simp_all add: vm')
  then show ?thesis using free [of a] a by (simp add: vm')
next
  case False
  then have "allocObj SIZEOF_FUN bdy vm = Inl (Undefined Uninitialised)" for bdy
    using ok by (intro allocObj_collects) (simp_all add: SIZEOF_FUN_def machine_ok_def)
  with new show ?thesis by (simp add: fun_new_def)
qed

lemma put_fun_grown:
  assumes ok: "machine_ok vm" and f0: "fun_at (heap vm) a = Some f0"
  shows "vm_grown vm (put_fun a f vm) \<and> stderr (put_fun a f vm) = stderr vm \<and>
    fun_at (heap (put_fun a f vm)) = (fun_at (heap vm))(a \<mapsto> f)"
proof -
  obtain ob where ob: "heap vm a = Some ob" "body ob = OT_FUN f0"
    using f0 by (auto simp: fun_at_Some)
  have sok: "strings_ok vm" using ok by (simp add: machine_ok_def)
  have "\<not> is_str (heap vm) a" using ob by (simp add: is_str_def)
  with ok ob strings_ok_free [OF sok] have "vm_grown vm (put_fun a f vm) \<and>
      fun_at (heap (put_fun a f vm)) = (fun_at (heap vm))(a \<mapsto> f)"
    by (intro heap_fun_grown [where ob = "ob\<lparr>body := OT_FUN f\<rparr>"]) (auto simp: put_fun_def)
  then show ?thesis by (simp add: put_fun_def)
qed

subsection \<open>The current function\<close>

definition cur_fn :: "parser_t \<Rightarrow> fun_t option" where
  "cur_fn p = (case ps_compilers p of [] \<Rightarrow> None | c # cs \<Rightarrow> fun_at (heap (ps_vm p)) (cp_function c))"

definition upd_fn :: "fun_t \<Rightarrow> parser_t \<Rightarrow> parser_t" where
  "upd_fn f p = p\<lparr>ps_vm := put_fun (cp_function (hd (ps_compilers p))) f (ps_vm p)\<rparr>"

lemma upd_fn_simps [simp]:
  "ps_compilers (upd_fn f p) = ps_compilers p" "ps_previous (upd_fn f p) = ps_previous p"
  "ps_source (upd_fn f p) = ps_source p" "ps_hadError (upd_fn f p) = ps_hadError p"
  "ps_current (upd_fn f p) = ps_current p" "ps_lexer (upd_fn f p) = ps_lexer p"
  "upd_fn g (upd_fn f p) = upd_fn g p"
  by (auto simp: upd_fn_def put_fun_def fun_eq_iff map_option_case split: option.split)

lemma cur_fn_Some:
  "cur_fn p = Some f \<longleftrightarrow> (\<exists>c cs. ps_compilers p = c # cs \<and> fun_at (heap (ps_vm p)) (cp_function c) = Some f)"
  by (auto simp: cur_fn_def split: list.split)

lemma cur_fun_cur_fn: "cur_fun p = Some (Inr (f, p)) \<longleftrightarrow> cur_fn p = Some f"
  by (auto simp: cur_fun_def cur_fn_def cur_compiler_def fun_at_get_fun bindr_Inr_iff split: list.split)

lemma cur_fun_cases:
  obtains f where "cur_fun p = Some (Inr (f, p))" and "cur_fn p = Some f"
  | e where "cur_fun p = Some (Inl e)" and "cur_fn p = None"
proof (cases "cur_fn p")
  case None
  have "\<exists>e. cur_fun p = Some (Inl e)"
  proof (cases "ps_compilers p")
    case (Cons c cs)
    then show ?thesis using None
      by (cases "get_fun (cp_function c) (ps_vm p)")
        (auto simp: cur_fun_def cur_compiler_def cur_fn_def fun_at_get_fun)
  qed (simp add: cur_fun_def cur_compiler_def)
  with None that(2) show ?thesis by blast
qed (use that(1) cur_fun_cur_fn in blast)

lemma cur_upd_fn:
  assumes "cur_fn p = Some f"
  shows "cur_fn (upd_fn g p) = Some g"
proof -
  from assms obtain c cs ob where "ps_compilers p = c # cs" "heap (ps_vm p) (cp_function c) = Some ob"
    "body ob = OT_FUN f"
    by (auto simp: cur_fn_Some fun_at_Some)
  then show ?thesis by (simp add: cur_fn_def upd_fn_def put_fun_def fun_at_def)
qed

lemma set_cur_fun_upd:
  assumes "cur_fn p = Some f"
  shows "set_cur_fun g p = Some (Inr ((), upd_fn g p))"
  using assms by (auto simp: cur_fn_Some set_cur_fun_def cur_compiler_def upd_fn_def)

subsection \<open>Emissions are updates\<close>

text \<open>The bytes \<open>bs\<close>, written with the position of a token; a changed table of constants.\<close>

definition emits :: "tok_t \<Rightarrow> u8 list \<Rightarrow> fun_t \<Rightarrow> fun_t" where
  "emits t bs f = f\<lparr>fn_chunk := fold (\<lambda>b c. chunk_emit c b (tok_line t) (tok_column t)) bs (fn_chunk f)\<rparr>"

definition with_constants :: "arr_t \<Rightarrow> fun_t \<Rightarrow> fun_t" where
  "with_constants cs f = f\<lparr>fn_chunk := (fn_chunk f)\<lparr>ck_constants := cs\<rparr>\<rparr>"

definition with_code :: "u8 list \<Rightarrow> fun_t \<Rightarrow> fun_t" where
  "with_code bs f = f\<lparr>fn_chunk := (fn_chunk f)\<lparr>ck_code := bs\<rparr>\<rparr>"

lemma emits_emits [simp]: "emits t bs' (emits t bs f) = emits t (bs @ bs') f"
  by (simp add: emits_def)

lemma okp_cur_fun_bind: "okp Q (bindp cur_fun k p) \<longleftrightarrow> (\<forall>f. cur_fn p = Some f \<longrightarrow> okp Q (k f p))"
  by (simp add: cur_fun_cur_fn)

lemma okp_chunk_bind:
  "okp Q (bindp currentChunk k p) \<longleftrightarrow> (\<forall>f. cur_fn p = Some f \<longrightarrow> okp Q (k (fn_chunk f) p))"
  unfolding currentChunk_def bindp_assoc okp_cur_fun_bind by (simp add: bindp_def ret_def)

lemma okp_set_chunk:
  assumes "cur_fn p = Some f"
  shows "okp Q (set_chunk c p) \<longleftrightarrow> Q () (upd_fn (f\<lparr>fn_chunk := c\<rparr>) p)"
  using assms unfolding set_chunk_def okp_cur_fun_bind by (simp add: set_cur_fun_upd)

lemma okp_emitByte:
  "okp Q (emitByte b p) \<longleftrightarrow> (\<forall>f. cur_fn p = Some f \<longrightarrow> Q () (upd_fn (emits (ps_previous p) [b] f) p))"
  unfolding emitByte_def okp_chunk_bind by (auto simp: bindp_gets okp_set_chunk emits_def)

lemma okp_emitOp:
  "okp Q (emitOp op p) \<longleftrightarrow>
     (\<forall>f. cur_fn p = Some f \<longrightarrow> Q () (upd_fn (emits (ps_previous p) [opcode_byte op] f) p))"
  by (simp add: emitOp_def okp_emitByte)

lemma okp_emitBytes:
  "okp Q (emitBytes b1 b2 p) \<longleftrightarrow>
     (\<forall>f. cur_fn p = Some f \<longrightarrow> Q () (upd_fn (emits (ps_previous p) [b1, b2] f) p))"
  unfolding emitBytes_def by (auto simp: okp_emitByte comp_def cur_upd_fn)

lemma okp_emitReturn:
  "okp Q (emitReturn p) \<longleftrightarrow> (\<forall>f. cur_fn p = Some f \<longrightarrow>
     Q () (upd_fn (emits (ps_previous p) [opcode_byte OP_NIL, opcode_byte OP_RET] f) p))"
  unfolding emitReturn_def emitOp_def emitBytes_def [symmetric] by (rule okp_emitBytes)

lemma count: "ck_count (fn_chunk (emits t bs f)) = ck_count (fn_chunk f) + length bs"
proof -
  have "ck_count (fold (\<lambda>b c. chunk_emit c b l k) bs c) = ck_count c + length bs" for l k c
    by (induction bs arbitrary: c) (simp_all add: chunk_emit_def Let_def)
  then show ?thesis by (simp add: emits_def)
qed

lemma okp_emitJump:
  "okp Q (emitJump op p) \<longleftrightarrow> (\<forall>f. cur_fn p = Some f \<longrightarrow>
     Q (ck_count (fn_chunk f) + 1) (upd_fn (emits (ps_previous p) [opcode_byte op, 0, 0] f) p))"
  unfolding emitJump_def okp_seqp comp_def okp_emitOp okp_emitBytes okp_chunk_bind okp_basic
  by (auto simp: cur_upd_fn count)

lemma cur_fn_stderr [simp]:
  "cur_fn (p\<lparr>ps_vm := (ps_vm p)\<lparr>stderr := e\<rparr>, ps_panicMode := b, ps_hadError := h\<rparr>) = cur_fn p"
  by (simp add: cur_fn_def split: list.split)

text \<open>An error message, or none in panic mode.\<close>

lemma errorAt_cases:
  assumes "errorAt tok message p = Some (Inr (x, p'))"
  shows "p' = p \<and> ps_panicMode p \<or>
    (\<exists>item. p' = p\<lparr>ps_vm := (ps_vm p)\<lparr>stderr := stderr (ps_vm p) @ [Compile_error item]\<rparr>,
       ps_panicMode := True, ps_hadError := True\<rparr>)"
  using assms by (auto simp: errorAt_def Let_def split: if_splits tok_ptr.splits option.splits)

lemma okp_makeConstant:
  "okp Q (makeConstant v p) \<longleftrightarrow> (\<forall>f cs k. cur_fn p = Some f \<longrightarrow>
     arr_add (ck_constants (fn_chunk f)) v False = (cs, k) \<longrightarrow>
     (if 255 < k
      then okp (\<lambda>_. Q 0) (error ''Too many constants in one chunk.'' (upd_fn (with_constants cs f) p))
      else Q (word_of_nat k) (upd_fn (with_constants cs f) p)))"
  unfolding makeConstant_def okp_chunk_bind
  by (auto simp: okp_set_chunk with_constants_def comp_def split: prod.splits)

lemma okp_patchJump:
  "okp Q (patchJump n p) \<longleftrightarrow> (\<forall>f j code. cur_fn p = Some f \<longrightarrow> j = ck_count (fn_chunk f) - n - 2 \<longrightarrow>
     code = (ck_code (fn_chunk f))[n := jump_hi j, n + 1 := jump_lo j] \<longrightarrow>
     (if 65535 < j
      then okp (\<lambda>_ p'. Q () (upd_fn (with_code code f) p')) (error ''Too much code to jump over.'' p)
      else Q () (upd_fn (with_code code f) p)))"
proof -
  have cur: "cur_fn p' = cur_fn p" if "error m p = Some (Inr (x, p'))" for m x p'
    using errorAt_cases [OF that [unfolded error_def]] by auto
  show ?thesis
    unfolding patchJump_def okp_chunk_bind
    by (auto simp: okp_set_chunk with_code_def comp_def whenp_def Let_def okp_def [of _ "error _ _"] cur)
qed

subsection \<open>Names and functions\<close>

lemma okp_copy:
  assumes "machine_ok (ps_vm p)" and "length chars = len"
    and "\<And>a vm'. vm_grown (ps_vm p) vm' \<Longrightarrow> stderr vm' = stderr (ps_vm p) \<Longrightarrow> is_str (heap vm') a \<Longrightarrow>
      fun_at (heap vm') = fun_at (heap (ps_vm p)) \<Longrightarrow> Q a (p\<lparr>ps_vm := vm'\<rparr>)"
  shows "okp Q (on_vm (str_copy chars len ic) p)"
proof (cases "str_copy chars len ic (ps_vm p)")
  case (Inr r)
  then obtain a vm' where r: "str_copy chars len ic (ps_vm p) = Inr (a, vm')" by (cases r) simp
  from copy_grown [OF assms(1) r] assms(2,3) r show ?thesis by (simp add: on_vm_def)
qed (simp add: on_vm_def)

lemma okp_copy_text:
  assumes "machine_ok (ps_vm p)" and "tok_good (ps_source p) t"
    and "\<And>a vm'. vm_grown (ps_vm p) vm' \<Longrightarrow> stderr vm' = stderr (ps_vm p) \<Longrightarrow> is_str (heap vm') a \<Longrightarrow>
      fun_at (heap vm') = fun_at (heap (ps_vm p)) \<Longrightarrow> Q a (p\<lparr>ps_vm := vm'\<rparr>)"
  shows "okp Q (copy_text t p)"
  unfolding copy_text_def using assms by (intro okp_copy) (simp_all add: tok_good_def)

text \<open>\<open>initCompiler\<close> puts a function with an empty chunk on the stack of compilers.\<close>

definition fresh_fun :: "addr option \<Rightarrow> src_t \<Rightarrow> fun_t" where
  "fresh_fun name source =
     \<lparr>fn_arity = 0, fn_upvalues = None, fn_name = name, fn_chunk = chunk_init (Some source)\<rparr>"

definition entered :: "addr \<Rightarrow> funtype_t \<Rightarrow> vm_t \<Rightarrow> parser_t \<Rightarrow> parser_t" where
  "entered a ty vm p = p\<lparr>ps_vm := vm, ps_compilers :=
     \<lparr>cp_function = a, cp_type = ty, cp_locals = [\<lparr>lc_start = Message [], lc_length = 0, lc_depth = 0\<rparr>],
      cp_scopeDepth = 0\<rparr> # ps_compilers p\<rparr>"

lemma okp_initCompiler:
  assumes ok: "machine_ok (ps_vm p)" and t: "tok_good (ps_source p) (ps_previous p)"
    and Q: "\<And>a vm name. vm_grown (ps_vm p) vm \<Longrightarrow> stderr vm = stderr (ps_vm p) \<Longrightarrow> heap (ps_vm p) a = None \<Longrightarrow>
      fun_at (heap vm) = (fun_at (heap (ps_vm p)))(a \<mapsto> fresh_fun name (ps_source p)) \<Longrightarrow>
      (\<forall>n. name = Some n \<longrightarrow> is_str (heap vm) n) \<Longrightarrow> Q () (entered a ty vm p)"
  shows "okp Q (initCompiler ty p)"
proof (cases "fun_new (Some (ps_source p)) (ps_vm p)")
  case (Inl e)
  then show ?thesis by (simp add: initCompiler_def bindp_gets on_vm_def bindp_def [of "on_vm _"])
next
  case (Inr r)
  then obtain a vm1 where new: "fun_new (Some (ps_source p)) (ps_vm p) = Inr (a, vm1)" by (cases r) simp
  let ?p = "p\<lparr>ps_vm := vm1\<rparr>"
  note n = fun_new_grown [OF ok new]
  have ok1: "machine_ok vm1" using n by (simp add: vm_grown_def)
  define enter where "enter = modify (\<lambda>p. p\<lparr>ps_compilers :=
          \<lparr>cp_function = a, cp_type = ty,
           cp_locals = [\<lparr>lc_start = Message [], lc_length = 0, lc_depth = 0\<rparr>],
           cp_scopeDepth = 0\<rparr> # ps_compilers p\<rparr>)"
  have enter: "okp Q (enter (p\<lparr>ps_vm := vm\<rparr>)) \<longleftrightarrow> Q () (entered a ty vm p)" for vm
    by (simp add: enter_def entered_def)
  have init: "initCompiler ty p = seqp (whenp (ty \<noteq> TYPE_SCRIPT) (bindp (copy_text (ps_previous p)) (\<lambda>n.
      bindp (on_vm (\<lambda>vm. bindr (get_fun a vm) (\<lambda>fn. Inr ((), put_fun a (fn\<lparr>fn_name := Some n\<rparr>) vm)))) ret)))
      enter ?p"
    by (simp add: initCompiler_def bindp_gets on_vm_def new bindp_def [of "on_vm _"] enter_def)
  show ?thesis
  proof (cases "ty = TYPE_SCRIPT")
    case True
    have "Q () (entered a ty vm1 p)"
      by (rule Q [where name = None]) (use n in \<open>simp_all add: fresh_fun_def\<close>)
    with True show ?thesis unfolding init by (simp add: whenp_def enter)
  next
    case False
    have "okp (\<lambda>n p'. okp (\<lambda>_. okp Q \<circ> enter)
        (bindp (on_vm (\<lambda>vm. bindr (get_fun a vm) (\<lambda>fn. Inr ((), put_fun a (fn\<lparr>fn_name := Some n\<rparr>) vm)))) ret p'))
        (copy_text (ps_previous p) ?p)"
    proof (rule okp_copy_text)
      show "machine_ok (ps_vm ?p)" "tok_good (ps_source ?p) (ps_previous p)" using ok1 t by simp_all
      fix m vm2
      assume 2: "vm_grown (ps_vm ?p) vm2" "stderr vm2 = stderr (ps_vm ?p)" "is_str (heap vm2) m"
        "fun_at (heap vm2) = fun_at (heap (ps_vm ?p))"
      have f: "fun_at (heap vm2) a = Some (fresh_fun None (ps_source p))"
        using 2(4) n by (simp add: fresh_fun_def)
      have ok2: "machine_ok vm2" using 2(1) by (simp add: vm_grown_def)
      note put = put_fun_grown [OF ok2 f, of "fresh_fun (Some m) (ps_source p)"]
      have "Q () (entered a ty (put_fun a (fresh_fun (Some m) (ps_source p)) vm2) p)"
      proof (rule Q)
        show "vm_grown (ps_vm p) (put_fun a (fresh_fun (Some m) (ps_source p)) vm2)"
          using put 2(1) n by (auto simp: vm_grown_def intro: untouched_trans)
        show "\<forall>n. Some m = Some n \<longrightarrow> is_str (heap (put_fun a (fresh_fun (Some m) (ps_source p)) vm2)) n"
          using put 2(3) by (simp add: vm_grown_def untouched_def)
      qed (use put 2 n in auto)
      then show "okp (\<lambda>_. okp Q \<circ> enter)
        (bindp (on_vm (\<lambda>vm. bindr (get_fun a vm) (\<lambda>fn. Inr ((), put_fun a (fn\<lparr>fn_name := Some m\<rparr>) vm)))) ret
          (?p\<lparr>ps_vm := vm2\<rparr>))"
        using f by (simp add: on_vm_def bindp_def fun_at_get_fun [symmetric] ret_def enter fresh_fun_def)
    qed
    with False show ?thesis unfolding init by (simp add: whenp_def comp_def)
  qed
qed

text \<open>\<open>endCompiler\<close> closes the code and gives the function.\<close>

definition left :: "parser_t \<Rightarrow> parser_t" where
  "left p = p\<lparr>ps_compilers := tl (ps_compilers p)\<rparr>"

lemma okp_endCompiler:
  "okp Q (endCompiler p) \<longleftrightarrow> (\<forall>f. cur_fn p = Some f \<longrightarrow>
     Q (cp_function (hd (ps_compilers p)))
       (left (upd_fn (emits (ps_previous p) [opcode_byte OP_NIL, opcode_byte OP_RET] f) p)))"
  unfolding endCompiler_def okp_seqp comp_def okp_emitReturn okp_bindp okp_get_compiler
  by (auto simp: cur_compiler_def left_def cur_fn_Some comp_def)

end
