(* ===== verification/Compiling.thy ===== *)
theory Compiling
  imports Emitting
begin

text \<open>
  The first interpretation of the contract of the compiler: it keeps the invariant of the machine and
  leaves stack, frames, globals and output alone, the tokens it reads are pieces of the source, and
  an error has been recorded exactly when a message has been printed.
\<close>

subsection \<open>The invariant\<close>

definition toks_ok :: "parser_t \<Rightarrow> bool" where
  "toks_ok p \<longleftrightarrow> tok_good (ps_source p) (ps_previous p) \<and> tok_good (ps_source p) (ps_current p) \<and>
     lx_current (ps_lexer p) \<le> length (src_buffer (ps_source p))"

definition errors_are :: "err_item list \<Rightarrow> parser_t \<Rightarrow> bool" where
  "errors_are old p \<longleftrightarrow>
     (\<exists>es. stderr (ps_vm p) = old @ map Compile_error es \<and> (ps_hadError p \<longleftrightarrow> es \<noteq> []))"

definition compiles :: "err_item list \<Rightarrow> parser_t \<Rightarrow> bool" where
  "compiles old p \<longleftrightarrow>
     machine_ok (ps_vm p) \<and> hashes_ok (ps_vm p) \<and> toks_ok p \<and> errors_are old p"

definition goes_on :: "parser_t \<Rightarrow> parser_t \<Rightarrow> bool" where
  "goes_on p p' \<longleftrightarrow> ps_source p' = ps_source p \<and> untouched (ps_vm p) (ps_vm p')"

lemma goes_on_refl [simp]: "goes_on p p"
  by (simp add: goes_on_def)

lemma goes_on_trans: "goes_on p1 p2 \<Longrightarrow> goes_on p2 p3 \<Longrightarrow> goes_on p1 p3"
  by (auto simp: goes_on_def intro: untouched_trans)

text \<open>Steps of the machine, and those that do not concern it.\<close>

lemma compiles_vm:
  assumes "compiles old p" and "vm_grown (ps_vm p) vm" and "stderr vm = stderr (ps_vm p)"
  shows "compiles old (p\<lparr>ps_vm := vm\<rparr>) \<and> goes_on p (p\<lparr>ps_vm := vm\<rparr>)"
  using assms by (simp add: compiles_def goes_on_def vm_grown_def toks_ok_def errors_are_def)

lemma compiles_upd:
  assumes "compiles old p" and "cur_fn p = Some f"
  shows "compiles old (upd_fn g p) \<and> goes_on p (upd_fn g p)"
proof -
  from assms(2) obtain c cs where "ps_compilers p = c # cs" "fun_at (heap (ps_vm p)) (cp_function c) = Some f"
    by (auto simp: cur_fn_Some)
  then show ?thesis
    unfolding upd_fn_def using assms(1) put_fun_grown [of "ps_vm p" "cp_function c" f g]
    by (intro compiles_vm) (simp_all add: compiles_def)
qed

lemma compiles_cong:
  assumes "compiles old p" and "ps_vm p' = ps_vm p" and "ps_source p' = ps_source p" and "toks_ok p'"
    and "ps_hadError p' = ps_hadError p"
  shows "compiles old p' \<and> goes_on p p'"
  using assms by (simp add: compiles_def goes_on_def errors_are_def)

lemma toks_ok_scan:
  assumes "toks_ok p"
  shows "toks_ok (scan_current p)"
proof -
  let ?src = "src_buffer (ps_source p)"
  obtain t L where s: "lexer_scan ?src (ps_lexer p) = (t, L)" by fastforce
  have "lx_current (ps_lexer p) \<le> length ?src" using assms by (simp add: toks_ok_def)
  from lexer_scan_inside [OF this] s have i: "tok_inside ?src (ps_lexer p) t L" by simp
  then have "tok_good (ps_source p) t"
    by (auto simp: tok_inside_def tok_good_def tok_text_def)
  with i assms s show ?thesis by (simp add: toks_ok_def scan_current_def tok_inside_def)
qed

lemma scan_current_simps [simp]:
  "ps_vm (scan_current p) = ps_vm p" "ps_source (scan_current p) = ps_source p"
  "ps_hadError (scan_current p) = ps_hadError p" "ps_compilers (scan_current p) = ps_compilers p"
  "ps_previous (scan_current p) = ps_previous p" "cur_fn (scan_current p) = cur_fn p"
  by (simp_all add: scan_current_def cur_fn_def split: prod.split list.split)

interpretation pe: parser_errors "compiles old" goes_on for old
proof
  fix p p' p1 p2 p3 item
  show "goes_on p p" by simp
  show "goes_on p1 p2 \<Longrightarrow> goes_on p2 p3 \<Longrightarrow> goes_on p1 p3" by (rule goes_on_trans)
  show "goes_on p p' \<Longrightarrow> ps_source p' = ps_source p" by (simp add: goes_on_def)
  assume c: "compiles old p" and p': "p' = p\<lparr>ps_vm := (ps_vm p)\<lparr>stderr := stderr (ps_vm p) @ [Compile_error item]\<rparr>,
        ps_panicMode := True, ps_hadError := True\<rparr>"
  from c obtain es where es: "stderr (ps_vm p) = old @ map Compile_error es"
    by (auto simp: compiles_def errors_are_def)
  have "stderr (ps_vm p') = old @ map Compile_error (es @ [item])" using es p' by simp
  then have "errors_are old p'" using p' unfolding errors_are_def by (intro exI [of _ "es @ [item]"]) simp
  moreover have "machine_ok (ps_vm p') \<and> (hashes_ok (ps_vm p') \<longleftrightarrow> hashes_ok (ps_vm p))"
    using c p' machine_same_store [of "ps_vm p" "ps_vm p'"]
    by (simp add: compiles_def same_store_def machine_ok_def in_bounds_def)
  ultimately show "compiles old p' \<and> goes_on p p'"
    using c p' by (simp add: compiles_def goes_on_def toks_ok_def)
qed

text \<open>A constant is added.\<close>

lemma compiles_makeConstant:
  assumes "compiles old p"
  shows "okp (\<lambda>_ p'. compiles old p' \<and> goes_on p p') (makeConstant v p)"
  unfolding okp_makeConstant
proof (intro allI impI)
  fix f cs k assume f: "cur_fn p = Some f"
  let ?p = "upd_fn (with_constants cs f) p"
  have u: "compiles old ?p" "goes_on p ?p" using compiles_upd [OF assms f] by simp_all
  have "okp (\<lambda>_ p'. compiles old p' \<and> goes_on p p') (error m ?p)" for m
    using pe.okp_errors(1) [OF u(1)] by (rule okp_mono) (use goes_on_trans [OF u(2)] in blast)
  with u show "if 255 < k
    then okp (\<lambda>_ p'. compiles old p' \<and> goes_on p p') (error ''Too many constants in one chunk.'' ?p)
    else compiles old ?p \<and> goes_on p ?p" by simp
qed

lemma compiles_then_constant:
  assumes "okp (\<lambda>_ p'. compiles old p' \<and> goes_on p p') (m p)"
  shows "okp (\<lambda>_ p'. compiles old p' \<and> goes_on p p') (bindp m (\<lambda>s. makeConstant (VAL_OBJ s)) p)"
  unfolding okp_bindp comp_def
proof (rule okp_mono [OF assms])
  fix x p1 assume "compiles old p1 \<and> goes_on p p1"
  then have 1: "compiles old p1" "goes_on p p1" by simp_all
  show "okp (\<lambda>_ p'. compiles old p' \<and> goes_on p p') (makeConstant (VAL_OBJ x) p1)"
    using compiles_makeConstant [OF 1(1)] by (rule okp_mono) (use goes_on_trans [OF 1(2)] in blast)
qed

lemma compiles_patchJump:
  assumes "compiles old p"
  shows "okp (\<lambda>_ p'. compiles old p' \<and> goes_on p p') (patchJump n p)"
  unfolding okp_patchJump
proof (intro allI impI)
  fix f j code assume f: "cur_fn p = Some f"
  have "okp (\<lambda>_ p'. compiles old (upd_fn (with_code code f) p') \<and> goes_on p (upd_fn (with_code code f) p'))
      (error m p)" for m
    unfolding okp_def
  proof (intro allI impI)
    fix x p1 assume e: "error m p = Some (Inr (x, p1))"
    with pe.okp_errors(1) [OF assms, of m] have 1: "compiles old p1" "goes_on p p1" by simp_all
    have "cur_fn p1 = Some f" using errorAt_cases [OF e [unfolded error_def]] f by auto
    from compiles_upd [OF 1(1) this] goes_on_trans [OF 1(2)]
    show "compiles old (upd_fn (with_code code f) p1) \<and> goes_on p (upd_fn (with_code code f) p1)" by blast
  qed
  with compiles_upd [OF assms f] show "if 65535 < j
       then okp (\<lambda>_ p'. compiles old (upd_fn (with_code code f) p') \<and>
           goes_on p (upd_fn (with_code code f) p')) (error ''Too much code to jump over.'' p)
       else compiles old (upd_fn (with_code code f) p) \<and> goes_on p (upd_fn (with_code code f) p)" by simp
qed

lemma compiles_enter:
  assumes "compiles old p"
  shows "okp (\<lambda>_ p'. compiles old p' \<and> goes_on p p') (initCompiler ty p)"
proof (rule okp_initCompiler)
  show "machine_ok (ps_vm p)" "tok_good (ps_source p) (ps_previous p)"
    using assms by (simp_all add: compiles_def toks_ok_def)
  fix a vm name assume "vm_grown (ps_vm p) vm" "stderr vm = stderr (ps_vm p)"
  from compiles_vm [OF assms this]
  show "compiles old (entered a ty vm p) \<and> goes_on p (entered a ty vm p)"
    by (simp add: compiles_def goes_on_def entered_def toks_ok_def errors_are_def)
qed

lemma compiles_end:
  assumes "compiles old p"
  shows "okp (\<lambda>_ p'. compiles old p' \<and> goes_on p p') (endCompiler p)"
  unfolding okp_endCompiler
proof (intro allI impI)
  fix f assume "cur_fn p = Some f"
  from compiles_upd [OF assms this, of "emits (ps_previous p) [opcode_byte OP_NIL, opcode_byte OP_RET] f"]
  show "compiles old (left (upd_fn (emits (ps_previous p) [opcode_byte OP_NIL, opcode_byte OP_RET] f) p)) \<and>
     goes_on p (left (upd_fn (emits (ps_previous p) [opcode_byte OP_NIL, opcode_byte OP_RET] f) p))"
    by (simp add: left_def compiles_def goes_on_def toks_ok_def errors_are_def)
qed

interpretation pm: parser_contract "compiles old" goes_on "\<lambda>_ _ _. True" "\<lambda>_ _. True" goes_on for old
proof
  fix p p' p1 p2 :: parser_t and op n d k len t f c c' subExprs hadCall hadAssign panic arity and chars :: string
  assume I: "compiles old p"
  then have m: "machine_ok (ps_vm p)" and toks: "toks_ok p" by (simp_all add: compiles_def)
  then show "tok_good (ps_source p) (ps_previous p)" by (simp add: toks_ok_def)
  show "p' = p\<lparr>ps_subExprs := subExprs, ps_hadCall := hadCall, ps_hadAssign := hadAssign,
      ps_panicMode := ps_panicMode p \<and> panic\<rparr> \<Longrightarrow> compiles old p' \<and> goes_on p p'"
    using toks by (intro compiles_cong [OF I]) (simp_all add: toks_ok_def)
  show "compiles old (scan_current p) \<and> goes_on p (scan_current p)"
    using toks_ok_scan [OF toks] by (intro compiles_cong [OF I]) simp_all
  show "p' = p\<lparr>ps_previous := ps_current p\<rparr> \<Longrightarrow> compiles old p' \<and> goes_on p p'"
    using toks by (intro compiles_cong [OF I]) (simp_all add: toks_ok_def)
  show "p' = set_compiler c' p \<Longrightarrow> compiles old p' \<and> goes_on p p'"
    using toks by (intro compiles_cong [OF I]) (simp_all add: toks_ok_def set_compiler_def)
  show "okp (\<lambda>_ p'. compiles old p' \<and> goes_on p p') (emitOp op p)"
    using compiles_upd [OF I] by (simp add: okp_emitOp)
  show "okp (\<lambda>_ p'. compiles old p' \<and> goes_on p p') (emitSmart op k p)"
    using compiles_upd [OF I] by (simp add: emitSmart_def okp_emitBytes)
  show "okp (\<lambda>n p'. compiles old p' \<and> goes_on p p' \<and> True) (emitJump op p)"
    using compiles_upd [OF I] by (simp add: okp_emitJump)
  show "okp (\<lambda>_ p'. compiles old p' \<and> goes_on p p') (patchJump n p)"
    by (rule compiles_patchJump [OF I])
  show "okp (\<lambda>k p'. compiles old p' \<and> goes_on p p' \<and> True) (makeConstant (VAL_NUM d) p)"
    using compiles_makeConstant [OF I] by simp
  have copy: "okp (\<lambda>_ p'. compiles old p' \<and> goes_on p p') (on_vm (str_copy chars len ic) p)"
    if "length chars = len" for ic chars len
    by (rule okp_copy [OF m that]) (rule compiles_vm [OF I])
  show "length chars = len \<Longrightarrow> okp (\<lambda>k p'. compiles old p' \<and> goes_on p p' \<and> True)
      (bindp (on_vm (str_copy chars len False)) (\<lambda>s. makeConstant (VAL_OBJ s)) p)"
    using compiles_then_constant copy by simp
  have "okp (\<lambda>_ p'. compiles old p' \<and> goes_on p p') (copy_text t p)" if "tok_good (ps_source p) t"
    by (rule okp_copy_text [OF m that]) (rule compiles_vm [OF I])
  then show "tok_good (ps_source p) t \<Longrightarrow>
      okp (\<lambda>k p'. compiles old p' \<and> goes_on p p' \<and> (\<forall>op. name_op op \<longrightarrow> True)) (identifierConstant t p)"
    using compiles_then_constant by (simp add: identifierConstant_def)
  show "cur_fun p = Some (Inr (f, p)) \<Longrightarrow>
      okp (\<lambda>_ p'. compiles old p' \<and> goes_on p p') (set_cur_fun (f\<lparr>fn_arity := arity\<rparr>) p)"
    using compiles_upd [OF I] by (auto simp: cur_fun_cur_fn set_cur_fun_upd)
  show "okp (\<lambda>_ p'. compiles old p' \<and> goes_on p p') (initCompiler TYPE_FUNCTION p)"
    by (rule compiles_enter [OF I])
next
  fix p p1 p2 assume 1: "goes_on p p1" "goes_on p1 p2" and I: "compiles old p2"
  have "okp (\<lambda>_ p'. compiles old p' \<and> goes_on p2 p') (bindp endCompiler (\<lambda>f. makeConstant (VAL_OBJ f)) p2)"
    by (rule compiles_then_constant) (rule compiles_end [OF I])
  then show "okp (\<lambda>k p'. compiles old p' \<and> goes_on p p' \<and> True)
      (bindp endCompiler (\<lambda>f. makeConstant (VAL_OBJ f)) p2)"
    by (rule okp_mono) (use goes_on_trans [OF goes_on_trans [OF 1]] in blast)
qed simp_all

subsection \<open>What compile leaves\<close>

lemma compile_okp:
  assumes "okp Q (compile_source (parser_init tok0 source vm))"
    and "compile tok0 source vm = Inr (fo, vm')"
  obtains f p where "Q f p" and "vm' = ps_vm p" and "fo = (if ps_hadError p then None else Some f)"
  using assms by (auto simp: compile_def returns_def okp_def elim!: bindr_Inr_E split: option.splits)

lemma compile_source_ok:
  assumes "machine_ok vm" and "hashes_ok vm" and "tok_good source tok0"
  shows "okp (\<lambda>_ p. compiles (stderr vm) p \<and> untouched vm (ps_vm p)) (compile_source (parser_init tok0 source vm))"
proof -
  let ?p = "parser_init tok0 source vm"
  have I: "compiles (stderr vm) ?p"
    using assms by (simp add: parser_init_def compiles_def toks_ok_def errors_are_def lexer_init_def)
  have eq: "compile_source = seqp (initCompiler TYPE_SCRIPT) (seqp (seqp ps_advance (run parse Script)) endCompiler)"
    by (simp add: compile_source_def seqp_assoc)
  have "okp (\<lambda>_ p. compiles (stderr vm) p \<and> goes_on ?p p) (compile_source ?p)"
    unfolding eq okp_seqp [of _ "initCompiler _"] comp_def
  proof (rule okp_mono [OF compiles_enter [OF I]])
    fix x :: unit and p1 assume 1: "compiles (stderr vm) p1 \<and> goes_on ?p p1"
    then have "okp (\<lambda>_ p2. compiles (stderr vm) p2 \<and> goes_on p1 p2) (seqp ps_advance (run parse Script) p1)"
      by (intro pm.script_ok) simp
    then show "okp (\<lambda>_ p. compiles (stderr vm) p \<and> goes_on ?p p)
        (seqp (seqp ps_advance (run parse Script)) endCompiler p1)"
      unfolding okp_seqp [of _ "seqp _ _"] comp_def
    proof (rule okp_mono)
      fix y :: unit and p2 assume 2: "compiles (stderr vm) p2 \<and> goes_on p1 p2"
      then have "goes_on ?p p2" using 1 goes_on_trans by blast
      then show "okp (\<lambda>_ p. compiles (stderr vm) p \<and> goes_on ?p p) (endCompiler p2)"
        using compiles_end 2 goes_on_trans by (blast intro: okp_mono)
    qed
  qed
  then show ?thesis by (rule okp_mono) (simp add: goes_on_def parser_init_def)
qed

end
