(* ===== verification/Coding.thy ===== *)
theory Coding
  imports Compiling
begin

text \<open>
  The second interpretation of the contract of the compiler: the code that it writes is well formed, unless
  an error has been reported.
\<close>

subsection \<open>Emissions keep code well formed\<close>

definition consts_of :: "fun_t \<Rightarrow> val_t list" where
  "consts_of f = arr_values (ck_constants (fn_chunk f))"

definition grows :: "fun_t \<Rightarrow> fun_t \<Rightarrow> bool" where
  "grows f f' \<longleftrightarrow> prefix (consts_of f) (consts_of f') \<and>
     (\<forall>is. instrs (ck_code (fn_chunk f)) = Some is \<longrightarrow>
        (\<exists>is'. instrs (ck_code (fn_chunk f')) = Some is' \<and> prefix (map fst is) (map fst is')))"

lemma grows_refl [simp]: "grows f f"
  by (simp add: grows_def)

lemma grows_trans: "grows f1 f2 \<Longrightarrow> grows f2 f3 \<Longrightarrow> grows f1 f3"
  unfolding grows_def by (meson prefix_order.trans)

lemma emits_simps [simp]:
  "ck_code (fn_chunk (emits t bs f)) = ck_code (fn_chunk f) @ bs"
  "ck_constants (fn_chunk (emits t bs f)) = ck_constants (fn_chunk f)"
  "chunk_ok (fn_chunk f) \<Longrightarrow> chunk_ok (fn_chunk (emits t bs f))"
proof -
  have "ck_code (fold (\<lambda>b c. chunk_emit c b l k) bs c) = ck_code c @ bs"
    "ck_constants (fold (\<lambda>b c. chunk_emit c b l k) bs c) = ck_constants c"
    "chunk_ok c \<Longrightarrow> chunk_ok (fold (\<lambda>b c. chunk_emit c b l k) bs c)" for l k c
    by (induction bs arbitrary: c) (simp_all add: chunk_emit_ok)
  then show "ck_code (fn_chunk (emits t bs f)) = ck_code (fn_chunk f) @ bs"
    "ck_constants (fn_chunk (emits t bs f)) = ck_constants (fn_chunk f)"
    "chunk_ok (fn_chunk f) \<Longrightarrow> chunk_ok (fn_chunk (emits t bs f))"
    by (simp_all add: emits_def)
qed

lemma jump_target_append: "k < length is \<Longrightarrow> jump_target (is @ xs) k = jump_target is k"
  by (simp add: jump_target_def nth_append)

lemma jumps_append:
  assumes "jumps_in is (length is)" and "op_len op = 2 \<Longrightarrow> args = [0, 0]"
  shows "jumps_in (is @ [(op, args)]) (Suc (length is))"
  unfolding jumps_in_def
proof (intro allI impI)
  let ?is = "is @ [(op, args)]"
  fix k assume k: "k < length ?is" "op_len (fst (?is ! k)) = 2"
  show "\<exists>m \<le> Suc (length is). jump_target ?is k = off (take m (map fst ?is))"
  proof (cases "k < length is")
    case True
    with assms(1) k(2) obtain m where m: "m \<le> length is" "jump_target is k = off (take m (map fst is))"
      by (auto simp: jumps_in_def nth_append)
    then show ?thesis using True by (intro exI [of _ m]) (simp add: jump_target_append)
  next
    case False
    with k have e: "k = length is" "args = [0, 0]" using assms(2) by (auto simp: nth_append)
    then show ?thesis
      by (intro exI [of _ "Suc (length is)"]) (simp add: jump_target_def short_of_def)
  qed
qed

lemma open_emit:
  assumes "open_code h f" and "length args = op_len op" and "operand_ok h (consts_of f) op args"
    and "op_len op = 2 \<Longrightarrow> args = [0, 0]"
  shows "open_code h (emits t (opcode_byte op # args) f)" and "grows f (emits t (opcode_byte op # args) f)"
proof -
  let ?f = "emits t (opcode_byte op # args) f"
  have i: "instrs (ck_code (fn_chunk ?f)) = Some (is @ [(op, args)])"
    if "instrs (ck_code (fn_chunk f)) = Some is" for "is"
    using instrs_append [OF that] instrs_one [OF assms(2)] by simp
  from assms(1) obtain js where js: "body_ok h f js (length js)" by (auto simp: open_code_def)
  have "body_ok h ?f (js @ [(op, args)]) (Suc (length js))"
    using js i [of js] jumps_append [of js op args] assms(3,4) by (auto simp: body_ok_def consts_of_def)
  then show "open_code h ?f" unfolding open_code_def by (intro exI [of _ "js @ [(op, args)]"]) simp
  show "grows f ?f" unfolding grows_def using i by (simp add: consts_of_def)
qed

lemma open_end:
  assumes "open_code h f"
  shows "code_ok h (emits t [opcode_byte OP_NIL, opcode_byte OP_RET] f)"
proof -
  let ?f = "emits t [opcode_byte OP_NIL] f"
  have "open_code h ?f"
    by (rule open_emit(1) [OF assms]) (simp_all add: operand_ok_def name_op_def)
  then obtain js where js: "body_ok h ?f js (length js)" by (auto simp: open_code_def)
  have i: "instrs (ck_code (fn_chunk (emits t [opcode_byte OP_RET] ?f))) = Some (js @ [(OP_RET, [])])"
    using instrs_append [of "ck_code (fn_chunk ?f)" js "[opcode_byte OP_RET]"] js instrs_one [of "[]" OP_RET]
    by (simp add: body_ok_def)
  have j: "jumps_in (js @ [(OP_RET, [])]) (length js)"
    unfolding jumps_in_def
  proof (intro allI impI)
    fix k assume k: "k < length (js @ [(OP_RET, [])])" "op_len (fst ((js @ [(OP_RET, [])]) ! k)) = 2"
    then have "k < length js" by (cases "k = length js") auto
    with k(2) js obtain m where "m \<le> length js" "jump_target js k = off (take m (map fst js))"
      by (auto simp: jumps_in_def body_ok_def nth_append)
    then show "\<exists>m \<le> length js. jump_target (js @ [(OP_RET, [])]) k =
        off (take m (map fst (js @ [(OP_RET, [])])))"
      using \<open>k < length js\<close> by (intro exI [of _ m]) (simp add: jump_target_append)
  qed
  have "body_ok h (emits t [opcode_byte OP_RET] ?f) (js @ [(OP_RET, [])]) (length js)"
    using js i j by (auto simp: body_ok_def operand_ok_def name_op_def simp del: emits_emits)
  then show ?thesis
    unfolding code_ok_def by (intro exI [of _ "js @ [(OP_RET, [])]"]) simp
qed

text \<open>The two bytes of a jump give its distance back.\<close>

lemma short_of_bytes:
  assumes "a < 256" and "b < 256"
  shows "short_of (word_of_nat a) (word_of_nat b) = word_of_nat (256 * a + b)"
proof -
  have u: "(ucast (word_of_nat n :: u8) :: u16) = word_of_nat n" if "n < 256" for n
    using that by (simp add: unsigned_of_nat take_bit_nat_eq_self)
  have "word_of_nat b = take_bit 8 (word_of_nat b :: u16)"
    using assms(2) by (simp add: take_bit_of_nat take_bit_nat_eq_self)
  then have low: "bit (word_of_nat b :: u16) n \<Longrightarrow> n < 8" for n
    by (metis bit_take_bit_iff)
  have "push_bit 8 (word_of_nat a) + word_of_nat b = or (push_bit 8 (word_of_nat a :: u16)) (word_of_nat b)"
    by (rule disjunctive_add) (use low in \<open>auto simp: bit_push_bit_iff dest!: low\<close>)
  then show ?thesis
    using assms by (simp add: short_of_def u push_bit_eq_mult mult.commute [of _ "256"])
qed

lemma jump_bytes:
  assumes "j \<le> 65535"
  shows "unat (short_of (jump_hi j) (jump_lo j)) = j"
proof -
  have "j div 256 < 256" "j mod 256 < 256" using assms by (simp_all add: div_less_iff_less_mult)
  then have "short_of (jump_hi j) (jump_lo j) = word_of_nat j"
    using short_of_bytes [of "j div 256" "j mod 256"] by (simp add: jump_hi_def jump_lo_def)
  then show ?thesis using assms by (simp add: unsigned_of_nat take_bit_nat_eq_self)
qed

lemma open_patch:
  assumes "open_code h f" and "instrs (ck_code (fn_chunk f)) = Some is" and "k < length is"
    and "op_len (fst (is ! k)) = 2" and "n = Suc (off (take k (map fst is)))"
    and "j = ck_count (fn_chunk f) - n - 2" and "j \<le> 65535"
    and "code = (ck_code (fn_chunk f))[n := jump_hi j, n + 1 := jump_lo j]"
  shows "open_code h (with_code code f)" and "grows f (with_code code f)"
proof -
  let ?x = "(fst (is ! k), [jump_hi j, jump_lo j])" and ?ops = "map fst is"
  let ?is = "is[k := ?x]"
  from assms(1,2) have b: "body_ok h f is (length is)" by (auto simp: open_code_def body_ok_def)
  have i: "instrs code = Some ?is"
    using instrs_update [OF assms(2,3,4,5)] assms(8) by simp
  have ops: "map fst ?is = ?ops" by (simp add: map_update list_update_same_conv assms(3))
  have len: "ck_count (fn_chunk f) = off ?ops"
    using b instrs_length [OF assms(2)] by (simp add: body_ok_def chunk_ok_def)
  have "off (take (Suc k) ?ops) \<le> off ?ops"
    by (metis append_take_drop_id le_add1 off_simps(3))
  then have tgt: "off (take (Suc k) ?ops) + j = off ?ops"
    using assms(3,4,5,6) len by (simp add: off_take_Suc)
  have "jumps_in ?is (length ?is)"
    unfolding jumps_in_def
  proof (intro allI impI)
    fix l assume l: "l < length ?is" "op_len (fst (?is ! l)) = 2"
    show "\<exists>m \<le> length ?is. jump_target ?is l = off (take m (map fst ?is))"
    proof (cases "l = k")
      case True
      then have "jump_target ?is l = off (take (length is) ?ops)"
        using assms(3) tgt jump_bytes [OF assms(7)] by (simp add: jump_target_def ops del: take_Suc)
      then show ?thesis by (intro exI [of _ "length is"]) (simp add: ops)
    next
      case False
      then show ?thesis using b l by (auto simp: body_ok_def jumps_in_def jump_target_def ops)
    qed
  qed
  moreover have "\<forall>(op, args) \<in> set ?is. operand_ok h (arr_values (ck_constants (fn_chunk f))) op args"
  proof
    fix y assume "y \<in> set ?is"
    then have "y = ?x \<or> y \<in> set is" using set_update_subset_insert by fastforce
    moreover have "operand_ok h cs (fst (is ! k)) args" for cs args
      using assms(4) by (auto simp: operand_ok_def name_op_def)
    ultimately show "case y of (op, args) \<Rightarrow> operand_ok h (arr_values (ck_constants (fn_chunk f))) op args"
      using b by (auto simp: body_ok_def)
  qed
  ultimately have "body_ok h (with_code code f) ?is (length ?is)"
    using b i assms(8) by (simp add: body_ok_def with_code_def chunk_ok_def)
  then show "open_code h (with_code code f)" unfolding open_code_def by blast
  show "grows f (with_code code f)"
    using i assms(2) ops by (simp add: grows_def consts_of_def with_code_def)
qed

lemma val_equal_obj [simp]: "val_equal x (VAL_OBJ a) \<longleftrightarrow> x = VAL_OBJ a"
  by (cases x) auto

lemma open_constants:
  assumes "open_code h f" and "arr_add (ck_constants (fn_chunk f)) v False = (cs, k)"
  shows "open_code h (with_constants cs f)" and "grows f (with_constants cs f)"
    and "k < length (consts_of (with_constants cs f))"
    and "v = VAL_OBJ a \<Longrightarrow> consts_of (with_constants cs f) ! k = VAL_OBJ a"
proof -
  from assms(1) obtain js where b: "body_ok h f js (length js)" by (auto simp: open_code_def)
  then have ok: "arr_ok (ck_constants (fn_chunk f))" by (simp add: body_ok_def chunk_ok_def)
  note a = arr_add_spec [OF ok assms(2)]
  have p: "prefix (arr_values (ck_constants (fn_chunk f))) (arr_values cs)"
    using a [THEN conjunct2, THEN conjunct2, THEN conjunct2] by (elim disjE) simp_all
  then have "body_ok h (with_constants cs f) js (length js)"
    using b a operand_ok_mono [OF _ p] by (fastforce simp: body_ok_def with_constants_def chunk_ok_def)
  then show "open_code h (with_constants cs f)" by (auto simp: open_code_def)
  show "grows f (with_constants cs f)" using p by (simp add: grows_def consts_of_def with_constants_def)
  show "k < length (consts_of (with_constants cs f))"
    "v = VAL_OBJ a \<Longrightarrow> consts_of (with_constants cs f) ! k = VAL_OBJ a"
    using a by (auto simp: consts_of_def with_constants_def)
qed

lemma open_fresh: "open_code h (fresh_fun name source)"
  by (simp add: open_code_def body_ok_def fresh_fun_def jumps_in_def) (simp add: chunk_init_def)

lemma open_arity:
  "open_code h (f\<lparr>fn_arity := n\<rparr>) = open_code h f" "grows f (f\<lparr>fn_arity := n\<rparr>)"
  by (simp_all add: open_code_def body_ok_def grows_def consts_of_def)

subsection \<open>The invariant\<close>

abbreviation funs_of :: "parser_t \<Rightarrow> addr list" where
  "funs_of p \<equiv> map cp_function (ps_compilers p)"

abbreviation heap_of :: "parser_t \<Rightarrow> obj_heap" where
  "heap_of p \<equiv> heap (ps_vm p)"

definition all_code_ok :: "parser_t \<Rightarrow> bool" where
  "all_code_ok p \<longleftrightarrow> (\<forall>a f. fun_at (heap_of p) a = Some f \<longrightarrow>
     (if a \<in> set (funs_of p) then open_code (heap_of p) f else code_ok (heap_of p) f))"

definition coded :: "parser_t \<Rightarrow> bool" where
  "coded p \<longleftrightarrow> distinct (funs_of p) \<and> (\<forall>a \<in> set (funs_of p). fun_at (heap_of p) a \<noteq> None) \<and>
     (ps_panicMode p \<longrightarrow> ps_hadError p) \<and> (ps_hadError p \<or> all_code_ok p)"

definition coding :: "err_item list \<Rightarrow> parser_t \<Rightarrow> bool" where
  "coding old p \<longleftrightarrow> compiles old p \<and> coded p"

text \<open>Later in the same nesting: the enclosing functions are the same, the current one has grown.\<close>

definition code_on :: "parser_t \<Rightarrow> parser_t \<Rightarrow> bool" where
  "code_on p p' \<longleftrightarrow> goes_on p p' \<and> funs_of p' = funs_of p \<and> (ps_hadError p \<longrightarrow> ps_hadError p') \<and>
     (\<forall>a \<in> set (tl (funs_of p)). fun_at (heap_of p') a = fun_at (heap_of p) a) \<and>
     (ps_hadError p' \<or> (\<forall>f'. cur_fn p' = Some f' \<longrightarrow> (\<exists>f. cur_fn p = Some f \<and> grows f f')))"

definition operand_of :: "parser_t \<Rightarrow> opcode_t \<Rightarrow> u8 \<Rightarrow> bool" where
  "operand_of p op k \<longleftrightarrow> ps_hadError p \<or>
     (\<forall>f. cur_fn p = Some f \<longrightarrow> operand_ok (heap_of p) (consts_of f) op [k])"

definition jump_at :: "parser_t \<Rightarrow> nat \<Rightarrow> bool" where
  "jump_at p n \<longleftrightarrow> ps_hadError p \<or>
     (\<forall>f. cur_fn p = Some f \<longrightarrow> (\<exists>is k. instrs (ck_code (fn_chunk f)) = Some is \<and> k < length is \<and>
        op_len (fst (is ! k)) = 2 \<and> n = Suc (off (take k (map fst is)))))"

definition nested :: "parser_t \<Rightarrow> parser_t \<Rightarrow> bool" where
  "nested p p1 \<longleftrightarrow> goes_on p p1 \<and> (ps_hadError p \<longrightarrow> ps_hadError p1) \<and>
     (\<exists>a. funs_of p1 = a # funs_of p) \<and>
     (\<forall>a \<in> set (funs_of p). fun_at (heap_of p1) a = fun_at (heap_of p) a)"

lemma code_on_refl [simp]: "code_on p p"
  by (simp add: code_on_def)

lemma code_on_trans:
  assumes "code_on p1 p2" and "code_on p2 p3"
  shows "code_on p1 p3"
proof -
  have "\<exists>f. cur_fn p1 = Some f \<and> grows f f'" if "\<not> ps_hadError p3" "cur_fn p3 = Some f'" for f'
  proof -
    from assms(2) that obtain f2 where f2: "cur_fn p2 = Some f2" "grows f2 f'" by (auto simp: code_on_def)
    have "\<not> ps_hadError p2" using assms(2) that(1) by (auto simp: code_on_def)
    with assms(1) f2(1) obtain f1 where "cur_fn p1 = Some f1" "grows f1 f2" by (auto simp: code_on_def)
    with grows_trans [OF _ f2(2)] show ?thesis by blast
  qed
  then show ?thesis
    using assms goes_on_trans [of p1 p2 p3] unfolding code_on_def by auto
qed

lemma code_on_strs: "goes_on p p' \<Longrightarrow> is_str (heap_of p) a \<Longrightarrow> is_str (heap_of p') a"
  by (simp add: goes_on_def untouched_def)

lemma operand_of_mono:
  assumes "code_on p p'" and "operand_of p op k"
  shows "operand_of p' op k"
  unfolding operand_of_def
proof (rule disjCI)
  assume "\<not> (\<forall>f. cur_fn p' = Some f \<longrightarrow> operand_ok (heap_of p') (consts_of f) op [k])"
  then obtain f' where f': "cur_fn p' = Some f'" "\<not> operand_ok (heap_of p') (consts_of f') op [k]" by blast
  show "ps_hadError p'"
  proof (rule ccontr)
    assume ne: "\<not> ps_hadError p'"
    with assms(1) f'(1) obtain f where f: "cur_fn p = Some f" "grows f f'" by (auto simp: code_on_def)
    have "\<not> ps_hadError p" using ne assms(1) by (auto simp: code_on_def)
    with assms(2) f(1) have "operand_ok (heap_of p) (consts_of f) op [k]" by (simp add: operand_of_def)
    from operand_ok_mono [OF this] f(2) f'(2) assms(1) show False
      by (auto simp: grows_def code_on_def dest: code_on_strs)
  qed
qed

lemma jump_at_mono:
  assumes "code_on p p'" and "jump_at p n"
  shows "jump_at p' n"
proof (cases "ps_hadError p'")
  case False
  have "\<exists>is k. instrs (ck_code (fn_chunk f')) = Some is \<and> k < length is \<and>
        op_len (fst (is ! k)) = 2 \<and> n = Suc (off (take k (map fst is)))" if f': "cur_fn p' = Some f'" for f'
  proof -
    from False assms(1) f' obtain f where f: "cur_fn p = Some f" "grows f f'" by (auto simp: code_on_def)
    have "\<not> ps_hadError p" using False assms(1) by (auto simp: code_on_def)
    with assms(2) f(1) obtain js k where j: "instrs (ck_code (fn_chunk f)) = Some js" "k < length js"
      "op_len (fst (js ! k)) = 2" "n = Suc (off (take k (map fst js)))"
      by (auto simp: jump_at_def)
    from f(2) j(1) obtain is' where i: "instrs (ck_code (fn_chunk f')) = Some is'"
      "prefix (map fst js) (map fst is')" by (auto simp: grows_def)
    from i(2) obtain ys where ys: "map fst is' = map fst js @ ys" by (auto simp: prefix_def)
    then have len: "k < length is'" using j(2) by (metis length_append length_map trans_less_add1)
    have "map fst is' ! k = map fst js ! k" using ys j(2) by (simp add: nth_append)
    then have "fst (is' ! k) = fst (js ! k)" using len j(2) by simp
    moreover have "take k (map fst is') = take k (map fst js)" using ys j(2) by simp
    ultimately show ?thesis using i(1) len j(3,4) by (intro exI [of _ is'] exI [of _ k]) simp
  qed
  then show ?thesis by (simp add: jump_at_def)
qed (simp add: jump_at_def)

subsection \<open>Steps of the compiler\<close>

lemma fun_at_upd_fn:
  assumes "compiles old p" and "cur_fn p = Some f"
  shows "fun_at (heap_of (upd_fn g p)) = (fun_at (heap_of p))(hd (funs_of p) \<mapsto> g)"
proof -
  from assms(2) obtain c cs where c: "ps_compilers p = c # cs" "fun_at (heap_of p) (cp_function c) = Some f"
    by (auto simp: cur_fn_Some)
  with assms(1) put_fun_grown [of "ps_vm p" "cp_function c" f g] show ?thesis
    by (simp add: upd_fn_def compiles_def)
qed

lemma coding_upd:
  assumes c: "coding old p" and f: "cur_fn p = Some f"
    and g: "\<not> ps_hadError p \<Longrightarrow> open_code (heap_of p) f \<Longrightarrow> open_code (heap_of p) g \<and> grows f g"
  shows "coding old (upd_fn g p) \<and> code_on p (upd_fn g p)"
proof -
  let ?p = "upd_fn g p"
  have c0: "compiles old p" "coded p" using c by (simp_all add: coding_def)
  have u: "compiles old ?p" "goes_on p ?p" using compiles_upd [OF c0(1) f] by simp_all
  note fa = fun_at_upd_fn [OF c0(1) f, of g]
  obtain a as where as: "funs_of p = a # as" "fun_at (heap_of p) a = Some f"
    using f by (auto simp: cur_fn_Some)
  have strs: "is_str (heap_of p) b \<Longrightarrow> is_str (heap_of ?p) b" for b using u(2) code_on_strs by blast
  have all: "all_code_ok ?p" if "\<not> ps_hadError p"
  proof -
    have old: "all_code_ok p" using that c0(2) by (simp add: coded_def)
    then have "open_code (heap_of p) f" using as by (simp add: all_code_ok_def)
    then have "open_code (heap_of p) g" using g that by blast
    with old show ?thesis
      using code_heap [of "heap_of p" "heap_of ?p"] strs as unfolding all_code_ok_def fa
      by (auto split: if_splits)
  qed
  have gr: "grows f g" if "\<not> ps_hadError p"
  proof -
    have "open_code (heap_of p) f" using that c0(2) as by (simp add: coded_def all_code_ok_def)
    with g that show ?thesis by blast
  qed
  have "coded ?p" using c0(2) all as unfolding coded_def fa by (auto simp: upd_fn_def)
  moreover have "code_on p ?p"
    unfolding code_on_def fa using u(2) f gr c0(2) as by (auto simp: cur_upd_fn coded_def)
  ultimately show ?thesis using u(1) by (simp add: coding_def)
qed

lemma coding_vm:
  assumes "coding old p" and "vm_grown (ps_vm p) vm" and "stderr vm = stderr (ps_vm p)"
    and "fun_at (heap vm) = fun_at (heap_of p)"
  shows "coding old (p\<lparr>ps_vm := vm\<rparr>) \<and> code_on p (p\<lparr>ps_vm := vm\<rparr>)"
proof -
  let ?p = "p\<lparr>ps_vm := vm\<rparr>"
  have u: "compiles old ?p" "goes_on p ?p"
    using compiles_vm [of old, OF _ assms(2,3)] assms(1) by (simp_all add: coding_def)
  have cur: "cur_fn ?p = cur_fn p" using assms(4) by (simp add: cur_fn_def split: list.split)
  have strs: "is_str (heap_of p) b \<Longrightarrow> is_str (heap vm) b" for b using code_on_strs [OF u(2)] by simp
  have "all_code_ok ?p" if "all_code_ok p"
    using that code_heap [of "heap_of p" "heap vm"] strs assms(4) by (auto simp: all_code_ok_def)
  then have "coded ?p" using assms(1,4) by (auto simp: coded_def coding_def)
  with u cur assms(4) show ?thesis by (simp add: coding_def code_on_def)
qed

lemma coding_cong:
  assumes "coding old p" and "ps_vm p' = ps_vm p" and "ps_source p' = ps_source p" and "toks_ok p'"
    and "ps_hadError p' = ps_hadError p" and "ps_panicMode p' \<longrightarrow> ps_panicMode p" and "funs_of p' = funs_of p"
  shows "coding old p' \<and> code_on p p'"
proof -
  have "cur_fn p' = cur_fn p"
    using assms(2,7) by (cases "ps_compilers p"; cases "ps_compilers p'") (simp_all add: cur_fn_def)
  with assms compiles_cong [of old p p'] show ?thesis
    by (auto simp: coding_def coded_def code_on_def all_code_ok_def)
qed

interpretation pf: parser_errors "coding old" code_on for old
proof
  fix p p' p1 p2 p3 item
  show "code_on p p" by simp
  show "code_on p1 p2 \<Longrightarrow> code_on p2 p3 \<Longrightarrow> code_on p1 p3" by (rule code_on_trans)
  show "code_on p p' \<Longrightarrow> ps_source p' = ps_source p" by (simp add: code_on_def goes_on_def)
  assume c: "coding old p" and p': "p' = p\<lparr>ps_vm := (ps_vm p)\<lparr>stderr := stderr (ps_vm p) @ [Compile_error item]\<rparr>,
        ps_panicMode := True, ps_hadError := True\<rparr>"
  then have "compiles old p' \<and> goes_on p p'" by (intro pe.I_error) (simp_all add: coding_def)
  with c p' show "coding old p' \<and> code_on p p'"
    by (simp add: coding_def coded_def code_on_def)
qed

text \<open>After an error message, or in panic mode, an error has been recorded.\<close>

lemma error_recorded:
  assumes "coding old p"
  shows "okp (\<lambda>_ p'. coding old p' \<and> code_on p p' \<and> ps_hadError p' \<and> cur_fn p' = cur_fn p) (error m p)"
  unfolding okp_def
proof (intro allI impI)
  fix x p1 assume e: "error m p = Some (Inr (x, p1))"
  with pf.okp_errors(1) [OF assms, of m] have 1: "coding old p1" "code_on p p1" by simp_all
  from errorAt_cases [OF e [unfolded error_def]] have "cur_fn p1 = cur_fn p \<and> (ps_panicMode p1 \<or> ps_hadError p1)" by auto
  then show "coding old p1 \<and> code_on p p1 \<and> ps_hadError p1 \<and> cur_fn p1 = cur_fn p"
    using 1 by (auto simp: coding_def coded_def)
qed

lemma coding_makeConstant:
  assumes c: "coding old p"
  shows "okp (\<lambda>k p'. coding old p' \<and> code_on p p' \<and>
    (\<forall>op. op = OP_CONST \<or> name_op op \<and> (\<exists>a. v = VAL_OBJ a \<and> is_str (heap_of p) a) \<longrightarrow> operand_of p' op k))
    (makeConstant v p)"
  unfolding okp_makeConstant
proof (intro allI impI)
  fix f cs k assume f: "cur_fn p = Some f" and add: "arr_add (ck_constants (fn_chunk f)) v False = (cs, k)"
  let ?g = "with_constants cs f" and ?p = "upd_fn (with_constants cs f) p"
  let ?Q = "\<lambda>k p'. coding old p' \<and> code_on p p' \<and>
    (\<forall>op. op = OP_CONST \<or> name_op op \<and> (\<exists>a. v = VAL_OBJ a \<and> is_str (heap_of p) a) \<longrightarrow> operand_of p' op k)"
  have u: "coding old ?p" "code_on p ?p"
    using coding_upd [OF c f, of ?g] open_constants(1,2) [OF _ add] by blast+
  have "okp (\<lambda>_. ?Q 0) (error m ?p)" for m
    using error_recorded [OF u(1)] by (rule okp_mono) (use code_on_trans [OF u(2)] in \<open>auto simp: operand_of_def\<close>)
  moreover have "operand_of ?p op (word_of_nat k)" if "\<not> 255 < k"
    and op: "op = OP_CONST \<or> name_op op \<and> (\<exists>a. v = VAL_OBJ a \<and> is_str (heap_of p) a)" for op
  proof (cases "ps_hadError p")
    case False
    obtain a as where as: "funs_of p = a # as" "fun_at (heap_of p) a = Some f"
      using f by (auto simp: cur_fn_Some)
    have "open_code (heap_of p) f" using False c as by (simp add: coding_def coded_def all_code_ok_def)
    note oc = open_constants(3,4) [OF this add]
    have k: "unat (word_of_nat k :: u8) = k" using that(1) by (simp add: unsigned_of_nat take_bit_nat_eq_self)
    have "operand_ok (heap_of ?p) (consts_of ?g) op [word_of_nat k]"
      using op oc k u(2) by (auto simp: operand_ok_def name_op_def code_on_def dest: code_on_strs)
    then show ?thesis by (simp add: operand_of_def cur_upd_fn [OF f])
  qed (simp add: operand_of_def)
  ultimately show "if 255 < k then okp (\<lambda>_. ?Q 0) (error ''Too many constants in one chunk.'' ?p)
    else ?Q (word_of_nat k) ?p"
    using u by auto
qed

lemma coding_then_constant:
  assumes "okp (\<lambda>a p'. coding old p' \<and> code_on p p' \<and> P a p') (m p)"
    and "\<And>a p' op. P a p' \<Longrightarrow> D op \<Longrightarrow> op = OP_CONST \<or> name_op op \<and> is_str (heap_of p') a"
  shows "okp (\<lambda>k p'. coding old p' \<and> code_on p p' \<and> (\<forall>op. D op \<longrightarrow> operand_of p' op k))
    (bindp m (\<lambda>a. makeConstant (VAL_OBJ a)) p)"
  unfolding okp_bindp comp_def
proof (rule okp_mono [OF assms(1)])
  fix x p1 assume 1: "coding old p1 \<and> code_on p p1 \<and> P x p1"
  then have c: "coding old p1" "code_on p p1" "P x p1" by simp_all
  show "okp (\<lambda>k p'. coding old p' \<and> code_on p p' \<and> (\<forall>op. D op \<longrightarrow> operand_of p' op k))
      (makeConstant (VAL_OBJ x) p1)"
    using coding_makeConstant [OF c(1), of "VAL_OBJ x"]
    by (rule okp_mono) (use code_on_trans [OF c(2)] assms(2) [OF c(3)] in blast)
qed

lemma coding_patchJump:
  assumes c: "coding old p" and n: "jump_at p n"
  shows "okp (\<lambda>_ p'. coding old p' \<and> code_on p p') (patchJump n p)"
  unfolding okp_patchJump
proof (intro allI impI)
  fix f j code
  assume f: "cur_fn p = Some f" and j: "j = ck_count (fn_chunk f) - n - 2"
    and code: "code = (ck_code (fn_chunk f))[n := jump_hi j, n + 1 := jump_lo j]"
  let ?g = "with_code code f"
  have "okp (\<lambda>_ p'. coding old (upd_fn ?g p') \<and> code_on p (upd_fn ?g p')) (error m p)" for m
  proof (rule okp_mono [OF error_recorded [OF c]])
    fix x p1 assume 1: "coding old p1 \<and> code_on p p1 \<and> ps_hadError p1 \<and> cur_fn p1 = cur_fn p"
    then have "coding old (upd_fn ?g p1) \<and> code_on p1 (upd_fn ?g p1)"
      using f by (intro coding_upd) auto
    with 1 show "coding old (upd_fn ?g p1) \<and> code_on p (upd_fn ?g p1)" using code_on_trans by blast
  qed
  moreover have "coding old (upd_fn ?g p) \<and> code_on p (upd_fn ?g p)" if "\<not> 65535 < j"
  proof (rule coding_upd [OF c f])
    assume "\<not> ps_hadError p" and o: "open_code (heap_of p) f"
    with n f obtain js k where js: "instrs (ck_code (fn_chunk f)) = Some js" "k < length js"
      "op_len (fst (js ! k)) = 2" "n = Suc (off (take k (map fst js)))"
      by (auto simp: jump_at_def)
    have le: "j \<le> 65535" using that by simp
    show "open_code (heap_of p) ?g \<and> grows f ?g"
      using open_patch [OF o js j le code] by blast
  qed
  ultimately show "if 65535 < j
       then okp (\<lambda>_ p'. coding old (upd_fn ?g p') \<and> code_on p (upd_fn ?g p'))
         (error ''Too much code to jump over.'' p)
       else coding old (upd_fn ?g p) \<and> code_on p (upd_fn ?g p)" by simp
qed

lemma coding_emit:
  assumes c: "coding old p" and f: "cur_fn p = Some f" and len: "length args = op_len op"
    and op: "\<not> ps_hadError p \<Longrightarrow> operand_ok (heap_of p) (consts_of f) op args"
    and jmp: "op_len op = 2 \<Longrightarrow> args = [0, 0]" and p': "p' = upd_fn (emits (ps_previous p) (opcode_byte op # args) f) p"
  shows "coding old p' \<and> code_on p p'"
  unfolding p' using open_emit [OF _ len _ jmp] op by (intro coding_upd [OF c f]) blast

lemma operand_ok_simple: "bare_op op \<or> free_op op \<or> op_len op = 2 \<Longrightarrow> operand_ok h cs op args"
  by (cases op) (simp_all add: operand_ok_def name_op_def bare_op_def free_op_def)

lemma coding_jump:
  assumes c: "coding old p" and f: "cur_fn p = Some f" and op: "op_len op = 2"
  shows "jump_at (upd_fn (emits (ps_previous p) [opcode_byte op, 0, 0] f) p) (ck_count (fn_chunk f) + 1)"
proof (cases "ps_hadError p")
  case False
  obtain a as where as: "funs_of p = a # as" "fun_at (heap_of p) a = Some f"
    using f by (auto simp: cur_fn_Some)
  have "open_code (heap_of p) f" using False c as by (simp add: coding_def coded_def all_code_ok_def)
  then obtain js where js: "body_ok (heap_of p) f js (length js)" by (auto simp: open_code_def)
  then have i: "instrs (ck_code (fn_chunk f)) = Some js" by (simp add: body_ok_def)
  then have "ck_count (fn_chunk f) = off (map fst js)"
    using js instrs_length by (simp add: body_ok_def chunk_ok_def)
  moreover have "instrs (ck_code (fn_chunk f) @ [opcode_byte op, 0, 0]) = Some (js @ [(op, [0, 0])])"
    using instrs_append [OF i, of "[opcode_byte op, 0, 0]"] op by simp
  ultimately show ?thesis
    using op unfolding jump_at_def cur_upd_fn [OF f]
    by (intro disjI2) (auto intro!: exI [of _ "js @ [(op, [0, 0])]"] exI [of _ "length js"])
qed (simp add: jump_at_def)

lemma coding_enter:
  assumes c: "coding old p"
  shows "okp (\<lambda>_ p'. coding old p' \<and> nested p p') (initCompiler ty p)"
proof (rule okp_initCompiler)
  have c0: "compiles old p" "coded p" using c by (simp_all add: coding_def)
  then show "machine_ok (ps_vm p)" "tok_good (ps_source p) (ps_previous p)"
    by (simp_all add: compiles_def toks_ok_def)
  fix a vm name
  assume vm: "vm_grown (ps_vm p) vm" "stderr vm = stderr (ps_vm p)" and new: "heap (ps_vm p) a = None"
    and fa: "fun_at (heap vm) = (fun_at (heap_of p))(a \<mapsto> fresh_fun name (ps_source p))"
  let ?p = "entered a ty vm p"
  have u: "compiles old ?p" "goes_on p ?p"
    using compiles_vm [OF c0(1) vm] by (simp_all add: compiles_def goes_on_def entered_def toks_ok_def errors_are_def)
  have simps: "funs_of ?p = a # funs_of p" "ps_vm ?p = vm" "ps_hadError ?p = ps_hadError p"
    "ps_panicMode ?p = ps_panicMode p" by (simp_all add: entered_def)
  have "fun_at (heap_of p) a = None" using new by (simp add: fun_at_def)
  then have a: "a \<notin> set (funs_of p)" using c0(2) by (auto simp: coded_def)
  have strs: "is_str (heap_of p) b \<Longrightarrow> is_str (heap vm) b" for b
    using code_on_strs [OF u(2)] by (simp add: simps)
  have "all_code_ok ?p" if "all_code_ok p"
    using that code_heap [of "heap_of p" "heap vm"] strs open_fresh
    unfolding all_code_ok_def simps fa by (auto split: if_splits)
  then have "coded ?p" using c0(2) a unfolding coded_def simps fa by auto
  then show "coding old ?p \<and> nested p ?p"
    using u a unfolding coding_def nested_def simps fa by auto
qed

lemma coding_end:
  assumes c: "coding old p"
  shows "okp (\<lambda>_ p'. coding old p' \<and> goes_on p p' \<and> ps_hadError p' = ps_hadError p \<and>
    funs_of p' = tl (funs_of p) \<and> (\<forall>a \<in> set (funs_of p'). fun_at (heap_of p') a = fun_at (heap_of p) a)) (endCompiler p)"
  unfolding okp_endCompiler
proof (intro allI impI)
  fix f assume f: "cur_fn p = Some f"
  have c0: "compiles old p" "coded p" using c by (simp_all add: coding_def)
  let ?g = "emits (ps_previous p) [opcode_byte OP_NIL, opcode_byte OP_RET] f"
  let ?q = "upd_fn ?g p"
  let ?p = "left ?q"
  have q: "compiles old ?q" "goes_on p ?q" using compiles_upd [OF c0(1) f] by simp_all
  then have u: "compiles old ?p" "goes_on p ?p"
    by (simp_all add: left_def compiles_def goes_on_def toks_ok_def errors_are_def)
  obtain a as where as: "funs_of p = a # as" "fun_at (heap_of p) a = Some f"
    using f by (auto simp: cur_fn_Some)
  have simps: "funs_of ?p = as" "ps_vm ?p = ps_vm ?q" "ps_hadError ?p = ps_hadError p"
    "ps_panicMode ?p = ps_panicMode p"
    using as(1) by (simp_all add: left_def upd_fn_def map_tl)
  have fa: "fun_at (heap_of ?q) = (fun_at (heap_of p))(a \<mapsto> ?g)"
    using fun_at_upd_fn [OF c0(1) f, of ?g] as(1) by simp
  have d: "a \<notin> set as" "distinct as" using c0(2) as by (simp_all add: coded_def)
  have strs: "is_str (heap_of p) b \<Longrightarrow> is_str (heap_of ?q) b" for b using code_on_strs [OF q(2)] .
  have "all_code_ok ?p" if all: "all_code_ok p"
  proof -
    have "open_code (heap_of p) f" using all as by (simp add: all_code_ok_def)
    then have "code_ok (heap_of ?q) ?g" using open_end code_heap(2) strs by blast
    with all show ?thesis
      using code_heap [of "heap_of p" "heap_of ?q"] strs d as unfolding all_code_ok_def simps fa
      by (auto split: if_splits)
  qed
  then have "coded ?p" using c0(2) as d unfolding coded_def simps fa by auto
  then show "coding old ?p \<and> goes_on p ?p \<and> ps_hadError ?p = ps_hadError p \<and>
    funs_of ?p = tl (funs_of p) \<and> (\<forall>a \<in> set (funs_of ?p). fun_at (heap_of ?p) a = fun_at (heap_of p) a)"
    using u as d unfolding coding_def simps fa by auto
qed

lemma cur_fn_funs: "cur_fn p = (case funs_of p of [] \<Rightarrow> None | a # as \<Rightarrow> fun_at (heap_of p) a)"
  by (simp add: cur_fn_def split: list.split)

lemma coding_leave:
  assumes n: "nested p p1" and on: "code_on p1 p2" and c: "coding old p2"
  shows "okp (\<lambda>k p'. coding old p' \<and> code_on p p' \<and> operand_of p' OP_CONST k)
    (bindp endCompiler (\<lambda>f. makeConstant (VAL_OBJ f)) p2)"
  unfolding okp_bindp comp_def
proof (rule okp_mono [OF coding_end [OF c]])
  fix x p3
  assume 3: "coding old p3 \<and> goes_on p2 p3 \<and> ps_hadError p3 = ps_hadError p2 \<and>
    funs_of p3 = tl (funs_of p2) \<and> (\<forall>a \<in> set (funs_of p3). fun_at (heap_of p3) a = fun_at (heap_of p2) a)"
  from n obtain b where b: "funs_of p1 = b # funs_of p"
    "\<forall>a \<in> set (funs_of p). fun_at (heap_of p1) a = fun_at (heap_of p) a"
    unfolding nested_def by (elim conjE exE) (rule that)
  have on2: "funs_of p2 = funs_of p1" "\<forall>a \<in> set (tl (funs_of p1)). fun_at (heap_of p2) a = fun_at (heap_of p1) a"
    using on unfolding code_on_def by simp_all
  have funs: "funs_of p3 = funs_of p" using 3 b(1) on2(1) by simp
  have same: "fun_at (heap_of p3) a = fun_at (heap_of p) a" if "a \<in> set (funs_of p)" for a
    using that 3 b on2 funs by auto
  have "goes_on p p3" using 3 n on goes_on_trans unfolding nested_def code_on_def by blast
  moreover have "cur_fn p3 = cur_fn p"
    using same [of "hd (funs_of p)"] funs unfolding cur_fn_funs by (cases "ps_compilers p") auto
  moreover have "ps_hadError p \<longrightarrow> ps_hadError p3" using 3 n on by (auto simp: nested_def code_on_def)
  moreover have "\<forall>a \<in> set (tl (funs_of p)). fun_at (heap_of p3) a = fun_at (heap_of p) a"
    using same list.set_sel(2) [of "funs_of p"] by (cases "funs_of p") auto
  ultimately have on3: "code_on p p3" using funs by (simp add: code_on_def)
  show "okp (\<lambda>k p'. coding old p' \<and> code_on p p' \<and> operand_of p' OP_CONST k) (makeConstant (VAL_OBJ x) p3)"
  proof (rule okp_mono)
    show "okp (\<lambda>k p'. coding old p' \<and> code_on p3 p' \<and> (\<forall>op. op = OP_CONST \<or> name_op op \<and>
        (\<exists>a. VAL_OBJ x = VAL_OBJ a \<and> is_str (heap_of p3) a) \<longrightarrow> operand_of p' op k)) (makeConstant (VAL_OBJ x) p3)"
      using 3 by (intro coding_makeConstant) simp
  next
    fix k p' assume "coding old p' \<and> code_on p3 p' \<and> (\<forall>op. op = OP_CONST \<or> name_op op \<and>
        (\<exists>a. VAL_OBJ x = VAL_OBJ a \<and> is_str (heap_of p3) a) \<longrightarrow> operand_of p' op k)"
    then show "coding old p' \<and> code_on p p' \<and> operand_of p' OP_CONST k"
      using code_on_trans [OF on3, of p'] by simp
  qed
qed

interpretation pw: parser_contract "coding old" code_on operand_of jump_at nested for old
proof
  fix p p' p1 p2 :: parser_t and op n d k len t f c c' subExprs hadCall hadAssign panic arity and chars :: string
  show "code_on p p' \<Longrightarrow> operand_of p op k \<Longrightarrow> operand_of p' op k" by (rule operand_of_mono)
  show "code_on p p' \<Longrightarrow> jump_at p n \<Longrightarrow> jump_at p' n" by (rule jump_at_mono)
  show "free_op op \<Longrightarrow> operand_of p op k"
    by (simp add: operand_of_def operand_ok_simple)
  show "nested p p1 \<Longrightarrow> code_on p1 p2 \<Longrightarrow> coding old p2 \<Longrightarrow>
      okp (\<lambda>k p'. coding old p' \<and> code_on p p' \<and> operand_of p' OP_CONST k)
      (bindp endCompiler (\<lambda>f. makeConstant (VAL_OBJ f)) p2)" by (rule coding_leave)
  assume I: "coding old p"
  then have m: "machine_ok (ps_vm p)" and toks: "toks_ok p" by (simp_all add: coding_def compiles_def)
  then show "tok_good (ps_source p) (ps_previous p)" by (simp add: toks_ok_def)
  show "p' = p\<lparr>ps_subExprs := subExprs, ps_hadCall := hadCall, ps_hadAssign := hadAssign,
      ps_panicMode := ps_panicMode p \<and> panic\<rparr> \<Longrightarrow> coding old p' \<and> code_on p p'"
    using toks by (intro coding_cong [OF I]) (simp_all add: toks_ok_def)
  show "coding old (scan_current p) \<and> code_on p (scan_current p)"
    using toks_ok_scan [OF toks] by (intro coding_cong [OF I]) (simp_all add: scan_current_def split: prod.split)
  show "p' = p\<lparr>ps_previous := ps_current p\<rparr> \<Longrightarrow> coding old p' \<and> code_on p p'"
    using toks by (intro coding_cong [OF I]) (simp_all add: toks_ok_def)
  show "cur_compiler p = Inr c \<Longrightarrow> p' = set_compiler c' p \<Longrightarrow> cp_function c' = cp_function c \<Longrightarrow>
      coding old p' \<and> code_on p p'"
    using toks by (intro coding_cong [OF I])
      (auto simp: toks_ok_def set_compiler_def cur_compiler_def split: list.splits)
  show "bare_op op \<Longrightarrow> okp (\<lambda>_ p'. coding old p' \<and> code_on p p') (emitOp op p)"
    unfolding okp_emitOp by (intro allI impI coding_emit [OF I, of _ "[]" op] operand_ok_simple)
      (auto simp: bare_op_def)
  show "op_len op = 1 \<Longrightarrow> operand_of p op k \<Longrightarrow> okp (\<lambda>_ p'. coding old p' \<and> code_on p p') (emitSmart op k p)"
    using coding_emit [OF I, of _ "[k]" op] by (auto simp: emitSmart_def okp_emitBytes operand_of_def)
  show "op_len op = 2 \<Longrightarrow> okp (\<lambda>n p'. coding old p' \<and> code_on p p' \<and> jump_at p' n) (emitJump op p)"
    unfolding okp_emitJump
    by (intro allI impI conjI coding_emit [OF I, of _ "[0, 0]" op, THEN conjunct1]
        coding_emit [OF I, of _ "[0, 0]" op, THEN conjunct2] coding_jump [OF I] operand_ok_simple) simp_all
  show "jump_at p n \<Longrightarrow> okp (\<lambda>_ p'. coding old p' \<and> code_on p p') (patchJump n p)"
    by (rule coding_patchJump [OF I])
  show "okp (\<lambda>k p'. coding old p' \<and> code_on p p' \<and> operand_of p' OP_CONST k) (makeConstant (VAL_NUM d) p)"
    by (rule okp_mono [OF coding_makeConstant [OF I]]) simp
  have copy: "okp (\<lambda>a p'. coding old p' \<and> code_on p p' \<and> is_str (heap_of p') a) (on_vm (str_copy chars len ic) p)"
    if "length chars = len" for ic chars len
    by (rule okp_copy [OF m that]) (use coding_vm [OF I] in auto)
  show "length chars = len \<Longrightarrow> okp (\<lambda>k p'. coding old p' \<and> code_on p p' \<and> operand_of p' OP_CONST k)
      (bindp (on_vm (str_copy chars len False)) (\<lambda>s. makeConstant (VAL_OBJ s)) p)"
    by (rule okp_mono, rule coding_then_constant [where D = "\<lambda>op. op = OP_CONST"], rule copy) simp_all
  have name_copy: "okp (\<lambda>a p'. coding old p' \<and> code_on p p' \<and> is_str (heap_of p') a) (copy_text t p)"
    if "tok_good (ps_source p) t"
    by (rule okp_copy_text [OF m that]) (use coding_vm [OF I] in auto)
  show "tok_good (ps_source p) t \<Longrightarrow>
      okp (\<lambda>k p'. coding old p' \<and> code_on p p' \<and> (\<forall>op. name_op op \<longrightarrow> operand_of p' op k)) (identifierConstant t p)"
    unfolding identifierConstant_def by (rule coding_then_constant, erule name_copy) simp_all
  show "cur_fun p = Some (Inr (f, p)) \<Longrightarrow>
      okp (\<lambda>_ p'. coding old p' \<and> code_on p p') (set_cur_fun (f\<lparr>fn_arity := arity\<rparr>) p)"
    using coding_upd [OF I] open_arity by (auto simp: cur_fun_cur_fn set_cur_fun_upd)
  show "okp (\<lambda>_ p'. coding old p' \<and> nested p p') (initCompiler TYPE_FUNCTION p)"
    by (rule coding_enter [OF I])
qed

subsection \<open>What compile produces\<close>

lemma parser_init_compilers: "ps_compilers (parser_init tok0 source vm) = []"
  by (simp add: parser_init_def)

lemma compile_coded:
  assumes "machine_ok vm" and "hashes_ok vm" and "tok_good source tok0"
    and "\<And>a f. fun_at (heap vm) a = Some f \<Longrightarrow> code_ok (heap vm) f"
  shows "okp (\<lambda>a p. coded p \<and> funs_of p = [] \<and> fun_at (heap_of p) a \<noteq> None)
    (compile_source (parser_init tok0 source vm))"
proof -
  let ?p = "parser_init tok0 source vm"
  have I: "coding (stderr vm) ?p"
    using assms by (simp add: parser_init_def coding_def compiles_def toks_ok_def errors_are_def lexer_init_def
        coded_def all_code_ok_def)
  have eq: "compile_source = seqp (initCompiler TYPE_SCRIPT) (seqp (seqp ps_advance (run parse Script)) endCompiler)"
    by (simp add: compile_source_def seqp_assoc)
  show ?thesis
    unfolding eq okp_seqp [of _ "initCompiler _"] comp_def
  proof (rule okp_mono [OF coding_enter [OF I]])
    fix x :: unit and p1 assume 1: "coding (stderr vm) p1 \<and> nested ?p p1"
    then have "okp (\<lambda>_ p2. coding (stderr vm) p2 \<and> code_on p1 p2) (seqp ps_advance (run parse Script) p1)"
      by (intro pw.script_ok) simp
    then show "okp (\<lambda>a p. coded p \<and> funs_of p = [] \<and> fun_at (heap_of p) a \<noteq> None)
        (seqp (seqp ps_advance (run parse Script)) endCompiler p1)"
      unfolding okp_seqp [of _ "seqp _ _"] comp_def
    proof (rule okp_mono)
      fix y :: unit and p2 assume 2: "coding (stderr vm) p2 \<and> code_on p1 p2"
      have "\<exists>a. funs_of p1 = a # funs_of ?p" using 1 by (simp add: nested_def)
      moreover have "funs_of p2 = funs_of p1" using 2 by (simp add: code_on_def)
      ultimately obtain a where a: "funs_of p2 = [a]" by (metis list.simps(8) parser_init_compilers)
      have "okp (\<lambda>b p. b = a \<and> fun_at (heap_of p) b \<noteq> None) (endCompiler p2)"
        unfolding okp_endCompiler
      proof (intro allI impI)
        fix f assume f: "cur_fn p2 = Some f"
        have "compiles (stderr vm) p2" using 2 by (simp add: coding_def)
        from fun_at_upd_fn [OF this f] a
        show "cp_function (hd (ps_compilers p2)) = a \<and> fun_at (heap_of (left (upd_fn
            (emits (ps_previous p2) [opcode_byte OP_NIL, opcode_byte OP_RET] f) p2)))
            (cp_function (hd (ps_compilers p2))) \<noteq> None"
          by (auto simp: left_def)
      qed
      moreover have "okp (\<lambda>_ p. coded p \<and> funs_of p = []) (endCompiler p2)"
        using 2 a by (intro okp_mono [OF coding_end [of "stderr vm" p2]]) (auto simp: coding_def)
      ultimately show "okp (\<lambda>a p. coded p \<and> funs_of p = [] \<and> fun_at (heap_of p) a \<noteq> None) (endCompiler p2)"
        by (auto simp: okp_def simp del: map_is_Nil_conv)
    qed
  qed
qed

lemma compile_code_ok:
  assumes "machine_ok vm" and "hashes_ok vm" and "tok_good source tok0"
    and "\<And>a f. fun_at (heap vm) a = Some f \<Longrightarrow> code_ok (heap vm) f"
    and "compile tok0 source vm = Inr (Some f, vm')"
  shows "fun_at (heap vm') f \<noteq> None \<and> (\<forall>a g. fun_at (heap vm') a = Some g \<longrightarrow> code_ok (heap vm') g)"
proof -
  obtain g p where p: "coded p \<and> funs_of p = [] \<and> fun_at (heap_of p) g \<noteq> None" "vm' = ps_vm p"
    "Some f = (if ps_hadError p then None else Some g)"
    by (rule compile_okp [OF compile_coded assms(5)]) (use assms(1-4) in auto)
  then show ?thesis by (auto simp: coded_def all_code_ok_def split: if_splits)
qed

end
