(* ===== verification/Running.thy ===== *)
theory Running
  imports Bytecode
begin

text \<open>
  Running well-formed bytecode: the instruction pointers of all frames stay at the starts of
  instructions, inside the code of their functions.
\<close>

subsection \<open>Strings are never freed\<close>

definition strs_kept :: "obj_heap \<Rightarrow> vm_t \<Rightarrow> bool" where
  "strs_kept h vm \<longleftrightarrow> (\<forall>a. is_str h a \<longrightarrow> is_str (heap vm) a)"

definition funs_strs :: "(addr \<Rightarrow> fun_t option) \<Rightarrow> obj_heap \<Rightarrow> vm_t \<Rightarrow> bool" where
  "funs_strs F h vm \<longleftrightarrow> funs_are F vm \<and> strs_kept h vm"

lemma okr_conj: "okr E P r \<Longrightarrow> (\<And>x. r = Inr x \<Longrightarrow> Q x) \<Longrightarrow> okr E (\<lambda>x. P x \<and> Q x) r"
  by (cases r) simp_all

lemma strs_kept_heap: "strs_kept h vm \<Longrightarrow> heap vm' = heap vm \<Longrightarrow> strs_kept h vm'"
  by (simp add: strs_kept_def)

lemma strs_kept_upd:
  assumes "strs_kept h vm" and "\<not> is_str (heap vm) a" and "heap vm' = (heap vm)(a \<mapsto> ob)"
  shows "strs_kept h vm'"
proof -
  have "is_str ((heap vm)(a \<mapsto> ob)) b" if "is_str (heap vm) b" for b
    using that assms(2) by (cases "b = a") (auto simp: is_str_def)
  with assms show ?thesis by (simp add: strs_kept_def)
qed

lemma strs_kept_put_map:
  assumes "strs_kept h vm" and "get_map a vm = Inr m0"
  shows "strs_kept h (put_map a m vm)"
proof -
  obtain ob where ob: "heap vm a = Some ob" "body ob = OT_MAP m0"
    using assms(2) by (auto simp: get_map_def split: option.splits obj_body.splits)
  show ?thesis
    by (rule strs_kept_upd [OF assms(1), of a]) (use ob in \<open>auto simp: is_str_def put_map_def\<close>)
qed

lemma strs_kept_alloc:
  assumes "strs_kept h vm" and "allocObj n bdy vm = Inr (a, vm')" and "\<not> gc_vm vm" and "n \<noteq> 0"
    and "strings_ok vm"
  shows "strs_kept h vm'"
proof (cases "gc_idle n vm")
  case True
  have "\<not> is_str (heap vm) (next_addr vm)" using strings_ok_free [OF assms(5)] by (simp add: is_str_def)
  from strs_kept_upd [OF assms(1) this] True assms(2) show ?thesis by (auto simp: allocObj_idle)
next
  case False
  with assms show ?thesis by (simp add: allocObj_collects)
qed

interpretation ms: vm_contract "funs_strs F h" returns_ok "\<lambda>_. True" for F h
proof
  fix vm :: vm_t and vm' chars len name v m key
  show "funs_strs F h vm \<Longrightarrow> in_bounds vm" by (auto simp: funs_strs_def intro: mf.I_bounds)
  show "funs_strs F h vm \<Longrightarrow> same_store vm vm' \<Longrightarrow> in_bounds vm' \<Longrightarrow> funs_strs F h vm'"
    by (auto simp: funs_strs_def same_store_def intro: mf.I_machine strs_kept_heap)
  show "funs_strs F h vm \<Longrightarrow> is_str (heap vm) a \<Longrightarrow> str_coherent (str_of vm a)" for a
    by (auto simp: funs_strs_def intro: mf.I_strings)
  show "okr returns_ok (\<lambda>(_, vm'). funs_strs F h vm') (str_take chars len vm)"
    if "funs_strs F h vm" "length chars = len"
  proof -
    have "machine_ok vm" using that(1) by (simp add: funs_strs_def funs_are_def)
    from machine_take [OF this that(2)]
    have "strs_kept h vm'" if "str_take chars len vm = Inr (a, vm')" for a vm'
      using that \<open>funs_strs F h vm\<close> str_extends_str(1) by (fastforce simp: funs_strs_def strs_kept_def)
    then have "okr returns_ok (\<lambda>x. (case x of (_, vm') \<Rightarrow> funs_are F vm') \<and> (case x of (_, vm') \<Rightarrow> strs_kept h vm'))
        (str_take chars len vm)"
      using that by (intro okr_conj mf.I_take) (auto simp: funs_strs_def)
    then show ?thesis by (rule okr_mono) (auto simp: funs_strs_def)
  qed
  show "funs_strs F h vm \<Longrightarrow> okr returns_ok (\<lambda>_. True) (global_get name vm)"
    by (auto simp: funs_strs_def intro: mf.I_global_get)
  show "funs_strs F h vm \<Longrightarrow> is_str (heap vm) name \<Longrightarrow>
      okr returns_ok (\<lambda>(_, vm'). funs_strs F h vm') (global_set name v vm)"
    by (rule okr_mono [OF mf.I_global_set [of F]])
      (auto simp: funs_strs_def global_set_def elim!: bindr_Inr_E intro: strs_kept_heap)
  show "funs_strs F h vm \<Longrightarrow> okr returns_ok (funs_strs F h) (global_remove name vm)"
    by (rule okr_mono [OF mf.I_global_remove [of F]])
      (auto simp: funs_strs_def global_remove_def elim!: bindr_Inr_E intro: strs_kept_heap)
  show "funs_strs F h vm \<Longrightarrow> okr returns_ok (\<lambda>(_, vm'). funs_strs F h vm') (map_new vm)"
    by (rule okr_mono [OF mf.I_map_new [of F]])
      (auto simp: funs_strs_def map_new_def SIZEOF_MAP_def funs_are_def machine_ok_def intro: strs_kept_alloc)
  show "funs_strs F h vm \<Longrightarrow> okr returns_ok (\<lambda>_. True) (map_table_get m name vm)"
    by (auto simp: funs_strs_def intro: mf.I_table_get)
  show "funs_strs F h vm \<Longrightarrow> is_str (heap vm) name \<Longrightarrow>
      okr returns_ok (funs_strs F h) (map_table_set m name v vm)"
    by (rule okr_mono [OF mf.I_table_set [of F]])
      (auto simp: funs_strs_def map_table_set_def elim!: bindr_Inr_E intro: strs_kept_put_map)
  show "funs_strs F h vm \<Longrightarrow> okr returns_ok (\<lambda>_. True) (map_hash_get m key vm)"
    by (auto simp: funs_strs_def intro: mf.I_hash_get)
  show "funs_strs F h vm \<Longrightarrow> True \<Longrightarrow> okr returns_ok (funs_strs F h) (map_hash_set m key v vm)"
    by (rule okr_mono [OF mf.I_hash_set [of F]])
      (auto simp: funs_strs_def map_hash_set_def elim!: bindr_Inr_E intro: strs_kept_put_map)
qed simp_all

subsection \<open>Frames at instructions\<close>

definition at_instr :: "(addr \<Rightarrow> fun_t option) \<Rightarrow> frame_t \<Rightarrow> bool" where
  "at_instr F f \<longleftrightarrow> (\<exists>fn is m. F (fr_function f) = Some fn \<and> instrs (ck_code (fn_chunk fn)) = Some is \<and>
     m < length is \<and> fr_ip f = off (take m (map fst is)))"

definition frames_good :: "vm_t \<Rightarrow> bool" where
  "frames_good vm \<longleftrightarrow> (\<forall>f \<in> set (frames vm). at_instr (fun_at (heap vm)) f)"

text \<open>What an instruction that is not the last of a run does to the frames, exactly.\<close>

lemma exec_op_exact:
  assumes "exec_op native op vm = Inr (NEXT, vm')" and "\<not> gc_vm vm"
    and "\<And>f n i vm v vm'. native f n i vm = Inr (v, vm') \<Longrightarrow> same_frames vm vm'"
  obtains
    "op \<noteq> OP_RET" and "ahead (op_len op) vm vm'"
  | s vm1 where "op_len op = 2" and "READ_SHORT vm = Inr (s, vm1)" and "past (2 + unat s) vm vm'"
  | g vm1 where "op = OP_CALL" and "past 1 vm vm1" and "frames vm' = g # frames vm1" and "fr_ip g = 0"
      and "fun_at (heap vm') (fr_function g) \<noteq> None"
  | "op = OP_RET" and "frames vm' = tl (frames vm)"
proof -
  consider "op = OP_CALL" | "op = OP_RET" | "op = OP_JMP \<or> op = OP_JMPF"
    | "op \<in> {OP_ADD, OP_SUB, OP_MUL, OP_DIV, OP_LT, OP_LE}"
    | "op \<in> {OP_PRINT, OP_POP, OP_NIL, OP_TRUE, OP_FALSE, OP_CONST, OP_NOT, OP_NEG, OP_EQ}"
    | "op \<in> {OP_DEF, OP_GLD, OP_GST, OP_LD, OP_ST}" | "op \<in> {OP_MAP, OP_GET, OP_SET, OP_GETI, OP_SETI}"
    by (cases op) auto
  then show thesis
  proof cases
    case 1
    with assms(1) have "op_CALL native vm = Inr (NEXT, vm')" by simp
    then have "past 1 vm vm' \<or> (\<exists>a vm1. past 1 vm vm1 \<and> gc_vm vm' = gc_vm vm \<and>
        length (frames vm1) \<noteq> FRAMES_MAX \<and> (\<exists>g. frames vm' = g # frames vm1 \<and> fr_function g = a \<and>
        fr_ip g = 0 \<and> fun_at (heap vm') a \<noteq> None))"
      by (rule frames_CALL) (rule assms(3))
    then consider "past 1 vm vm'"
      | g vm1 where "past 1 vm vm1" "frames vm' = g # frames vm1" "fr_ip g = 0"
          "fun_at (heap vm') (fr_function g) \<noteq> None" by blast
    then show ?thesis
    proof cases
      case 1
      with \<open>op = OP_CALL\<close> that(1) show ?thesis by (simp add: ahead_def)
    next
      case 2
      with \<open>op = OP_CALL\<close> that(3) show ?thesis by blast
    qed
  next
    case 2
    with assms(1) frames_RET [of vm vm'] that(4) show ?thesis by simp
  next
    case 3
    from past_jumps [OF assms(1) this] obtain s vm1 where s: "READ_SHORT vm = Inr (s, vm1)"
      "past (2 + unat s) vm vm' \<or> op = OP_JMPF \<and> past 2 vm vm'" by blast
    from s(2) show ?thesis
    proof
      assume "past (2 + unat s) vm vm'"
      with 3 s(1) that(2) show ?thesis by auto
    next
      assume "op = OP_JMPF \<and> past 2 vm vm'"
      with that(1) show ?thesis by (simp add: ahead_def)
    qed
  next
    case 4
    then have "op_len op = 0" "op \<noteq> OP_RET" by auto
    with ahead_operators [OF assms(2,1) 4] that(1) show ?thesis by (simp add: ahead_def)
  next
    case 5
    then have "op \<noteq> OP_RET" by auto
    with ahead_stack_ops [OF assms(1) 5] that(1) show ?thesis by simp
  next
    case 6
    then have "op \<noteq> OP_RET" by auto
    with ahead_variables [OF assms(1) 6] that(1) show ?thesis by simp
  next
    case 7
    then have "op \<noteq> OP_RET" by auto
    with ahead_maps [OF assms(2,1) 7] that(1) show ?thesis by simp
  qed
qed

text \<open>Reading the opcode, and a jump's distance.\<close>

lemma READ_BYTE_Inr:
  "READ_BYTE vm = Inr (b, vm') \<longleftrightarrow> (\<exists>f fs fn. frames vm = f # fs \<and> fun_at (heap vm) (fr_function f) = Some fn \<and>
     fr_ip f < ck_count (fn_chunk fn) \<and> b = ck_code (fn_chunk fn) ! fr_ip f \<and>
     vm' = vm\<lparr>frames := f\<lparr>fr_ip := fr_ip f + 1\<rparr> # fs\<rparr>)"
  by (auto simp: READ_BYTE_def get_ip_def cur_frame_def cur_chunk_def fun_at_get_fun set_ip_def
      bindr_Inr_iff split: list.splits if_splits)

lemma READ_SHORT_Inr:
  assumes "READ_SHORT vm = Inr (s, vm')" and "frames vm = f # fs" and "fun_at (heap vm) (fr_function f) = Some fn"
  shows "s = short_of (ck_code (fn_chunk fn) ! fr_ip f) (ck_code (fn_chunk fn) ! Suc (fr_ip f))"
  using assms by (auto simp: READ_SHORT_def READ_BYTE_Inr elim!: bindr_Inr_E)

lemma at_instr_last:
  assumes "instrs (ck_code (fn_chunk fn)) = Some is" and "fst (last is) = OP_RET" and "m < length is"
    and "fst (is ! m) \<noteq> OP_RET"
  shows "Suc m < length is"
proof (rule ccontr)
  assume "\<not> Suc m < length is"
  then have "m = length is - 1" using assms(3) by simp
  with assms(2,3,4) show False by (cases "is = []") (simp_all add: last_conv_nth)
qed

lemma vm_step_good:
  assumes step: "vm_step native vm = Inr (NEXT, vm')" and gc: "\<not> gc_vm vm" and good: "frames_good vm"
    and code: "\<And>a fn. fun_at (heap vm) a = Some fn \<Longrightarrow> code_ok h fn"
    and same: "fun_at (heap vm') = fun_at (heap vm)"
    and native: "\<And>f n i vm v vm'. native f n i vm = Inr (v, vm') \<Longrightarrow> same_frames vm vm'"
  shows "frames_good vm'"
proof -
  let ?F = "fun_at (heap vm)"
  obtain b vm1 op where b: "READ_BYTE vm = Inr (b, vm1)" and d: "decode_op b = Some op"
    and op: "exec_op native op vm1 = Inr (NEXT, vm')"
    using step by (auto simp: vm_step_def frames_ERROR elim!: bindr_Inr_E split: option.splits)
  from b obtain f fs fn where f: "frames vm = f # fs" "?F (fr_function f) = Some fn"
    "b = ck_code (fn_chunk fn) ! fr_ip f" and vm1: "vm1 = vm\<lparr>frames := f\<lparr>fr_ip := fr_ip f + 1\<rparr> # fs\<rparr>"
    by (auto simp: READ_BYTE_Inr)
  from good f obtain "is" m where i: "instrs (ck_code (fn_chunk fn)) = Some is" "m < length is"
    "fr_ip f = off (take m (map fst is))"
    by (auto simp: frames_good_def at_instr_def)
  have rest: "at_instr ?F g" if "g \<in> set fs" for g using good that f(1) by (simp add: frames_good_def)
  have fop: "fst (is ! m) = op" using instrs_nth [OF i(1,2)] d f(3) i(3) by simp
  have bo: "body_ok h fn is (length is - 1)" "fst (last is) = OP_RET"
    using code [OF f(2)] i(1) by (auto simp: code_ok_def body_ok_def)
  have next_ip: "off (take (Suc m) (map fst is)) = fr_ip f + Suc (op_len op)"
    using i(2,3) fop by (simp add: off_take_Suc)
  have after: "at_instr ?F (f\<lparr>fr_ip := fr_ip f + Suc (op_len op)\<rparr>)" if "op \<noteq> OP_RET"
    using at_instr_last [OF i(1) bo(2) i(2)] that fop f(2) i(1) next_ip
    by (auto simp: at_instr_def intro!: exI [of _ "Suc m"])
  have gc1: "\<not> gc_vm vm1" using gc vm1 by simp
  show ?thesis
  proof (rule exec_op_exact [OF op gc1])
    show "same_frames vm vm'" if "native f n i vm = Inr (v, vm')" for f n i vm v vm' using that by (rule native)
  next
    assume "op \<noteq> OP_RET" "ahead (op_len op) vm1 vm'"
    then show ?thesis
      using after rest f vm1 by (auto simp: frames_good_def ahead_def same_frames_def past_def same split: if_splits)
  next
    fix s vm2 assume s: "op_len op = 2" "READ_SHORT vm1 = Inr (s, vm2)" "past (2 + unat s) vm1 vm'"
    have "s = short_of (ck_code (fn_chunk fn) ! Suc (fr_ip f)) (ck_code (fn_chunk fn) ! Suc (Suc (fr_ip f)))"
      using READ_SHORT_Inr [OF s(2), of "f\<lparr>fr_ip := fr_ip f + 1\<rparr>" fs fn] vm1 f by simp
    moreover have "snd (is ! m) = take 2 (drop (Suc (fr_ip f)) (ck_code (fn_chunk fn)))"
      "Suc (Suc (fr_ip f)) < length (ck_code (fn_chunk fn))"
      using instrs_nth [OF i(1,2)] s(1) fop i(3) by simp_all
    ultimately have "s = short_of (snd (is ! m) ! 0) (snd (is ! m) ! 1)" by simp
    then have tgt: "jump_target is m = fr_ip f + 3 + unat s"
      using next_ip s(1) by (simp add: jump_target_def)
    from bo(1) i(2) s(1) fop obtain m' where m': "m' \<le> length is - 1" "jump_target is m = off (take m' (map fst is))"
      by (auto simp: body_ok_def jumps_in_def)
    then have "m' < length is" using i(2) by simp
    then have "at_instr ?F (f\<lparr>fr_ip := fr_ip f + 3 + unat s\<rparr>)"
      using f(2) i(1) m'(2) tgt by (auto simp: at_instr_def)
    then show ?thesis
      using rest f vm1 s(3) by (auto simp: frames_good_def past_def same numeral_eq_Suc)
  next
    fix g vm2 assume g: "op = OP_CALL" "past 1 vm1 vm2" "frames vm' = g # frames vm2" "fr_ip g = 0"
      "fun_at (heap vm') (fr_function g) \<noteq> None"
    then obtain gn where gn: "?F (fr_function g) = Some gn" using same by auto
    from code [OF gn] obtain gs where "instrs (ck_code (fn_chunk gn)) = Some gs" "gs \<noteq> []"
      by (auto simp: code_ok_def body_ok_def)
    then have "at_instr ?F g" using gn g(4) by (auto simp: at_instr_def intro!: exI [of _ 0])
    then show ?thesis using after rest f vm1 g by (auto simp: frames_good_def past_def same)
  next
    assume "frames vm' = tl (frames vm1)"
    then show ?thesis using rest vm1 by (simp add: frames_good_def same)
  qed
qed

subsection \<open>Along a run\<close>

text \<open>The instruction at the instruction pointer, with its operands.\<close>

definition next_instr :: "vm_t \<Rightarrow> (fun_t \<times> opcode_t \<times> u8 list) option" where
  "next_instr vm =
     (case frames vm of
        [] \<Rightarrow> None
      | f # fs \<Rightarrow>
          (case fun_at (heap vm) (fr_function f) of
             None \<Rightarrow> None
           | Some fn \<Rightarrow>
               (case drop (fr_ip f) (ck_code (fn_chunk fn)) of
                  [] \<Rightarrow> None
                | b # bs \<Rightarrow>
                    (case decode_op b of
                       None \<Rightarrow> None
                     | Some op \<Rightarrow>
                         if length bs < op_len op then None else Some (fn, op, take (op_len op) bs)))))"

lemma next_instr_good:
  assumes "frames_good vm" and "frames vm \<noteq> []"
    and "\<And>a fn. fun_at (heap vm) a = Some fn \<Longrightarrow> code_ok (heap vm) fn"
  shows "\<exists>fn op args. next_instr vm = Some (fn, op, args) \<and>
    operand_ok (heap vm) (arr_values (ck_constants (fn_chunk fn))) op args"
proof -
  obtain f fs where f: "frames vm = f # fs" using assms(2) by (cases "frames vm") auto
  with assms(1) obtain fn "is" m where i: "fun_at (heap vm) (fr_function f) = Some fn"
    "instrs (ck_code (fn_chunk fn)) = Some is" "m < length is" "fr_ip f = off (take m (map fst is))"
    by (auto simp: frames_good_def at_instr_def)
  let ?code = "ck_code (fn_chunk fn)" and ?op = "fst (is ! m)"
  note n = instrs_nth [OF i(2,3), folded i(4)]
  then have "drop (fr_ip f) ?code = ?code ! fr_ip f # drop (Suc (fr_ip f)) ?code"
    by (simp add: Cons_nth_drop_Suc)
  moreover have "\<not> length ?code - Suc (fr_ip f) < op_len ?op" using n by arith
  ultimately have "next_instr vm = Some (fn, ?op, snd (is ! m))"
    using n f i(1) by (simp add: next_instr_def)
  moreover have "(?op, snd (is ! m)) \<in> set is" using i(3) by (metis nth_mem prod.collapse)
  ultimately show ?thesis
    using assms(3) [OF i(1)] i(2) by (fastforce simp: code_ok_def body_ok_def)
qed

lemma runs_good:
  assumes run: "vm_runs native vm vm'" and "funs_are F vm" and good: "frames_good vm" and ne: "frames vm \<noteq> []"
    and code: "\<And>a fn. F a = Some fn \<Longrightarrow> code_ok (heap vm) fn"
    and frames: "\<And>f n i vm v vm'. native f n i vm = Inr (v, vm') \<Longrightarrow> same_frames vm vm'"
    and native: "\<And>f n i vm1. funs_strs F (heap vm) vm1 \<Longrightarrow>
      okr returns_ok (\<lambda>(_, vm'). funs_strs F (heap vm) vm') (native f n i vm1)"
  shows "funs_strs F (heap vm) vm' \<and> frames_good vm' \<and> frames vm' \<noteq> []"
  using run
proof induction
  case vm_runs_refl
  then show ?case using assms(2) good ne by (simp add: funs_strs_def strs_kept_def)
next
  case (vm_runs_step vm1 vm2)
  then have 1: "funs_strs F (heap vm) vm1" "frames_good vm1" "frames vm1 \<noteq> []" by simp_all
  have "okr returns_ok (\<lambda>(_, vm'). funs_strs F (heap vm) vm') (vm_step native vm1)"
    by (rule ms.keeps_step [OF 1(1)]) (simp, rule native)
  with vm_runs_step.hyps(2) have 2: "funs_strs F (heap vm) vm2" by simp
  have F: "fun_at (heap vm1) = F" "fun_at (heap vm2) = F" and gc: "\<not> gc_vm vm1"
    using 1(1) 2 by (simp_all add: funs_strs_def funs_are_def machine_ok_def)
  have "frames_good vm2"
    by (rule vm_step_good [OF vm_runs_step.hyps(2) gc 1(2)]) (use F code frames in auto)
  moreover have "frames vm2 \<noteq> []"
  proof -
    obtain b vm3 op where b: "READ_BYTE vm1 = Inr (b, vm3)" and op: "exec_op native op vm3 = Inr (NEXT, vm2)"
      using vm_runs_step.hyps(2) by (auto simp: vm_step_def frames_ERROR elim!: bindr_Inr_E split: option.splits)
    have g3: "\<not> gc_vm vm3" "frames vm3 \<noteq> []" using b gc by (auto simp: READ_BYTE_Inr)
    show ?thesis
    proof (rule exec_op_exact [OF op g3(1)])
      show "same_frames vm vm'" if "native f n i vm = Inr (v, vm')" for f n i vm v vm' using that by (rule frames)
    next
      assume "op = OP_RET"
      with op have "op_RET vm3 = Inr (NEXT, vm2)" by simp
      from frames_RET [OF this] show ?thesis by blast
    qed (use g3(2) in \<open>auto simp: ahead_def same_frames_def past_def split: if_splits\<close>)
  qed
  ultimately show ?case using 2 by simp
qed

end
