(* ===== verification/Diverges.thy ===== *)
theory Diverges
  imports Compiler
begin

text \<open>
  Where the compiler calls itself forever: \<open>statement\<close> looks at the token before the current one to find
  the body of an \<open>If\<close>, and a body that starts with a plain expression leaves that token in place.
\<close>

text \<open>The current token starts no statement of its own and no declaration.\<close>

definition starts_plain :: "toktype_t \<Rightarrow> bool" where
  "starts_plain ty \<longleftrightarrow>
     ty \<notin> {TOKEN_PRINT, TOKEN_IF, TOKEN_RETURN, TOKEN_EXIT, TOKEN_LBRACE, TOKEN_FUNC, TOKEN_VAR, TOKEN_GLOBAL,
       TOKEN_ELSE, TOKEN_ENDIF, TOKEN_EOF}"

definition stuck :: "parser_t \<Rightarrow> bool" where
  "stuck p \<longleftrightarrow> ps_compilers p \<noteq> [] \<and>
     tok_type (ps_previous p) \<in> {TOKEN_THEN, TOKEN_ELSE} \<and> starts_plain (tok_type (ps_current p))"

definition stuck_goal :: "goal \<Rightarrow> bool" where
  "stuck_goal g \<longleftrightarrow> g \<in> {Statement, Declaration, Declarations [TOKEN_ELSE, TOKEN_EOF],
     Declarations [TOKEN_ENDIF, TOKEN_EOF]}"

lemma if_match_other: "tok_type (ps_current p) \<noteq> ty \<Longrightarrow> if_match ty m n p = n p"
  by (simp add: if_match_def bindp_def ps_match_def check_def)

lemma scoped_stuck:
  assumes "stuck p" and "\<And>p. stuck p \<Longrightarrow> m p = None"
  shows "scoped m p = None"
proof -
  obtain c cs where c: "ps_compilers p = c # cs" using assms(1) by (cases "ps_compilers p") (auto simp: stuck_def)
  let ?p = "set_compiler (c\<lparr>cp_scopeDepth := cp_scopeDepth c + 1\<rparr>) p"
  have b: "beginScope p = Some (Inr ((), ?p))"
    by (simp add: beginScope_def bindp_def get_compiler_def cur_compiler_def c modify_def)
  have "stuck ?p" using assms(1) by (simp add: stuck_def set_compiler_def)
  with b assms(2) show ?thesis by (simp add: scoped_def seqp_def bindp_def)
qed

lemma parse_stuck:
  assumes "parse x = Some r"
  shows "\<not> (stuck_goal (fst x) \<and> stuck (snd x))"
proof (rule parse.raw_induct [OF _ assms, of "\<lambda>x r. \<not> (stuck_goal (fst x) \<and> stuck (snd x))"])
  fix rec :: rec and x r
  assume IH: "\<And>x r. rec x = Some r \<Longrightarrow> \<not> (stuck_goal (fst x) \<and> stuck (snd x))"
    and eq: "parse_goal rec (fst x) (snd x) = Some r"
  obtain g p where x: "x = (g, p)" by (cases x)
  have rec: "run rec g p = None" if "stuck_goal g" "stuck p" for g p
    using IH [of "(g, p)"] that by (cases "rec (g, p)") (auto simp: run_def bindp_def go_def)
  have False if s: "stuck_goal g" "stuck p"
  proof -
    have cur: "starts_plain (tok_type (ps_current p))" using s(2) by (simp add: stuck_def)
    have none: "m p = None \<Longrightarrow> no_result m p = None" for m
      by (simp add: no_result_def seqp_def bindp_def)
    have decl: "ps_declaration rec p = None"
      using cur rec [of Statement p] s(2)
      by (simp add: ps_declaration_def seqp_def bindp_def if_match_other starts_plain_def stuck_goal_def)
    have decls: "declarations_loop rec stop p = None" if "tok_type (ps_current p) \<notin> set stop" "stuck p" for stop p
      using that rec [of Declaration p]
      by (simp add: declarations_loop_def bindp_def seqp_def gets_def stuck_goal_def)
    have inline: "inlineBlock rec p = None" if "stuck p" for p
      using that rec [of Declaration p] rec [of "Declarations [TOKEN_ELSE, TOKEN_EOF]" p]
      by (simp add: inlineBlock_def bindp_def gets_def stuck_goal_def)
    have else_part: "run rec (Declarations [TOKEN_ENDIF, TOKEN_EOF]) p = None" if "stuck p" for p
      using that rec by (simp add: stuck_goal_def)
    have stmt: "statement rec p = None"
      using cur s(2) scoped_stuck [OF s(2) inline] scoped_stuck [OF s(2) else_part]
      by (auto simp: statement_def if_match_other starts_plain_def bindp_def gets_def stuck_def)
    from s(1) consider "g = Statement" | "g = Declaration"
      | stop where "g = Declarations stop" "tok_type (ps_current p) \<notin> set stop"
      using cur by (auto simp: stuck_goal_def starts_plain_def)
    then have "parse_goal rec g p = None"
      using none stmt decl decls s(2) by cases (simp_all add: parse_goal_def)
    with eq x show False by simp
  qed
  with x show "\<not> (stuck_goal (fst x) \<and> stuck (snd x))" by auto
qed

end
