(* ===== verification/Compiler_Props.thy ===== *)
theory Compiler_Props
  imports Coding Running Diverges Examples
begin

text \<open>
  The properties of the compiler, alone and together with the machine that runs what it has compiled.
\<close>

subsection \<open>A compilation\<close>

definition demo_src :: "string \<Rightarrow> src_t" where
  "demo_src s = \<lparr>src_buffer = s, src_fname = ''demo'', src_size = length s\<rparr>"

definition demo_tok :: tok_t where
  "demo_tok = \<lparr>tok_start = Message [], tok_currentLine = None, tok_type = TOKEN_EOF, tok_length = 0,
     tok_line = 0, tok_column = 0\<rparr>"

lemma demo_tok_good [simp]: "tok_good source demo_tok"
  by (simp add: tok_good_def demo_tok_def tok_text_def)

lemma vm_blank_ok: "machine_ok vm_blank" "hashes_ok vm_blank"
  by (simp_all add: vm_blank_def machine_create)

text \<open>The empty script, compiled by evaluation.\<close>

lemma demo_compile: "\<exists>vm. compile demo_tok (demo_src []) vm_blank = Inr (Some 0, vm)"
proof -
  have "case compile demo_tok (demo_src []) vm_blank of Inr (Some a, vm) \<Rightarrow> a = 0 | _ \<Rightarrow> False"
    by code_simp
  then show ?thesis by (auto split: sum.splits option.splits)
qed



text \<open>
  C8. The compiler keeps the invariant of the machine, interns every string it makes, frees none, and leaves
  the stack, the frames, the globals and the output of the program alone, also when it
  reports errors.
\<close>

theorem compile_keeps_machine:
  assumes "machine_ok vm" and "hashes_ok vm" and "tok_good source tok0"
    and "compile tok0 source vm = Inr (r, vm')"
  shows "machine_ok vm' \<and> hashes_ok vm' \<and> (\<forall>a. is_str (heap vm) a \<longrightarrow> is_str (heap vm') a) \<and>
    stack vm' = stack vm \<and> vm_top vm' = vm_top vm \<and> frames vm' = frames vm \<and>
    globals vm' = globals vm \<and> stdout vm' = stdout vm"
proof -
  obtain f p where p: "compiles (stderr vm) p \<and> untouched vm (ps_vm p)" "vm' = ps_vm p"
    by (rule compile_okp [OF compile_source_ok [OF assms(1-3)] assms(4)])
  then show ?thesis by (simp add: compiles_def untouched_def)
qed

lemma compile_keeps_machine_witness:
  "\<exists>vm. compile demo_tok (demo_src []) vm_blank = Inr (Some 0, vm) \<and> machine_ok vm \<and> frames vm = []"
proof -
  obtain vm where "compile demo_tok (demo_src []) vm_blank = Inr (Some 0, vm)" using demo_compile by blast
  with compile_keeps_machine [OF vm_blank_ok demo_tok_good this] show ?thesis by auto
qed

text \<open>
  C4. What the compiler produces without an error is well-formed bytecode, in the function and in all functions
  nested in it: whole instructions, jumps that lead to the start of an instruction, constants
  that exist (strings, where the machine reads a name; \<open>OP_DEF\<close> is excepted), and a return at
  the end.
\<close>

theorem compile_well_formed:
  assumes "machine_ok vm" and "hashes_ok vm" and "tok_good source tok0"
    and "\<And>a g. fun_at (heap vm) a = Some g \<Longrightarrow> code_ok (heap vm) g"
    and "compile tok0 source vm = Inr (Some f, vm')"
  shows "fun_at (heap vm') f \<noteq> None \<and> (\<forall>a g. fun_at (heap vm') a = Some g \<longrightarrow> code_ok (heap vm') g)"
  using assms by (rule compile_code_ok)

lemma compile_well_formed_witness:
  "\<exists>vm g. compile demo_tok (demo_src []) vm_blank = Inr (Some 0, vm) \<and> fun_at (heap vm) 0 = Some g \<and>
     code_ok (heap vm) g"
proof -
  obtain vm where c: "compile demo_tok (demo_src []) vm_blank = Inr (Some 0, vm)" using demo_compile by blast
  have "fun_at (heap vm) 0 \<noteq> None \<and> (\<forall>a g. fun_at (heap vm) a = Some g \<longrightarrow> code_ok (heap vm) g)"
    by (rule compile_well_formed [OF vm_blank_ok demo_tok_good _ c]) (simp add: fun_at_def)
  with c show ?thesis by auto
qed

subsection \<open>Running what was compiled\<close>

lemma run_native_frames:
  assumes "\<And>f n i vm v vm'. thr f n i vm = Inr (v, vm') \<Longrightarrow> same_frames vm vm'"
    and "run_native lm thr f n i vm = Inr (v, vm')"
  shows "same_frames vm vm'"
  using run_native_cases [of lm thr f n i vm] assms(1) [of f n i vm v vm'] assms(2) by auto

text \<open>The script called as \<open>vm_dofile\<close> does it, in a machine that runs nothing.\<close>

definition call_script :: "natives \<Rightarrow> addr \<Rightarrow> vm_t \<Rightarrow> (bool \<times> vm_t) res" where
  "call_script native f vm =
     bindr (PUSH (VAL_OBJ f) vm) (\<lambda>vm. vm_call native (VAL_OBJ f) 0 vm)"

lemma call_script_frames:
  assumes "call_script native f vm = Inr (True, vm')" and "fun_at (heap vm) f \<noteq> None"
  shows "same_store vm vm' \<and> (in_bounds vm \<longrightarrow> in_bounds vm') \<and>
    (\<exists>s. frames vm' = \<lparr>fr_function = f, fr_ip = 0, fr_slots = s\<rparr> # frames vm)"
proof -
  from assms(1) obtain vm1 where 1: "PUSH (VAL_OBJ f) vm = Inr vm1" "vm_call native (VAL_OBJ f) 0 vm1 = Inr (True, vm')"
    by (auto simp: call_script_def)
  have s1: "same_store vm vm1" "frames vm1 = frames vm" "in_bounds vm \<longrightarrow> in_bounds vm1"
    using 1(1) by (auto simp: PUSH_def same_store_def in_bounds_def split: if_splits)
  obtain ob fn where ob: "heap vm1 f = Some ob" "body ob = OT_FUN fn"
    using assms(2) s1(1) by (auto simp: same_store_def fun_at_Some)
  with 1(2) have "prepareCall f 0 vm1 = Inr (True, vm')"
    by (simp add: vm_call_def obj_body_of_def)
  then have "\<exists>s. vm' = vm1\<lparr>frames := \<lparr>fr_function = f, fr_ip = 0, fr_slots = s\<rparr> # frames vm1\<rparr> \<and>
      s \<le> vm_top vm1 \<and> length (frames vm1) \<noteq> FRAMES_MAX"
    by (auto simp: prepareCall_def Let_def elim!: bindr_Inr_E split: if_splits)
  with s1 show ?thesis by (auto simp: same_store_def in_bounds_def)
qed



subsection \<open>Recursion without end\<close>

text \<open>
  C24. The compiler does not return when the body of an \<open>If\<close> or of its \<open>Else\<close> starts with a plain
  expression: \<open>statement\<close>, called with \<open>Then\<close> or \<open>Else\<close> as the previous token, opens a scope and calls
  itself through \<open>declaration\<close> with the same two tokens.
\<close>

theorem if_body_diverges:
  assumes "ps_compilers p \<noteq> []" and "tok_type (ps_previous p) \<in> {TOKEN_THEN, TOKEN_ELSE}"
    and "starts_plain (tok_type (ps_current p))"
  shows "parse (Statement, p) = None"
  using parse_stuck [of "(Statement, p)"] assms
  by (cases "parse (Statement, p)") (simp_all add: stuck_goal_def stuck_def)

definition demo_then :: parser_t where
  "demo_then = (parser_init demo_tok (demo_src ''(f)()'') vm_blank)\<lparr>
     ps_compilers := [\<lparr>cp_function = 0, cp_type = TYPE_SCRIPT, cp_locals = [], cp_scopeDepth = 0\<rparr>],
     ps_previous := demo_tok\<lparr>tok_type := TOKEN_THEN\<rparr>,
     ps_current := fst (lexer_scan ''(f)()'' lexer_init)\<rparr>"

lemma if_body_diverges_witness: "parse (Statement, demo_then) = None"
proof (rule if_body_diverges)
  have "tok_type (fst (lexer_scan ''(f)()'' lexer_init)) = TOKEN_LPAREN" by code_simp
  then show "starts_plain (tok_type (ps_current demo_then))"
    by (simp add: demo_then_def starts_plain_def)
qed (simp_all add: demo_then_def)

end
