(* ===== verification/Expressions.thy ===== *)
theory Expressions
  imports Coding Instructions
begin

text \<open>
  A specification of the expressions without calls, maps, strings and assignments: their syntax trees, in
  which operands have the precedence that the table of rules asks for; the code that a tree stands for, in
  postfix order; and the value that it has. The compiler, which sees no tree, emits this code,
  and the machine, which sees no tree either, computes this value.
\<close>

subsection \<open>Syntax\<close>

datatype expr =
    Number tok_t
  | Literal tok_t
  | Name tok_t
  | Paren tok_t expr tok_t
  | Prefix tok_t expr
  | Infix expr tok_t expr
  | Conj expr tok_t expr
  | Disj expr tok_t expr

fun tokens :: "expr \<Rightarrow> tok_t list" where
  "tokens (Number t) = [t]"
| "tokens (Literal t) = [t]"
| "tokens (Name t) = [t]"
| "tokens (Paren t e u) = t # tokens e @ [u]"
| "tokens (Prefix t e) = t # tokens e"
| "tokens (Infix l t r) = tokens l @ t # tokens r"
| "tokens (Conj l t r) = tokens l @ t # tokens r"
| "tokens (Disj l t r) = tokens l @ t # tokens r"

lemma tokens_ne [simp]: "tokens e \<noteq> []"
  by (cases e) simp_all

definition prec_of :: "tok_t \<Rightarrow> nat" where
  "prec_of t = r_precedence (getRule (tok_type t))"

text \<open>The precedence of an expression, and the highest precedence that its last operand does not take.\<close>

fun level :: "expr \<Rightarrow> nat" where
  "level (Infix l t r) = prec_of t"
| "level (Conj l t r) = PREC_AND"
| "level (Disj l t r) = PREC_OR"
| "level (Prefix t e) = PREC_UNARY"
| "level _ = PREC_CALL"

fun reach :: "expr \<Rightarrow> nat" where
  "reach (Infix l t r) = prec_of t + 1"
| "reach e = level e"

text \<open>
  Operators of the same precedence group to the left, \<open>And\<close> and \<open>Or\<close> to the right. An operator stands on
  the line of the token before it.
\<close>

definition binary_ty :: "toktype_t \<Rightarrow> bool" where
  "binary_ty ty \<longleftrightarrow> ty \<in> {TOKEN_EQUAL_EQUAL, TOKEN_BANG_EQUAL, TOKEN_LESS, TOKEN_LESS_EQUAL, TOKEN_GREATER,
     TOKEN_GREATER_EQUAL, TOKEN_PLUS, TOKEN_MINUS, TOKEN_STAR, TOKEN_SLASH}"

definition joins :: "expr \<Rightarrow> tok_t \<Rightarrow> bool" where
  "joins l t \<longleftrightarrow> prec_of t < reach l \<and> tok_line t \<le> tok_line (last (tokens l))"

fun expr_ok :: "src_t \<Rightarrow> local_t list \<Rightarrow> expr \<Rightarrow> bool" where
  "expr_ok s ls (Number t) \<longleftrightarrow> tok_type t = TOKEN_NUMBER"
| "expr_ok s ls (Literal t) \<longleftrightarrow> tok_type t \<in> {TOKEN_TRUE, TOKEN_FALSE, TOKEN_NULL, TOKEN_FUNC}"
| "expr_ok s ls (Name t) \<longleftrightarrow> tok_type t = TOKEN_IDENTIFIER \<and>
     (case find_local s t ls (length ls) of None \<Rightarrow> False | Some i \<Rightarrow> lc_depth (ls ! i) \<noteq> -1)"
| "expr_ok s ls (Paren t e u) \<longleftrightarrow> tok_type t = TOKEN_LPAREN \<and> tok_type u = TOKEN_RPAREN \<and> expr_ok s ls e"
| "expr_ok s ls (Prefix t e) \<longleftrightarrow> tok_type t \<in> {TOKEN_MINUS, TOKEN_BANG, TOKEN_NOT} \<and> expr_ok s ls e \<and>
     PREC_UNARY \<le> level e"
| "expr_ok s ls (Infix l t r) \<longleftrightarrow> binary_ty (tok_type t) \<and> expr_ok s ls l \<and> expr_ok s ls r \<and>
     joins l t \<and> prec_of t < level r"
| "expr_ok s ls (Conj l t r) \<longleftrightarrow> tok_type t = TOKEN_AND \<and> expr_ok s ls l \<and> expr_ok s ls r \<and>
     joins l t \<and> PREC_AND \<le> level r"
| "expr_ok s ls (Disj l t r) \<longleftrightarrow> tok_type t = TOKEN_OR \<and> expr_ok s ls l \<and> expr_ok s ls r \<and>
     joins l t \<and> PREC_OR \<le> level r"

subsection \<open>The code of an expression\<close>

definition number_text :: "src_t \<Rightarrow> tok_t \<Rightarrow> string" where
  "number_text s t = (case tok_start t of In_source i \<Rightarrow> drop i (src_buffer s) | Message m \<Rightarrow> m)"

fun literal_code :: "toktype_t \<Rightarrow> u8 list" where
  "literal_code TOKEN_TRUE = [opcode_byte OP_TRUE]"
| "literal_code TOKEN_FALSE = [opcode_byte OP_FALSE]"
| "literal_code TOKEN_NULL = [opcode_byte OP_NIL]"
| "literal_code TOKEN_FUNC = [opcode_byte OP_LD, 0]"
| "literal_code _ = []"

definition unary_code :: "toktype_t \<Rightarrow> opcode_t" where
  "unary_code ty = (if ty = TOKEN_MINUS then OP_NEG else OP_NOT)"

fun binary_code :: "toktype_t \<Rightarrow> opcode_t list" where
  "binary_code TOKEN_EQUAL_EQUAL = [OP_EQ]"
| "binary_code TOKEN_BANG_EQUAL = [OP_EQ, OP_NOT]"
| "binary_code TOKEN_LESS = [OP_LT]"
| "binary_code TOKEN_LESS_EQUAL = [OP_LE]"
| "binary_code TOKEN_GREATER = [OP_LE, OP_NOT]"
| "binary_code TOKEN_GREATER_EQUAL = [OP_LT, OP_NOT]"
| "binary_code TOKEN_PLUS = [OP_ADD]"
| "binary_code TOKEN_MINUS = [OP_SUB]"
| "binary_code TOKEN_STAR = [OP_MUL]"
| "binary_code TOKEN_SLASH = [OP_DIV]"
| "binary_code _ = []"

text \<open>Each byte with the token whose position it gets; the constants grow from left to right.\<close>

type_synonym emission = "(u8 \<times> tok_t) list"

definition at_tok :: "tok_t \<Rightarrow> u8 list \<Rightarrow> emission" where
  "at_tok t bs = map (\<lambda>b. (b, t)) bs"

definition jump_over :: "opcode_t \<Rightarrow> nat \<Rightarrow> u8 list" where
  "jump_over op n = [opcode_byte op, jump_hi n, jump_lo n]"

fun comp :: "src_t \<Rightarrow> local_t list \<Rightarrow> expr \<Rightarrow> arr_t \<Rightarrow> emission \<times> arr_t" where
  "comp s ls (Number t) cs =
     (let (cs', k) = arr_add cs (VAL_NUM (strtod (number_text s t))) False
      in (at_tok t [opcode_byte OP_CONST, word_of_nat k], cs'))"
| "comp s ls (Literal t) cs = (at_tok t (literal_code (tok_type t)), cs)"
| "comp s ls (Name t) cs =
     (at_tok t [opcode_byte OP_LD, word_of_nat (the (find_local s t ls (length ls)))], cs)"
| "comp s ls (Paren t e u) cs = comp s ls e cs"
| "comp s ls (Prefix t e) cs =
     (let (xs, cs1) = comp s ls e cs
      in (xs @ at_tok (last (tokens e)) [opcode_byte (unary_code (tok_type t))], cs1))"
| "comp s ls (Infix l t r) cs =
     (let (xs, cs1) = comp s ls l cs; (ys, cs2) = comp s ls r cs1
      in (xs @ ys @ at_tok (last (tokens r)) (map opcode_byte (binary_code (tok_type t))), cs2))"
| "comp s ls (Conj l t r) cs =
     (let (xs, cs1) = comp s ls l cs; (ys, cs2) = comp s ls r cs1
      in (xs @ at_tok t (jump_over OP_JMPF (1 + length ys) @ [opcode_byte OP_POP]) @ ys, cs2))"
| "comp s ls (Disj l t r) cs =
     (let (xs, cs1) = comp s ls l cs; (ys, cs2) = comp s ls r cs1
      in (xs @ at_tok t (jump_over OP_JMPF 3 @ jump_over OP_JMP (1 + length ys) @ [opcode_byte OP_POP]) @ ys,
          cs2))"

lemma comp_grows:
  assumes "comp s ls e cs = (bs, cs')" and "arr_ok cs"
  shows "arr_ok cs' \<and> prefix (arr_values cs) (arr_values cs')"
  using assms
proof (induction e arbitrary: cs bs cs')
  case (Number t)
  then show ?case
    using arr_add_spec [OF Number(2)] by (fastforce simp: Let_def split: prod.splits)
qed (fastforce simp: Let_def split: prod.splits intro: prefix_order.trans)+

lemma comp_count: "comp s ls e cs = (bs, cs') \<Longrightarrow> arr_ok cs \<Longrightarrow> arr_count cs \<le> arr_count cs'"
  using comp_grows [of s ls e cs bs cs'] prefix_length_le by (fastforce simp: arr_ok_def)

subsection \<open>The value of an expression\<close>

definition apply_unary :: "toktype_t \<Rightarrow> val_t \<Rightarrow> val_t option" where
  "apply_unary ty v =
     (if ty = TOKEN_MINUS then
        (case v of
           VAL_NUM x \<Rightarrow> Some (VAL_NUM (d_neg x))
         | VAL_BOOL b \<Rightarrow> Some (VAL_NUM (d_of_int (if b then -1 else 0)))
         | _ \<Rightarrow> None)
      else Some (VAL_BOOL (IS_FALSEY v)))"

fun apply_numbers :: "toktype_t \<Rightarrow> double \<Rightarrow> double \<Rightarrow> val_t" where
  "apply_numbers TOKEN_LESS x y = VAL_BOOL (d_lt x y)"
| "apply_numbers TOKEN_LESS_EQUAL x y = VAL_BOOL (d_le x y)"
| "apply_numbers TOKEN_GREATER x y = VAL_BOOL (\<not> d_le x y)"
| "apply_numbers TOKEN_GREATER_EQUAL x y = VAL_BOOL (\<not> d_lt x y)"
| "apply_numbers TOKEN_PLUS x y = VAL_NUM (d_add x y)"
| "apply_numbers TOKEN_MINUS x y = VAL_NUM (d_sub x y)"
| "apply_numbers TOKEN_STAR x y = VAL_NUM (d_mul x y)"
| "apply_numbers TOKEN_SLASH x y = VAL_NUM (d_div x y)"
| "apply_numbers _ x y = VAL_NULL"

definition apply_binary :: "toktype_t \<Rightarrow> val_t \<Rightarrow> val_t \<Rightarrow> val_t option" where
  "apply_binary ty a b =
     (if ty = TOKEN_EQUAL_EQUAL then Some (VAL_BOOL (val_equal a b))
      else if ty = TOKEN_BANG_EQUAL then Some (VAL_BOOL (\<not> val_equal a b))
      else (case (as_number a, as_number b) of
              (Some x, Some y) \<Rightarrow> Some (apply_numbers ty x y)
            | _ \<Rightarrow> None))"

definition literal_value :: "(nat \<Rightarrow> val_t) \<Rightarrow> toktype_t \<Rightarrow> val_t" where
  "literal_value env ty =
     (if ty = TOKEN_TRUE then VAL_BOOL True else if ty = TOKEN_FALSE then VAL_BOOL False
      else if ty = TOKEN_NULL then VAL_NULL else env 0)"

text \<open>\<open>None\<close> is an operand of a wrong type. \<open>env\<close> gives the values of the frame's slots.\<close>

fun eval :: "src_t \<Rightarrow> local_t list \<Rightarrow> (nat \<Rightarrow> val_t) \<Rightarrow> expr \<Rightarrow> val_t option" where
  "eval s ls env (Number t) = Some (VAL_NUM (strtod (number_text s t)))"
| "eval s ls env (Literal t) = Some (literal_value env (tok_type t))"
| "eval s ls env (Name t) = map_option env (find_local s t ls (length ls))"
| "eval s ls env (Paren t e u) = eval s ls env e"
| "eval s ls env (Prefix t e) = Option.bind (eval s ls env e) (apply_unary (tok_type t))"
| "eval s ls env (Infix l t r) =
     Option.bind (eval s ls env l) (\<lambda>a. Option.bind (eval s ls env r) (apply_binary (tok_type t) a))"
| "eval s ls env (Conj l t r) =
     Option.bind (eval s ls env l) (\<lambda>a. if IS_FALSEY a then Some a else eval s ls env r)"
| "eval s ls env (Disj l t r) =
     Option.bind (eval s ls env l) (\<lambda>a. if IS_FALSEY a then eval s ls env r else Some a)"

text \<open>The room on the stack that an evaluation takes.\<close>

fun stack_need :: "expr \<Rightarrow> nat" where
  "stack_need (Paren t e u) = stack_need e"
| "stack_need (Prefix t e) = stack_need e"
| "stack_need (Infix l t r) = max (stack_need l) (1 + stack_need r)"
| "stack_need (Conj l t r) = max (stack_need l) (stack_need r)"
| "stack_need (Disj l t r) = max (stack_need l) (stack_need r)"
| "stack_need _ = 1"

end
