(* ===== verification/Expr_Parsing.thy ===== *)
theory Expr_Parsing
  imports Expressions
begin

text \<open>
  The parser on the tokens of an expression: it takes exactly these tokens and emits the code of the
  expression. The states that it goes through differ from the first one in the tokens read, the
  function compiled and the count of operands.
\<close>

subsection \<open>Tokens ahead\<close>

definition adv :: "parser_t \<Rightarrow> parser_t" where
  "adv p = scan_current (p\<lparr>ps_previous := ps_current p\<rparr>)"

fun upcoming :: "parser_t \<Rightarrow> tok_t list \<Rightarrow> bool" where
  "upcoming p [] \<longleftrightarrow> True"
| "upcoming p (t # ts) \<longleftrightarrow> ps_current p = t \<and> tok_type t \<noteq> TOKEN_ERROR \<and> upcoming (adv p) ts"

lemma upcoming_append: "upcoming p (ts @ us) \<longleftrightarrow> upcoming p ts \<and> upcoming ((adv ^^ length ts) p) us"
  by (induction ts arbitrary: p) (auto simp: funpow_swap1)

lemma ps_advance_adv:
  assumes "upcoming p (t # u # ts)"
  shows "ps_advance p = Some (Inr ((), adv p))"
proof -
  from assms have "tok_type (ps_current (adv p)) \<noteq> TOKEN_ERROR" by auto
  then show ?thesis by (simp add: ps_advance_def adv_def advance_loop.simps Let_def)
qed

lemma previous_adv [simp]: "ps_previous (adv p) = ps_current p"
  by (simp add: adv_def scan_current_def split: prod.split)

lemma previous_last:
  assumes "upcoming p ts" and "ts \<noteq> []"
  shows "ps_previous ((adv ^^ length ts) p) = last ts"
proof -
  from assms(2) obtain us u where ts: "ts = us @ [u]" by (cases ts rule: rev_cases) auto
  with assms(1) have "ps_current ((adv ^^ length us) p) = u" by (simp add: upcoming_append)
  with ts show ?thesis by simp
qed

subsection \<open>States\<close>

definition st :: "nat \<Rightarrow> fun_t \<Rightarrow> nat \<Rightarrow> parser_t \<Rightarrow> parser_t" where
  "st n f k p = (upd_fn f ((adv ^^ n) p))\<lparr>ps_subExprs := ps_subExprs p + k\<rparr>"

text \<open>Reading a token commutes with the other changes.\<close>

lemma adv_commute:
  "adv (upd_fn f p) = upd_fn f (adv p)" "adv (p\<lparr>ps_subExprs := k\<rparr>) = (adv p)\<lparr>ps_subExprs := k\<rparr>"
  "upd_fn f (p\<lparr>ps_subExprs := k\<rparr>) = (upd_fn f p)\<lparr>ps_subExprs := k\<rparr>"
  by (simp_all add: adv_def upd_fn_def scan_current_def split: prod.split)

lemma adv_same [simp]:
  "ps_compilers (adv p) = ps_compilers p" "ps_source (adv p) = ps_source p" "ps_vm (adv p) = ps_vm p"
  "ps_subExprs (adv p) = ps_subExprs p" "ps_hadError (adv p) = ps_hadError p"
  "ps_panicMode (adv p) = ps_panicMode p"
  by (simp_all add: adv_def scan_current_def split: prod.split)

lemma advs_same [simp]:
  "ps_compilers ((adv ^^ n) p) = ps_compilers p" "ps_source ((adv ^^ n) p) = ps_source p"
  "ps_vm ((adv ^^ n) p) = ps_vm p" "ps_subExprs ((adv ^^ n) p) = ps_subExprs p"
  "ps_hadError ((adv ^^ n) p) = ps_hadError p" "ps_panicMode ((adv ^^ n) p) = ps_panicMode p"
  by (induction n) simp_all

lemma advs_commute:
  "(adv ^^ n) (upd_fn f p) = upd_fn f ((adv ^^ n) p)"
  "(adv ^^ n) (p\<lparr>ps_subExprs := k\<rparr>) = ((adv ^^ n) p)\<lparr>ps_subExprs := k\<rparr>"
  by (induction n) (simp_all add: adv_commute)

lemma cur_fn_advs [simp]: "cur_fn ((adv ^^ n) p) = cur_fn p"
  by (simp add: cur_fn_def split: list.split)

lemma upcoming_upd [simp]: "upcoming (upd_fn f p) ts = upcoming p ts"
  "upcoming (p\<lparr>ps_subExprs := k\<rparr>) ts = upcoming p ts"
  by (induction ts arbitrary: p) (simp_all add: adv_commute)

lemma upd_fn_panic [simp]: "ps_panicMode (upd_fn f p) = ps_panicMode p"
  by (simp add: upd_fn_def)

lemma st_simps [simp]:
  "ps_compilers (st n f k p) = ps_compilers p" "ps_source (st n f k p) = ps_source p"
  "ps_previous (st n f k p) = ps_previous ((adv ^^ n) p)" "ps_current (st n f k p) = ps_current ((adv ^^ n) p)"
  "upcoming (st n f k p) ts = upcoming ((adv ^^ n) p) ts" "adv (st n f k p) = st (Suc n) f k p"
  "ps_panicMode (st n f k p) = ps_panicMode p" "ps_hadError (st n f k p) = ps_hadError p"
  by (simp_all add: st_def adv_commute)

lemma st_st [simp]: "st m g j (st n f k p) = st (n + m) g (k + j) p"
  by (simp add: st_def adv_commute advs_commute add.commute [of n] funpow_add)

lemma upd_fn_same:
  assumes "cur_fn p = Some f"
  shows "upd_fn f p = p"
proof -
  from assms obtain c cs ob where "ps_compilers p = c # cs" "heap (ps_vm p) (cp_function c) = Some ob"
    "body ob = OT_FUN f"
    by (auto simp: cur_fn_Some fun_at_Some)
  then have "put_fun (cp_function c) f (ps_vm p) = ps_vm p" by (simp add: put_fun_def fun_upd_idem_iff)
  with \<open>ps_compilers p = c # cs\<close> show ?thesis by (simp add: upd_fn_def)
qed

lemma st_0: "cur_fn p = Some f \<Longrightarrow> st 0 f 0 p = p"
  by (simp add: st_def upd_fn_same)

lemma adv_st: "cur_fn p = Some f \<Longrightarrow> adv p = st 1 f 0 p"
  using upd_fn_same [of "adv p" f] cur_fn_advs [of 1 p] by (simp add: st_def)

lemma cur_st [simp]: "cur_fn p = Some f0 \<Longrightarrow> cur_fn (st n f k p) = Some f"
  using cur_upd_fn [of "(adv ^^ n) p" f0 f] by (simp add: st_def cur_fn_def split: list.splits)

text \<open>An update of the current function.\<close>

lemma st_upd: "upd_fn g (st n f k p) = st n g k p"
  by (simp add: st_def adv_commute)

subsection \<open>Emissions\<close>

lemma bindp_eq: "m p = Some (Inr (x, p')) \<Longrightarrow> bindp m k p = k x p'"
  by (simp add: bindp_def)

lemma seqp_eq: "m p = Some (Inr (x, p')) \<Longrightarrow> seqp m n p = n p'"
  by (simp add: seqp_def bindp_def)

lemma ret_eq: "ret x p = Some (Inr (x, p))"
  by (simp add: ret_def)

definition emit_all :: "emission \<Rightarrow> fun_t \<Rightarrow> fun_t" where
  "emit_all xs f = fold (\<lambda>(b, t). emits t [b]) xs f"

lemma emit_all_simps [simp]:
  "emit_all [] f = f" "emit_all (xs @ ys) f = emit_all ys (emit_all xs f)"
  "emit_all ((b, t) # xs) f = emit_all xs (emits t [b] f)"
  by (simp_all add: emit_all_def)

lemma emit_all_at [simp]: "emit_all (at_tok t bs) f = emits t bs f"
proof (induction bs arbitrary: f)
  case (Cons b bs)
  then have "emit_all (at_tok t (b # bs)) f = emits t bs (emits t [b] f)"
    by (simp add: emit_all_def at_tok_def)
  then show ?case by simp
qed (simp add: at_tok_def emits_def)

lemma emit_all_code [simp]:
  "ck_code (fn_chunk (emit_all xs f)) = ck_code (fn_chunk f) @ map fst xs"
  "ck_constants (fn_chunk (emit_all xs f)) = ck_constants (fn_chunk f)"
  "chunk_ok (fn_chunk f) \<Longrightarrow> chunk_ok (fn_chunk (emit_all xs f))"
  by (induction xs arbitrary: f) (simp_all add: emit_all_def split: prod.split)

lemma chunk_ok_count: "chunk_ok c \<Longrightarrow> ck_count c = length (ck_code c)"
  by (simp add: chunk_ok_def)

lemma with_constants_simps [simp]:
  "ck_code (fn_chunk (with_constants cs f)) = ck_code (fn_chunk f)"
  "ck_constants (fn_chunk (with_constants cs f)) = cs"
  "with_constants cs' (with_constants cs f) = with_constants cs' f"
  "chunk_ok (fn_chunk f) \<Longrightarrow> arr_ok cs \<Longrightarrow> chunk_ok (fn_chunk (with_constants cs f))"
  by (simp_all add: with_constants_def chunk_ok_def)

lemma with_constants_emits [simp]: "with_constants cs (emits t bs f) = emits t bs (with_constants cs f)"
proof -
  have "chunk_emit (c\<lparr>ck_constants := cs\<rparr>) b l k = (chunk_emit c b l k)\<lparr>ck_constants := cs\<rparr>" for c b l k
    by (simp add: chunk_emit_def Let_def)
  then have "(fold (\<lambda>b c. chunk_emit c b l k) bs c)\<lparr>ck_constants := cs\<rparr> =
      fold (\<lambda>b c. chunk_emit c b l k) bs (c\<lparr>ck_constants := cs\<rparr>)" for l k c
    by (induction bs arbitrary: c) simp_all
  then show ?thesis by (simp add: emits_def with_constants_def)
qed

lemma with_constants_all [simp]: "with_constants cs (emit_all xs f) = emit_all xs (with_constants cs f)"
  by (induction xs arbitrary: f) (simp_all add: emit_all_def split: prod.split)

lemma with_constants_same: "ck_constants (fn_chunk f) = cs \<Longrightarrow> with_constants cs f = f"
  by (cases "fn_chunk f") (auto simp: with_constants_def)

text \<open>Bytes written with the same positions differ in the code alone.\<close>

lemma emits_recode:
  "with_code bs (emits t [b] f) = with_code bs (emits t [b'] f)"
  by (simp add: with_code_def emits_def chunk_emit_def Let_def)

lemma with_code_emits:
  "with_code bs (emits t [b] (with_code cs f)) = with_code bs (emits t [b] f)"
  by (simp add: with_code_def emits_def chunk_emit_def Let_def)

lemma with_code_with [simp]: "with_code bs (with_code cs f) = with_code bs f"
  by (simp add: with_code_def)

lemma with_code_same: "ck_code (fn_chunk f) = bs \<Longrightarrow> with_code bs f = f"
  by (cases "fn_chunk f") (auto simp: with_code_def)

lemma emit_all_recode:
  assumes "map snd xs = map snd ys"
  shows "with_code (ck_code (fn_chunk f) @ map fst ys) (emit_all xs f) = emit_all ys f"
proof -
  have "with_code bs (emit_all xs f) = with_code bs (emit_all ys f)" for bs
    using assms
  proof (induction xs arbitrary: ys f bs rule: rev_induct)
    case (snoc x xs)
    then obtain y zs where ys: "ys = zs @ [y]" "snd y = snd x" "map snd xs = map snd zs"
      by (cases ys rule: rev_cases) auto
    from snoc.IH [OF ys(3)]
    have IH: "with_code bs (emit_all xs f) = with_code bs (emit_all zs f)" for bs .
    have "with_code bs (emit_all (xs @ [x]) f) = with_code bs (emits (snd y) [fst y] (with_code [] (emit_all xs f)))"
      using ys(2) by (simp add: emit_all_def [of "[x]"] with_code_emits emits_recode [of bs "snd x" "fst x" _ "fst y"]
          split_beta)
    also have "\<dots> = with_code bs (emit_all ys f)"
      by (simp add: IH ys(1) emit_all_def [of "[y]"] with_code_emits split_beta)
    finally show ?case .
  qed simp
  then show ?thesis by (simp add: with_code_same)
qed

subsection \<open>The operations that emit\<close>

lemma currentChunk_eq: "cur_fn p = Some f \<Longrightarrow> currentChunk p = Some (Inr (fn_chunk f, p))"
  using cur_fun_cur_fn [of p f] by (simp add: currentChunk_def bindp_eq ret_eq)

lemma set_chunk_eq: "cur_fn p = Some f \<Longrightarrow> set_chunk c p = Some (Inr ((), upd_fn (f\<lparr>fn_chunk := c\<rparr>) p))"
  using cur_fun_cur_fn [of p f] by (simp add: set_chunk_def bindp_eq set_cur_fun_upd)

lemma emitByte_eq: "cur_fn p = Some f \<Longrightarrow> emitByte b p = Some (Inr ((), upd_fn (emits (ps_previous p) [b] f) p))"
  by (simp add: emitByte_def bindp_eq currentChunk_eq bindp_gets set_chunk_eq emits_def)

lemma emitOp_eq:
  "cur_fn p = Some f \<Longrightarrow> emitOp op p = Some (Inr ((), upd_fn (emits (ps_previous p) [opcode_byte op] f) p))"
  by (simp add: emitOp_def emitByte_eq)

lemma emitBytes_eq:
  assumes "cur_fn p = Some f"
  shows "emitBytes b1 b2 p = Some (Inr ((), upd_fn (emits (ps_previous p) [b1, b2] f) p))"
  using emitByte_eq [OF assms, of b1] emitByte_eq [OF cur_upd_fn [OF assms], of b2 "emits (ps_previous p) [b1] f"]
  by (simp add: emitBytes_def seqp_eq)

lemma emitJump_eq:
  assumes "cur_fn p = Some f"
  shows "emitJump op p = Some (Inr (ck_count (fn_chunk f) + 1,
    upd_fn (emits (ps_previous p) [opcode_byte op, 0, 0] f) p))"
proof -
  let ?f1 = "emits (ps_previous p) [opcode_byte op] f"
  have "emitBytes 0 0 (upd_fn ?f1 p) = Some (Inr ((), upd_fn (emits (ps_previous p) [opcode_byte op, 0, 0] f) p))"
    using emitBytes_eq [OF cur_upd_fn [OF assms], of 0 0 ?f1] by simp
  moreover note emitOp_eq [OF assms, of op] currentChunk_eq [OF cur_upd_fn [OF assms]]
  ultimately show ?thesis by (simp add: emitJump_def seqp_eq bindp_eq ret_eq count)
qed

lemma makeConstant_eq:
  assumes "cur_fn p = Some f" and "arr_add (ck_constants (fn_chunk f)) v False = (cs, k)" and "k \<le> 255"
  shows "makeConstant v p = Some (Inr (word_of_nat k, upd_fn (with_constants cs f) p))"
  using assms
  by (simp add: makeConstant_def bindp_eq [OF currentChunk_eq] seqp_eq [OF set_chunk_eq] with_constants_def ret_eq)

lemma patchJump_eq:
  assumes "cur_fn p = Some f" and "j = ck_count (fn_chunk f) - n - 2" and "j \<le> 65535"
  shows "patchJump n p = Some (Inr ((),
    upd_fn (with_code ((ck_code (fn_chunk f))[n := jump_hi j, n + 1 := jump_lo j]) f) p))"
  using assms
  by (simp add: patchJump_def bindp_eq [OF currentChunk_eq] seqp_eq whenp_def ret_eq set_chunk_eq with_code_def Let_def)

subsection \<open>Precedences\<close>

lemma run_parse:
  "run parse (Precedence n) = parsePrecedence parse n"
  "run parse (Infixes n b) = infixes_loop parse n b"
proof -
  have "bindp (no_result m) (\<lambda>_. ret ()) = m" for m :: "unit parse"
    by (auto simp: fun_eq_iff no_result_def seqp_def bindp_def ret_def split: option.split sum.split)
  then show "run parse (Precedence n) = parsePrecedence parse n"
    "run parse (Infixes n b) = infixes_loop parse n b"
    by (simp_all add: run_def fun_eq_iff bindp_def go_def parse.simps [of "(_, _)"] parse_goal_def)
qed

text \<open>What \<open>parsePrecedence\<close> does when it has an operand.\<close>

definition after_prefix :: "nat \<Rightarrow> unit parse" where
  "after_prefix n =
     seqp (infixes_loop parse n (n \<le> PREC_ASSIGNMENT))
       (if n \<le> PREC_ASSIGNMENT then if_match TOKEN_EQUAL (error ''Invalid assignment target.'') (ret ())
        else ret ())"

lemma prefix_step:
  assumes "upcoming p (t # u # ts)" and "r_prefix (getRule (tok_type t)) = Some r"
    and "run_rule parse r (n \<le> PREC_ASSIGNMENT) (adv p) = Some (Inr ((), p'))"
  shows "parsePrecedence parse n p = after_prefix n (p'\<lparr>ps_subExprs := ps_subExprs p' + 1\<rparr>)"
proof -
  note adv = ps_advance_adv [OF assms(1)]
  have t: "ps_current p = t" using assms(1) by simp
  show ?thesis
    using assms(2,3)
    by (simp add: parsePrecedence_def seqp_eq [of ps_advance, OF adv] bindp_gets t seqp_eq [of "run_rule _ _ _"]
        seqp_eq [of "modify _"] modify_def run_parse after_prefix_def Let_def)
qed

lemma infix_step:
  assumes "upcoming p (t # u # ts)" and "n \<le> prec_of t" and "tok_line t \<le> tok_line (ps_previous p)"
    and "tok_type t \<noteq> TOKEN_LPAREN" and "r_infix (getRule (tok_type t)) = Some r"
    and "run_rule parse r (n \<le> PREC_ASSIGNMENT) (adv p) = Some (Inr ((), p'))"
  shows "after_prefix n p = after_prefix n p'"
proof -
  note adv = ps_advance_adv [OF assms(1)]
  have t: "ps_current p = t" using assms(1) by simp
  have "infixes_loop parse n (n \<le> PREC_ASSIGNMENT) p = infixes_loop parse n (n \<le> PREC_ASSIGNMENT) p'"
    using assms(2-)
    by (subst infixes_loop_def) (simp add: bindp_gets t prec_of_def check_def whenp_def seqp_eq [of "ret _", OF ret_eq]
        seqp_eq [of ps_advance, OF adv] seqp_eq [of "run_rule _ _ _"] run_parse)
  then show ?thesis by (simp add: after_prefix_def seqp_def bindp_def)
qed

text \<open>The token \<open>t\<close> behind the token \<open>l\<close> is no operator of this precedence, or stands on a new line.\<close>

definition stops :: "nat \<Rightarrow> tok_t \<Rightarrow> tok_t \<Rightarrow> bool" where
  "stops n l t \<longleftrightarrow> prec_of t < n \<or> tok_line l < tok_line t"

lemma after_prefix_stops:
  assumes "stops n (ps_previous p) (ps_current p)" and "tok_type (ps_current p) \<noteq> TOKEN_EQUAL"
  shows "after_prefix n p = Some (Inr ((), p))"
proof -
  have "infixes_loop parse n b p = Some (Inr ((), p))" for b
    using assms(1) by (auto simp: infixes_loop_def bindp_gets stops_def prec_of_def ret_eq)
  then show ?thesis
    using assms(2) by (simp add: after_prefix_def seqp_eq if_match_def ps_match_def check_def bindp_def ret_eq)
qed

end
