(* ===== verification/Expr_Compiled.thy ===== *)
theory Expr_Compiled
  imports Expr_Parsing
begin

text \<open>
  The parser, started on the tokens of a syntax tree, emits the code of the tree, by induction on the tree.
\<close>

subsection \<open>Facts about trees and their code\<close>

lemma level_reach: "level e \<le> reach e"
  by (cases e) simp_all

text \<open>The number of calls of \<open>parsePrecedence\<close>.\<close>

fun operands :: "expr \<Rightarrow> nat" where
  "operands (Paren t e u) = operands e + 1"
| "operands (Prefix t e) = operands e + 1"
| "operands (Infix l t r) = operands l + operands r"
| "operands (Conj l t r) = operands l + operands r"
| "operands (Disj l t r) = operands l + operands r"
| "operands _ = 1"

text \<open>The rows of the table of rules that are used here.\<close>

lemma prefix_rules:
  "r_prefix (getRule TOKEN_NUMBER) = Some P_number" "r_prefix (getRule TOKEN_IDENTIFIER) = Some P_variable"
  "r_prefix (getRule TOKEN_LPAREN) = Some P_grouping"
  "ty \<in> {TOKEN_TRUE, TOKEN_FALSE, TOKEN_NULL, TOKEN_FUNC} \<Longrightarrow> r_prefix (getRule ty) = Some P_literal"
  "ty \<in> {TOKEN_MINUS, TOKEN_BANG, TOKEN_NOT} \<Longrightarrow> r_prefix (getRule ty) = Some P_unary"
  by (auto simp: getRule_def rules_def)

lemma infix_rules:
  "r_infix (getRule TOKEN_AND) = Some P_and" "r_precedence (getRule TOKEN_AND) = PREC_AND"
  "r_infix (getRule TOKEN_OR) = Some P_or" "r_precedence (getRule TOKEN_OR) = PREC_OR"
  "r_precedence (getRule TOKEN_RPAREN) = PREC_NONE" "r_precedence (getRule TOKEN_EOF) = PREC_NONE"
  by (simp_all add: getRule_def rules_def)

lemma binary_rule:
  assumes "binary_ty ty"
  shows "r_infix (getRule ty) = Some P_binary" and "PREC_EQUALITY \<le> r_precedence (getRule ty)"
    and "ty \<noteq> TOKEN_LPAREN" and "ty \<noteq> TOKEN_EQUAL" and "ty \<noteq> TOKEN_ERROR"
  using assms by (auto simp: binary_ty_def getRule_def rules_def)

lemma binary_emits:
  assumes "binary_ty ty" and "cur_fn p = Some f"
  shows "binary_ops ty p = Some (Inr ((), upd_fn (emits (ps_previous p) (map opcode_byte (binary_code ty)) f) p))"
  using assms(1) emitOp_eq [OF assms(2)] emitBytes_eq [OF assms(2)]
  by (auto simp: binary_ty_def)

subsection \<open>The induction\<close>

text \<open>The parser stands before the tokens of \<open>e\<close>, which \<open>t\<close> follows, and compiles \<open>f\<close>.\<close>

definition before :: "local_t list \<Rightarrow> expr \<Rightarrow> tok_t \<Rightarrow> emission \<Rightarrow> arr_t \<Rightarrow> fun_t \<Rightarrow> parser_t \<Rightarrow> bool" where
  "before ls e t bs cs f p \<longleftrightarrow> cur_fn p = Some f \<and> cp_locals (hd (ps_compilers p)) = ls \<and>
     chunk_ok (fn_chunk f) \<and> upcoming p (tokens e @ [t]) \<and> expr_ok (ps_source p) ls e \<and>
     comp (ps_source p) ls e (ck_constants (fn_chunk f)) = (bs, cs) \<and> arr_count cs \<le> 256 \<and>
     length bs \<le> 65535 \<and> tok_type t \<noteq> TOKEN_EQUAL"

text \<open>The state behind \<open>e\<close>.\<close>

definition behind :: "expr \<Rightarrow> emission \<Rightarrow> arr_t \<Rightarrow> fun_t \<Rightarrow> parser_t \<Rightarrow> parser_t" where
  "behind e bs cs f p = st (length (tokens e)) (emit_all bs (with_constants cs f)) (operands e) p"

lemma before_behind:
  assumes "before ls e t bs cs f p"
  shows "ps_previous (behind e bs cs f p) = last (tokens e)" and "ps_current (behind e bs cs f p) = t"
    and "cur_fn (behind e bs cs f p) = Some (emit_all bs (with_constants cs f))"
    and "chunk_ok (fn_chunk (emit_all bs (with_constants cs f)))"
    and "upcoming p (tokens e)" and "tok_type t \<noteq> TOKEN_ERROR"
    and "ps_source (behind e bs cs f p) = ps_source p" and "ps_compilers (behind e bs cs f p) = ps_compilers p"
proof -
  from assms have u: "upcoming p (tokens e @ [t])" by (simp add: before_def)
  then show up: "upcoming p (tokens e)" and "tok_type t \<noteq> TOKEN_ERROR" by (simp_all add: upcoming_append)
  show "ps_previous (behind e bs cs f p) = last (tokens e)"
    using previous_last [OF up] by (simp add: behind_def)
  show "ps_current (behind e bs cs f p) = t" using u by (simp add: behind_def upcoming_append)
  show "cur_fn (behind e bs cs f p) = Some (emit_all bs (with_constants cs f))"
    using assms cur_st by (simp add: before_def behind_def)
  have "arr_ok cs" using assms comp_grows by (auto simp: before_def chunk_ok_def)
  with assms show "chunk_ok (fn_chunk (emit_all bs (with_constants cs f)))" by (simp add: before_def)
qed (simp_all add: behind_def)

text \<open>The claim: behind \<open>e\<close>, the parser goes on to look for operators.\<close>

definition taken :: "local_t list \<Rightarrow> expr \<Rightarrow> bool" where
  "taken ls e \<longleftrightarrow> (\<forall>n t bs cs f p. before ls e t bs cs f p \<longrightarrow> n \<le> level e \<longrightarrow>
     stops (reach e) (last (tokens e)) t \<longrightarrow>
     parsePrecedence parse n p = after_prefix n (behind e bs cs f p))"

lemma taken_operand:
  assumes "taken ls e" and "before ls e t bs cs f p" and "n \<le> level e" and "stops n (last (tokens e)) t"
  shows "parsePrecedence parse n p = Some (Inr ((), behind e bs cs f p))"
proof -
  have "stops (reach e) (last (tokens e)) t"
    using assms(3,4) level_reach [of e] by (auto simp: stops_def)
  with assms have "parsePrecedence parse n p = after_prefix n (behind e bs cs f p)"
    unfolding taken_def by blast
  also have "\<dots> = Some (Inr ((), behind e bs cs f p))"
    using assms(2,4) before_behind [OF assms(2)] by (intro after_prefix_stops) (simp_all add: before_def)
  finally show ?thesis .
qed

text \<open>An operand that is a token, or starts with one.\<close>

lemma taken_prefix:
  assumes "before ls e t bs cs f p" and "tokens e = h # ts" and "r_prefix (getRule (tok_type h)) = Some r"
    and "run_rule parse r (n \<le> PREC_ASSIGNMENT) (st 1 f 0 p) =
      Some (Inr ((), st (length (tokens e)) (emit_all bs (with_constants cs f)) k p))"
    and "operands e = k + 1"
  shows "parsePrecedence parse n p = after_prefix n (behind e bs cs f p)"
proof -
  have cur: "cur_fn p = Some f" and up: "upcoming p (h # ts @ [t])" using assms(1,2) by (simp_all add: before_def)
  obtain u us where us: "ts @ [t] = u # us" by (cases "ts @ [t]") auto
  let ?p = "st (length (tokens e)) (emit_all bs (with_constants cs f)) k p"
  have "parsePrecedence parse n p = after_prefix n (?p\<lparr>ps_subExprs := ps_subExprs ?p + 1\<rparr>)"
    using prefix_step [OF up [unfolded us] assms(3)] assms(4) adv_st [OF cur] by simp
  then show ?thesis using assms(5) by (simp add: behind_def st_def)
qed

lemma taken_Number: "taken ls (Number t0)"
  unfolding taken_def
proof (intro allI impI)
  fix n t bs cs f p
  assume b: "before ls (Number t0) t bs cs f p"
  from b obtain k where k: "arr_add (ck_constants (fn_chunk f)) (VAL_NUM (strtod (number_text (ps_source p) t0))) False = (cs, k)"
    "bs = at_tok t0 [opcode_byte OP_CONST, word_of_nat k]"
    by (auto simp: before_def Let_def split: prod.splits)
  have cur: "cur_fn p = Some f" and ok: "arr_ok (ck_constants (fn_chunk f))" and "arr_count cs \<le> 256"
    and t0: "ps_current p = t0" and ty: "tok_type t0 = TOKEN_NUMBER"
    using b by (simp_all add: before_def chunk_ok_def)
  then have "k \<le> 255" using arr_add_spec [OF ok k(1)] by (auto simp: arr_ok_def)
  let ?p = "st (Suc 0) f 0 p"
  have cur1: "cur_fn ?p = Some f" using cur by (rule cur_st)
  have "number ?p = Some (Inr ((), st 1 (emit_all bs (with_constants cs f)) 0 p))"
    using makeConstant_eq [OF cur1 k(1) \<open>k \<le> 255\<close>] emitBytes_eq [OF cur_st [OF cur]] t0 k(2)
    by (simp add: number_def bindp_gets number_text_def [symmetric] emitConstant_def bindp_eq emitSmart_def st_upd)
  then show "parsePrecedence parse n p = after_prefix n (behind (Number t0) bs cs f p)"
    by (intro taken_prefix [OF b, where h = t0 and ts = "[]" and r = P_number]) (simp_all add: ty prefix_rules run_rule_def)
qed

lemma taken_Literal: "taken ls (Literal t0)"
  unfolding taken_def
proof (intro allI impI)
  fix n t bs cs f p
  assume b: "before ls (Literal t0) t bs cs f p"
  have bs: "bs = at_tok t0 (literal_code (tok_type t0))" "cs = ck_constants (fn_chunk f)"
    and cur: "cur_fn p = Some f" and t0: "ps_current p = t0"
    and ty: "tok_type t0 \<in> {TOKEN_TRUE, TOKEN_FALSE, TOKEN_NULL, TOKEN_FUNC}"
    using b by (simp_all add: before_def)
  have "literal (st 1 f 0 p) = Some (Inr ((), st 1 (emits t0 (literal_code (tok_type t0)) f) 0 p))"
    using ty emitOp_eq [OF cur_st [OF cur]] emitBytes_eq [OF cur_st [OF cur]] t0
    by (auto simp: literal_def bindp_gets emitSmart_def st_upd)
  with bs have "literal (st 1 f 0 p) = Some (Inr ((), st 1 (emit_all bs (with_constants cs f)) 0 p))"
    by (simp add: with_constants_same)
  then show "parsePrecedence parse n p = after_prefix n (behind (Literal t0) bs cs f p)"
    by (intro taken_prefix [OF b, where h = t0 and ts = "[]" and r = P_literal]) (simp_all add: prefix_rules(4) [OF ty] run_rule_def)
qed

lemma taken_Name: "taken ls (Name t0)"
  unfolding taken_def
proof (intro allI impI)
  fix n t bs cs f p
  assume b: "before ls (Name t0) t bs cs f p"
  then obtain i where i: "find_local (ps_source p) t0 ls (length ls) = Some i" "lc_depth (ls ! i) \<noteq> -1"
    by (auto simp: before_def split: option.splits)
  obtain c cc where c: "ps_compilers p = c # cc" "cp_locals c = ls"
    using b by (auto simp: before_def cur_fn_Some)
  have bs: "bs = at_tok t0 [opcode_byte OP_LD, word_of_nat i]" "cs = ck_constants (fn_chunk f)"
    and cur: "cur_fn p = Some f" and t0: "ps_current p = t0" and ty: "tok_type t0 = TOKEN_IDENTIFIER"
    using b i(1) by (simp_all add: before_def)
  let ?p = "st (Suc 0) f 0 p"
  have "tok_type (ps_current ?p) \<noteq> TOKEN_EQUAL" using b by (simp add: before_def)
  then have m: "(if a then ps_match TOKEN_EQUAL else ret False) ?p = Some (Inr (False, ?p))" for a
    by (simp add: ps_match_def check_def ret_eq)
  have r: "resolveLocal t0 ?p = Some (Inr (Some i, ?p))"
    using c i by (simp add: resolveLocal_def bindp_eq [of get_compiler] get_compiler_def cur_compiler_def
        bindp_gets whenp_def seqp_eq [of "ret _", OF ret_eq] ret_eq)
  have "variable parse a ?p = Some (Inr ((), st 1 (emit_all bs (with_constants cs f)) 0 p))" for a
    using emitBytes_eq [OF cur_st [OF cur]] t0 bs
    by (cases a) (simp_all add: variable_def bindp_gets namedVariable_def bindp_eq [of "resolveLocal _", OF r]
        bindp_eq [of "ret _", OF ret_eq] bindp_eq [of "ps_match _", OF m [of True, simplified]]
        emitSmart_def st_upd with_constants_same)
  then show "parsePrecedence parse n p = after_prefix n (behind (Name t0) bs cs f p)"
    by (intro taken_prefix [OF b, where h = t0 and ts = "[]" and r = P_variable]) (simp_all add: ty prefix_rules run_rule_def)
qed

subsection \<open>Operators\<close>

lemma reach_level: "k < reach e \<Longrightarrow> k \<le> level e"
  by (cases e) simp_all

lemma level_pos: "expr_ok s ls e \<Longrightarrow> PREC_ASSIGNMENT \<le> level e"
  using binary_rule(2) by (cases e) (fastforce simp: prec_of_def)+

text \<open>Tokens behind an operand.\<close>

lemma upcoming_behind:
  "upcoming p (tokens e @ ts) \<Longrightarrow> upcoming (behind e bs cs f p) ts"
  by (simp add: behind_def upcoming_append)

lemma behind_st: "behind e bs cs f (st n g k p) =
  st (n + length (tokens e)) (emit_all bs (with_constants cs f)) (k + operands e) p"
  by (simp add: behind_def)

text \<open>A part of an expression: it is compiled in its own state.\<close>

lemma before_part:
  assumes "cur_fn p = Some f" and "cp_locals (hd (ps_compilers p)) = ls" and "chunk_ok (fn_chunk f)"
    and "upcoming p (tokens e @ t # ts)" and "expr_ok (ps_source p) ls e"
    and "comp (ps_source p) ls e (ck_constants (fn_chunk f)) = (bs, cs)" and "arr_count cs \<le> 256"
    and "length bs \<le> 65535" and "tok_type t \<noteq> TOKEN_EQUAL"
  shows "before ls e t bs cs f p"
  using assms upcoming_append [of p "tokens e @ [t]" ts] by (simp add: before_def)

lemma taken_Paren:
  assumes IH: "taken ls e"
  shows "taken ls (Paren h e u)"
  unfolding taken_def
proof (intro allI impI)
  fix n t bs cs f p
  assume b: "before ls (Paren h e u) t bs cs f p"
  let ?q = "st (Suc 0) f 0 p"
  have cur: "cur_fn p = Some f" and ty: "tok_type h = TOKEN_LPAREN" "tok_type u = TOKEN_RPAREN"
    and up: "upcoming ?q (tokens e @ u # [t])"
    using b by (simp_all add: before_def)
  have be: "before ls e u bs cs f ?q"
    by (rule before_part [OF _ _ _ up]) (use b ty cur_st in \<open>auto simp: before_def\<close>)
  have "expr_ok (ps_source p) ls e" using b by (simp add: before_def)
  then have "parsePrecedence parse PREC_ASSIGNMENT ?q = Some (Inr ((), behind e bs cs f ?q))"
    by (rule taken_operand [OF IH be level_pos]) (simp add: stops_def prec_of_def ty infix_rules)
  moreover have "consume TOKEN_RPAREN m (behind e bs cs f ?q) = Some (Inr ((), adv (behind e bs cs f ?q)))" for m
    using ps_advance_adv [OF upcoming_behind [OF up]] before_behind(2) [OF be] ty
    by (simp add: consume_def check_def)
  ultimately have "grouping parse ?q =
      Some (Inr ((), st (length (tokens (Paren h e u))) (emit_all bs (with_constants cs f)) (operands e) p))"
    by (simp add: grouping_def expression_def run_parse seqp_eq behind_st)
  then show "parsePrecedence parse n p = after_prefix n (behind (Paren h e u) bs cs f p)"
    by (intro taken_prefix [OF b, where h = h and ts = "tokens e @ [u]" and r = P_grouping])
      (simp_all add: ty prefix_rules run_rule_def)
qed

lemma taken_Prefix:
  assumes IH: "taken ls e"
  shows "taken ls (Prefix h e)"
  unfolding taken_def
proof (intro allI impI)
  fix n t bs cs f p
  assume b: "before ls (Prefix h e) t bs cs f p" and st: "stops (reach (Prefix h e)) (last (tokens (Prefix h e))) t"
  let ?q = "st (Suc 0) f 0 p"
  from b obtain xs where c: "comp (ps_source p) ls e (ck_constants (fn_chunk f)) = (xs, cs)"
    "bs = xs @ at_tok (last (tokens e)) [opcode_byte (unary_code (tok_type h))]"
    by (auto simp: before_def Let_def split: prod.splits)
  have cur: "cur_fn p = Some f" and ty: "tok_type h \<in> {TOKEN_MINUS, TOKEN_BANG, TOKEN_NOT}"
    and up: "upcoming ?q (tokens e @ t # [])" and lv: "PREC_UNARY \<le> level e" and h: "ps_current p = h"
    using b by (simp_all add: before_def)
  have be: "before ls e t xs cs f ?q"
    by (rule before_part [OF _ _ _ up]) (use b c cur_st in \<open>auto simp: before_def\<close>)
  have "parsePrecedence parse PREC_UNARY ?q = Some (Inr ((), behind e xs cs f ?q))"
    using st by (intro taken_operand [OF IH be lv]) simp
  moreover have "unary_ops (tok_type h) (behind e xs cs f ?q) =
      Some (Inr ((), upd_fn (emit_all bs (with_constants cs f)) (behind e xs cs f ?q)))"
    using emitOp_eq [OF before_behind(3) [OF be]] ty before_behind(1) [OF be] c(2) by (auto simp: unary_code_def)
  ultimately have "unary parse ?q =
      Some (Inr ((), st (length (tokens (Prefix h e))) (emit_all bs (with_constants cs f)) (operands e) p))"
    by (simp add: unary_def bindp_gets h run_parse seqp_eq behind_st st_upd)
  then show "parsePrecedence parse n p = after_prefix n (behind (Prefix h e) bs cs f p)"
    by (intro taken_prefix [OF b, where h = h and ts = "tokens e" and r = P_unary])
      (simp_all add: prefix_rules(5) [OF ty] run_rule_def)
qed

text \<open>The left operand of an operator, and the state in which the operator's rule runs.\<close>

lemma taken_left:
  assumes IH: "taken ls l" and b: "before ls l h xs cs1 f p" and up: "upcoming p (tokens l @ h # t # ts)"
    and "joins l h" and n: "n \<le> prec_of h" and "r_infix (getRule (tok_type h)) = Some r"
    and "tok_type h \<noteq> TOKEN_LPAREN"
    and "run_rule parse r (n \<le> PREC_ASSIGNMENT)
      (st (Suc (length (tokens l))) (emit_all xs (with_constants cs1 f)) (operands l) p) = Some (Inr ((), p'))"
  shows "parsePrecedence parse n p = after_prefix n p'"
proof -
  have "n \<le> level l" using assms(4) n reach_level [of n l] by (simp add: joins_def)
  moreover have "stops (reach l) (last (tokens l)) h" using assms(4) by (simp add: joins_def stops_def)
  ultimately have "parsePrecedence parse n p = after_prefix n (behind l xs cs1 f p)"
    using IH b unfolding taken_def by blast
  also have "\<dots> = after_prefix n p'"
  proof (rule infix_step [OF upcoming_behind [OF up] n])
    show "tok_line h \<le> tok_line (ps_previous (behind l xs cs1 f p))"
      using assms(4) before_behind(1) [OF b] by (simp add: joins_def)
    show "run_rule parse r (n \<le> PREC_ASSIGNMENT) (adv (behind l xs cs1 f p)) = Some (Inr ((), p'))"
      using assms(8) by (simp add: behind_def)
  qed (use assms in simp_all)
  finally show ?thesis .
qed

lemma taken_Infix:
  assumes l: "taken ls l" and r: "taken ls r"
  shows "taken ls (Infix l h r)"
  unfolding taken_def
proof (intro allI impI)
  fix n t bs cs f p
  assume b: "before ls (Infix l h r) t bs cs f p" and n: "n \<le> level (Infix l h r)"
    and st: "stops (reach (Infix l h r)) (last (tokens (Infix l h r))) t"
  from b obtain xs ys cs1 where c: "comp (ps_source p) ls l (ck_constants (fn_chunk f)) = (xs, cs1)"
    "comp (ps_source p) ls r cs1 = (ys, cs)"
    "bs = xs @ ys @ at_tok (last (tokens r)) (map opcode_byte (binary_code (tok_type h)))"
    by (auto simp: before_def Let_def split: prod.splits)
  obtain u us where us: "tokens r @ [t] = u # us" by (cases "tokens r @ [t]") auto
  have up: "upcoming p (tokens l @ h # u # us)" "upcoming p (tokens l @ h # tokens r @ [t])"
    and ty: "binary_ty (tok_type h)" and cur: "cur_fn p = Some f" and ok: "arr_ok (ck_constants (fn_chunk f))"
    using b us by (simp_all add: before_def chunk_ok_def)
  note rule = binary_rule [OF ty]
  have cs1: "arr_ok cs1" "arr_count cs1 \<le> arr_count cs"
    using comp_grows [OF c(1) ok] comp_count [OF c(2)] by simp_all
  have bl: "before ls l h xs cs1 f p"
    by (rule before_part [OF _ _ _ up(1)]) (use b c cs1 rule in \<open>auto simp: before_def\<close>)
  let ?f1 = "emit_all xs (with_constants cs1 f)"
  let ?q = "st (Suc (length (tokens l))) ?f1 (operands l) p"
  have br: "before ls r t ys cs ?f1 ?q"
  proof (rule before_part)
    show "upcoming ?q (tokens r @ t # [])"
      using up(2) upcoming_append [of p "tokens l @ [h]" "tokens r @ [t]"] by simp
  qed (use b c cs1 before_behind(4) [OF bl] cur_st [OF cur] in \<open>auto simp: before_def\<close>)
  let ?q2 = "behind r ys cs ?f1 ?q"
  have h: "ps_current ((adv ^^ length (tokens l)) p) = h" using up(1) by (simp add: upcoming_append)
  have "parsePrecedence parse (prec_of h + 1) ?q = Some (Inr ((), ?q2))"
    using b st by (intro taken_operand [OF r br]) (simp_all add: before_def)
  moreover have "binary_ops (tok_type h) ?q2 = Some (Inr ((), behind (Infix l h r) bs cs f p))"
    using binary_emits [OF ty before_behind(3) [OF br]] before_behind(1) [OF br] c(3)
    by (simp add: behind_st st_upd behind_def)
  ultimately have "binary parse ?q = Some (Inr ((), behind (Infix l h r) bs cs f p))"
    by (simp add: binary_def bindp_gets h run_parse seqp_eq prec_of_def)
  then show "parsePrecedence parse n p = after_prefix n (behind (Infix l h r) bs cs f p)"
    using b n rule by (intro taken_left [where r = P_binary, OF l bl up(1)]) (simp_all add: before_def run_rule_def)
qed

subsection \<open>And, Or\<close>

text \<open>Patching a jump that was emitted, when the code behind it ends.\<close>

lemma patch_emitted:
  assumes "chunk_ok (fn_chunk f)" and "cur_fn p = Some (emit_all (xs @ (h, t) # (l, t') # ys) f)"
    and "n = length (ck_code (fn_chunk f)) + length xs" and "length ys \<le> 65535"
  shows "patchJump n p = Some (Inr ((),
    upd_fn (emit_all (xs @ (jump_hi (length ys), t) # (jump_lo (length ys), t') # ys) f) p))"
proof -
  let ?xs = "xs @ (h, t) # (l, t') # ys"
  let ?ys = "xs @ (jump_hi (length ys), t) # (jump_lo (length ys), t') # ys"
  let ?F = "emit_all ?xs f"
  have "chunk_ok (fn_chunk ?F)" using assms(1) by (rule emit_all_code(3))
  then have j: "length ys = ck_count (fn_chunk ?F) - n - 2" using assms(3) by (simp add: chunk_ok_count)
  have "(ck_code (fn_chunk ?F))[n := jump_hi (length ys), n + 1 := jump_lo (length ys)] =
      ck_code (fn_chunk f) @ map fst ?ys"
    unfolding emit_all_code assms(3) by (simp add: list_update_append)
  moreover have "with_code (ck_code (fn_chunk f) @ map fst ?ys) ?F = emit_all ?ys f"
    by (rule emit_all_recode) simp
  ultimately show ?thesis using patchJump_eq [OF assms(2) j assms(4)] by simp
qed

lemma taken_Conj:
  assumes l: "taken ls l" and r: "taken ls r"
  shows "taken ls (Conj l h r)"
  unfolding taken_def
proof (intro allI impI)
  fix n t bs cs f p
  assume b: "before ls (Conj l h r) t bs cs f p" and n: "n \<le> level (Conj l h r)"
    and st: "stops (reach (Conj l h r)) (last (tokens (Conj l h r))) t"
  from b obtain xs ys cs1 where c: "comp (ps_source p) ls l (ck_constants (fn_chunk f)) = (xs, cs1)"
    "comp (ps_source p) ls r cs1 = (ys, cs)"
    "bs = xs @ at_tok h (jump_over OP_JMPF (1 + length ys) @ [opcode_byte OP_POP]) @ ys"
    by (auto simp: before_def Let_def split: prod.splits)
  obtain u us where us: "tokens r @ [t] = u # us" by (cases "tokens r @ [t]") auto
  have up: "upcoming p (tokens l @ h # u # us)" "upcoming p (tokens l @ h # tokens r @ [t])"
    and ty: "tok_type h = TOKEN_AND" and cur: "cur_fn p = Some f" and ok: "arr_ok (ck_constants (fn_chunk f))"
    using b us by (simp_all add: before_def chunk_ok_def)
  have cs1: "arr_ok cs1" "arr_count cs1 \<le> arr_count cs"
    using comp_grows [OF c(1) ok] comp_count [OF c(2)] by simp_all
  have bl: "before ls l h xs cs1 f p"
    by (rule before_part [OF _ _ _ up(1)]) (use b c cs1 ty in \<open>auto simp: before_def\<close>)
  let ?f1 = "emit_all xs (with_constants cs1 f)"
  let ?f2 = "emits h [opcode_byte OP_JMPF, 0, 0, opcode_byte OP_POP] ?f1"
  let ?q = "\<lambda>f. st (Suc (length (tokens l))) f (operands l) p"
  have cq: "cur_fn (?q g) = Some g" for g using cur by (rule cur_st)
  have ok1: "chunk_ok (fn_chunk ?f1)" by (rule before_behind(4) [OF bl])
  have h: "ps_current ((adv ^^ length (tokens l)) p) = h" using up(1) by (simp add: upcoming_append)
  have br: "before ls r t ys cs ?f2 (?q ?f2)"
  proof (rule before_part)
    show "upcoming (?q ?f2) (tokens r @ t # [])"
      using up(2) upcoming_append [of p "tokens l @ [h]" "tokens r @ [t]"] by simp
  qed (use b c cs1 ok1 cq in \<open>auto simp: before_def simp del: emits_emits\<close>)
  let ?q3 = "behind r ys cs ?f2 (?q ?f2)" and ?f0 = "with_constants cs f"
  have jump: "emitJump OP_JMPF (?q ?f1) = Some (Inr (length (ck_code (fn_chunk ?f1)) + 1, ?q (emits h [opcode_byte OP_JMPF, 0, 0] ?f1)))"
    using emitJump_eq [OF cq, of OP_JMPF ?f1] h chunk_ok_count [OF ok1] by (simp add: st_upd)
  have pop: "emitOp OP_POP (?q (emits h [opcode_byte OP_JMPF, 0, 0] ?f1)) = Some (Inr ((), ?q ?f2))"
    using emitOp_eq [OF cq, of OP_POP "emits h [opcode_byte OP_JMPF, 0, 0] ?f1"] h by (simp add: st_upd)
  have right: "parsePrecedence parse PREC_AND (?q ?f2) = Some (Inr ((), ?q3))"
    using b st by (intro taken_operand [OF r br]) (simp_all add: before_def)
  have patch: "patchJump (length (ck_code (fn_chunk ?f1)) + 1) ?q3 = Some (Inr ((), behind (Conj l h r) bs cs f p))"
  proof -
    let ?xs = "xs @ [(opcode_byte OP_JMPF, h)]" and ?ys = "(opcode_byte OP_POP, h) # ys"
    have "cur_fn ?q3 = Some (emit_all (?xs @ (0, h) # (0, h) # ?ys) ?f0)"
      using before_behind(3) [OF br] by simp
    moreover have "chunk_ok (fn_chunk ?f0)" using b comp_grows [OF c(2)] cs1(1) by (simp add: before_def)
    ultimately have "patchJump (length (ck_code (fn_chunk ?f0)) + length ?xs) ?q3 = Some (Inr ((), upd_fn
        (emit_all (?xs @ (jump_hi (length ?ys), h) # (jump_lo (length ?ys), h) # ?ys) ?f0) ?q3))"
      using b c(3) by (intro patch_emitted) (auto simp: before_def at_tok_def jump_over_def)
    moreover have "bs = ?xs @ (jump_hi (length ?ys), h) # (jump_lo (length ?ys), h) # ?ys"
      using c(3) by (simp add: at_tok_def jump_over_def)
    ultimately show ?thesis by (simp add: behind_st st_upd behind_def)
  qed
  have "ps_and parse (?q ?f1) = Some (Inr ((), behind (Conj l h r) bs cs f p))"
    using jump pop right patch by (simp add: ps_and_def bindp_eq seqp_eq run_parse)
  then show "parsePrecedence parse n p = after_prefix n (behind (Conj l h r) bs cs f p)"
    using b n ty by (intro taken_left [where r = P_and, OF l bl up(1)]) (simp_all add: before_def run_rule_def infix_rules prec_of_def)
qed

lemma taken_Disj:
  assumes l: "taken ls l" and r: "taken ls r"
  shows "taken ls (Disj l h r)"
  unfolding taken_def
proof (intro allI impI)
  fix n t bs cs f p
  assume b: "before ls (Disj l h r) t bs cs f p" and n: "n \<le> level (Disj l h r)"
    and st: "stops (reach (Disj l h r)) (last (tokens (Disj l h r))) t"
  from b obtain xs ys cs1 where c: "comp (ps_source p) ls l (ck_constants (fn_chunk f)) = (xs, cs1)"
    "comp (ps_source p) ls r cs1 = (ys, cs)"
    "bs = xs @ at_tok h (jump_over OP_JMPF 3 @ jump_over OP_JMP (1 + length ys) @ [opcode_byte OP_POP]) @ ys"
    by (auto simp: before_def Let_def split: prod.splits)
  obtain u us where us: "tokens r @ [t] = u # us" by (cases "tokens r @ [t]") auto
  have up: "upcoming p (tokens l @ h # u # us)" "upcoming p (tokens l @ h # tokens r @ [t])"
    and ty: "tok_type h = TOKEN_OR" and cur: "cur_fn p = Some f" and ok: "arr_ok (ck_constants (fn_chunk f))"
    using b us by (simp_all add: before_def chunk_ok_def)
  have cs1: "arr_ok cs1" "arr_count cs1 \<le> arr_count cs"
    using comp_grows [OF c(1) ok] comp_count [OF c(2)] by simp_all
  have bl: "before ls l h xs cs1 f p"
    by (rule before_part [OF _ _ _ up(1)]) (use b c cs1 ty in \<open>auto simp: before_def\<close>)
  let ?f1 = "emit_all xs (with_constants cs1 f)"
  let ?jmpf = "[opcode_byte OP_JMPF, jump_hi 3, jump_lo 3]" and ?jmp = "[opcode_byte OP_JMP, 0, 0]"
  let ?f2 = "emits h (?jmpf @ ?jmp @ [opcode_byte OP_POP]) ?f1"
  let ?q = "\<lambda>f. st (Suc (length (tokens l))) f (operands l) p"
  let ?n1 = "length (ck_code (fn_chunk ?f1)) + 1"
  have cq: "cur_fn (?q g) = Some g" for g using cur by (rule cur_st)
  have ok1: "chunk_ok (fn_chunk ?f1)" by (rule before_behind(4) [OF bl])
  have h: "ps_current ((adv ^^ length (tokens l)) p) = h" using up(1) by (simp add: upcoming_append)
  have br: "before ls r t ys cs ?f2 (?q ?f2)"
  proof (rule before_part)
    show "upcoming (?q ?f2) (tokens r @ t # [])"
      using up(2) upcoming_append [of p "tokens l @ [h]" "tokens r @ [t]"] by simp
  qed (use b c cs1 ok1 cq in \<open>auto simp: before_def simp del: emits_emits\<close>)
  let ?q3 = "behind r ys cs ?f2 (?q ?f2)" and ?f0 = "with_constants cs f"
  have jump1: "emitJump OP_JMPF (?q ?f1) = Some (Inr (?n1, ?q (emits h [opcode_byte OP_JMPF, 0, 0] ?f1)))"
    using emitJump_eq [OF cq, of OP_JMPF ?f1] h chunk_ok_count [OF ok1] by (simp add: st_upd)
  have ok2: "chunk_ok (fn_chunk (emits h [opcode_byte OP_JMPF, 0, 0] ?f1))" using ok1 by (rule emits_simps(3))
  have jump2: "emitJump OP_JMP (?q (emits h [opcode_byte OP_JMPF, 0, 0] ?f1)) =
      Some (Inr (?n1 + 3, ?q (emits h ([opcode_byte OP_JMPF, 0, 0] @ ?jmp) ?f1)))"
    using emitJump_eq [OF cq, of OP_JMP "emits h [opcode_byte OP_JMPF, 0, 0] ?f1"] h chunk_ok_count [OF ok2]
    by (simp add: st_upd)
  have patch1: "patchJump ?n1 (?q (emits h ([opcode_byte OP_JMPF, 0, 0] @ ?jmp) ?f1)) =
      Some (Inr ((), ?q (emits h (?jmpf @ ?jmp) ?f1)))"
    using patch_emitted [of ?f1 "?q (emits h ([opcode_byte OP_JMPF, 0, 0] @ ?jmp) ?f1)" "[(opcode_byte OP_JMPF, h)]"
      0 h 0 h "at_tok h ?jmp" ?n1] cq ok1 by (simp add: st_upd at_tok_def numeral_3_eq_3)
  have pop: "emitOp OP_POP (?q (emits h (?jmpf @ ?jmp) ?f1)) = Some (Inr ((), ?q ?f2))"
    using emitOp_eq [OF cq, of OP_POP "emits h (?jmpf @ ?jmp) ?f1"] h by (simp add: st_upd)
  have right: "parsePrecedence parse PREC_OR (?q ?f2) = Some (Inr ((), ?q3))"
    using b st by (intro taken_operand [OF r br]) (simp_all add: before_def)
  have patch2: "patchJump (?n1 + 3) ?q3 = Some (Inr ((), behind (Disj l h r) bs cs f p))"
  proof -
    let ?xs = "xs @ at_tok h (?jmpf @ [opcode_byte OP_JMP])" and ?ys = "(opcode_byte OP_POP, h) # ys"
    have "cur_fn ?q3 = Some (emit_all (?xs @ (0, h) # (0, h) # ?ys) ?f0)"
      using before_behind(3) [OF br] by simp
    moreover have "chunk_ok (fn_chunk ?f0)" using b comp_grows [OF c(2)] cs1(1) by (simp add: before_def)
    ultimately have "patchJump (length (ck_code (fn_chunk ?f0)) + length ?xs) ?q3 = Some (Inr ((), upd_fn
        (emit_all (?xs @ (jump_hi (length ?ys), h) # (jump_lo (length ?ys), h) # ?ys) ?f0) ?q3))"
      using b c(3) by (intro patch_emitted) (auto simp: before_def at_tok_def jump_over_def)
    moreover have "length (ck_code (fn_chunk ?f0)) + length ?xs = ?n1 + 3" by (simp add: at_tok_def)
    moreover have "bs = ?xs @ (jump_hi (length ?ys), h) # (jump_lo (length ?ys), h) # ?ys"
      using c(3) by (simp add: at_tok_def jump_over_def)
    ultimately show ?thesis by (simp add: behind_st st_upd behind_def ac_simps)
  qed
  have "ps_or parse (?q ?f1) = Some (Inr ((), behind (Disj l h r) bs cs f p))"
    using jump1 jump2 patch1 pop right patch2 by (simp add: ps_or_def bindp_eq seqp_eq run_parse)
  then show "parsePrecedence parse n p = after_prefix n (behind (Disj l h r) bs cs f p)"
    using b n ty by (intro taken_left [where r = P_or, OF l bl up(1)])
      (simp_all add: before_def run_rule_def infix_rules prec_of_def)
qed

lemma taken: "taken ls e"
  by (induction e) (simp_all add: taken_Number taken_Literal taken_Name taken_Paren taken_Prefix taken_Infix
      taken_Conj taken_Disj)

end
