(* ===== verification/Expr_Running.thy ===== *)
theory Expr_Running
  imports Expressions Running
begin

text \<open>
  The machine on the code of an expression: it pushes the value of the expression and moves past the
  code, by induction on the tree.
\<close>

subsection \<open>Numbers in the constants\<close>

text \<open>
  A literal shares the place of an equal constant. Equal here means the same double: literals are no
  negative numbers, and booleans, which could equal a number, are never constants.
\<close>

definition plain :: "val_t \<Rightarrow> bool" where
  "plain v \<longleftrightarrow> (case v of VAL_NUM x \<Rightarrow> \<not> d_sign x | VAL_BOOL b \<Rightarrow> False | _ \<Rightarrow> True)"

lemma round_mag_inf: "round_mag m e \<le> inf_mag"
  by (simp add: round_mag_def Let_def)

lemma mk_double_positive: "m \<le> inf_mag \<Longrightarrow> \<not> d_sign (mk_double False m)"
  by (simp add: mk_double_def d_sign_def inf_mag_def unsigned_of_nat take_bit_nat_eq_self)

lemma strtod_positive: "\<not> d_sign (strtod s)"
  by (auto simp: strtod_def double_of_decimal_def div_mag_def Let_def split: prod.split
      intro!: mk_double_positive round_mag_inf)

lemma d_eq_positive: "d_eq x y \<Longrightarrow> \<not> d_sign x \<Longrightarrow> \<not> d_sign y \<Longrightarrow> x = y"
  by (auto simp: d_eq_def d_key_def d_mag_def d_sign_def word_uint_eq_iff)

lemma plain_equal: "plain v \<Longrightarrow> val_equal v (VAL_NUM x) \<Longrightarrow> \<not> d_sign x \<Longrightarrow> v = VAL_NUM x"
  by (cases v) (auto simp: plain_def intro: d_eq_positive)

lemma plain_add:
  assumes "arr_add cs (VAL_NUM x) False = (cs', k)" and "arr_ok cs" and "\<forall>v \<in> set (arr_values cs). plain v"
    and "\<not> d_sign x"
  shows "\<forall>v \<in> set (arr_values cs'). plain v" and "arr_values cs' ! k = VAL_NUM x"
proof -
  note a = arr_add_spec [OF assms(2,1)]
  then show p: "\<forall>v \<in> set (arr_values cs'). plain v" using assms(3,4) by (auto simp: plain_def)
  have "plain (arr_values cs' ! k)" using a p by simp
  with a plain_equal [OF _ _ assms(4)] show "arr_values cs' ! k = VAL_NUM x" by blast
qed

lemma comp_plain:
  assumes "comp s ls e cs = (bs, cs')" and "arr_ok cs" and "\<forall>v \<in> set (arr_values cs). plain v"
  shows "\<forall>v \<in> set (arr_values cs'). plain v"
  using assms
proof (induction e arbitrary: cs bs cs')
  case (Number t)
  then show ?case using plain_add(1) [OF _ Number(2,3) strtod_positive] by (auto simp: Let_def split: prod.splits)
qed (fastforce simp: Let_def split: prod.splits dest: comp_grows)+

subsection \<open>Steps\<close>

definition at_code :: "val_t list \<Rightarrow> u8 list \<Rightarrow> vm_t \<Rightarrow> bool" where
  "at_code K bs vm \<longleftrightarrow> (\<exists>f fs fn. frames vm = f # fs \<and> fun_at (heap vm) (fr_function f) = Some fn \<and>
     chunk_ok (fn_chunk fn) \<and> consts_of fn = K \<and> prefix bs (drop (fr_ip f) (ck_code (fn_chunk fn))))"

text \<open>Only the stack has changed, and the current instruction pointer, by \<open>n\<close>.\<close>

definition steps :: "nat \<Rightarrow> vm_t \<Rightarrow> vm_t \<Rightarrow> bool" where
  "steps n vm vm' \<longleftrightarrow> same_store vm vm' \<and> stdout vm' = stdout vm \<and> stderr vm' = stderr vm \<and>
     (\<exists>f fs. frames vm = f # fs \<and> frames vm' = f\<lparr>fr_ip := fr_ip f + n\<rparr> # fs)"

lemma steps_trans: "steps n a b \<Longrightarrow> steps m b c \<Longrightarrow> steps (n + m) a c"
  by (auto simp: steps_def same_store_def)

lemma steps_stack: "steps n a b \<Longrightarrow> only_stack b c \<Longrightarrow> steps n a c"
  by (auto simp: steps_def only_stack_def same_store_def)

lemma at_code_steps: "at_code K (xs @ ys) vm \<Longrightarrow> steps (length xs) vm vm' \<Longrightarrow> at_code K ys vm'"
  by (auto simp: at_code_def steps_def same_store_def prefix_def add.commute simp flip: drop_drop)

lemma in_bounds_steps: "in_bounds vm \<Longrightarrow> steps n vm vm' \<Longrightarrow> vm_top vm' \<le> STACK_MAX \<Longrightarrow> in_bounds vm'"
  by (auto simp: in_bounds_def steps_def)

text \<open>Reading one byte.\<close>

definition next_byte :: "vm_t \<Rightarrow> vm_t" where
  "next_byte vm = (case frames vm of [] \<Rightarrow> vm | f # fs \<Rightarrow> vm\<lparr>frames := f\<lparr>fr_ip := fr_ip f + 1\<rparr> # fs\<rparr>)"

lemma next_byte_simps [simp]:
  "stack (next_byte vm) = stack vm" "vm_top (next_byte vm) = vm_top vm" "stack_list (next_byte vm) = stack_list vm"
  by (auto simp: next_byte_def stack_list_def split: list.split)

lemma at_READ_BYTE:
  assumes "at_code K (b # bs) vm"
  shows "READ_BYTE vm = Inr (b, next_byte vm)" and "at_code K bs (next_byte vm)"
    and "steps 1 vm (next_byte vm)"
proof -
  from assms obtain f fs fn where f: "frames vm = f # fs" "fun_at (heap vm) (fr_function f) = Some fn"
    "chunk_ok (fn_chunk fn)" "prefix (b # bs) (drop (fr_ip f) (ck_code (fn_chunk fn)))"
    by (auto simp: at_code_def)
  have "fr_ip f < length (ck_code (fn_chunk fn))" using f(4) by (rule contrapos_pp) simp
  moreover from this have "ck_code (fn_chunk fn) ! fr_ip f = b"
    using f(4) by (auto simp: Cons_nth_drop_Suc [symmetric])
  ultimately show "READ_BYTE vm = Inr (b, next_byte vm)"
    using f(1-3) by (auto simp: READ_BYTE_Inr next_byte_def chunk_ok_def)
  show s: "steps 1 vm (next_byte vm)" using f(1) by (simp add: steps_def next_byte_def same_store_def)
  have "steps (length [b]) vm (next_byte vm)" using s by simp
  then show "at_code K bs (next_byte vm)" using assms at_code_steps [of K "[b]" bs] by simp
qed

text \<open>An instruction that has been read, and that changes the stack alone.\<close>

definition does :: "natives \<Rightarrow> nat \<Rightarrow> vm_t \<Rightarrow> val_t list \<Rightarrow> bool" where
  "does native n vm vs \<longleftrightarrow> (\<exists>vm'. vm_runs native vm vm' \<and> steps n vm vm' \<and> stack_list vm' = vs)"

lemma vm_runs_trans: "vm_runs native a b \<Longrightarrow> vm_runs native b c \<Longrightarrow> vm_runs native a c"
  by (rotate_tac, induction rule: vm_runs.induct) (auto intro: vm_runs.intros)

lemma does_trans:
  assumes "does native n vm vs" and "at_code K (xs @ ys) vm" and "n = length xs"
    and "\<And>vm'. steps n vm vm' \<Longrightarrow> stack_list vm' = vs \<Longrightarrow> at_code K ys vm' \<Longrightarrow> does native m vm' ws"
  shows "does native (n + m) vm ws"
proof -
  obtain vm1 where 1: "vm_runs native vm vm1" "steps n vm vm1" "stack_list vm1 = vs"
    using assms(1) by (auto simp: does_def)
  have "at_code K ys vm1" using assms(2,3) 1(2) at_code_steps by blast
  from assms(4) [OF 1(2,3) this] obtain vm2 where "vm_runs native vm1 vm2" "steps m vm1 vm2" "stack_list vm2 = ws"
    by (auto simp: does_def)
  with 1(1,2) show ?thesis unfolding does_def by (blast intro: vm_runs_trans steps_trans)
qed

lemma does_0: "at_code K bs vm \<Longrightarrow> stack_list vm = vs \<Longrightarrow> does native 0 vm vs"
  unfolding does_def by (intro exI [of _ vm]) (auto simp: steps_def at_code_def intro: vm_runs_refl)

lemma does_op:
  assumes "at_code K (opcode_byte op # bs) vm" and "exec_op native op (next_byte vm) = Inr (NEXT, vm')"
    and "steps n vm vm'" and "stack_list vm' = vs"
  shows "does native n vm vs"
proof -
  have "vm_step native vm = Inr (NEXT, vm')" using at_READ_BYTE(1) [OF assms(1)] assms(2) by (simp add: vm_step_def)
  with assms(3,4) show ?thesis unfolding does_def by (blast intro: vm_runs.intros)
qed

lemma does_bare:
  assumes "at_code K (opcode_byte op # bs) vm"
    and "\<exists>vm'. exec_op native op (next_byte vm) = Inr (NEXT, vm') \<and> stack_list vm' = vs \<and> only_stack (next_byte vm) vm'"
  shows "does native 1 vm vs"
proof -
  from assms(2) obtain vm' where vm': "exec_op native op (next_byte vm) = Inr (NEXT, vm')" "stack_list vm' = vs"
    "only_stack (next_byte vm) vm'" by blast
  from does_op [OF assms(1) vm'(1) steps_stack [OF at_READ_BYTE(3) [OF assms(1)] vm'(3)] vm'(2)] show ?thesis .
qed

subsection \<open>The instructions of expressions\<close>

lemma cur_chunk_at:
  assumes "at_code K bs vm"
  obtains c where "cur_chunk vm = Inr c" and "arr_values (ck_constants c) = K" and "arr_count (ck_constants c) = length K"
proof -
  from assms obtain f fs fn where "frames vm = f # fs" "fun_at (heap vm) (fr_function f) = Some fn"
    "chunk_ok (fn_chunk fn)" "consts_of fn = K" by (auto simp: at_code_def)
  then show ?thesis
    by (intro that [of "fn_chunk fn"])
      (simp_all add: cur_chunk_def cur_frame_def consts_of_def chunk_ok_def arr_ok_def flip: fun_at_get_fun)
qed

lemma does_CONST:
  assumes c: "at_code K (opcode_byte OP_CONST # k # bs) vm" and "unat k < length K" and "vm_top vm < STACK_MAX"
  shows "does native 2 vm (K ! unat k # stack_list vm)"
proof -
  note 1 = at_READ_BYTE [OF c]
  note 2 = at_READ_BYTE [OF 1(2)]
  obtain ch where ch: "cur_chunk (next_byte (next_byte vm)) = Inr ch" "arr_values (ck_constants ch) = K"
    "arr_count (ck_constants ch) = length K"
    by (rule cur_chunk_at [OF 2(2)])
  have "READ_CONST (next_byte vm) = Inr (K ! unat k, next_byte (next_byte vm))"
    using 2(1) ch assms(2) by (simp add: READ_CONST_def)
  moreover obtain vm' where vm': "push_next (K ! unat k) (next_byte (next_byte vm)) = Inr (NEXT, vm')"
    "stack_list vm' = K ! unat k # stack_list vm" "only_stack (next_byte (next_byte vm)) vm'"
    using push_next_ok [of "next_byte (next_byte vm)" "K ! unat k"] assms(3) by auto
  ultimately have "exec_op native OP_CONST (next_byte vm) = Inr (NEXT, vm')" by (simp add: op_CONST_def)
  moreover have "steps 2 vm vm'" using steps_stack [OF steps_trans [OF 1(3) 2(3)] vm'(3)] by (simp add: numeral_2_eq_2)
  ultimately show ?thesis using vm'(2) by (rule does_op [OF c])
qed

text \<open>The slots of the current frame that lie on the stack.\<close>

definition env_at :: "nat \<Rightarrow> (nat \<Rightarrow> val_t) \<Rightarrow> vm_t \<Rightarrow> bool" where
  "env_at n env vm \<longleftrightarrow> (\<exists>f fs. frames vm = f # fs \<and> (\<forall>i. i < n \<or> i = 0 \<longrightarrow>
     fr_slots f + i < vm_top vm \<and> stack vm (fr_slots f + i) = env i))"

lemma stack_below:
  assumes "stack_list vm' = vs @ stack_list vm" and "j < vm_top vm"
  shows "stack vm' j = stack vm j"
proof -
  have t: "vm_top vm' = length vs + vm_top vm" using arg_cong [OF assms(1), of length] by simp
  have "vm_top vm' - 1 - j = length vs + (vm_top vm - 1 - j)" using assms(2) t by simp
  then have "stack_list vm' ! (vm_top vm' - 1 - j) = stack_list vm ! (vm_top vm - 1 - j)"
    using assms(1) by (metis nth_append_length_plus)
  then show ?thesis using assms(2) t by (simp add: nth_stack_list)
qed

lemma env_steps:
  assumes "env_at n env vm" and "steps m vm vm'" and "stack_list vm' = vs @ stack_list vm"
  shows "env_at n env vm'"
proof -
  have "vm_top vm' = length vs + vm_top vm" using arg_cong [OF assms(3), of length] by simp
  with assms stack_below [OF assms(3)] show ?thesis by (fastforce simp: env_at_def steps_def)
qed

lemma does_LD:
  assumes c: "at_code K (opcode_byte OP_LD # k # bs) vm" and env: "env_at n env vm" and k: "unat k < n \<or> k = 0"
    and "vm_top vm < STACK_MAX"
  shows "does native 2 vm (env (unat k) # stack_list vm)"
proof -
  note 1 = at_READ_BYTE [OF c]
  note 2 = at_READ_BYTE [OF 1(2)]
  let ?vm = "next_byte (next_byte vm)"
  have "unat k < n \<or> unat k = 0" using k by auto
  then obtain f fs where f: "frames vm = f # fs" "fr_slots f + unat k < vm_top vm" "stack vm (fr_slots f + unat k) = env (unat k)"
    using env unfolding env_at_def by blast
  have fr: "cur_frame ?vm = Inr (f\<lparr>fr_ip := fr_ip f + 2\<rparr>)" using f(1) by (simp add: cur_frame_def next_byte_def)
  obtain vm' where vm': "push_next (env (unat k)) ?vm = Inr (NEXT, vm')" "stack_list vm' = env (unat k) # stack_list vm"
    "only_stack ?vm vm'"
    using push_next_ok [of ?vm "env (unat k)"] assms(4) by auto
  then have "exec_op native OP_LD (next_byte vm) = Inr (NEXT, vm')"
    using 2(1) fr f(2,3) assms(4) by (simp add: op_LD_def Let_def)
  moreover have "steps 2 vm vm'" using steps_stack [OF steps_trans [OF 1(3) 2(3)] vm'(3)] by (simp add: numeral_2_eq_2)
  ultimately show ?thesis using vm'(2) by (rule does_op [OF c])
qed

lemma does_push:
  assumes "at_code K (opcode_byte op # bs) vm" and "vm_top vm < STACK_MAX" and "exec_op native op = push_next v"
  shows "does native 1 vm (v # stack_list vm)"
  by (rule does_bare [OF assms(1)]) (use push_next_ok [of "next_byte vm" v] assms(2,3) in auto)

text \<open>An operand on the stack is replaced by a result.\<close>

lemma pop_push_ok:
  assumes "stack_list vm = a # rest" and "in_bounds vm"
  shows "\<exists>vm'. bindr (POP vm) (\<lambda>(v, vm). push_next (g v) vm) = Inr (NEXT, vm') \<and> stack_list vm' = g a # rest \<and>
    only_stack vm vm'"
proof -
  obtain vm1 where 1: "POP vm = Inr (a, vm1)" "stack_list vm1 = rest" "only_stack vm vm1"
    using POP_ok [OF assms(1)] by blast
  have "vm_top vm1 < STACK_MAX"
    using stack_top [OF assms(1)] stack_top [OF 1(2)] assms(2) by (simp add: in_bounds_def)
  from push_next_ok [OF this, of "g a"] 1 show ?thesis by (auto intro: only_stack_trans)
qed

lemma in_bounds_next [simp]: "in_bounds (next_byte vm) = in_bounds vm"
  by (auto simp: next_byte_def in_bounds_def split: list.split)

lemma does_NOT:
  assumes "at_code K (opcode_byte OP_NOT # bs) vm" and "stack_list vm = a # rest" and "in_bounds vm"
  shows "does native 1 vm (VAL_BOOL (IS_FALSEY a) # rest)"
  by (rule does_bare [OF assms(1)])
    (use pop_push_ok [of "next_byte vm" a rest "\<lambda>v. VAL_BOOL (IS_FALSEY v)"] assms(2,3) in \<open>simp add: op_NOT_def\<close>)

lemma does_unary:
  assumes "at_code K (opcode_byte (unary_code ty) # bs) vm" and "stack_list vm = a # rest" and "in_bounds vm"
    and "apply_unary ty a = Some v"
  shows "does native 1 vm (v # rest)"
proof (cases "ty = TOKEN_MINUS")
  case True
  have op: "exec_op native OP_NEG (next_byte vm) = bindr (POP (next_byte vm)) (\<lambda>(w, vm). push_next v vm)"
    using True assms(2,4) POP_ok [of "next_byte vm" a rest]
    by (auto simp: op_NEG_def PEEK_ok apply_unary_def split: val_t.splits if_splits)
  show ?thesis
    by (rule does_bare [where op = OP_NEG])
      (use True assms pop_push_ok [of "next_byte vm" a rest "\<lambda>_. v"] op in \<open>simp_all add: unary_code_def\<close>)
next
  case False
  with assms does_NOT [of K bs vm a rest native] show ?thesis by (simp add: unary_code_def apply_unary_def)
qed

lemma does_EQ:
  assumes "at_code K (opcode_byte OP_EQ # bs) vm" and "stack_list vm = b # a # rest" and "in_bounds vm"
  shows "does native 1 vm (VAL_BOOL (val_equal a b) # rest)"
proof (rule does_bare [OF assms(1)])
  obtain vm1 where 1: "POP (next_byte vm) = Inr (b, vm1)" "stack_list vm1 = a # rest" "only_stack (next_byte vm) vm1"
    using POP_ok [of "next_byte vm"] assms(2) by auto
  have "in_bounds vm1" using assms(3) stack_top [OF 1(2)] stack_top [OF assms(2)] 1(3)
    by (auto simp: in_bounds_def only_stack_def next_byte_def split: list.splits)
  from pop_push_ok [OF 1(2) this, of "\<lambda>v. VAL_BOOL (val_equal v b)"] 1
  show "\<exists>vm'. exec_op native OP_EQ (next_byte vm) = Inr (NEXT, vm') \<and>
      stack_list vm' = VAL_BOOL (val_equal a b) # rest \<and> only_stack (next_byte vm) vm'"
    by (auto simp: op_EQ_def intro: only_stack_trans)
qed

lemma does_arith:
  assumes "at_code K (opcode_byte op # bs) vm" and "stack_list vm = b # a # rest" and "in_bounds vm"
    and "(exec_op native op, f) \<in> set arith_table" and "as_number a = Some x" and "as_number b = Some y"
  shows "does native 1 vm (f x y # rest)"
  by (rule does_bare [OF assms(1)])
    (use arith_spec [OF assms(4), of "next_byte vm" b a rest x y] assms(2,3,5,6) in auto)

subsection \<open>Jumps\<close>

lemma READ_SHORT_at:
  assumes "at_code K (jump_over op n @ bs) vm" and "n \<le> 65535"
  shows "\<exists>d vm'. READ_SHORT (next_byte vm) = Inr (d, vm') \<and> unat d = n \<and> steps 3 vm vm' \<and> stack_list vm' = stack_list vm"
proof -
  have c: "at_code K (opcode_byte op # jump_hi n # jump_lo n # bs) vm" using assms(1) by (simp add: jump_over_def)
  note 1 = at_READ_BYTE [OF c]
  note 2 = at_READ_BYTE [OF 1(2)]
  note 3 = at_READ_BYTE [OF 2(2)]
  have "steps 3 vm (next_byte (next_byte (next_byte vm)))"
    using steps_trans [OF steps_trans [OF 1(3) 2(3)] 3(3)] by (simp add: numeral_3_eq_3)
  with 2(1) 3(1) jump_bytes [OF assms(2)] show ?thesis by (simp add: READ_SHORT_def)
qed

lemma jump_at_ok:
  assumes "steps m vm vm1" and "unat d = n"
  shows "\<exists>vm'. jump d vm1 = Inr vm' \<and> steps (m + n) vm vm' \<and> stack_list vm' = stack_list vm1"
  using assms
  by (auto simp: steps_def jump_def get_ip_def cur_frame_def set_ip_def same_store_def stack_list_def)

lemma does_JMP:
  assumes c: "at_code K (jump_over OP_JMP n @ bs) vm" and n: "n \<le> 65535"
  shows "does native (3 + n) vm (stack_list vm)"
proof -
  from READ_SHORT_at [OF assms] obtain d vm1 where 1: "READ_SHORT (next_byte vm) = Inr (d, vm1)" "unat d = n"
    "steps 3 vm vm1" "stack_list vm1 = stack_list vm" by blast
  from jump_at_ok [OF 1(3,2)] obtain vm' where 2: "jump d vm1 = Inr vm'" "steps (3 + n) vm vm'"
    "stack_list vm' = stack_list vm1" by blast
  show ?thesis
    by (rule does_op [where op = OP_JMP and vm' = vm'])
      (use c 1 2 in \<open>simp_all add: jump_over_def op_JMP_def next_op_def\<close>)
qed

lemma does_JMPF:
  assumes c: "at_code K (jump_over OP_JMPF n @ bs) vm" and n: "n \<le> 65535" and s: "stack_list vm = v # rest"
  shows "does native (if IS_FALSEY v then 3 + n else 3) vm (v # rest)"
proof -
  from READ_SHORT_at [OF assms(1,2)] obtain d vm1 where 1: "READ_SHORT (next_byte vm) = Inr (d, vm1)" "unat d = n"
    "steps 3 vm vm1" "stack_list vm1 = stack_list vm" by blast
  from jump_at_ok [OF 1(3,2)] obtain vm' where 2: "jump d vm1 = Inr vm'" "steps (3 + n) vm vm'"
    "stack_list vm' = stack_list vm1" by blast
  have pk: "PEEK 0 vm1 = Inr v" using 1(4) s by (simp add: PEEK_ok)
  show ?thesis
    by (rule does_op [where op = OP_JMPF and vm' = "if IS_FALSEY v then vm' else vm1"])
      (use c 1 2 pk s in \<open>simp_all add: jump_over_def op_JMPF_def next_op_def\<close>)
qed

lemma does_POP:
  assumes "at_code K (opcode_byte OP_POP # bs) vm" and "stack_list vm = v # rest"
  shows "does native 1 vm rest"
  by (rule does_bare [OF assms(1)]) (use POP_ok [of "next_byte vm" v rest] assms(2) in \<open>auto simp: op_POP_def next_op_def\<close>)

subsection \<open>Operators\<close>

lemma does_negated:
  assumes "does native 1 vm (VAL_BOOL b # rest)" and "at_code K (x # opcode_byte OP_NOT # bs) vm" and "in_bounds vm"
    and "length rest < vm_top vm"
  shows "does native 2 vm (VAL_BOOL (\<not> b) # rest)"
proof -
  have "does native (1 + 1) vm (VAL_BOOL (\<not> b) # rest)"
  proof (rule does_trans [OF assms(1), of K "[x]"])
    fix vm' assume 1: "steps 1 vm vm'" "stack_list vm' = VAL_BOOL b # rest" "at_code K (opcode_byte OP_NOT # bs) vm'"
    have "vm_top vm' \<le> STACK_MAX" using stack_top [OF 1(2)] assms(3,4) by (simp add: in_bounds_def)
    with does_NOT [OF 1(3,2) in_bounds_steps [OF assms(3) 1(1)]] show "does native 1 vm' (VAL_BOOL (\<not> b) # rest)"
      by (simp add: IS_FALSEY_def)
  qed (use assms(2) in simp_all)
  then show ?thesis by (simp add: numeral_2_eq_2)
qed

lemma does_binary:
  assumes "binary_ty ty" and c: "at_code K (map opcode_byte (binary_code ty) @ bs) vm"
    and s: "stack_list vm = b # a # rest" and bnd: "in_bounds vm" and v: "apply_binary ty a b = Some v"
  shows "does native (length (binary_code ty)) vm (v # rest)"
proof -
  have top: "length rest < vm_top vm" using stack_top [OF s] by simp
  consider "ty = TOKEN_EQUAL_EQUAL" | "ty = TOKEN_BANG_EQUAL"
    | x y where "ty \<noteq> TOKEN_EQUAL_EQUAL" "ty \<noteq> TOKEN_BANG_EQUAL" "as_number a = Some x" "as_number b = Some y"
        "v = apply_numbers ty x y"
    using v by (auto simp: apply_binary_def split: if_splits option.splits)
  then show ?thesis
  proof cases
    case 1
    with does_EQ [OF _ s bnd] c v show ?thesis by (simp add: apply_binary_def)
  next
    case 2
    then have n: "v = VAL_BOOL (\<not> val_equal a b)" and cn: "at_code K (opcode_byte OP_EQ # opcode_byte OP_NOT # bs) vm"
      using c v by (simp_all add: apply_binary_def)
    from does_negated [OF does_EQ [OF cn s bnd] cn bnd top] n 2 show ?thesis by (simp add: numeral_2_eq_2)
  next
    case 3
    have arith: "does native 1 vm (f x y # rest)"
      if "at_code K (opcode_byte op # bs') vm" "(exec_op native op, f) \<in> set arith_table" for op f bs'
      by (rule does_arith [OF that(1) s bnd that(2) 3(3,4)])
    have neg: "does native 2 vm (VAL_BOOL (\<not> g x y) # rest)"
      if "at_code K (opcode_byte op # opcode_byte OP_NOT # bs) vm" "(exec_op native op, \<lambda>x y. VAL_BOOL (g x y)) \<in> set arith_table"
      for op g
      using does_negated [OF arith [OF that] that(1) bnd top] .
    from assms(1) 3 c show ?thesis
      using arith [of OP_LT bs "\<lambda>x y. VAL_BOOL (d_lt x y)"] arith [of OP_LE bs "\<lambda>x y. VAL_BOOL (d_le x y)"]
        arith [of OP_ADD bs "\<lambda>x y. VAL_NUM (d_add x y)"] arith [of OP_SUB bs "\<lambda>x y. VAL_NUM (d_sub x y)"]
        arith [of OP_MUL bs "\<lambda>x y. VAL_NUM (d_mul x y)"] arith [of OP_DIV bs "\<lambda>x y. VAL_NUM (d_div x y)"]
        neg [of OP_LT d_lt] neg [of OP_LE d_le]
      by (auto simp: binary_ty_def arith_table_def numeral_2_eq_2)
  qed
qed

subsection \<open>The induction\<close>

text \<open>The code of \<open>e\<close> is next, with room on the stack and the locals in their slots.\<close>

definition runnable :: "src_t \<Rightarrow> local_t list \<Rightarrow> (nat \<Rightarrow> val_t) \<Rightarrow> expr \<Rightarrow> val_t list \<Rightarrow> u8 list \<Rightarrow> arr_t \<Rightarrow>
    emission \<Rightarrow> arr_t \<Rightarrow> vm_t \<Rightarrow> bool" where
  "runnable s ls env e K rest cs bs cs' vm \<longleftrightarrow>
     comp s ls e cs = (bs, cs') \<and> arr_ok cs \<and> (\<forall>v \<in> set (arr_values cs). plain v) \<and> prefix (arr_values cs') K \<and>
     arr_count cs' \<le> 256 \<and> length bs \<le> 65535 \<and> length ls \<le> 256 \<and> expr_ok s ls e \<and>
     at_code K (map fst bs @ rest) vm \<and> in_bounds vm \<and> vm_top vm + stack_need e \<le> STACK_MAX \<and>
     env_at (length ls) env vm"

definition evaluates :: "natives \<Rightarrow> src_t \<Rightarrow> local_t list \<Rightarrow> (nat \<Rightarrow> val_t) \<Rightarrow> expr \<Rightarrow> bool" where
  "evaluates native s ls env e \<longleftrightarrow> (\<forall>K rest cs bs cs' vm v. runnable s ls env e K rest cs bs cs' vm \<longrightarrow>
     eval s ls env e = Some v \<longrightarrow> does native (length bs) vm (v # stack_list vm))"

lemma stack_need_pos: "0 < stack_need e"
  by (induction e) auto

lemma at_code_prefix: "at_code K (xs @ ys) vm \<Longrightarrow> at_code K xs vm"
  unfolding at_code_def by (blast intro: append_prefixD)

text \<open>The machine behind an operand.\<close>

lemma behind_operand:
  assumes "in_bounds vm" and "env_at n env vm" and "steps m vm vm'" and "stack_list vm' = v # stack_list vm"
    and "vm_top vm + 1 \<le> STACK_MAX"
  shows "in_bounds vm'" and "env_at n env vm'" and "vm_top vm' = vm_top vm + 1"
proof -
  show "vm_top vm' = vm_top vm + 1" using stack_top [OF assms(4)] by simp
  then show "in_bounds vm'" using in_bounds_steps [OF assms(1,3)] assms(5) by simp
  show "env_at n env vm'" using env_steps [OF assms(2,3), of "[v]"] assms(4) by simp
qed

lemma find_local_less: "find_local s t ls n = Some i \<Longrightarrow> i < n"
  by (induction n) (auto split: if_splits)

lemma evaluates_leaf:
  "evaluates native s ls env (Number t)" "evaluates native s ls env (Literal t)" "evaluates native s ls env (Name t)"
proof -
  show "evaluates native s ls env (Number t)"
    unfolding evaluates_def
  proof (intro allI impI)
    fix K rest cs bs cs' vm v
    assume r: "runnable s ls env (Number t) K rest cs bs cs' vm" and v: "eval s ls env (Number t) = Some v"
    then obtain k where k: "arr_add cs (VAL_NUM (strtod (number_text s t))) False = (cs', k)"
      "bs = at_tok t [opcode_byte OP_CONST, word_of_nat k]"
      by (auto simp: runnable_def Let_def split: prod.splits)
    have cs: "arr_ok cs" "\<forall>v \<in> set (arr_values cs). plain v" "arr_count cs' \<le> 256" "prefix (arr_values cs') K"
      and c: "at_code K (opcode_byte OP_CONST # word_of_nat k # rest) vm" and room: "vm_top vm < STACK_MAX"
      using r k(2) by (simp_all add: runnable_def at_tok_def)
    note a = arr_add_spec [OF cs(1) k(1)]
    then have "k < 256" using cs(3) by (auto simp: arr_ok_def)
    then have u: "unat (word_of_nat k :: u8) = k" by (simp add: unsigned_of_nat take_bit_nat_eq_self)
    have "K ! k = v" "k < length K"
      using plain_add(2) [OF k(1) cs(1,2) strtod_positive] a cs(4) v by (auto simp: prefix_def nth_append)
    with does_CONST [OF c _ room] u k(2) show "does native (length bs) vm (v # stack_list vm)"
      by (simp add: at_tok_def numeral_2_eq_2)
  qed
  show "evaluates native s ls env (Literal t)"
    unfolding evaluates_def
  proof (intro allI impI)
    fix K rest cs bs cs' vm v
    assume r: "runnable s ls env (Literal t) K rest cs bs cs' vm" and v: "eval s ls env (Literal t) = Some v"
    have ty: "tok_type t \<in> {TOKEN_TRUE, TOKEN_FALSE, TOKEN_NULL, TOKEN_FUNC}" and bs: "bs = at_tok t (literal_code (tok_type t))"
      and c: "at_code K (literal_code (tok_type t) @ rest) vm" and room: "vm_top vm < STACK_MAX"
      and env: "env_at (length ls) env vm"
      using r by (auto simp: runnable_def at_tok_def comp_def)
    from ty c v bs show "does native (length bs) vm (v # stack_list vm)"
      using does_push [of K OP_TRUE rest vm native "VAL_BOOL True"] does_push [of K OP_FALSE rest vm native "VAL_BOOL False"]
        does_push [of K OP_NIL rest vm native VAL_NULL] does_LD [of K 0 rest vm "length ls" env native] env room
      by (auto simp: literal_value_def at_tok_def op_TRUE_def op_FALSE_def op_NIL_def numeral_2_eq_2)
  qed
  show "evaluates native s ls env (Name t)"
    unfolding evaluates_def
  proof (intro allI impI)
    fix K rest cs bs cs' vm v
    assume r: "runnable s ls env (Name t) K rest cs bs cs' vm" and v: "eval s ls env (Name t) = Some v"
    from v obtain i where i: "find_local s t ls (length ls) = Some i" "v = env i" by auto
    have bs: "bs = at_tok t [opcode_byte OP_LD, word_of_nat i]" and room: "vm_top vm < STACK_MAX"
      and env: "env_at (length ls) env vm" and n: "length ls \<le> 256"
      using r i by (auto simp: runnable_def)
    then have c: "at_code K (opcode_byte OP_LD # word_of_nat i # rest) vm" using r by (simp add: runnable_def at_tok_def)
    have "i < length ls" by (rule find_local_less [OF i(1)])
    then have "unat (word_of_nat i :: u8) = i" using n by (simp add: unsigned_of_nat take_bit_nat_eq_self)
    with does_LD [OF c env _ room] i(2) \<open>i < length ls\<close> bs show "does native (length bs) vm (v # stack_list vm)"
      by (simp add: at_tok_def numeral_2_eq_2)
  qed
qed

lemma evaluates_Paren: "evaluates native s ls env e \<Longrightarrow> evaluates native s ls env (Paren t e u)"
  unfolding evaluates_def
proof (intro allI impI)
  fix K rest cs bs cs' vm v
  assume IH: "\<forall>K rest cs bs cs' vm v. runnable s ls env e K rest cs bs cs' vm \<longrightarrow>
      eval s ls env e = Some v \<longrightarrow> does native (length bs) vm (v # stack_list vm)"
    and "runnable s ls env (Paren t e u) K rest cs bs cs' vm" and v: "eval s ls env (Paren t e u) = Some v"
  then have "runnable s ls env e K rest cs bs cs' vm" by (simp add: runnable_def)
  with IH v show "does native (length bs) vm (v # stack_list vm)" by simp
qed

lemma evaluates_Prefix:
  assumes IH: "evaluates native s ls env e"
  shows "evaluates native s ls env (Prefix t e)"
  unfolding evaluates_def
proof (intro allI impI)
  fix K rest cs bs cs' vm v
  assume r: "runnable s ls env (Prefix t e) K rest cs bs cs' vm" and v: "eval s ls env (Prefix t e) = Some v"
  from v obtain a where a: "eval s ls env e = Some a" "apply_unary (tok_type t) a = Some v"
    by (auto simp: Option.bind_eq_Some_conv)
  let ?op = "opcode_byte (unary_code (tok_type t))"
  from r obtain xs where xs: "comp s ls e cs = (xs, cs')" "bs = xs @ at_tok (last (tokens e)) [?op]"
    by (auto simp: runnable_def Let_def split: prod.splits)
  have re: "runnable s ls env e K (?op # rest) cs xs cs' vm"
    using r xs by (auto simp: runnable_def at_tok_def)
  have "does native (length xs + 1) vm (v # stack_list vm)"
  proof (rule does_trans)
    show "does native (length xs) vm (a # stack_list vm)" using IH re a(1) unfolding evaluates_def by blast
    show "at_code K (map fst xs @ ?op # rest) vm" using re by (simp add: runnable_def)
    fix vm' assume 1: "steps (length xs) vm vm'" "stack_list vm' = a # stack_list vm" "at_code K (?op # rest) vm'"
    have "in_bounds vm'"
      using re stack_need_pos [of e] by (intro behind_operand(1) [OF _ _ 1(1,2)]) (auto simp: runnable_def)
    then show "does native 1 vm' (v # stack_list vm)" using does_unary [OF 1(3,2) _ a(2)] by blast
  qed simp
  then show "does native (length bs) vm (v # stack_list vm)" using xs(2) by (simp add: at_tok_def)
qed

text \<open>Two operands: the left one first, the right one in the machine that it leaves.\<close>

lemma runnable_left:
  assumes "comp s ls l cs = (xs, cs1)" and "comp s ls r cs1 = (ys, cs')" and "arr_ok cs"
    and "\<forall>v \<in> set (arr_values cs). plain v" and "prefix (arr_values cs') K" and "arr_count cs' \<le> 256"
    and "length xs \<le> 65535" and "length ls \<le> 256" and "expr_ok s ls l" and "at_code K (map fst xs @ rest) vm"
    and "in_bounds vm" and "vm_top vm + stack_need l \<le> STACK_MAX" and "env_at (length ls) env vm"
  shows "runnable s ls env l K rest cs xs cs1 vm"
proof -
  have "arr_ok cs1" using comp_grows [OF assms(1,3)] by simp
  then have "prefix (arr_values cs1) K" "arr_count cs1 \<le> 256"
    using comp_grows [OF assms(2)] comp_count [OF assms(2)] assms(5,6) by (auto intro: prefix_order.trans)
  with assms show ?thesis by (simp add: runnable_def)
qed

lemma runnable_right:
  assumes left: "runnable s ls env l K rest' cs xs cs1 vm" and "comp s ls r cs1 = (ys, cs')"
    and "prefix (arr_values cs') K" and "arr_count cs' \<le> 256" and "length ys \<le> 65535" and "expr_ok s ls r"
    and "at_code K (map fst ys @ rest) vm'" and "in_bounds vm'" and "vm_top vm' + stack_need r \<le> STACK_MAX"
    and "env_at (length ls) env vm'"
  shows "runnable s ls env r K rest cs1 ys cs' vm'"
  using assms comp_grows [of s ls l cs xs cs1] comp_plain [of s ls l cs xs cs1] by (simp add: runnable_def)

lemma evaluates_Infix:
  assumes l: "evaluates native s ls env l" and r: "evaluates native s ls env r"
  shows "evaluates native s ls env (Infix l t r)"
  unfolding evaluates_def
proof (intro allI impI)
  fix K rest cs bs cs' vm v
  assume e: "runnable s ls env (Infix l t r) K rest cs bs cs' vm" and v: "eval s ls env (Infix l t r) = Some v"
  from v obtain a b where a: "eval s ls env l = Some a" and b: "eval s ls env r = Some b"
    and ab: "apply_binary (tok_type t) a b = Some v"
    by (auto simp: Option.bind_eq_Some_conv)
  let ?ops = "map opcode_byte (binary_code (tok_type t))"
  from e obtain xs ys cs1 where c: "comp s ls l cs = (xs, cs1)" "comp s ls r cs1 = (ys, cs')"
    "bs = xs @ ys @ at_tok (last (tokens r)) ?ops"
    by (auto simp: runnable_def Let_def split: prod.splits)
  have code: "at_code K (map fst xs @ map fst ys @ ?ops @ rest) vm"
    using e c(3) by (simp add: runnable_def at_tok_def comp_def)
  have left: "runnable s ls env l K (map fst ys @ ?ops @ rest) cs xs cs1 vm"
    by (rule runnable_left [OF c(1,2) _ _ _ _ _ _ _ code]) (use e c(3) in \<open>auto simp: runnable_def\<close>)
  have ty: "binary_ty (tok_type t)" and bnd: "in_bounds vm" using e by (simp_all add: runnable_def)
  have "does native (length xs + (length ys + length (binary_code (tok_type t)))) vm (v # stack_list vm)"
  proof (rule does_trans [OF _ code])
    show "does native (length xs) vm (a # stack_list vm)" using l left a unfolding evaluates_def by blast
    fix vm1 assume 1: "steps (length xs) vm vm1" "stack_list vm1 = a # stack_list vm"
      "at_code K (map fst ys @ ?ops @ rest) vm1"
    have room: "vm_top vm + 1 + stack_need r \<le> STACK_MAX" using e by (auto simp: runnable_def)
    note m = behind_operand [OF bnd _ 1(1,2)]
    have right: "runnable s ls env r K (?ops @ rest) cs1 ys cs' vm1"
      by (rule runnable_right [OF left c(2) _ _ _ _ 1(3)]) (use e c(3) m room in \<open>auto simp: runnable_def\<close>)
    show "does native (length ys + length (binary_code (tok_type t))) vm1 (v # stack_list vm)"
    proof (rule does_trans [OF _ 1(3)])
      show "does native (length ys) vm1 (b # a # stack_list vm)"
        using r right b 1(2) unfolding evaluates_def by metis
      fix vm2 assume 2: "steps (length ys) vm1 vm2" "stack_list vm2 = b # a # stack_list vm" "at_code K (?ops @ rest) vm2"
      have "in_bounds vm2"
      proof (rule behind_operand(1) [OF _ _ 2(1)])
        show "stack_list vm2 = b # stack_list vm1" using 1(2) 2(2) by simp
        show "vm_top vm1 + 1 \<le> STACK_MAX"
          using room stack_need_pos [of r] stack_top [OF 1(2)] by simp
      qed (use right in \<open>auto simp: runnable_def\<close>)
      then show "does native (length (binary_code (tok_type t))) vm2 (v # stack_list vm)"
        by (rule does_binary [OF ty 2(3,2) _ ab])
    qed simp
  qed simp
  then show "does native (length bs) vm (v # stack_list vm)" using c(3) by (simp add: at_tok_def add.assoc)
qed

text \<open>The right operand of \<open>And\<close> or \<open>Or\<close>, in the place of the left one.\<close>

lemma does_right:
  assumes r: "evaluates native s ls env r" and left: "runnable s ls env l K rest' cs xs cs1 vm"
    and "comp s ls r cs1 = (ys, cs')" and "prefix (arr_values cs') K" and "arr_count cs' \<le> 256"
    and "length ys \<le> 65535" and "expr_ok s ls r" and v: "eval s ls env r = Some v"
    and "vm_top vm + stack_need r \<le> STACK_MAX"
    and code: "at_code K (opcode_byte OP_POP # map fst ys @ rest) vm'" and s: "stack_list vm' = a # stack_list vm"
    and st: "steps m vm vm'"
  shows "does native (1 + length ys) vm' (v # stack_list vm)"
proof (rule does_trans)
  show "does native 1 vm' (stack_list vm)" by (rule does_POP [OF code s])
  show "at_code K ([opcode_byte OP_POP] @ map fst ys @ rest) vm'" using code by simp
  fix vm2 assume 2: "steps 1 vm' vm2" "stack_list vm2 = stack_list vm" "at_code K (map fst ys @ rest) vm2"
  have s2: "steps (m + 1) vm vm2" by (rule steps_trans [OF st 2(1)])
  have top: "vm_top vm2 = vm_top vm" using arg_cong [OF 2(2), of length] by simp
  have "in_bounds vm2" "env_at (length ls) env vm2"
    using in_bounds_steps [OF _ s2] env_steps [OF _ s2, of _ _ "[]"] left top 2(2)
    by (auto simp: runnable_def in_bounds_def)
  then have "runnable s ls env r K rest cs1 ys cs' vm2"
    using assms(3-7,9) 2(3) top by (intro runnable_right [OF left]) auto
  then show "does native (length ys) vm2 (v # stack_list vm)"
    using r v 2(2) unfolding evaluates_def by metis
qed simp

lemma evaluates_Conj:
  assumes l: "evaluates native s ls env l" and r: "evaluates native s ls env r"
  shows "evaluates native s ls env (Conj l t r)"
  unfolding evaluates_def
proof (intro allI impI)
  fix K rest cs bs cs' vm v
  assume e: "runnable s ls env (Conj l t r) K rest cs bs cs' vm" and v: "eval s ls env (Conj l t r) = Some v"
  from v obtain a where a: "eval s ls env l = Some a" and va: "(if IS_FALSEY a then Some a else eval s ls env r) = Some v"
    by (auto simp: Option.bind_eq_Some_conv)
  from e obtain xs ys cs1 where c: "comp s ls l cs = (xs, cs1)" "comp s ls r cs1 = (ys, cs')"
    "bs = xs @ at_tok t (jump_over OP_JMPF (1 + length ys) @ [opcode_byte OP_POP]) @ ys"
    by (auto simp: runnable_def Let_def split: prod.splits)
  let ?jump = "jump_over OP_JMPF (1 + length ys)" and ?right = "opcode_byte OP_POP # map fst ys @ rest"
  have len: "length bs = length xs + (3 + (1 + length ys))" using c(3) by (simp add: at_tok_def jump_over_def)
  have code: "at_code K (map fst xs @ ?jump @ ?right) vm"
    using e c(3) by (simp add: runnable_def at_tok_def comp_def jump_over_def)
  have left: "runnable s ls env l K (?jump @ ?right) cs xs cs1 vm"
    by (rule runnable_left [OF c(1,2) _ _ _ _ _ _ _ code]) (use e len in \<open>auto simp: runnable_def\<close>)
  have n: "1 + length ys \<le> 65535" using e len by (simp add: runnable_def)
  have "does native (length xs + (3 + (1 + length ys))) vm (v # stack_list vm)"
  proof (rule does_trans [OF _ code])
    show "does native (length xs) vm (a # stack_list vm)" using l left a unfolding evaluates_def by blast
    fix vm1 assume 1: "steps (length xs) vm vm1" "stack_list vm1 = a # stack_list vm" "at_code K (?jump @ ?right) vm1"
    note j = does_JMPF [OF 1(3) n 1(2), of native]
    show "does native (3 + (1 + length ys)) vm1 (v # stack_list vm)"
    proof (cases "IS_FALSEY a")
      case True
      with j va show ?thesis by simp
    next
      case False
      show ?thesis
      proof (rule does_trans [OF _ 1(3)])
        show "does native 3 vm1 (a # stack_list vm)" using j False by simp
        fix vm2 assume 2: "steps 3 vm1 vm2" "stack_list vm2 = a # stack_list vm" "at_code K ?right vm2"
        show "does native (1 + length ys) vm2 (v # stack_list vm)"
          by (rule does_right [OF r left c(2) _ _ _ _ _ _ 2(3,2) steps_trans [OF 1(1) 2(1)]])
            (use e n va False in \<open>auto simp: runnable_def\<close>)
      qed (simp add: jump_over_def)
    qed
  qed simp
  then show "does native (length bs) vm (v # stack_list vm)" by (simp add: len)
qed

lemma evaluates_Disj:
  assumes l: "evaluates native s ls env l" and r: "evaluates native s ls env r"
  shows "evaluates native s ls env (Disj l t r)"
  unfolding evaluates_def
proof (intro allI impI)
  fix K rest cs bs cs' vm v
  assume e: "runnable s ls env (Disj l t r) K rest cs bs cs' vm" and v: "eval s ls env (Disj l t r) = Some v"
  from v obtain a where a: "eval s ls env l = Some a" and va: "(if IS_FALSEY a then eval s ls env r else Some a) = Some v"
    by (auto simp: Option.bind_eq_Some_conv)
  from e obtain xs ys cs1 where c: "comp s ls l cs = (xs, cs1)" "comp s ls r cs1 = (ys, cs')"
    "bs = xs @ at_tok t (jump_over OP_JMPF 3 @ jump_over OP_JMP (1 + length ys) @ [opcode_byte OP_POP]) @ ys"
    by (auto simp: runnable_def Let_def split: prod.splits)
  let ?else = "jump_over OP_JMPF 3" and ?jump = "jump_over OP_JMP (1 + length ys)"
    and ?right = "opcode_byte OP_POP # map fst ys @ rest"
  have len: "length bs = length xs + (3 + (3 + (1 + length ys)))" using c(3) by (simp add: at_tok_def jump_over_def)
  have code: "at_code K (map fst xs @ ?else @ ?jump @ ?right) vm"
    using e c(3) by (simp add: runnable_def at_tok_def comp_def jump_over_def)
  have left: "runnable s ls env l K (?else @ ?jump @ ?right) cs xs cs1 vm"
    by (rule runnable_left [OF c(1,2) _ _ _ _ _ _ _ code]) (use e len in \<open>auto simp: runnable_def\<close>)
  have n: "1 + length ys \<le> 65535" using e len by (simp add: runnable_def)
  have "does native (length xs + (3 + (3 + (1 + length ys)))) vm (v # stack_list vm)"
  proof (rule does_trans [OF _ code])
    show "does native (length xs) vm (a # stack_list vm)" using l left a unfolding evaluates_def by blast
    fix vm1 assume 1: "steps (length xs) vm vm1" "stack_list vm1 = a # stack_list vm"
      "at_code K (?else @ ?jump @ ?right) vm1"
    have j: "does native (if IS_FALSEY a then 6 else 3) vm1 (a # stack_list vm)"
      using does_JMPF [OF 1(3) _ 1(2), of native] by (cases "IS_FALSEY a") simp_all
    show "does native (3 + (3 + (1 + length ys))) vm1 (v # stack_list vm)"
    proof (cases "IS_FALSEY a")
      case False
      show ?thesis
      proof (rule does_trans [OF _ 1(3)])
        show "does native 3 vm1 (a # stack_list vm)" using j False by simp
        fix vm2 assume 2: "stack_list vm2 = a # stack_list vm" "at_code K (?jump @ ?right) vm2"
        from does_JMP [OF 2(2) n, of native] 2(1) va False
        show "does native (3 + (1 + length ys)) vm2 (v # stack_list vm)" by simp
      qed (simp add: jump_over_def)
    next
      case True
      have "does native (6 + (1 + length ys)) vm1 (v # stack_list vm)"
      proof (rule does_trans [where xs = "?else @ ?jump" and ys = ?right])
        show "does native 6 vm1 (a # stack_list vm)" using j True by simp
        show "at_code K ((?else @ ?jump) @ ?right) vm1" using 1(3) by simp
        fix vm2 assume 2: "steps 6 vm1 vm2" "stack_list vm2 = a # stack_list vm" "at_code K ?right vm2"
        show "does native (1 + length ys) vm2 (v # stack_list vm)"
          by (rule does_right [OF r left c(2) _ _ _ _ _ _ 2(3,2) steps_trans [OF 1(1) 2(1)]])
            (use e n va True in \<open>auto simp: runnable_def\<close>)
      qed (simp add: jump_over_def)
      then show ?thesis by simp
    qed
  qed simp
  then show "does native (length bs) vm (v # stack_list vm)" by (simp add: len)
qed

lemma evaluates: "evaluates native s ls env e"
  by (induction e) (simp_all add: evaluates_leaf evaluates_Paren evaluates_Prefix evaluates_Infix evaluates_Conj
      evaluates_Disj)

end
