(* ===== verification/Expr_Props.thy ===== *)
theory Expr_Props
  imports Expr_Compiled Expr_Running Lexer_Props Compiler_Props
begin

text \<open>The properties of expressions: the compiler and the machine against the syntax trees.\<close>

text \<open>
  C6. On the tokens of an expression that ends at \<open>t\<close>, \<open>parsePrecedence\<close> returns, takes exactly these
  tokens, reports nothing, and appends exactly the code of the syntax tree, with its
  positions and constants: the loop over operators and its table of precedences compute the
  tree's postfix form, jumps of \<open>And\<close> and \<open>Or\<close> included. At most 256 constants and 65535 bytes are
  assumed.
\<close>

theorem expression_compiles:
  assumes "cur_fn p = Some f" and "chunk_ok (fn_chunk f)" and "ls = cp_locals (hd (ps_compilers p))"
    and "expr_ok (ps_source p) ls e" and "upcoming p (tokens e @ [t])" and "n \<le> level e"
    and "prec_of t < n \<or> tok_line (last (tokens e)) < tok_line t" and "tok_type t \<noteq> TOKEN_EQUAL"
    and "comp (ps_source p) ls e (ck_constants (fn_chunk f)) = (bs, cs)"
    and "arr_count cs \<le> 256" and "length bs \<le> 65535"
  shows "\<exists>p'. parse (Precedence n, p) = Some (Inr (0, p')) \<and>
    cur_fn p' = Some (emit_all bs (with_constants cs f)) \<and>
    ps_previous p' = last (tokens e) \<and> ps_current p' = t \<and> ps_compilers p' = ps_compilers p \<and>
    ps_subExprs p' = ps_subExprs p + operands e \<and> ps_hadError p' = ps_hadError p \<and>
    stderr (ps_vm p') = stderr (ps_vm p)"
proof -
  have b: "before ls e t bs cs f p" using assms by (simp add: before_def)
  have "parsePrecedence parse n p = Some (Inr ((), behind e bs cs f p))"
    using assms by (intro taken_operand [OF taken b]) (simp_all add: stops_def)
  then have "parse (Precedence n, p) = Some (Inr (0, behind e bs cs f p))"
    by (simp add: parse.simps [of "(_, _)"] parse_goal_def no_result_def seqp_def bindp_def ret_def)
  moreover note before_behind [OF b]
  moreover have "ps_hadError (behind e bs cs f p) = ps_hadError p \<and>
      stderr (ps_vm (behind e bs cs f p)) = stderr (ps_vm p) \<and>
      ps_subExprs (behind e bs cs f p) = ps_subExprs p + operands e"
    by (simp add: behind_def st_def upd_fn_def put_fun_def)
  ultimately show ?thesis by auto
qed

subsection \<open>An expression\<close>

text \<open>The source \<open>1>2\<close>; the parser stands before its first token.\<close>

abbreviation gt_lexer :: "nat \<Rightarrow> nat \<Rightarrow> int \<Rightarrow> lexer_t" where
  "gt_lexer s c k \<equiv> \<lparr>lx_start = s, lx_current = c, lx_currentLine = 0, lx_line = 1, lx_position = k\<rparr>"

definition gt_tok :: "nat \<Rightarrow> toktype_t \<Rightarrow> nat \<Rightarrow> tok_t" where
  "gt_tok i ty n = \<lparr>tok_start = In_source i, tok_currentLine = Some 0, tok_type = ty, tok_length = n,
     tok_line = 1, tok_column = int i + 1\<rparr>"

definition gt_expr :: expr where
  "gt_expr = Infix (Number (gt_tok 0 TOKEN_NUMBER 1)) (gt_tok 1 TOKEN_GREATER 1) (Number (gt_tok 2 TOKEN_NUMBER 1))"

definition gt_at :: "tok_t \<Rightarrow> tok_t \<Rightarrow> lexer_t \<Rightarrow> parser_t" where
  "gt_at t u L = (parser_init demo_tok (demo_src ''1>2'') (with_fun (demo_fun [] []) vm_blank))\<lparr>
     ps_compilers := [\<lparr>cp_function = 0, cp_type = TYPE_SCRIPT, cp_locals = [], cp_scopeDepth = 0\<rparr>],
     ps_previous := t, ps_current := u, ps_lexer := L\<rparr>"

definition gt_parser :: parser_t where
  "gt_parser = gt_at demo_tok (gt_tok 0 TOKEN_NUMBER 1) (gt_lexer 0 1 2)"

lemma gt_scans:
  "lexer_scan ''1>2'' lexer_init = (gt_tok 0 TOKEN_NUMBER 1, gt_lexer 0 1 2)"
  "lexer_scan ''1>2'' (gt_lexer 0 1 2) = (gt_tok 1 TOKEN_GREATER 1, gt_lexer 1 2 3)"
  "lexer_scan ''1>2'' (gt_lexer 1 2 3) = (gt_tok 2 TOKEN_NUMBER 1, gt_lexer 2 3 4)"
  "lexer_scan ''1>2'' (gt_lexer 2 3 4) = (gt_tok 3 TOKEN_EOF 0, gt_lexer 3 3 4)"
proof -
  have d: "isDigit (CHR ''1'')" "isDigit (CHR ''2'')" "\<not> isDigit (CHR ''>'')" "\<not> isAlpha (CHR ''>'')"
    by (simp_all add: isDigit_def isAlpha_def char_in_def)
  show "lexer_scan ''1>2'' lexer_init = (gt_tok 0 TOKEN_NUMBER 1, gt_lexer 0 1 2)"
    using scan_digits_run [of lexer_init "''1>2''" "CHR ''1''" "[]" "''>2''"] d
    by (simp add: lexer_init_def lx_skip_def makeToken_def gt_tok_def)
  show "lexer_scan ''1>2'' (gt_lexer 1 2 3) = (gt_tok 2 TOKEN_NUMBER 1, gt_lexer 2 3 4)"
    using scan_digits_run [of "gt_lexer 1 2 3" "''1>2''" "CHR ''2''" "[]" "[]"] d
    by (simp add: lx_skip_def makeToken_def gt_tok_def)
  have "lexer_scan ''1>2'' (gt_lexer 0 1 2) = lx_symbol ''1>2'' (c_tolower (CHR ''>'')) (gt_lexer 1 2 3)"
    using scan_symbol [of "gt_lexer 0 1 2" "''1>2''" "CHR ''>''" "''2''"] d
    by (simp add: lx_step_def numeral_2_eq_2)
  also have "\<dots> = (gt_tok 1 TOKEN_GREATER 1, gt_lexer 1 2 3)"
    by (simp add: lx_symbol_def tolower_symbol single_tokens_def one_or_two_def lx_match_def isAtEnd_def
        char_at_def makeToken_def gt_tok_def c_tolower_def)
  finally show "lexer_scan ''1>2'' (gt_lexer 0 1 2) = (gt_tok 1 TOKEN_GREATER 1, gt_lexer 1 2 3)" .
  show "lexer_scan ''1>2'' (gt_lexer 2 3 4) = (gt_tok 3 TOKEN_EOF 0, gt_lexer 3 3 4)"
    using scan_end [of "gt_lexer 2 3 4" "''1>2''"] by (simp add: makeToken_def gt_tok_def)
qed

lemma gt_upcoming: "upcoming gt_parser (tokens gt_expr @ [gt_tok 3 TOKEN_EOF 0])"
proof -
  have adv: "adv (gt_at t u L) = gt_at u v M" if "lexer_scan ''1>2'' L = (v, M)" for t u v L M
    using that by (simp add: adv_def scan_current_def gt_at_def parser_init_def demo_src_def)
  have "ps_current (gt_at t u L) = u" for t u L by (simp add: gt_at_def)
  then show ?thesis
    by (simp add: gt_parser_def gt_expr_def adv gt_scans del: One_nat_def) (simp add: gt_tok_def)
qed

lemma gt_numbers:
  "strtod (number_text (demo_src ''1>2'') (gt_tok 0 TOKEN_NUMBER 1)) = 0x3FF0000000000000"
  "strtod (number_text (demo_src ''1>2'') (gt_tok 2 TOKEN_NUMBER 1)) = 0x4000000000000000"
proof -
  have d: "d_of_int 1 = 0x3FF0000000000000" "d_of_int 2 = 0x4000000000000000"
    by (simp_all add: d_of_int_def mk_double_def round_mag_def rne_def inf_mag_def bitlen_eval)
  have "strtod (''1'' @ ''>2'') = d_of_int (int (nat_of_digits 10 ''1''))"
    by (rule strtod_integer) (simp_all add: isDigit_def char_in_def tolower_symbol c_tolower_def char_of_eq_iff)
  then show "strtod (number_text (demo_src ''1>2'') (gt_tok 0 TOKEN_NUMBER 1)) = 0x3FF0000000000000"
    by (simp add: number_text_def gt_tok_def demo_src_def nat_of_digits_def digit_val_def c_tolower_def d)
  have "strtod (''2'' @ []) = d_of_int (int (nat_of_digits 10 ''2''))"
    by (rule strtod_integer) (simp_all add: isDigit_def char_in_def)
  then show "strtod (number_text (demo_src ''1>2'') (gt_tok 2 TOKEN_NUMBER 1)) = 0x4000000000000000"
    by (simp add: number_text_def gt_tok_def demo_src_def nat_of_digits_def digit_val_def c_tolower_def d)
qed

definition gt_code :: emission where
  "gt_code = at_tok (gt_tok 0 TOKEN_NUMBER 1) [7, 0] @ at_tok (gt_tok 2 TOKEN_NUMBER 1) [7, 1, 11, 9]"

definition gt_consts :: arr_t where
  "gt_consts = \<lparr>arr_count = 2, arr_capacity = 8,
     arr_values = [VAL_NUM 0x3FF0000000000000, VAL_NUM 0x4000000000000000]\<rparr>"

definition gt_fun :: fun_t where
  "gt_fun = emit_all gt_code (with_constants gt_consts (demo_fun [] []))"

lemma gt_comp:
  "comp (demo_src ''1>2'') [] gt_expr \<lparr>arr_count = 0, arr_capacity = 0, arr_values = []\<rparr> = (gt_code, gt_consts)"
proof -
  have "\<not> d_eq 0x3FF0000000000000 0x4000000000000000" by (simp add: d_eq_def d_key_def d_sign_def d_mag_def)
  moreover have "tok_type (gt_tok i ty n) = ty" for i ty n by (simp add: gt_tok_def)
  ultimately show ?thesis
    by (simp add: gt_expr_def gt_numbers [unfolded One_nat_def] arr_add_def arr_push_def GROW_CAP_def at_tok_def
        gt_code_def gt_consts_def)
qed

lemma gt_start:
  "cur_fn gt_parser = Some (demo_fun [] [])" "chunk_ok (fn_chunk (demo_fun [] []))"
  "ps_source gt_parser = demo_src ''1>2''" "cp_locals (hd (ps_compilers gt_parser)) = []"
  "ck_constants (fn_chunk (demo_fun [] [])) = \<lparr>arr_count = 0, arr_capacity = 0, arr_values = []\<rparr>"
  "ck_code (fn_chunk (demo_fun [] [])) = []"
  by (simp_all add: gt_parser_def gt_at_def cur_fn_def parser_init_def with_fun_def fun_at_def demo_fun_def
      demo_chunk_def chunk_init_def chunk_ok_def arr_ok_def)

lemma gt_shape:
  "expr_ok (demo_src ''1>2'') [] gt_expr" "PREC_ASSIGNMENT \<le> level gt_expr"
  "prec_of (gt_tok 3 TOKEN_EOF 0) < PREC_ASSIGNMENT" "tok_type (gt_tok 3 TOKEN_EOF 0) \<noteq> TOKEN_EQUAL"
  by (simp_all add: gt_expr_def gt_tok_def joins_def binary_ty_def prec_of_def getRule_def rules_def)

lemma gt_result:
  "comp (ps_source gt_parser) [] gt_expr (ck_constants (fn_chunk (demo_fun [] []))) = (gt_code, gt_consts)"
  "arr_count gt_consts \<le> 256" "length gt_code \<le> 65535" "ck_code (fn_chunk gt_fun) = [7, 0, 7, 1, 11, 9]"
  "consts_of gt_fun = [VAL_NUM 0x3FF0000000000000, VAL_NUM 0x4000000000000000]" "chunk_ok (fn_chunk gt_fun)"
proof -
  have "arr_ok gt_consts" by (simp add: gt_consts_def arr_ok_def)
  then show "chunk_ok (fn_chunk gt_fun)" using gt_start(2) by (simp add: gt_fun_def)
  show "comp (ps_source gt_parser) [] gt_expr (ck_constants (fn_chunk (demo_fun [] []))) = (gt_code, gt_consts)"
    unfolding gt_start by (rule gt_comp)
qed (simp_all add: gt_fun_def gt_code_def gt_consts_def consts_of_def gt_start at_tok_def)

lemma gt_parsed: "\<exists>p'. parse (Precedence PREC_ASSIGNMENT, gt_parser) = Some (Inr (0, p')) \<and> cur_fn p' = Some gt_fun"
proof -
  have b: "before [] gt_expr (gt_tok 3 TOKEN_EOF 0) gt_code gt_consts (demo_fun [] []) gt_parser"
    using gt_start gt_upcoming gt_shape gt_result by (simp add: before_def)
  have "parsePrecedence parse PREC_ASSIGNMENT gt_parser =
      Some (Inr ((), behind gt_expr gt_code gt_consts (demo_fun [] []) gt_parser))"
    using gt_shape by (intro taken_operand [OF taken b]) (simp_all add: stops_def)
  then have "parse (Precedence PREC_ASSIGNMENT, gt_parser) =
      Some (Inr (0, behind gt_expr gt_code gt_consts (demo_fun [] []) gt_parser))"
    by (simp add: parse.simps [of "(_, _)"] parse_goal_def no_result_def seqp_def bindp_def ret_def)
  with before_behind(3) [OF b] show ?thesis by (simp add: gt_fun_def)
qed

lemma expression_compiles_witness:
  "\<exists>p' g. parse (Precedence PREC_ASSIGNMENT, gt_parser) = Some (Inr (0, p')) \<and> cur_fn p' = Some g \<and>
     ck_code (fn_chunk g) = [7, 0, 7, 1, 11, 9] \<and>
     consts_of g = [VAL_NUM 0x3FF0000000000000, VAL_NUM 0x4000000000000000]"
proof -
  have "\<exists>p'. parse (Precedence PREC_ASSIGNMENT, gt_parser) = Some (Inr (0, p')) \<and> cur_fn p' = Some gt_fun"
    using expression_compiles [OF gt_start(1,2) gt_start(4) [symmetric] _ gt_upcoming gt_shape(2) disjI1 [OF gt_shape(3)]
        gt_shape(4) gt_result(1-3)] gt_shape(1) by (auto simp: gt_start gt_fun_def)
  with gt_result show ?thesis by auto
qed



end
