(* ===== verification/Print_Compiled.thy ===== *)
theory Print_Compiled
  imports Expr_Compiled Expr_Running Libs
begin

text \<open>\<open>Print\<close> statements: their tokens, and the code that the compiler makes of them.\<close>

subsection \<open>The statement\<close>

text \<open>
  The values of a statement, each with the token before it: \<open>Print\<close> for the first one, a comma for the
  others.
\<close>

type_synonym print_stmt = "(tok_t \<times> expr) list"

definition part_tokens :: "print_stmt \<Rightarrow> tok_t list" where
  "part_tokens es = concat (map (\<lambda>(c, e). c # tokens e) es)"

lemma part_tokens_simps [simp]:
  "part_tokens [] = []" "part_tokens ((c, e) # es) = c # tokens e @ part_tokens es"
  "part_tokens (es @ fs) = part_tokens es @ part_tokens fs"
  by (simp_all add: part_tokens_def)

definition parts_ok :: "src_t \<Rightarrow> local_t list \<Rightarrow> print_stmt \<Rightarrow> bool" where
  "parts_ok s ls es \<longleftrightarrow> es \<noteq> [] \<and> (\<forall>(c, e) \<in> set es. expr_ok s ls e) \<and> (\<forall>(c, e) \<in> set (tl es). tok_type c = TOKEN_COMMA)"

definition print_ok :: "src_t \<Rightarrow> local_t list \<Rightarrow> print_stmt \<Rightarrow> bool" where
  "print_ok s ls es \<longleftrightarrow> parts_ok s ls es \<and> tok_type (fst (hd es)) = TOKEN_PRINT \<and> length es \<le> 32"

fun comp_parts :: "src_t \<Rightarrow> local_t list \<Rightarrow> print_stmt \<Rightarrow> arr_t \<Rightarrow> emission \<times> arr_t" where
  "comp_parts s ls [] cs = ([], cs)"
| "comp_parts s ls ((c, e) # es) cs =
     (let (xs, cs1) = comp s ls e cs; (ys, cs2) = comp_parts s ls es cs1 in (xs @ ys, cs2))"

definition print_code :: "print_stmt \<Rightarrow> nat \<Rightarrow> emission" where
  "print_code es n = at_tok (last (part_tokens es)) [opcode_byte OP_PRINT, word_of_nat n]"

lemma comp_parts_grows:
  assumes "comp_parts s ls es cs = (bs, cs')" and "arr_ok cs"
  shows "arr_ok cs' \<and> prefix (arr_values cs) (arr_values cs')"
  using assms
proof (induction es arbitrary: cs bs cs')
  case (Cons x es)
  obtain c e where x: "x = (c, e)" by (cases x)
  from Cons.prems x obtain xs cs1 ys where c: "comp s ls e cs = (xs, cs1)" "comp_parts s ls es cs1 = (ys, cs')"
    by (auto simp: Let_def split: prod.splits)
  with Cons comp_grows [OF c(1)] show ?case by (auto intro: prefix_order.trans)
qed simp

lemma prefix_count: "arr_ok a \<Longrightarrow> arr_ok b \<Longrightarrow> prefix (arr_values a) (arr_values b) \<Longrightarrow> arr_count a \<le> arr_count b"
  using prefix_length_le by (fastforce simp: arr_ok_def)

subsection \<open>Parsing\<close>

text \<open>A goal without a result.\<close>

lemma run_goals:
  "run parse (Values n) = values_loop parse n" "run parse Declaration = ps_declaration parse"
  "run parse Statement = statement parse" "run parse Script = script_loop parse"
  "run parse (Declarations stop) = declarations_loop parse stop"
proof -
  have "bindp (no_result m) (\<lambda>_. ret ()) = m" for m :: "unit parse"
    by (auto simp: fun_eq_iff no_result_def seqp_def bindp_def ret_def split: option.split sum.split)
  then show "run parse (Values n) = values_loop parse n" "run parse Declaration = ps_declaration parse"
    "run parse Statement = statement parse" "run parse Script = script_loop parse"
    "run parse (Declarations stop) = declarations_loop parse stop"
    by (simp_all add: run_def fun_eq_iff bindp_def go_def parse.simps [of "(_, _)"] parse_goal_def)
qed

lemma if_match_no: "tok_type (ps_current p) \<noteq> ty \<Longrightarrow> if_match ty m n p = n p"
  by (simp add: if_match_def ps_match_def check_def bindp_def)

lemma if_match_yes:
  assumes "upcoming p (t # u # ts)" and "tok_type t = ty"
  shows "if_match ty m n p = m (adv p)"
  using ps_advance_adv [OF assms(1)] assms by (simp add: if_match_def ps_match_def check_def bindp_def ret_def)

text \<open>The values from the first expression on, \<open>k\<close> of them done.\<close>

lemma values_parse:
  assumes "parts_ok (ps_source p) ls es" and "k + length es \<le> 32" and "cur_fn p = Some f"
    and "cp_locals (hd (ps_compilers p)) = ls" and "chunk_ok (fn_chunk f)"
    and "upcoming p (tl (part_tokens es) @ [t])" and "prec_of t = PREC_NONE"
    and "tok_type t \<noteq> TOKEN_EQUAL" and "tok_type t \<noteq> TOKEN_COMMA"
    and "comp_parts (ps_source p) ls es (ck_constants (fn_chunk f)) = (bs, cs)"
    and "arr_count cs \<le> 256" and "length bs \<le> 65535"
  shows "\<exists>j. values_loop parse k p = Some (Inr ((), st (length (part_tokens es) - 1)
    (emit_all (bs @ print_code es (k + length es)) (with_constants cs f)) j p))"
  using assms
proof (induction es arbitrary: p f bs cs k)
  case (Cons x es)
  obtain c e where x: "x = (c, e)" by (cases x)
  from Cons.prems(10) x obtain xs ys cs1 where c: "comp (ps_source p) ls e (ck_constants (fn_chunk f)) = (xs, cs1)"
    "comp_parts (ps_source p) ls es cs1 = (ys, cs)" "bs = xs @ ys"
    by (auto simp: Let_def split: prod.splits)
  have ok: "arr_ok (ck_constants (fn_chunk f))" using Cons.prems(5) by (simp add: chunk_ok_def)
  have cs1: "arr_ok cs1" "arr_count cs1 \<le> arr_count cs"
    using comp_grows [OF c(1) ok] comp_parts_grows [OF c(2)] prefix_count by blast+
  have e: "expr_ok (ps_source p) ls e" using Cons.prems(1) x by (simp add: parts_ok_def)
  let ?f1 = "emit_all xs (with_constants cs1 f)"
  let ?q = "st (length (tokens e)) ?f1 (operands e) p"
  have cur: "cur_fn ?q = Some ?f1" using Cons.prems(3) by (rule cur_st)
  have expr: "expression parse p = Some (Inr ((), ?q))"
    if t': "prec_of t' = PREC_NONE" "tok_type t' \<noteq> TOKEN_EQUAL" "upcoming p (tokens e @ t' # us)" for t' us
  proof -
    have b: "before ls e t' xs cs1 f p"
      by (rule before_part [OF Cons.prems(3,4,5) t'(3) e c(1)]) (use cs1 Cons.prems(11,12) c(3) t'(2) in auto)
    show ?thesis
      using taken_operand [OF taken b level_pos [OF e]] t'(1)
      by (simp add: expression_def run_parse stops_def behind_def)
  qed
  show ?case
  proof (cases es)
    case Nil
    have up: "upcoming p (tokens e @ t # [])" using Cons.prems(6) x Nil by simp
    have cq: "ps_current ?q = t" and prev: "ps_previous ?q = last (tokens e)"
      using up previous_last [of p "tokens e"] by (simp_all add: upcoming_append)
    have "emitSmart OP_PRINT (word_of_nat (k + 1)) ?q = Some (Inr ((), st (length (tokens e))
        (emits (last (tokens e)) [opcode_byte OP_PRINT, word_of_nat (k + 1)] ?f1) (operands e) p))"
      using emitBytes_eq [OF cur, of "opcode_byte OP_PRINT" "word_of_nat (k + 1)"] prev by (simp add: emitSmart_def st_upd)
    moreover have "bs = xs" "cs = cs1" using c Nil by simp_all
    ultimately have "values_loop parse k p = Some (Inr ((), st (length (part_tokens (x # es)) - 1)
        (emit_all (bs @ print_code (x # es) (k + length (x # es))) (with_constants cs f)) (operands e) p))"
      using expr [OF Cons.prems(7,8) up] Cons.prems(2,9) cq x Nil
      by (simp add: values_loop_def seqp_eq if_match_no print_code_def)
    then show ?thesis by blast
  next
    case (Cons y zs)
    obtain d e' where y: "y = (d, e')" by (cases y)
    have d: "tok_type d = TOKEN_COMMA" and ok': "parts_ok (ps_source p) ls es"
      using Cons.prems(1) local.Cons y by (auto simp: parts_ok_def)
    obtain u us where us: "tokens e' @ part_tokens zs @ [t] = u # us" by (cases "tokens e' @ part_tokens zs @ [t]") auto
    have up: "upcoming p (tokens e @ d # u # us)" using Cons.prems(6) x y local.Cons us by simp
    have dp: "prec_of d = PREC_NONE" "tok_type d \<noteq> TOKEN_EQUAL" using d by (simp_all add: prec_of_def getRule_def rules_def)
    let ?q1 = "st (length (tokens e) + 1) ?f1 (operands e) p"
    have adv: "adv ?q = ?q1" and upq: "upcoming ?q (d # u # us)" using up by (simp_all add: upcoming_append)
    have cur1: "cur_fn ?q1 = Some ?f1" using Cons.prems(3) by (rule cur_st)
    have "\<exists>j. values_loop parse (k + 1) ?q1 = Some (Inr ((), st (length (part_tokens es) - 1)
        (emit_all (ys @ print_code es (k + 1 + length es)) (with_constants cs ?f1)) j ?q1))"
    proof (rule Cons.IH)
      show "upcoming ?q1 (tl (part_tokens es) @ [t])" using upq us local.Cons y by (simp add: adv)
      show "comp_parts (ps_source ?q1) ls es (ck_constants (fn_chunk ?f1)) = (ys, cs)" using c(2) by simp
    qed (use Cons.prems ok' cur1 cs1 c(3) in \<open>auto\<close>)
    then obtain j where j: "values_loop parse (k + 1) ?q1 = Some (Inr ((), st (length (part_tokens es) - 1)
        (emit_all (ys @ print_code es (k + 1 + length es)) (with_constants cs ?f1)) j ?q1))" by blast
    have "values_loop parse k p = values_loop parse (k + 1) ?q1"
      using expr [OF dp up] Cons.prems(2) local.Cons if_match_yes [OF upq d]
      by (subst values_loop_def) (simp add: seqp_eq run_goals adv)
    with j c(3) x y local.Cons show ?thesis
      by (intro exI [of _ "operands e + j"]) (simp add: print_code_def)
  qed
qed (simp add: parts_ok_def)

lemma print_parse:
  assumes es: "print_ok (ps_source p) ls es" and cur: "cur_fn p = Some f"
    and "cp_locals (hd (ps_compilers p)) = ls" and "chunk_ok (fn_chunk f)"
    and up: "upcoming p (part_tokens es @ [t])" and "prec_of t = PREC_NONE"
    and "tok_type t \<noteq> TOKEN_EQUAL" and "tok_type t \<noteq> TOKEN_COMMA"
    and "comp_parts (ps_source p) ls es (ck_constants (fn_chunk f)) = (bs, cs)"
    and "arr_count cs \<le> 256" and "length bs \<le> 65535"
  shows "\<exists>j. statement parse p = Some (Inr ((), st (length (part_tokens es))
    (emit_all (bs @ print_code es (length es)) (with_constants cs f)) j p))"
proof -
  obtain c e rest where x: "es = (c, e) # rest" using es by (cases es) (auto simp: print_ok_def parts_ok_def)
  have c: "tok_type c = TOKEN_PRINT" using es x by (simp add: print_ok_def)
  obtain u us where us: "tokens e @ part_tokens rest @ [t] = u # us" by (cases "tokens e @ part_tokens rest @ [t]") auto
  have up': "upcoming p (c # u # us)" using up x us by simp
  then have cc: "ps_current p = c" by simp
  let ?q = "st 1 f 0 p"
  have q: "adv p = ?q" by (rule adv_st [OF cur])
  have "\<exists>j. values_loop parse 0 ?q = Some (Inr ((), st (length (part_tokens es) - 1)
      (emit_all (bs @ print_code es (0 + length es)) (with_constants cs f)) j ?q))"
  proof (rule values_parse [OF _ _ cur_st [OF cur] _ assms(4) _ assms(6-8) _ assms(10,11)])
    show "upcoming ?q (tl (part_tokens es) @ [t])" using up' us x by simp
  qed (use es assms(3,9) in \<open>simp_all add: print_ok_def\<close>)
  then obtain j where "values_loop parse 0 ?q = Some (Inr ((), st (length (part_tokens es))
      (emit_all (bs @ print_code es (length es)) (with_constants cs f)) j p))"
    using x by auto
  then have "statement parse p = Some (Inr ((), st (length (part_tokens es))
      (emit_all (bs @ print_code es (length es)) (with_constants cs f)) j p))"
    using q by (simp add: statement_def printStatement_def run_goals if_match_yes [OF up' c])
  then show ?thesis by blast
qed

end
