(* ===== verification/Expr_Failing.thy ===== *)
theory Expr_Failing
  imports Expr_Running
begin

text \<open>
  The machine on the code of an expression that has no value, because an operand has a wrong type: it stops with a runtime error
  at the operator, and has done nothing that can be seen before.
\<close>

subsection \<open>Runtime errors\<close>

definition fails :: "natives \<Rightarrow> vm_t \<Rightarrow> bool" where
  "fails native vm \<longleftrightarrow> (\<exists>vm1 vm2 m ts. vm_runs native vm vm1 \<and>
     vm_step native vm1 = Inr (RETURN VM_RUNTIME_ERROR, vm2) \<and> stdout vm2 = stdout vm \<and>
     stderr vm2 = stderr vm @ [Runtime_error m ts])"

text \<open>The functions of all frames have a source and a name that can be printed.\<close>

definition traced :: "vm_t \<Rightarrow> bool" where
  "traced vm \<longleftrightarrow> (\<exists>f fs fn ts. frames vm = f # fs \<and> fun_at (heap vm) (fr_function f) = Some fn \<and>
     ck_source (fn_chunk fn) \<noteq> None \<and> (\<forall>n. fn_name fn = Some n \<longrightarrow> is_str (heap vm) n) \<and>
     trace_frames vm fs = Inr ts)"

lemma trace_frame_heap: "heap vm' = heap vm \<Longrightarrow> trace_frame vm' f = trace_frame vm f"
  by (simp only: trace_frame_def get_fun_def)

lemma trace_frames_heap: "heap vm' = heap vm \<Longrightarrow> trace_frames vm' fs = trace_frames vm fs"
  using trace_frame_heap [of vm' vm] by (induction fs) simp_all

lemma traced_steps: "traced vm \<Longrightarrow> steps n vm vm' \<Longrightarrow> traced vm'"
  using trace_frames_heap [of vm' vm] by (auto simp: traced_def steps_def same_store_def)

lemma traced_next_byte:
  assumes "traced vm" and "at_code K (b # bs) vm"
  shows "\<exists>ts. trace_frames (next_byte vm) (frames (next_byte vm)) = Inr ts"
proof -
  from assms(1) obtain f fs fn ts where f: "frames vm = f # fs" "fun_at (heap vm) (fr_function f) = Some fn"
    "ck_source (fn_chunk fn) \<noteq> None" "\<forall>n. fn_name fn = Some n \<longrightarrow> is_str (heap vm) n" "trace_frames vm fs = Inr ts"
    by (auto simp: traced_def)
  have "chunk_ok (fn_chunk fn)" "prefix (b # bs) (drop (fr_ip f) (ck_code (fn_chunk fn)))"
    using assms(2) f(1,2) by (auto simp: at_code_def)
  moreover from this have "fr_ip f < length (ck_code (fn_chunk fn))" by (cases "fr_ip f < length (ck_code (fn_chunk fn))") auto
  ultimately have ip: "fr_ip f < ck_count (fn_chunk fn)" by (simp add: chunk_ok_def)
  have h: "heap (next_byte vm) = heap vm" using f(1) by (simp add: next_byte_def)
  have "get_fun (fr_function f) (next_byte vm) = Inr fn" using f(2) h by (auto simp: fun_at_Some get_fun_def)
  then have "\<exists>t. trace_frame (next_byte vm) (f\<lparr>fr_ip := fr_ip f + 1\<rparr>) = Inr t"
    using f(3,4) ip h by (cases "fn_name fn") (auto simp: trace_frame_def Let_def)
  moreover have "trace_frames (next_byte vm) fs = Inr ts" using f(5) trace_frames_heap [OF h] by simp
  ultimately show ?thesis using f(1) by (auto simp: next_byte_def)
qed

lemma fails_op:
  assumes c: "at_code K (opcode_byte op # bs) vm" and "traced vm"
    and op: "exec_op native op (next_byte vm) = ERROR msg (next_byte vm)"
  shows "fails native vm"
proof -
  note b = at_READ_BYTE [OF c]
  obtain ts where ts: "trace_frames (next_byte vm) (frames (next_byte vm)) = Inr ts" using traced_next_byte [OF assms(2) c] by blast
  let ?vm' = "(next_byte vm)\<lparr>stderr := stderr (next_byte vm) @ [Runtime_error msg ts], vm_top := 0, frames := []\<rparr>"
  have "vm_step native vm = Inr (RETURN VM_RUNTIME_ERROR, ?vm')"
    using b(1) op ERROR_spec [OF ts, of msg] by (simp add: vm_step_def)
  moreover have "stdout ?vm' = stdout vm" "stderr ?vm' = stderr vm @ [Runtime_error msg ts]"
    using b(3) by (simp_all add: steps_def)
  ultimately show ?thesis unfolding fails_def by (blast intro: vm_runs_refl)
qed

lemma fails_after:
  assumes "does native n vm vs" and "at_code K (xs @ ys) vm" and "n = length xs"
    and "\<And>vm'. steps n vm vm' \<Longrightarrow> stack_list vm' = vs \<Longrightarrow> at_code K ys vm' \<Longrightarrow> fails native vm'"
  shows "fails native vm"
proof -
  obtain vm1 where 1: "vm_runs native vm vm1" "steps n vm vm1" "stack_list vm1 = vs"
    using assms(1) by (auto simp: does_def)
  have "at_code K ys vm1" using assms(2,3) 1(2) at_code_steps by blast
  from assms(4) [OF 1(2,3) this] obtain vm2 vm3 m ts where 2: "vm_runs native vm1 vm2"
    "vm_step native vm2 = Inr (RETURN VM_RUNTIME_ERROR, vm3)" "stdout vm3 = stdout vm1"
    "stderr vm3 = stderr vm1 @ [Runtime_error m ts]" by (auto simp: fails_def)
  with 1(2) vm_runs_trans [OF 1(1) 2(1)] show ?thesis unfolding fails_def by (auto simp: steps_def)
qed

subsection \<open>Operators\<close>

lemma fails_unary:
  assumes "at_code K (opcode_byte (unary_code ty) # bs) vm" and "stack_list vm = a # rest" and "traced vm"
    and "apply_unary ty a = None"
  shows "fails native vm"
proof -
  have "ty = TOKEN_MINUS" using assms(4) by (auto simp: apply_unary_def split: if_splits)
  moreover from this have "op_NEG (next_byte vm) = ERROR ''Operands must be a number/boolean.'' (next_byte vm)"
    using assms(2,4) by (cases a) (auto simp: op_NEG_def PEEK_ok apply_unary_def)
  ultimately show ?thesis using assms(1,3) by (intro fails_op [where op = OP_NEG]) (simp_all add: unary_code_def)
qed

text \<open>Strings could be added; no value of an expression is one.\<close>

definition no_string :: "vm_t \<Rightarrow> val_t \<Rightarrow> bool" where
  "no_string vm v \<longleftrightarrow> (\<forall>a. v = VAL_OBJ a \<longrightarrow> heap vm a \<noteq> None \<and> \<not> is_str (heap vm) a)"

lemma IS_STR_no: "no_string vm (VAL_OBJ a) \<Longrightarrow> IS_STR (VAL_OBJ a) vm = Inr False"
  by (auto simp: no_string_def IS_STR_def obj_body_of_def is_str_def split: option.splits obj_body.splits)

lemma fails_binary:
  assumes "binary_ty ty" and c: "at_code K (map opcode_byte (binary_code ty) @ bs) vm"
    and s: "stack_list vm = b # a # rest" and bnd: "in_bounds vm" and v: "apply_binary ty a b = None"
    and "traced vm" and str: "no_string vm a" "no_string vm b"
  shows "fails native vm"
proof -
  have num: "ty \<noteq> TOKEN_EQUAL_EQUAL" "ty \<noteq> TOKEN_BANG_EQUAL" "as_number a = None \<or> as_number b = None"
    using v by (auto simp: apply_binary_def split: if_splits option.splits)
  have s1: "stack_list (next_byte vm) = b # a # rest" using s by simp
  have op: "fails native vm" if "at_code K (opcode_byte op # bs') vm" "(exec_op native op, f) \<in> set (tl arith_table)" for op f bs'
    using arith_error_spec [OF that(2) s1 _ num(3)] bnd by (intro fails_op [OF that(1) assms(6)]) simp
  have add: "fails native vm" if "at_code K (opcode_byte OP_ADD # bs') vm" for bs'
  proof (rule fails_op [OF that assms(6)])
    let ?e = "ERROR ''Operands must be two numbers/booleans/strings.''"
    have pk: "PEEK 0 (next_byte vm) = Inr b" "PEEK 1 (next_byte vm) = Inr a" using s1 by (simp_all add: PEEK_ok)
    have "IS_STR b (next_byte vm) = Inr False" if "AS_TYPE b = VT_OBJ"
      using that str(2) IS_STR_no [of "next_byte vm"]
      by (cases b) (auto simp: no_string_def next_byte_def split: list.split)
    with pk binary_op_spec(2) [of "bool_int (+)" "\<lambda>x y. VAL_NUM (d_add x y)", OF bool_doubles(1) s1 _ num(3)] bnd
    show "exec_op native OP_ADD (next_byte vm) = ?e (next_byte vm)"
      by (simp add: op_ADD_def)
  qed
  from assms(1) num(1,2) c add show ?thesis
    using op [of OP_LT _ "\<lambda>x y. VAL_BOOL (d_lt x y)"] op [of OP_LE _ "\<lambda>x y. VAL_BOOL (d_le x y)"]
      op [of OP_SUB _ "\<lambda>x y. VAL_NUM (d_sub x y)"] op [of OP_MUL _ "\<lambda>x y. VAL_NUM (d_mul x y)"]
      op [of OP_DIV _ "\<lambda>x y. VAL_NUM (d_div x y)"]
    by (auto simp: binary_ty_def arith_table_def)
qed

subsection \<open>Expressions\<close>

lemma literal_no_string: "\<forall>i. no_string vm (env i) \<Longrightarrow> no_string vm (literal_value env ty)"
  by (simp add: literal_value_def no_string_def)

lemma apply_no_string: "apply_unary ty a = Some v \<Longrightarrow> no_string vm v" "apply_binary ty a b = Some v \<Longrightarrow> no_string vm v"
proof -
  show "no_string vm v" if "apply_unary ty a = Some v"
    using that by (cases a) (auto simp: apply_unary_def no_string_def split: if_splits)
  show "no_string vm v" if "apply_binary ty a b = Some v"
  proof -
    have "(\<exists>b. v = VAL_BOOL b) \<or> (\<exists>x y. v = apply_numbers ty x y)"
      using that by (auto simp: apply_binary_def split: if_splits option.splits)
    then show ?thesis by (cases ty) (auto simp: no_string_def)
  qed
qed

lemma eval_no_string:
  assumes "\<forall>i. no_string vm (env i)" and "eval s ls env e = Some v"
  shows "no_string vm v"
  using assms
proof (induction e arbitrary: v)
  case (Number t)
  then show ?case by (auto simp: no_string_def)
qed (auto simp: Option.bind_eq_Some_conv literal_no_string intro: apply_no_string split: if_splits)

lemma no_string_steps: "no_string vm v \<Longrightarrow> steps n vm vm' \<Longrightarrow> no_string vm' v"
  by (simp add: no_string_def steps_def same_store_def)

definition stops_at_error :: "natives \<Rightarrow> src_t \<Rightarrow> local_t list \<Rightarrow> (nat \<Rightarrow> val_t) \<Rightarrow> expr \<Rightarrow> bool" where
  "stops_at_error native s ls env e \<longleftrightarrow> (\<forall>K rest cs bs cs' vm. runnable s ls env e K rest cs bs cs' vm \<longrightarrow>
     traced vm \<longrightarrow> (\<forall>i. no_string vm (env i)) \<longrightarrow> eval s ls env e = None \<longrightarrow> fails native vm)"

lemma stops_leaf:
  "stops_at_error native s ls env (Number t)" "stops_at_error native s ls env (Literal t)"
  "stops_at_error native s ls env (Name t)"
  by (auto simp: stops_at_error_def runnable_def split: option.splits)

lemma stops_Paren: "stops_at_error native s ls env e \<Longrightarrow> stops_at_error native s ls env (Paren t e u)"
  by (fastforce simp: stops_at_error_def runnable_def)

lemma stops_Prefix:
  assumes IH: "stops_at_error native s ls env e"
  shows "stops_at_error native s ls env (Prefix t e)"
  unfolding stops_at_error_def
proof (intro allI impI)
  fix K rest cs bs cs' vm
  assume r: "runnable s ls env (Prefix t e) K rest cs bs cs' vm" and tr: "traced vm"
    and ns: "\<forall>i. no_string vm (env i)" and v: "eval s ls env (Prefix t e) = None"
  let ?op = "opcode_byte (unary_code (tok_type t))"
  from r obtain xs where xs: "comp s ls e cs = (xs, cs')" "bs = xs @ at_tok (last (tokens e)) [?op]"
    by (auto simp: runnable_def Let_def split: prod.splits)
  have re: "runnable s ls env e K (?op # rest) cs xs cs' vm"
    using r xs by (auto simp: runnable_def at_tok_def)
  show "fails native vm"
  proof (cases "eval s ls env e")
    case None
    with IH re tr ns show ?thesis unfolding stops_at_error_def by blast
  next
    case (Some a)
    then have d: "does native (length xs) vm (a # stack_list vm)" using evaluates re unfolding evaluates_def by blast
    show ?thesis
    proof (rule fails_after [OF d])
      show "at_code K (map fst xs @ ?op # rest) vm" using re by (simp add: runnable_def)
      fix vm' assume 1: "steps (length xs) vm vm'" "stack_list vm' = a # stack_list vm" "at_code K (?op # rest) vm'"
      from fails_unary [OF 1(3,2) traced_steps [OF tr 1(1)]] v Some show "fails native vm'" by simp
    qed simp
  qed
qed

lemma stops_Infix:
  assumes l: "stops_at_error native s ls env l" and r: "stops_at_error native s ls env r"
  shows "stops_at_error native s ls env (Infix l t r)"
  unfolding stops_at_error_def
proof (intro allI impI)
  fix K rest cs bs cs' vm
  assume e: "runnable s ls env (Infix l t r) K rest cs bs cs' vm" and tr: "traced vm"
    and ns: "\<forall>i. no_string vm (env i)" and v: "eval s ls env (Infix l t r) = None"
  let ?ops = "map opcode_byte (binary_code (tok_type t))"
  from e obtain xs ys cs1 where c: "comp s ls l cs = (xs, cs1)" "comp s ls r cs1 = (ys, cs')"
    "bs = xs @ ys @ at_tok (last (tokens r)) ?ops"
    by (auto simp: runnable_def Let_def split: prod.splits)
  have code: "at_code K (map fst xs @ map fst ys @ ?ops @ rest) vm"
    using e c(3) by (simp add: runnable_def at_tok_def comp_def)
  have left: "runnable s ls env l K (map fst ys @ ?ops @ rest) cs xs cs1 vm"
    by (rule runnable_left [OF c(1,2) _ _ _ _ _ _ _ code]) (use e c(3) in \<open>auto simp: runnable_def\<close>)
  have ty: "binary_ty (tok_type t)" and bnd: "in_bounds vm" using e by (simp_all add: runnable_def)
  show "fails native vm"
  proof (cases "eval s ls env l")
    case None
    with l left tr ns show ?thesis unfolding stops_at_error_def by blast
  next
    case (Some a)
    then have d: "does native (length xs) vm (a # stack_list vm)" using evaluates left unfolding evaluates_def by blast
    show ?thesis
    proof (rule fails_after [OF d code])
      fix vm1 assume 1: "steps (length xs) vm vm1" "stack_list vm1 = a # stack_list vm"
        "at_code K (map fst ys @ ?ops @ rest) vm1"
      have room: "vm_top vm + 1 + stack_need r \<le> STACK_MAX" using e by (auto simp: runnable_def)
      note m = behind_operand [OF bnd _ 1(1,2)]
      have right: "runnable s ls env r K (?ops @ rest) cs1 ys cs' vm1"
        by (rule runnable_right [OF left c(2) _ _ _ _ 1(3)]) (use e c(3) m room in \<open>auto simp: runnable_def\<close>)
      note tr1 = traced_steps [OF tr 1(1)]
      show "fails native vm1"
      proof (cases "eval s ls env r")
        case None
        with r right tr1 ns no_string_steps [OF _ 1(1)] show ?thesis unfolding stops_at_error_def by blast
      next
        case (Some b)
        then have d: "does native (length ys) vm1 (b # stack_list vm1)" using evaluates right unfolding evaluates_def by blast
        show ?thesis
        proof (rule fails_after [OF d 1(3)])
          fix vm2 assume 2: "steps (length ys) vm1 vm2" "stack_list vm2 = b # stack_list vm1" "at_code K (?ops @ rest) vm2"
          have b2: "in_bounds vm2"
            using right stack_need_pos [of r] by (intro behind_operand(1) [OF _ _ 2(1,2)]) (auto simp: runnable_def)
          have s2: "stack_list vm2 = b # a # stack_list vm" using 1(2) 2(2) by simp
          have ab: "no_string vm2 a" "no_string vm2 b"
            using no_string_steps [OF no_string_steps [OF _ 1(1)] 2(1)] eval_no_string [OF ns] \<open>eval s ls env l = Some a\<close> Some
            by blast+
          show "fails native vm2"
            by (rule fails_binary [OF ty 2(3) s2 b2 _ traced_steps [OF tr1 2(1)] ab])
              (use v Some \<open>eval s ls env l = Some a\<close> in simp)
        qed simp
      qed
    qed simp
  qed
qed

text \<open>The right operand of \<open>And\<close> or \<open>Or\<close>.\<close>

lemma fails_right:
  assumes r: "stops_at_error native s ls env r" and left: "runnable s ls env l K rest' cs xs cs1 vm"
    and "comp s ls r cs1 = (ys, cs')" and "prefix (arr_values cs') K" and "arr_count cs' \<le> 256"
    and "length ys \<le> 65535" and "expr_ok s ls r" and v: "eval s ls env r = None"
    and "vm_top vm + stack_need r \<le> STACK_MAX"
    and code: "at_code K (opcode_byte OP_POP # map fst ys @ rest) vm'" and s: "stack_list vm' = a # stack_list vm"
    and st: "steps m vm vm'" and "traced vm" and ns: "\<forall>i. no_string vm (env i)"
  shows "fails native vm'"
proof (rule fails_after)
  show "does native 1 vm' (stack_list vm)" by (rule does_POP [OF code s])
  show "at_code K ([opcode_byte OP_POP] @ map fst ys @ rest) vm'" using code by simp
  fix vm2 assume 2: "steps 1 vm' vm2" "stack_list vm2 = stack_list vm" "at_code K (map fst ys @ rest) vm2"
  have s2: "steps (m + 1) vm vm2" by (rule steps_trans [OF st 2(1)])
  have top: "vm_top vm2 = vm_top vm" using arg_cong [OF 2(2), of length] by simp
  have "in_bounds vm2" "env_at (length ls) env vm2"
    using in_bounds_steps [OF _ s2] env_steps [OF _ s2, of _ _ "[]"] left top 2(2)
    by (auto simp: runnable_def in_bounds_def)
  then have "runnable s ls env r K rest cs1 ys cs' vm2"
    using assms(3-7,9) 2(3) top by (intro runnable_right [OF left]) auto
  then show "fails native vm2"
    using r v traced_steps [OF assms(13) s2] no_string_steps [OF _ s2] ns unfolding stops_at_error_def by blast
qed simp

lemma stops_Conj:
  assumes l: "stops_at_error native s ls env l" and r: "stops_at_error native s ls env r"
  shows "stops_at_error native s ls env (Conj l t r)"
  unfolding stops_at_error_def
proof (intro allI impI)
  fix K rest cs bs cs' vm
  assume e: "runnable s ls env (Conj l t r) K rest cs bs cs' vm" and tr: "traced vm"
    and ns: "\<forall>i. no_string vm (env i)" and v: "eval s ls env (Conj l t r) = None"
  from e obtain xs ys cs1 where c: "comp s ls l cs = (xs, cs1)" "comp s ls r cs1 = (ys, cs')"
    "bs = xs @ at_tok t (jump_over OP_JMPF (1 + length ys) @ [opcode_byte OP_POP]) @ ys"
    by (auto simp: runnable_def Let_def split: prod.splits)
  let ?jump = "jump_over OP_JMPF (1 + length ys)" and ?right = "opcode_byte OP_POP # map fst ys @ rest"
  have len: "length bs = length xs + (3 + (1 + length ys))" using c(3) by (simp add: at_tok_def jump_over_def)
  have code: "at_code K (map fst xs @ ?jump @ ?right) vm"
    using e c(3) by (simp add: runnable_def at_tok_def comp_def jump_over_def)
  have left: "runnable s ls env l K (?jump @ ?right) cs xs cs1 vm"
    by (rule runnable_left [OF c(1,2) _ _ _ _ _ _ _ code]) (use e len in \<open>auto simp: runnable_def\<close>)
  have n: "1 + length ys \<le> 65535" using e len by (simp add: runnable_def)
  show "fails native vm"
  proof (cases "eval s ls env l")
    case None
    with l left tr ns show ?thesis unfolding stops_at_error_def by blast
  next
    case (Some a)
    then have d: "does native (length xs) vm (a # stack_list vm)" using evaluates left unfolding evaluates_def by blast
    from v Some have a: "\<not> IS_FALSEY a" and vr: "eval s ls env r = None" by (auto split: if_splits)
    show ?thesis
    proof (rule fails_after [OF d code])
      fix vm1 assume 1: "steps (length xs) vm vm1" "stack_list vm1 = a # stack_list vm" "at_code K (?jump @ ?right) vm1"
      have j: "does native 3 vm1 (a # stack_list vm)" using does_JMPF [OF 1(3) n 1(2), of native] a by simp
      show "fails native vm1"
      proof (rule fails_after [OF j 1(3)])
        fix vm2 assume 2: "steps 3 vm1 vm2" "stack_list vm2 = a # stack_list vm" "at_code K ?right vm2"
        show "fails native vm2"
          by (rule fails_right [OF r left c(2) _ _ _ _ vr _ 2(3,2) steps_trans [OF 1(1) 2(1)] tr ns])
            (use e n in \<open>auto simp: runnable_def\<close>)
      qed (simp add: jump_over_def)
    qed simp
  qed
qed

lemma stops_Disj:
  assumes l: "stops_at_error native s ls env l" and r: "stops_at_error native s ls env r"
  shows "stops_at_error native s ls env (Disj l t r)"
  unfolding stops_at_error_def
proof (intro allI impI)
  fix K rest cs bs cs' vm
  assume e: "runnable s ls env (Disj l t r) K rest cs bs cs' vm" and tr: "traced vm"
    and ns: "\<forall>i. no_string vm (env i)" and v: "eval s ls env (Disj l t r) = None"
  from e obtain xs ys cs1 where c: "comp s ls l cs = (xs, cs1)" "comp s ls r cs1 = (ys, cs')"
    "bs = xs @ at_tok t (jump_over OP_JMPF 3 @ jump_over OP_JMP (1 + length ys) @ [opcode_byte OP_POP]) @ ys"
    by (auto simp: runnable_def Let_def split: prod.splits)
  let ?jumps = "jump_over OP_JMPF 3 @ jump_over OP_JMP (1 + length ys)" and ?right = "opcode_byte OP_POP # map fst ys @ rest"
  have len: "length bs = length xs + (6 + (1 + length ys))" using c(3) by (simp add: at_tok_def jump_over_def)
  have code: "at_code K (map fst xs @ ?jumps @ ?right) vm"
    using e c(3) by (simp add: runnable_def at_tok_def comp_def jump_over_def)
  have left: "runnable s ls env l K (?jumps @ ?right) cs xs cs1 vm"
    by (rule runnable_left [OF c(1,2) _ _ _ _ _ _ _ code]) (use e len in \<open>auto simp: runnable_def\<close>)
  have n: "1 + length ys \<le> 65535" using e len by (simp add: runnable_def)
  show "fails native vm"
  proof (cases "eval s ls env l")
    case None
    with l left tr ns show ?thesis unfolding stops_at_error_def by blast
  next
    case (Some a)
    then have d: "does native (length xs) vm (a # stack_list vm)" using evaluates left unfolding evaluates_def by blast
    from v Some have a: "IS_FALSEY a" and vr: "eval s ls env r = None" by (auto split: if_splits)
    show ?thesis
    proof (rule fails_after [OF d code])
      fix vm1 assume 1: "steps (length xs) vm vm1" "stack_list vm1 = a # stack_list vm" "at_code K (?jumps @ ?right) vm1"
      have j: "does native 6 vm1 (a # stack_list vm)"
        using does_JMPF [of K 3 "jump_over OP_JMP (1 + length ys) @ ?right" vm1 a, OF _ _ 1(2), of native] 1(3) a by simp
      show "fails native vm1"
      proof (rule fails_after [OF j 1(3)])
        fix vm2 assume 2: "steps 6 vm1 vm2" "stack_list vm2 = a # stack_list vm" "at_code K ?right vm2"
        show "fails native vm2"
          by (rule fails_right [OF r left c(2) _ _ _ _ vr _ 2(3,2) steps_trans [OF 1(1) 2(1)] tr ns])
            (use e n in \<open>auto simp: runnable_def\<close>)
      qed (simp add: jump_over_def)
    qed simp
  qed
qed

lemma stops_at_error: "stops_at_error native s ls env e"
  by (induction e) (simp_all add: stops_leaf stops_Paren stops_Prefix stops_Infix stops_Conj stops_Disj)

end
