(* ===== verification/Print_Running.thy ===== *)
theory Print_Running
  imports Print_Compiled Expr_Failing
begin

text \<open>
  The code of a \<open>Print\<close> statement in the machine: it prints the line of the values and leaves the stack as it was.
\<close>

subsection \<open>What a statement prints\<close>

text \<open>The text of the values that expressions have; the only object among them is the script itself.\<close>

fun value_text :: "val_t \<Rightarrow> out_item list" where
  "value_text VAL_NULL = [Out_text ''null'']"
| "value_text (VAL_BOOL b) = [Out_text (if b then ''true'' else ''false'')]"
| "value_text (VAL_NUM n) = [Out_num n]"
| "value_text _ = [Out_text ''<script>'']"

fun eval_parts :: "src_t \<Rightarrow> local_t list \<Rightarrow> (nat \<Rightarrow> val_t) \<Rightarrow> print_stmt \<Rightarrow> val_t list option" where
  "eval_parts s ls env [] = Some []"
| "eval_parts s ls env ((c, e) # es) =
     Option.bind (eval s ls env e) (\<lambda>v. map_option ((#) v) (eval_parts s ls env es))"

definition line_text :: "val_t list \<Rightarrow> out_item list" where
  "line_text vs = print_line (length vs) (\<lambda>i. value_text (vs ! i))"

text \<open>The room on the stack that the values of a statement take.\<close>

fun parts_need :: "print_stmt \<Rightarrow> nat" where
  "parts_need [] = 0"
| "parts_need ((c, e) # es) = max (stack_need e) (1 + parts_need es)"

definition runs_ok :: "src_t \<Rightarrow> local_t list \<Rightarrow> nat \<Rightarrow> print_stmt \<Rightarrow> bool" where
  "runs_ok s ls base es \<longleftrightarrow> (\<forall>(c, e) \<in> set es. expr_ok s ls e) \<and> base + parts_need es \<le> STACK_MAX"

subsection \<open>The values of a statement\<close>

lemma eval_parts_length: "eval_parts s ls env es = Some vs \<Longrightarrow> length vs = length es"
  by (induction es arbitrary: vs) (auto simp: Option.bind_eq_Some_conv)

lemma comp_parts_plain:
  assumes "comp_parts s ls es cs = (bs, cs')" and "arr_ok cs" and "\<forall>v \<in> set (arr_values cs). plain v"
  shows "\<forall>v \<in> set (arr_values cs'). plain v"
  using assms
proof (induction es arbitrary: cs bs cs')
  case (Cons x es)
  obtain c e where x: "x = (c, e)" by (cases x)
  from Cons.prems x obtain xs cs1 ys where c: "comp s ls e cs = (xs, cs1)" "comp_parts s ls es cs1 = (ys, cs')"
    by (auto simp: Let_def split: prod.splits)
  with Cons comp_grows [OF c(1)] comp_plain [OF c(1)] show ?case by blast
qed simp

lemma does_parts:
  assumes "comp_parts s ls es cs = (bs, cs')" and "arr_ok cs" and "\<forall>v \<in> set (arr_values cs). plain v"
    and "prefix (arr_values cs') K" and "arr_count cs' \<le> 256" and "length bs \<le> 65535" and "length ls \<le> 256"
    and "runs_ok s ls (vm_top vm) es" and "at_code K (map fst bs @ rest) vm" and "in_bounds vm"
    and "env_at (length ls) env vm" and "eval_parts s ls env es = Some vs"
  shows "does native (length bs) vm (rev vs @ stack_list vm)"
  using assms
proof (induction es arbitrary: cs bs vs vm)
  case Nil
  then show ?case using does_0 by auto
next
  case (Cons x es)
  obtain c e where x: "x = (c, e)" by (cases x)
  from Cons.prems(1) x obtain xs cs1 ys where c: "comp s ls e cs = (xs, cs1)" "comp_parts s ls es cs1 = (ys, cs')"
    "bs = xs @ ys"
    by (auto simp: Let_def split: prod.splits)
  from Cons.prems(12) x obtain v ws where v: "eval s ls env e = Some v" "eval_parts s ls env es = Some ws" "vs = v # ws"
    by (auto simp: Option.bind_eq_Some_conv)
  have g: "arr_ok cs1" "prefix (arr_values cs1) (arr_values cs')" "arr_ok cs'" "\<forall>v \<in> set (arr_values cs1). plain v"
    using comp_grows [OF c(1)] comp_parts_grows [OF c(2)] comp_plain [OF c(1)] Cons.prems(2,3) by simp_all
  have need: "expr_ok s ls e" "vm_top vm + stack_need e \<le> STACK_MAX" "vm_top vm + 1 + parts_need es \<le> STACK_MAX"
    using Cons.prems(8) x by (auto simp: runs_ok_def)
  have code: "at_code K (map fst xs @ map fst ys @ rest) vm" using Cons.prems(9) c(3) by simp
  have "runnable s ls env e K (map fst ys @ rest) cs xs cs1 vm"
    using Cons.prems need code c(1,3) g prefix_count [OF g(1,3,2)]
    by (auto simp: runnable_def intro: prefix_order.trans)
  then have e: "does native (length xs) vm (v # stack_list vm)"
    using evaluates [of native s ls env e] v(1) unfolding evaluates_def by blast
  have "does native (length xs + length ys) vm (rev ws @ v # stack_list vm)"
  proof (rule does_trans [OF e code])
    fix vm1 assume 1: "steps (length xs) vm vm1" "stack_list vm1 = v # stack_list vm" "at_code K (map fst ys @ rest) vm1"
    have t: "vm_top vm1 = vm_top vm + 1" using arg_cong [OF 1(2), of length] by simp
    have "does native (length ys) vm1 (rev ws @ stack_list vm1)"
    proof (rule Cons.IH [OF c(2) g(1,4) Cons.prems(4,5)])
      show "runs_ok s ls (vm_top vm1) es" using Cons.prems(8) need(3) t by (simp add: runs_ok_def)
      show "in_bounds vm1" using in_bounds_steps [OF Cons.prems(10) 1(1)] need(3) t by simp
      show "env_at (length ls) env vm1" using env_steps [OF Cons.prems(11) 1(1), of "[v]"] 1(2) by simp
    qed (use Cons.prems(6,7) c(3) 1(3) v(2) in simp_all)
    with 1(2) show "does native (length ys) vm1 (rev ws @ v # stack_list vm)" by simp
  qed simp
  then show ?case using c(3) v(3) by simp
qed

subsection \<open>The statements\<close>

text \<open>The machine has written \<open>out\<close>; otherwise only the stack has changed, and the instruction pointer, by \<open>n\<close>.\<close>

definition prints :: "nat \<Rightarrow> out_item list \<Rightarrow> vm_t \<Rightarrow> vm_t \<Rightarrow> bool" where
  "prints n out vm vm' \<longleftrightarrow> steps n (vm\<lparr>stdout := stdout vm @ out\<rparr>) vm'"

lemma steps_prints: "steps n a b \<Longrightarrow> prints n [] a b"
  by (simp add: prints_def)

lemma prints_trans: "prints n out a b \<Longrightarrow> prints m out' b c \<Longrightarrow> prints (n + m) (out @ out') a c"
  by (auto simp: prints_def steps_def same_store_def)

lemma at_code_prints: "at_code K (xs @ ys) vm \<Longrightarrow> prints (length xs) out vm vm' \<Longrightarrow> at_code K ys vm'"
  unfolding prints_def by (rule at_code_steps [where vm = "vm\<lparr>stdout := stdout vm @ out\<rparr>"]) (auto simp: at_code_def)

text \<open>The values that the locals have print as \<open>value_text\<close> says, and so do all values of expressions.\<close>

definition shown :: "(nat \<Rightarrow> val_t) \<Rightarrow> vm_t \<Rightarrow> bool" where
  "shown env vm \<longleftrightarrow> (\<forall>i. val_print (env i) vm = Inr (value_text (env i)))"

lemma val_print_heap: "heap vm' = heap vm \<Longrightarrow> val_print v vm' = val_print v vm"
  by (simp only: val_print_def obj_print_def)

lemma shown_heap: "shown env vm \<Longrightarrow> heap vm' = heap vm \<Longrightarrow> shown env vm'"
  using val_print_heap [of vm' vm] by (simp add: shown_def)

lemma val_print_simps [simp]:
  "val_print VAL_NULL vm = Inr (value_text VAL_NULL)" "val_print (VAL_BOOL b) vm = Inr (value_text (VAL_BOOL b))"
  "val_print (VAL_NUM x) vm = Inr (value_text (VAL_NUM x))"
  by (simp_all add: val_print_def)

lemma literal_value_shown: "shown env vm \<Longrightarrow> val_print (literal_value env ty) vm = Inr (value_text (literal_value env ty))"
  by (simp add: shown_def literal_value_def)

lemma apply_unary_shown: "apply_unary ty a = Some v \<Longrightarrow> val_print v vm = Inr (value_text v)"
  by (cases a) (auto simp: apply_unary_def split: if_splits)

lemma apply_binary_shown: "apply_binary ty a b = Some v \<Longrightarrow> val_print v vm = Inr (value_text v)"
proof -
  assume "apply_binary ty a b = Some v"
  then have "(\<exists>b. v = VAL_BOOL b) \<or> (\<exists>x y. v = apply_numbers ty x y)"
    by (auto simp: apply_binary_def split: if_splits option.splits)
  then show ?thesis by (cases ty) auto
qed

lemma eval_shown:
  assumes "shown env vm" and "eval s ls env e = Some v"
  shows "val_print v vm = Inr (value_text v)"
  using assms
proof (induction e arbitrary: v)
  case (Name t)
  then show ?case by (auto simp: shown_def)
qed (auto simp: Option.bind_eq_Some_conv literal_value_shown
    dest: apply_unary_shown apply_binary_shown split: if_splits)

lemma eval_parts_shown:
  "shown env vm \<Longrightarrow> eval_parts s ls env es = Some vs \<Longrightarrow> i < length vs \<Longrightarrow> val_print (vs ! i) vm = Inr (value_text (vs ! i))"
proof (induction es arbitrary: vs i)
  case (Cons x es)
  then show ?case
    by (cases x; cases i) (auto simp: Option.bind_eq_Some_conv intro: eval_shown)
qed simp

lemma vm_step_at:
  assumes "at_code K (opcode_byte op # bs) vm"
  shows "vm_step native vm = exec_op native op (next_byte vm)"
  using at_READ_BYTE(1) [OF assms] by (simp add: vm_step_def)

lemma runs_PRINT:
  assumes c: "at_code K (opcode_byte OP_PRINT # n # bs) vm" and s: "stack_list vm = rev vs @ rest"
    and n: "length vs = unat n" and sh: "\<forall>i < length vs. val_print (vs ! i) vm = Inr (value_text (vs ! i))"
  shows "\<exists>vm'. vm_runs native vm vm' \<and> prints 2 (line_text vs) vm vm' \<and> stack_list vm' = rest"
proof -
  note 1 = at_READ_BYTE [OF c]
  note 2 = at_READ_BYTE [OF 1(2)]
  let ?vm = "next_byte (next_byte vm)"
  have st: "steps 2 vm ?vm" using steps_trans [OF 1(3) 2(3)] by (simp add: numeral_2_eq_2)
  then have "heap ?vm = heap vm" by (simp add: steps_def same_store_def)
  then have sh': "\<forall>i < length vs. val_print (vs ! i) ?vm = Inr (value_text (vs ! i))"
    using sh val_print_heap [of ?vm vm] by metis
  have "stack_list ?vm = rev vs @ rest" using s by simp
  from op_PRINT_line [OF 2(1) this n sh'] obtain vm' where vm': "op_PRINT (next_byte vm) = Inr (NEXT, vm')"
    "stack_list vm' = rest" "only_stack (?vm\<lparr>stdout := stdout ?vm @ line_text vs\<rparr>) vm'"
    unfolding line_text_def by blast
  have "vm_step native vm = Inr (NEXT, vm')" using vm_step_at [OF c] vm'(1) by simp
  moreover have "prints 2 (line_text vs) vm vm'"
  proof -
    let ?out = "\<lambda>m. m\<lparr>stdout := stdout m @ line_text vs\<rparr>"
    have "steps 2 (?out vm) (?out ?vm)" using st by (auto simp: steps_def same_store_def)
    then show ?thesis unfolding prints_def by (rule steps_stack) (rule vm'(3))
  qed
  ultimately show ?thesis using vm'(2) by (blast intro: vm_runs.intros)
qed

lemma vm_execute_from: "vm_runs native vm vm' \<Longrightarrow> vm_execute native vm = vm_execute native vm'"
proof (induction rule: vm_runs.induct)
  case (vm_runs_step vm1 vm2)
  then show ?case by (subst (asm) vm_execute.simps [of native vm1]) simp
qed simp

end
