(* ===== verification/Statements.thy ===== *)
theory Statements
  imports Print_Running
begin

text \<open>
  A specification of the statements without calls and globals: \<open>Print\<close>, \<open>If\<close>, blocks, local variables and
  their assignment. It gives the syntax trees, the code that a tree stands for, and what the tree means: the lines that it
  prints and the values of the variables behind it, or that it stops at an error. The branches of \<open>If\<close> are
  \<open>Print\<close>, \<open>If\<close> and blocks: the compiler does not return from branches that start with an assignment.
\<close>

subsection \<open>Syntax\<close>

datatype stmt =
    Print print_stmt
  | IfThen tok_t expr tok_t stmt "tok_t option"
  | IfElse tok_t expr tok_t stmt tok_t stmt "tok_t option"
  | Block tok_t "stmt list" tok_t
  | Var tok_t tok_t "(tok_t \<times> expr) option"
  | Assign tok_t tok_t expr

fun stmt_tokens :: "stmt \<Rightarrow> tok_t list" and stmts_tokens :: "stmt list \<Rightarrow> tok_t list" where
  "stmt_tokens (Print es) = part_tokens es"
| "stmt_tokens (IfThen i e h S u) = i # tokens e @ h # stmt_tokens S @ (case u of None \<Rightarrow> [] | Some u \<Rightarrow> [u])"
| "stmt_tokens (IfElse i e h S l R u) =
     i # tokens e @ h # stmt_tokens S @ l # stmt_tokens R @ (case u of None \<Rightarrow> [] | Some u \<Rightarrow> [u])"
| "stmt_tokens (Block a Ss b) = a # stmts_tokens Ss @ [b]"
| "stmt_tokens (Var v x init) = v # x # (case init of None \<Rightarrow> [] | Some (q, e) \<Rightarrow> q # tokens e)"
| "stmt_tokens (Assign x q e) = x # q # tokens e"
| "stmts_tokens [] = []"
| "stmts_tokens (S # Ss) = stmt_tokens S @ stmts_tokens Ss"

text \<open>The variable that a statement declares in a scope of depth \<open>d\<close>.\<close>

definition local_of :: "tok_t \<Rightarrow> int \<Rightarrow> local_t" where
  "local_of x d = \<lparr>lc_start = tok_start x, lc_length = tok_length x, lc_depth = d\<rparr>"

fun declared :: "int \<Rightarrow> stmt \<Rightarrow> local_t list" where
  "declared d (Var v x init) = [local_of x d]"
| "declared d _ = []"

fun branch :: "stmt \<Rightarrow> bool" where
  "branch (Var v x init) = False"
| "branch (Assign x q e) = False"
| "branch _ = True"

text \<open>
  The statement \<open>S\<close> in a scope of depth \<open>d\<close>, with \<open>t\<close> the token behind it. An \<open>If\<close> needs \<open>End\<close> or \<open>EndIf\<close> when its
  branch does not start on the line of \<open>Then\<close>, and has none otherwise.
\<close>

definition closes :: "tok_t \<Rightarrow> stmt \<Rightarrow> tok_t option \<Rightarrow> bool" where
  "closes h S u \<longleftrightarrow>
     (case u of
        None \<Rightarrow> tok_line (hd (stmt_tokens S)) = tok_line h
      | Some u \<Rightarrow> tok_line (hd (stmt_tokens S)) \<noteq> tok_line h \<and> tok_type u \<in> {TOKEN_END, TOKEN_ENDIF})"

fun stmt_ok :: "src_t \<Rightarrow> int \<Rightarrow> local_t list \<Rightarrow> stmt \<Rightarrow> tok_t \<Rightarrow> bool"
  and stmts_ok :: "src_t \<Rightarrow> int \<Rightarrow> local_t list \<Rightarrow> stmt list \<Rightarrow> tok_t \<Rightarrow> bool" where
  "stmt_ok s d ls (Print es) t \<longleftrightarrow> print_ok s ls es"
| "stmt_ok s d ls (IfThen i e h S u) t \<longleftrightarrow> tok_type i = TOKEN_IF \<and> tok_type h = TOKEN_THEN \<and> expr_ok s ls e \<and>
     branch S \<and> stmt_ok s d ls S (case u of None \<Rightarrow> t | Some u \<Rightarrow> u) \<and> closes h S u \<and>
     (u = None \<longrightarrow> tok_type t \<noteq> TOKEN_ELSE)"
| "stmt_ok s d ls (IfElse i e h S l R u) t \<longleftrightarrow> tok_type i = TOKEN_IF \<and> tok_type h = TOKEN_THEN \<and> expr_ok s ls e \<and>
     tok_type l = TOKEN_ELSE \<and> branch S \<and> stmt_ok s d ls S l \<and> branch R \<and>
     stmt_ok s d ls R (case u of None \<Rightarrow> t | Some u \<Rightarrow> u) \<and> closes h S u"
| "stmt_ok s d ls (Block a Ss b) t \<longleftrightarrow> tok_type a = TOKEN_LBRACE \<and> tok_type b = TOKEN_RBRACE \<and>
     stmts_ok s (d + 1) ls Ss b"
| "stmt_ok s d ls (Var v x init) t \<longleftrightarrow> tok_type v = TOKEN_VAR \<and> tok_type x = TOKEN_IDENTIFIER \<and> 0 < d \<and>
     length ls < 256 \<and> filter (identifiersEqual s x) (same_scope d ls) = [] \<and>
     (case init of None \<Rightarrow> True | Some (q, e) \<Rightarrow> tok_type q = TOKEN_EQUAL \<and> expr_ok s (ls @ [local_of x (-1)]) e)"
| "stmt_ok s d ls (Assign x q e) t \<longleftrightarrow> tok_type x = TOKEN_IDENTIFIER \<and> tok_type q = TOKEN_EQUAL \<and> 0 < d \<and>
     expr_ok s ls (Name x) \<and> expr_ok s ls e"
| "stmts_ok s d ls [] t \<longleftrightarrow> True"
| "stmts_ok s d ls (S # Ss) t \<longleftrightarrow> stmt_ok s d ls S (hd (stmts_tokens Ss @ [t])) \<and> stmts_ok s d (ls @ declared d S) Ss t"

subsection \<open>The code of a statement\<close>

text \<open>\<open>h\<close> is \<open>Then\<close>, and \<open>t\<close> the last token of the first branch.\<close>

definition if_code :: "tok_t \<Rightarrow> tok_t \<Rightarrow> emission \<Rightarrow> emission \<Rightarrow> emission \<Rightarrow> emission" where
  "if_code h t xs ys zs =
     xs @ at_tok h (jump_over OP_JMPF (4 + length ys) @ [opcode_byte OP_POP]) @ ys @
     at_tok t (jump_over OP_JMP (1 + length zs) @ [opcode_byte OP_POP]) @ zs"

definition pops :: "tok_t \<Rightarrow> nat \<Rightarrow> emission" where
  "pops t n = at_tok t (replicate n (opcode_byte OP_POP))"

fun comp_stmt :: "src_t \<Rightarrow> int \<Rightarrow> local_t list \<Rightarrow> stmt \<Rightarrow> arr_t \<Rightarrow> emission \<times> arr_t"
  and comp_stmts :: "src_t \<Rightarrow> int \<Rightarrow> local_t list \<Rightarrow> stmt list \<Rightarrow> arr_t \<Rightarrow> emission \<times> arr_t" where
  "comp_stmt s d ls (Print es) cs = (let (xs, cs1) = comp_parts s ls es cs in (xs @ print_code es (length es), cs1))"
| "comp_stmt s d ls (IfThen i e h S u) cs =
     (let (xs, cs1) = comp s ls e cs; (ys, cs2) = comp_stmt s d ls S cs1
      in (if_code h (last (stmt_tokens S)) xs ys [], cs2))"
| "comp_stmt s d ls (IfElse i e h S l R u) cs =
     (let (xs, cs1) = comp s ls e cs; (ys, cs2) = comp_stmt s d ls S cs1; (zs, cs3) = comp_stmt s d ls R cs2
      in (if_code h (last (stmt_tokens S)) xs ys zs, cs3))"
| "comp_stmt s d ls (Block a Ss b) cs =
     (let (xs, cs1) = comp_stmts s (d + 1) ls Ss cs
      in (xs @ pops b (length (concat (map (declared (d + 1)) Ss))), cs1))"
| "comp_stmt s d ls (Var v x init) cs =
     (case init of None \<Rightarrow> (at_tok x [opcode_byte OP_NIL], cs) | Some (q, e) \<Rightarrow> comp s ls e cs)"
| "comp_stmt s d ls (Assign x q e) cs =
     (let (xs, cs1) = comp s ls e cs
      in (xs @ at_tok (last (tokens e)) [opcode_byte OP_ST, word_of_nat (the (find_local s x ls (length ls))),
          opcode_byte OP_POP], cs1))"
| "comp_stmts s d ls [] cs = ([], cs)"
| "comp_stmts s d ls (S # Ss) cs =
     (let (xs, cs1) = comp_stmt s d ls S cs; (ys, cs2) = comp_stmts s d (ls @ declared d S) Ss cs1 in (xs @ ys, cs2))"

subsection \<open>The meaning of a statement\<close>

text \<open>
  \<open>vals\<close> are the values of the locals \<open>ls\<close>. The result is the output and the values behind the statement, \<open>None\<close>
  when an operand of a wrong type has stopped the program.
\<close>

definition env_of :: "val_t list \<Rightarrow> nat \<Rightarrow> val_t" where
  "env_of vals i = (if i < length vals then vals ! i else VAL_NULL)"

type_synonym outcome = "out_item list \<times> val_t list option"

definition continue :: "outcome \<Rightarrow> (val_t list \<Rightarrow> outcome) \<Rightarrow> outcome" where
  "continue r k = (case snd r of None \<Rightarrow> (fst r, None) | Some vals \<Rightarrow> (let (out, r') = k vals in (fst r @ out, r')))"

definition with_value :: "val_t option \<Rightarrow> (val_t \<Rightarrow> outcome) \<Rightarrow> outcome" where
  "with_value v k = (case v of None \<Rightarrow> ([], None) | Some v \<Rightarrow> k v)"

fun exec :: "src_t \<Rightarrow> int \<Rightarrow> local_t list \<Rightarrow> stmt \<Rightarrow> val_t list \<Rightarrow> outcome"
  and execs :: "src_t \<Rightarrow> int \<Rightarrow> local_t list \<Rightarrow> stmt list \<Rightarrow> val_t list \<Rightarrow> outcome" where
  "exec s d ls (Print es) vals =
     (case eval_parts s ls (env_of vals) es of None \<Rightarrow> ([], None) | Some vs \<Rightarrow> (line_text vs, Some vals))"
| "exec s d ls (IfThen i e h S u) vals =
     with_value (eval s ls (env_of vals) e) (\<lambda>v. if IS_FALSEY v then ([], Some vals) else exec s d ls S vals)"
| "exec s d ls (IfElse i e h S l R u) vals =
     with_value (eval s ls (env_of vals) e) (\<lambda>v. if IS_FALSEY v then exec s d ls R vals else exec s d ls S vals)"
| "exec s d ls (Block a Ss b) vals =
     continue (execs s (d + 1) ls Ss vals) (\<lambda>vals'. ([], Some (take (length vals) vals')))"
| "exec s d ls (Var v x init) vals =
     with_value (case init of None \<Rightarrow> Some VAL_NULL | Some (q, e) \<Rightarrow> eval s ls (env_of vals) e)
       (\<lambda>v. ([], Some (vals @ [v])))"
| "exec s d ls (Assign x q e) vals =
     with_value (eval s ls (env_of vals) e)
       (\<lambda>v. ([], Some (vals[the (find_local s x ls (length ls)) := v])))"
| "execs s d ls [] vals = ([], Some vals)"
| "execs s d ls (S # Ss) vals = continue (exec s d ls S vals) (execs s d (ls @ declared d S) Ss)"

text \<open>The room on the stack that a statement takes.\<close>

fun need :: "stmt \<Rightarrow> nat" and needs :: "stmt list \<Rightarrow> nat" where
  "need (Print es) = parts_need es"
| "need (IfThen i e h S u) = max (stack_need e) (need S)"
| "need (IfElse i e h S l R u) = max (stack_need e) (max (need S) (need R))"
| "need (Block a Ss b) = needs Ss"
| "need (Var v x init) = (case init of None \<Rightarrow> 1 | Some (q, e) \<Rightarrow> stack_need e)"
| "need (Assign x q e) = stack_need e"
| "needs [] = 0"
| "needs (S # Ss) = max (need S) (length (declared 0 S) + needs Ss)"

subsection \<open>Facts about trees and their code\<close>

lemma comp_stmt_grows:
  "comp_stmt s d ls S cs = (bs, cs') \<Longrightarrow> arr_ok cs \<Longrightarrow> arr_ok cs' \<and> prefix (arr_values cs) (arr_values cs')"
  "comp_stmts s d ls Ss cs = (bs, cs') \<Longrightarrow> arr_ok cs \<Longrightarrow> arr_ok cs' \<and> prefix (arr_values cs) (arr_values cs')"
proof (induction s d ls S cs and s d ls Ss cs arbitrary: bs cs' and bs cs' rule: comp_stmt_comp_stmts.induct)
  case (1 s d ls es cs)
  then show ?case using comp_parts_grows by (auto simp: Let_def split: prod.splits)
next
  case (2 s d ls i e h S u cs)
  obtain xs cs1 ys cs2 where c: "comp s ls e cs = (xs, cs1)" "comp_stmt s d ls S cs1 = (ys, cs2)" by fastforce
  with 2 comp_grows [OF c(1)] show ?case by (auto intro: prefix_order.trans)
next
  case (3 s d ls i e h S l R u cs)
  obtain xs cs1 where c1: "comp s ls e cs = (xs, cs1)" by (cases "comp s ls e cs")
  obtain ys cs2 where c2: "comp_stmt s d ls S cs1 = (ys, cs2)" by (cases "comp_stmt s d ls S cs1")
  obtain zs cs3 where c3: "comp_stmt s d ls R cs2 = (zs, cs3)" by (cases "comp_stmt s d ls R cs2")
  note c = c1 c2 c3
  note 1 = comp_grows [OF c(1) 3(4)]
  with 3(1) c have 2: "arr_ok cs2 \<and> prefix (arr_values cs1) (arr_values cs2)" by simp
  with 3(2) c have "arr_ok cs3 \<and> prefix (arr_values cs2) (arr_values cs3)" by simp
  with 1 2 c 3(3) show ?case by (auto intro: prefix_order.trans)
next
  case (4 s d ls a Ss b cs)
  then show ?case by (auto simp: Let_def split: prod.splits)
next
  case (5 s d ls v x init cs)
  then show ?case using comp_grows by (auto split: option.splits)
next
  case (6 s d ls x q e cs)
  then show ?case using comp_grows by (auto simp: Let_def split: prod.splits)
next
  case (8 s d ls S Ss cs)
  then show ?case by (fastforce simp: Let_def split: prod.splits intro: prefix_order.trans)
qed simp

lemma comp_stmt_plain:
  "comp_stmt s d ls S cs = (bs, cs') \<Longrightarrow> arr_ok cs \<Longrightarrow> \<forall>v \<in> set (arr_values cs). plain v \<Longrightarrow>
    \<forall>v \<in> set (arr_values cs'). plain v"
  "comp_stmts s d ls Ss cs = (bs, cs') \<Longrightarrow> arr_ok cs \<Longrightarrow> \<forall>v \<in> set (arr_values cs). plain v \<Longrightarrow>
    \<forall>v \<in> set (arr_values cs'). plain v"
proof (induction s d ls S cs and s d ls Ss cs arbitrary: bs cs' and bs cs' rule: comp_stmt_comp_stmts.induct)
  case (1 s d ls es cs)
  obtain xs cs1 where c: "comp_parts s ls es cs = (xs, cs1)" by fastforce
  with 1 comp_parts_plain [OF c] show ?case by simp
next
  case (2 s d ls i e h S u cs)
  obtain xs cs1 ys cs2 where c: "comp s ls e cs = (xs, cs1)" "comp_stmt s d ls S cs1 = (ys, cs2)" by fastforce
  with 2 comp_plain [OF c(1)] comp_grows [OF c(1)] show ?case by simp
next
  case (3 s d ls i e h S l R u cs)
  obtain xs cs1 where c1: "comp s ls e cs = (xs, cs1)" by (cases "comp s ls e cs")
  obtain ys cs2 where c2: "comp_stmt s d ls S cs1 = (ys, cs2)" by (cases "comp_stmt s d ls S cs1")
  obtain zs cs3 where c3: "comp_stmt s d ls R cs2 = (zs, cs3)" by (cases "comp_stmt s d ls R cs2")
  note c = c1 c2 c3
  have 1: "arr_ok cs1" "\<forall>v \<in> set (arr_values cs1). plain v"
    using comp_plain [OF c(1)] comp_grows [OF c(1)] 3(4,5) by simp_all
  with 3(1) c have 2: "\<forall>v \<in> set (arr_values cs2). plain v" by simp
  have "arr_ok cs2" using comp_stmt_grows(1) [OF c(2) 1(1)] by simp
  with 3(2) c 2 have "\<forall>v \<in> set (arr_values cs3). plain v" by simp
  with c 3(3) show ?case by simp
next
  case (4 s d ls a Ss b cs)
  then show ?case by (auto simp: Let_def split: prod.splits)
next
  case (5 s d ls v x init cs)
  then show ?case using comp_plain by (auto split: option.splits)
next
  case (6 s d ls x q e cs)
  obtain xs cs1 where c: "comp s ls e cs = (xs, cs1)" by fastforce
  with 6 comp_plain [OF c] show ?case by simp
next
  case (8 s d ls S Ss cs)
  obtain xs cs1 ys cs2 where c: "comp_stmt s d ls S cs = (xs, cs1)" "comp_stmts s d (ls @ declared d S) Ss cs1 = (ys, cs2)"
    by fastforce
  have 1: "arr_ok cs1" using comp_stmt_grows(1) [OF c(1) "8.prems"(2)] by simp
  have "\<forall>v \<in> set (arr_values cs2). plain v"
    by (rule "8.IH"(2) [OF c(1) [symmetric] refl c(2) 1 "8.IH"(1) [OF c(1) "8.prems"(2,3)]])
  with c "8.prems"(1) show ?case by simp
qed simp

lemma branch_local: "branch S \<Longrightarrow> declared d S = []"
  by (cases S) simp_all

text \<open>The outermost scope has no variables.\<close>

lemma outermost: "stmt_ok s 0 ls S t \<Longrightarrow> branch S"
  by (cases S) simp_all

lemma outermost_locals: "stmts_ok s 0 ls Ss t \<Longrightarrow> concat (map (declared 0) Ss) = []"
proof (induction Ss arbitrary: ls)
  case (Cons S Ss)
  then show ?case using branch_local [OF outermost [of s ls S]] by fastforce
qed simp

text \<open>The token behind a statement; the first and the last token of one.\<close>

definition follows :: "tok_t \<Rightarrow> bool" where
  "follows t \<longleftrightarrow> prec_of t = PREC_NONE \<and> tok_type t \<noteq> TOKEN_EQUAL \<and> tok_type t \<noteq> TOKEN_COMMA"

lemma follows_types:
  "tok_type t \<in> {TOKEN_PRINT, TOKEN_IF, TOKEN_LBRACE, TOKEN_VAR, TOKEN_IDENTIFIER, TOKEN_RBRACE, TOKEN_EOF, TOKEN_THEN,
    TOKEN_ELSE, TOKEN_END, TOKEN_ENDIF} \<Longrightarrow> follows t"
  by (auto simp: follows_def prec_of_def getRule_def rules_def)

lemma print_tokens: "print_ok s ls es \<Longrightarrow> \<exists>c e fs. es = (c, e) # fs \<and> tok_type c = TOKEN_PRINT"
  by (cases es) (auto simp: print_ok_def parts_ok_def)

lemma stmt_tokens_ne: "stmt_ok s d ls S t \<Longrightarrow> stmt_tokens S \<noteq> []"
  by (cases S) (auto dest: print_tokens)

lemma first_token:
  "stmt_ok s d ls S t \<Longrightarrow>
    tok_type (hd (stmt_tokens S)) \<in> {TOKEN_PRINT, TOKEN_IF, TOKEN_LBRACE, TOKEN_VAR, TOKEN_IDENTIFIER}"
  by (cases S) (auto dest: print_tokens)

lemma last_expr_token:
  "expr_ok s ls e \<Longrightarrow> tok_type (last (tokens e)) \<in> {TOKEN_NUMBER, TOKEN_TRUE, TOKEN_FALSE, TOKEN_NULL, TOKEN_FUNC,
    TOKEN_IDENTIFIER, TOKEN_RPAREN}"
  by (induction e) auto

lemma last_parts_token: "es \<noteq> [] \<Longrightarrow> \<exists>e \<in> snd ` set es. last (part_tokens es) = last (tokens e)"
proof (induction es)
  case (Cons x es)
  obtain c e where x: "x = (c, e)" by (cases x)
  show ?case
  proof (cases "es = []")
    case False
    then have "part_tokens es \<noteq> []" by (cases es) auto
    with Cons.IH False x show ?thesis by auto
  qed (use x in simp)
qed simp

lemma last_token:
  "stmt_ok s d ls S t \<Longrightarrow> tok_type (last (stmt_tokens S)) \<notin> {TOKEN_THEN, TOKEN_ELSE}"
proof (induction S arbitrary: t)
  case (Print es)
  then have es: "es \<noteq> []" "\<forall>e \<in> snd ` set es. expr_ok s ls e" by (auto simp: print_ok_def parts_ok_def)
  with last_parts_token [OF es(1)] last_expr_token [of s ls] show ?case by fastforce
next
  case (IfThen i e h S u)
  then show ?case using stmt_tokens_ne [of s d ls S] by (cases u) (auto simp: closes_def)
next
  case (IfElse i e h S l R u)
  then show ?case using stmt_tokens_ne [of s d ls R] by (cases u) (auto simp: closes_def)
next
  case (Var v x init)
  then show ?case using last_expr_token by (fastforce split: option.splits)
next
  case (Assign x q e)
  then show ?case using last_expr_token by fastforce
qed simp

lemma stmts_first:
  assumes "stmts_ok s d ls Ss t" and "follows t"
  shows "follows (hd (stmts_tokens Ss @ [t]))"
proof (cases Ss)
  case (Cons S Ss')
  then have "stmt_ok s d ls S (hd (stmts_tokens Ss' @ [t]))" using assms(1) by simp
  from first_token [OF this] stmt_tokens_ne [OF this] Cons show ?thesis
    by (intro follows_types) (auto simp: hd_append)
qed (use assms(2) in simp)

text \<open>The variable of an initializer is not found in it.\<close>

lemma find_local_append: "i \<le> length ls \<Longrightarrow> find_local s x (ls @ ms) i = find_local s x ls i"
  by (induction i) (simp_all add: nth_append)

lemma initializer:
  assumes "expr_ok s (ls @ [local_of x (-1)]) e"
  shows "expr_ok s ls e" and "comp s (ls @ [local_of x (-1)]) e cs = comp s ls e cs"
  using assms
  by (induction e arbitrary: cs)
    (auto simp: local_of_def find_local_append nth_append Let_def dest: find_local_less
      split: option.splits if_splits prod.splits)

text \<open>Of the token behind, only the type matters.\<close>

lemma stmt_ok_end: "tok_type t' = tok_type t \<Longrightarrow> stmt_ok s d ls S t \<Longrightarrow> stmt_ok s d ls S t'"
  by (induction S arbitrary: t t') (auto split: option.splits)

lemma stmts_ok_end: "stmts_ok s d ls Ss t \<Longrightarrow> tok_type t' = tok_type t \<Longrightarrow> stmts_ok s d ls Ss t'"
proof (induction Ss arbitrary: ls)
  case (Cons S Ss)
  have "tok_type (hd (stmts_tokens Ss @ [t'])) = tok_type (hd (stmts_tokens Ss @ [t]))"
    using Cons.prems(2) by (cases "stmts_tokens Ss") simp_all
  with Cons stmt_ok_end show ?case by auto
qed simp

end
