(* ===== verification/Stmt_Parsing.thy ===== *)
theory Stmt_Parsing
  imports Statements
begin

text \<open>
  The states of the parser between statements, and what the operations of \<open>src/src/parser.c\<close> that statements
  are made of do to them: reading tokens, emitting and patching jumps, opening and closing scopes, declaring variables.
\<close>

subsection \<open>States\<close>

text \<open>What does not change while a script is compiled: the source, its compiler and the machine before.\<close>

record place =
  pl_source :: src_t
  pl_compiler :: compiler_t
  pl_vm :: vm_t

text \<open>
  The parser has read the token \<open>h\<close> and sees the tokens \<open>us\<close>; the function compiled is \<open>f\<close>, the locals are \<open>ls\<close>,
  in a scope of depth \<open>d\<close>, and there was no error.
\<close>

definition here :: "place \<Rightarrow> tok_t \<Rightarrow> tok_t list \<Rightarrow> fun_t \<Rightarrow> local_t list \<Rightarrow> int \<Rightarrow> parser_t \<Rightarrow> bool" where
  "here B h us f ls d p \<longleftrightarrow> ps_source p = pl_source B \<and>
     ps_compilers p = [(pl_compiler B)\<lparr>cp_locals := ls, cp_scopeDepth := d\<rparr>] \<and> cur_fn p = Some f \<and>
     ps_vm p = put_fun (cp_function (pl_compiler B)) f (pl_vm B) \<and> chunk_ok (fn_chunk f) \<and> upcoming p us \<and>
     ps_previous p = h \<and> \<not> ps_panicMode p \<and> \<not> ps_hadError p"

text \<open>The operation returns, in a state with the property.\<close>

definition becomes :: "unit parse \<Rightarrow> parser_t \<Rightarrow> (parser_t \<Rightarrow> bool) \<Rightarrow> bool" where
  "becomes m p Q \<longleftrightarrow> (\<exists>q. m p = Some (Inr ((), q)) \<and> Q q)"

lemma becomesI: "m p = Some (Inr ((), q)) \<Longrightarrow> Q q \<Longrightarrow> becomes m p Q"
  by (simp add: becomes_def)

lemma becomes_seq:
  assumes "becomes m p Q" and "\<And>q. Q q \<Longrightarrow> becomes n q R"
  shows "becomes (seqp m n) p R"
proof -
  obtain q where "m p = Some (Inr ((), q))" "Q q" using assms(1) by (auto simp: becomes_def)
  then show ?thesis using assms(2) [of q] by (simp add: becomes_def seqp_eq)
qed

lemma becomes_mono: "becomes m p Q \<Longrightarrow> (\<And>q. Q q \<Longrightarrow> R q) \<Longrightarrow> becomes m p R"
  by (auto simp: becomes_def)

lemma becomes_simps [simp]:
  "becomes (ret ()) p Q \<longleftrightarrow> Q p" "becomes (bindp (gets e) k) p Q \<longleftrightarrow> becomes (k (e p)) p Q"
  "becomes (modify g) p Q \<longleftrightarrow> Q (g p)" "becomes (bindp (ret x) k) p Q \<longleftrightarrow> becomes (k x) p Q"
  "becomes (seqp (ret ()) m) p Q \<longleftrightarrow> becomes m p Q" "becomes (seqp (modify g) m) p Q \<longleftrightarrow> becomes m (g p) Q"
  by (simp_all add: becomes_def ret_def gets_def modify_def bindp_def seqp_def)

lemma becomes_bind: "m p = Some (Inr (x, q)) \<Longrightarrow> becomes (bindp m k) p Q \<longleftrightarrow> becomes (k x) q Q"
  by (simp add: becomes_def bindp_def)

lemma becomes_bind_ret: "becomes (bindp m (\<lambda>_. ret ())) p Q \<longleftrightarrow> becomes m p Q" for m :: "unit parse"
  by (auto simp: becomes_def bindp_def ret_def split: option.splits sum.splits)

lemma upcoming_cong:
  assumes "ps_lexer q = ps_lexer p" and "ps_source q = ps_source p" and "ps_current q = ps_current p"
  shows "upcoming q ts = upcoming p ts"
  using assms
proof (induction ts arbitrary: p q)
  case (Cons t ts)
  have "ps_lexer (adv q) = ps_lexer (adv p)" "ps_current (adv q) = ps_current (adv p)"
    using Cons.prems by (simp_all add: adv_def scan_current_def split: prod.split)
  from Cons.IH [OF this(1) _ this(2)] Cons.prems show ?case by simp
qed simp

lemma put_fun_put [simp]: "put_fun a g (put_fun a f vm) = put_fun a g vm"
  by (auto simp: put_fun_def fun_eq_iff map_option_case split: option.split)

subsection \<open>Tokens\<close>

lemma here_current: "here B h (t # us) f ls d p \<Longrightarrow> ps_current p = t"
  by (simp add: here_def)

lemma here_previous: "here B h us f ls d p \<Longrightarrow> ps_previous p = h"
  by (simp add: here_def)

lemma here_adv:
  assumes "here B h (t # us) f ls d p"
  shows "here B t us f ls d (adv p)"
  using assms cur_fn_advs [of 1 p] by (simp add: here_def)

lemma here_advance:
  assumes "here B h (t # u # us) f ls d p"
  shows "becomes ps_advance p (here B t (u # us) f ls d)"
proof (rule becomesI)
  show "ps_advance p = Some (Inr ((), adv p))"
    using assms by (intro ps_advance_adv [of p t u us]) (simp add: here_def)
  show "here B t (u # us) f ls d (adv p)" by (rule here_adv [OF assms])
qed

lemma here_consume:
  "here B h (t # u # us) f ls d p \<Longrightarrow> tok_type t = ty \<Longrightarrow> becomes (consume ty m) p (here B t (u # us) f ls d)"
  using here_advance here_current by (fastforce simp: becomes_def consume_def check_def)

lemma here_consumes:
  "here B h (t # u # us) f ls d p \<Longrightarrow> tok_type t \<in> {ty, ty'} \<Longrightarrow> becomes (consumes ty ty' m) p (here B t (u # us) f ls d)"
  using here_advance here_current by (fastforce simp: becomes_def consumes_def check_def)

text \<open>Tokens that are tested for and not read.\<close>

lemma here_no_match:
  "here B h (t # us) f ls d p \<Longrightarrow> tok_type t \<noteq> ty \<Longrightarrow> becomes (if_match ty m n) p Q \<longleftrightarrow> becomes n p Q"
  using here_current by (fastforce simp: becomes_def if_match_no)

lemma here_match:
  assumes "here B h (t # u # us) f ls d p" and "tok_type t = ty"
    and "\<And>q. here B t (u # us) f ls d q \<Longrightarrow> becomes m q Q"
  shows "becomes (if_match ty m n) p Q"
proof -
  have "upcoming p (t # u # us)" using assms(1) by (simp add: here_def)
  from if_match_yes [OF this assms(2), of m n] assms(3) [OF here_adv [OF assms(1)]] show ?thesis by (simp add: becomes_def)
qed

subsection \<open>Code\<close>

lemma here_upd:
  "here B h us f ls d p \<Longrightarrow> chunk_ok (fn_chunk g) \<Longrightarrow> here B h us g ls d (upd_fn g p)"
  using cur_upd_fn [of p f g] by (simp add: here_def) (simp add: upd_fn_def)

lemma emits_ok: "chunk_ok (fn_chunk f) \<Longrightarrow> chunk_ok (fn_chunk (emits t bs f))"
  using emit_all_code(3) [of f "at_tok t bs"] by simp

lemma here_emit:
  assumes "here B h us f ls d p"
  shows "here B h us (emits h bs f) ls d (upd_fn (emits (ps_previous p) bs f) p)"
proof -
  have "chunk_ok (fn_chunk f)" "ps_previous p = h" using assms by (simp_all add: here_def)
  then show ?thesis using here_upd [OF assms, of "emits h bs f"] emits_ok by simp
qed

lemma here_emitOp:
  assumes "here B h us f ls d p"
  shows "becomes (emitOp op) p (here B h us (emits h [opcode_byte op] f) ls d)"
  using emitOp_eq [of p f op] here_emit [OF assms, of "[opcode_byte op]"] assms by (auto simp: here_def becomes_def)

lemma here_emitBytes:
  assumes "here B h us f ls d p"
  shows "becomes (emitBytes a b) p (here B h us (emits h [a, b] f) ls d)"
  using emitBytes_eq [of p f a b] here_emit [OF assms, of "[a, b]"] assms by (auto simp: here_def becomes_def)

lemma here_emitJump:
  assumes "here B h us f ls d p"
    and "\<And>q. here B h us (emits h [opcode_byte op, 0, 0] f) ls d q \<Longrightarrow>
      becomes (k (length (ck_code (fn_chunk f)) + 1)) q Q"
  shows "becomes (bindp (emitJump op) k) p Q"
proof -
  have "chunk_ok (fn_chunk f)" and cur: "cur_fn p = Some f" using assms(1) by (simp_all add: here_def)
  then have "emitJump op p = Some (Inr (length (ck_code (fn_chunk f)) + 1,
      upd_fn (emits (ps_previous p) [opcode_byte op, 0, 0] f) p))"
    using emitJump_eq [OF cur, of op] by (simp add: chunk_ok_count)
  from becomes_bind [of "emitJump op", OF this] assms(2) [OF here_emit [OF assms(1)]] show ?thesis by simp
qed

text \<open>The jump at \<open>xs\<close>, with its opcode and its two bytes, is patched to lead behind \<open>ys\<close>.\<close>

lemma here_patchJump:
  assumes "here B h us (emit_all (xs @ at_tok t [opcode_byte op, 0, 0] @ ys) f) ls d p" and "chunk_ok (fn_chunk f)"
    and "n = length (ck_code (fn_chunk f)) + length xs + 1" and "length ys \<le> 65535"
  shows "becomes (patchJump n) p (here B h us (emit_all (xs @ at_tok t (jump_over op (length ys)) @ ys) f) ls d)"
proof -
  let ?xs = "xs @ [(opcode_byte op, t)]"
  let ?g = "emit_all (?xs @ (jump_hi (length ys), t) # (jump_lo (length ys), t) # ys) f"
  have "cur_fn p = Some (emit_all (?xs @ (0, t) # (0, t) # ys) f)"
    using assms(1) by (simp add: here_def at_tok_def)
  from patch_emitted [OF assms(2) this _ assms(4), of n] assms(3)
  have "patchJump n p = Some (Inr ((), upd_fn ?g p))" by simp
  moreover have "here B h us ?g ls d (upd_fn ?g p)" by (rule here_upd [OF assms(1) emit_all_code(3) [OF assms(2)]])
  moreover have "?g = emit_all (xs @ at_tok t (jump_over op (length ys)) @ ys) f" by (simp add: at_tok_def jump_over_def)
  ultimately show ?thesis by (metis becomesI)
qed

subsection \<open>Scopes and variables\<close>

text \<open>A change of the locals and the depth of the scope.\<close>

lemma here_scope:
  assumes "here B h us f ls d p" and "ps_compilers q = [(pl_compiler B)\<lparr>cp_locals := ls', cp_scopeDepth := d'\<rparr>]"
    and "ps_lexer q = ps_lexer p" "ps_source q = ps_source p" "ps_current q = ps_current p"
      "ps_previous q = ps_previous p" "ps_vm q = ps_vm p" "ps_panicMode q = ps_panicMode p" "ps_hadError q = ps_hadError p"
  shows "here B h us f ls' d' q"
proof -
  have "cur_fn q = Some f" using assms by (auto simp: here_def cur_fn_Some)
  with assms upcoming_cong [of q p us] show ?thesis by (simp add: here_def)
qed

lemma here_flags:
  assumes "here B h us f ls d p"
  shows "here B h us f ls d (p\<lparr>ps_hadCall := a, ps_hadAssign := b, ps_subExprs := n\<rparr>)"
    and "here B h us f ls d (p\<lparr>ps_hadAssign := b\<rparr>)" and "here B h us f ls d (p\<lparr>ps_subExprs := n\<rparr>)"
proof -
  have q: "here B h us f ls d q" if "ps_compilers q = ps_compilers p" "ps_lexer q = ps_lexer p" "ps_source q = ps_source p"
    "ps_current q = ps_current p" "ps_previous q = ps_previous p" "ps_vm q = ps_vm p" "ps_panicMode q = ps_panicMode p"
    "ps_hadError q = ps_hadError p" for q
    using assms that by (intro here_scope [OF assms]) (simp_all add: here_def)
  show "here B h us f ls d (p\<lparr>ps_hadCall := a, ps_hadAssign := b, ps_subExprs := n\<rparr>)"
    "here B h us f ls d (p\<lparr>ps_hadAssign := b\<rparr>)" "here B h us f ls d (p\<lparr>ps_subExprs := n\<rparr>)"
    by (rule q; simp)+
qed

lemma compiler_fields [simp]:
  "c\<lparr>cp_scopeDepth := d, cp_locals := ls\<rparr> = c\<lparr>cp_locals := ls, cp_scopeDepth := d\<rparr>" for c :: compiler_t
  by simp

lemma here_compiler:
  assumes "here B h us f ls d p"
  shows "get_compiler p = Some (Inr ((pl_compiler B)\<lparr>cp_locals := ls, cp_scopeDepth := d\<rparr>, p))"
  using assms by (simp add: here_def get_compiler_def cur_compiler_def)

lemma here_set:
  assumes "here B h us f ls d p"
  shows "here B h us f ls' d' (set_compiler ((pl_compiler B)\<lparr>cp_locals := ls', cp_scopeDepth := d'\<rparr>) p)"
  by (rule here_scope [OF assms]) (use assms in \<open>simp_all add: set_compiler_def here_def\<close>)

lemma here_beginScope: "here B h us f ls d p \<Longrightarrow> becomes beginScope p (here B h us f ls (d + 1))"
  using here_set [of B h us f ls d p ls "d + 1"]
  by (simp add: beginScope_def becomes_bind [of get_compiler, OF here_compiler])

lemma here_emit_pops:
  "here B h us f (ls @ new) d p \<Longrightarrow> n = length new \<Longrightarrow>
    becomes (emit_pops n) p (here B h us (emits h (replicate n (opcode_byte OP_POP)) f) ls d)"
proof (induction n arbitrary: new f p)
  case (Suc n)
  obtain ms m where new: "new = ms @ [m]" using Suc.prems(2) by (cases new rule: rev_cases) auto
  show ?case
    unfolding emit_pops.simps
  proof (rule becomes_seq [OF here_emitOp [OF Suc.prems(1)]])
    fix q assume q: "here B h us (emits h [opcode_byte OP_POP] f) (ls @ new) d q"
    let ?q = "set_compiler ((pl_compiler B)\<lparr>cp_locals := ls @ ms, cp_scopeDepth := d\<rparr>) q"
    have "becomes (emit_pops n) ?q (here B h us (emits h (replicate n (opcode_byte OP_POP)) (emits h [opcode_byte OP_POP] f)) ls d)"
      by (rule Suc.IH [OF here_set [OF q]]) (use Suc.prems(2) new in simp)
    moreover have "bindp get_compiler (\<lambda>c. modify (set_compiler (c\<lparr>cp_locals := butlast (cp_locals c)\<rparr>))) q =
        Some (Inr ((), ?q))"
      using here_compiler [OF q] by (simp add: bindp_eq modify_def new butlast_append flip: append_assoc)
    ultimately show "becomes (seqp (bindp get_compiler (\<lambda>c. modify (set_compiler (c\<lparr>cp_locals := butlast (cp_locals c)\<rparr>))))
        (emit_pops n)) q (here B h us (emits h (replicate (Suc n) (opcode_byte OP_POP)) f) ls d)"
      by (simp add: becomes_def seqp_eq)
  qed
qed (simp add: emits_def)

definition locals_in :: "int \<Rightarrow> local_t list \<Rightarrow> bool" where
  "locals_in d ls \<longleftrightarrow> (\<forall>l \<in> set ls. lc_depth l \<le> d)"

lemma deeper_new:
  assumes "locals_in d ls" and "\<forall>l \<in> set new. d < lc_depth l"
  shows "deeper d (ls @ new) = length new"
proof -
  have "takeWhile (\<lambda>l. d < lc_depth l) (rev new @ rev ls) = rev new @ takeWhile (\<lambda>l. d < lc_depth l) (rev ls)"
    using assms(2) by (intro takeWhile_append2) simp
  moreover have "takeWhile (\<lambda>l. d < lc_depth l) (rev ls) = []"
    using assms(1) by (cases "rev ls") (auto simp: locals_in_def dest: arg_cong [of _ _ set])
  ultimately show ?thesis by (simp add: deeper_def)
qed

lemma here_endScope:
  assumes "here B h us f (ls @ new) (d + 1) p" and "locals_in d ls" and "\<forall>l \<in> set new. d < lc_depth l"
  shows "becomes endScope p (here B h us (emit_all (pops h (length new)) f) ls d)"
  using here_emit_pops [OF here_set [OF assms(1), of "ls @ new" d] refl]
  by (simp add: endScope_def becomes_bind [of get_compiler, OF here_compiler [OF assms(1)]] deeper_new [OF assms(2,3)] Let_def pops_def)

end
