(* ===== verification/Stmt_Compiled.thy ===== *)
theory Stmt_Compiled
  imports Stmt_Parsing
begin

text \<open>
  The parser, started on the tokens of a statement, emits the code of its syntax tree and leaves the scopes as the
  tree says.
\<close>

subsection \<open>Expressions and \<open>Print\<close>\<close>

text \<open>The state behind the tokens \<open>ts\<close>, with the code of another function.\<close>

lemma here_st:
  assumes "here B h (ts @ us) f ls d p" and "ts \<noteq> []" and "chunk_ok (fn_chunk g)"
  shows "here B (last ts) us g ls d (st (length ts) g j p)"
proof -
  have "upcoming p ts" "upcoming ((adv ^^ length ts) p) us" and cur: "cur_fn p = Some f"
    using assms(1) by (simp_all add: here_def upcoming_append)
  then show ?thesis
    using assms previous_last [of p ts] cur_st [OF cur, of "length ts" g j]
    by (simp add: here_def) (simp add: st_def upd_fn_def)
qed

lemma here_expression:
  assumes h: "here B h (tokens e @ t # us) f ls d p" and e: "expr_ok (pl_source B) ls e"
    and c: "comp (pl_source B) ls e (ck_constants (fn_chunk f)) = (bs, cs)" and "arr_count cs \<le> 256"
    and "length bs \<le> 65535" and "follows t"
  shows "becomes (expression parse) p (here B (last (tokens e)) (t # us) (emit_all bs (with_constants cs f)) ls d)"
proof (rule becomesI)
  have ok: "chunk_ok (fn_chunk f)" and s: "ps_source p = pl_source B" using h by (simp_all add: here_def)
  have b: "before ls e t bs cs f p"
    by (rule before_part [of _ _ _ _ _ us]) (use assms s in \<open>simp_all add: here_def follows_def\<close>)
  have "stops PREC_ASSIGNMENT (last (tokens e)) t" using assms(6) by (simp add: stops_def follows_def)
  from taken_operand [OF taken b level_pos [OF e] this]
  show "expression parse p = Some (Inr ((), st (length (tokens e)) (emit_all bs (with_constants cs f)) (operands e) p))"
    by (simp add: expression_def run_parse behind_def)
  have "arr_ok cs" using comp_grows [OF c] ok by (simp add: chunk_ok_def)
  then show "here B (last (tokens e)) (t # us) (emit_all bs (with_constants cs f)) ls d
      (st (length (tokens e)) (emit_all bs (with_constants cs f)) (operands e) p)"
    using ok by (intro here_st [OF h]) simp_all
qed

lemma here_print:
  assumes h: "here B h (part_tokens es @ t # us) f ls d p" and es: "print_ok (pl_source B) ls es"
    and c: "comp_parts (pl_source B) ls es (ck_constants (fn_chunk f)) = (bs, cs)" and "arr_count cs \<le> 256"
    and "length bs \<le> 65535" and t: "follows t"
  shows "becomes (statement parse) p
    (here B (last (part_tokens es)) (t # us) (emit_all (bs @ print_code es (length es)) (with_constants cs f)) ls d)"
proof -
  have ok: "chunk_ok (fn_chunk f)" and s: "ps_source p = pl_source B" and up: "upcoming p (part_tokens es @ [t])"
    using h upcoming_append [of p "part_tokens es @ [t]" us] by (simp_all add: here_def)
  let ?g = "emit_all (bs @ print_code es (length es)) (with_constants cs f)"
  have "cur_fn p = Some f" "cp_locals (hd (ps_compilers p)) = ls" using h by (simp_all add: here_def)
  from print_parse [OF _ this ok up, of bs cs] assms s obtain j
    where "statement parse p = Some (Inr ((), st (length (part_tokens es)) ?g j p))"
    by (auto simp: follows_def)
  moreover have "arr_ok cs" using comp_parts_grows [OF c] ok by (simp add: chunk_ok_def)
  with ok have "here B (last (part_tokens es)) (t # us) ?g ls d (st (length (part_tokens es)) ?g j p)"
    using print_tokens [OF es] by (intro here_st [OF h]) auto
  ultimately show ?thesis by (rule becomesI)
qed

subsection \<open>Variables\<close>

text \<open>\<open>defineVariable\<close> gives the last local its depth.\<close>

lemma here_define:
  assumes "here B h us f (ls @ [local_of x (-1)]) d p" and "0 < d"
  shows "becomes (defineVariable k) p (here B h us f (ls @ [local_of x d]) d)"
proof -
  let ?c = "(pl_compiler B)\<lparr>cp_locals := ls @ [local_of x (-1)], cp_scopeDepth := d\<rparr>"
  have "(ls @ [local_of x (-1)])[length ls := (local_of x (-1))\<lparr>lc_depth := d\<rparr>] = ls @ [local_of x d]"
    by (simp add: local_of_def)
  then show ?thesis
    using here_set [OF assms(1), of "ls @ [local_of x d]" d] assms(2)
    by (simp add: defineVariable_def markInitialized_def becomes_bind [of get_compiler, OF here_compiler [OF assms(1)]] Let_def)
qed

text \<open>\<open>parseVariable\<close> in a scope that is not the outermost one declares a local.\<close>

lemma here_parseVariable:
  assumes h: "here B v (x # u # us) f ls d p" and "tok_type x = TOKEN_IDENTIFIER" and "0 < d" and "length ls < 256"
    and "filter (identifiersEqual (pl_source B) x) (same_scope d ls) = []"
    and k: "\<And>q. here B x (u # us) f (ls @ [local_of x (-1)]) d q \<Longrightarrow> becomes (k 0) q Q"
  shows "becomes (bindp (parseVariable m) k) p Q"
proof -
  obtain q where q: "consume TOKEN_IDENTIFIER m p = Some (Inr ((), q))" "here B x (u # us) f ls d q"
    using here_consume [OF h assms(2)] by (auto simp: becomes_def)
  let ?q = "set_compiler ((pl_compiler B)\<lparr>cp_locals := ls @ [local_of x (-1)], cp_scopeDepth := d\<rparr>) q"
  have h': "here B x (u # us) f (ls @ [local_of x (-1)]) d ?q" by (rule here_set [OF q(2)])
  note c = here_compiler [OF q(2)] here_compiler [OF h']
  have "ps_source q = pl_source B" "ps_previous q = x" using q(2) by (simp_all add: here_def)
  then have "declareVariable q = Some (Inr ((), ?q))"
    using assms(3-5)
    by (simp add: declareVariable_def bindp_eq [of get_compiler, OF c(1)] bindp_gets seqp_eq [of "ret ()", OF ret_eq] addLocal_def
        modify_def local_of_def)
  then have "parseVariable m p = Some (Inr (0, ?q))"
    using q(1) assms(3) by (simp add: parseVariable_def seqp_eq bindp_eq [of get_compiler, OF c(2)] ret_eq)
  from becomes_bind [of "parseVariable m", OF this] k [OF h'] show ?thesis by simp
qed

text \<open>The assignment to a local.\<close>

lemma here_assign:
  assumes h: "here B h (x # q # tokens e @ t # us) f ls d p" and x: "tok_type x = TOKEN_IDENTIFIER"
    and "tok_type q = TOKEN_EQUAL" and n: "expr_ok (pl_source B) ls (Name x)" and e: "expr_ok (pl_source B) ls e"
    and c: "comp (pl_source B) ls e (ck_constants (fn_chunk f)) = (bs, cs)" and "arr_count cs \<le> 256"
    and "length bs \<le> 65535" and t: "follows t"
  shows "becomes (expression parse) p (\<lambda>q. ps_hadAssign q \<and> here B (last (tokens e)) (t # us)
    (emit_all (bs @ at_tok (last (tokens e)) [opcode_byte OP_ST, word_of_nat (the (find_local (pl_source B) x ls (length ls)))])
      (with_constants cs f)) ls d q)"
proof -
  from n obtain i where i: "find_local (pl_source B) x ls (length ls) = Some i" "lc_depth (ls ! i) \<noteq> -1"
    by (auto split: option.splits)
  obtain v vs where vs: "tokens e @ t # us = v # vs" by (cases "tokens e @ t # us") auto
  have 1: "here B x (q # v # vs) f ls d (adv p)" using here_adv [OF h] vs by simp
  have s: "ps_source (adv p) = pl_source B" and prev: "ps_previous (adv p) = x" using 1 by (simp_all add: here_def)
  have r: "resolveLocal x (adv p) = Some (Inr (Some i, adv p))"
    using i s by (simp add: resolveLocal_def bindp_eq [of get_compiler, OF here_compiler [OF 1]] bindp_gets whenp_def
        seqp_eq [of "ret _", OF ret_eq] ret_eq)
  have up1: "upcoming (adv p) (q # v # vs)" using 1 by (simp add: here_def)
  have "check TOKEN_EQUAL (adv p)" using up1 assms(3) by (simp add: check_def)
  then have m: "ps_match TOKEN_EQUAL (adv p) = Some (Inr (True, adv (adv p)))"
    using ps_advance_adv [OF up1] by (simp add: ps_match_def bindp_eq ret_eq)
  have 2: "here B q (tokens e @ t # us) f ls d (adv (adv p))" using here_adv [OF 1] vs by simp
  let ?Q = "here B (last (tokens e)) (t # us) (emit_all (bs @ at_tok (last (tokens e)) [opcode_byte OP_ST, word_of_nat i])
      (with_constants cs f)) ls d"
  obtain p2 where p2: "expression parse (adv (adv p)) = Some (Inr ((), p2))"
    "here B (last (tokens e)) (t # us) (emit_all bs (with_constants cs f)) ls d p2"
    using here_expression [OF 2 e c assms(7,8) t] by (auto simp: becomes_def)
  obtain p3 where p3: "emitBytes (opcode_byte OP_ST) (word_of_nat i) p2 = Some (Inr ((), p3))" "?Q p3"
    using here_emitBytes [OF p2(2)] by (auto simp: becomes_def)
  let ?p4 = "p3\<lparr>ps_hadAssign := True\<rparr>"
  have run: "run_rule parse P_variable True (adv p) = Some (Inr ((), ?p4))"
    using p2(1) p3(1) prev
    by (simp add: run_rule_def variable_def bindp_gets namedVariable_def bindp_eq [of "resolveLocal _", OF r] bindp_eq [of "ret _", OF ret_eq]
        bindp_eq [of "ps_match _", OF m] seqp_eq emitSmart_def modify_def)
  let ?p5 = "?p4\<lparr>ps_subExprs := ps_subExprs ?p4 + 1\<rparr>"
  have 5: "?Q ?p5" by (rule here_flags(3) [OF here_flags(2) [OF p3(2)]])
  have "upcoming p (x # q # v # vs)" using h vs by (simp add: here_def)
  then have "parsePrecedence parse PREC_ASSIGNMENT p = after_prefix PREC_ASSIGNMENT ?p5"
    by (rule prefix_step) (use run x prefix_rules in simp_all)
  also have "\<dots> = Some (Inr ((), ?p5))"
    using here_current [OF 5] t by (intro after_prefix_stops) (simp_all add: stops_def follows_def)
  finally have "expression parse p = Some (Inr ((), ?p5))" by (simp add: expression_def run_parse)
  moreover have "ps_hadAssign ?p5" by simp
  ultimately show ?thesis using 5 i(1) unfolding becomes_def by auto
qed

subsection \<open>\<open>If\<close>\<close>

text \<open>
  The parts of \<open>If\<close> in their order: the condition, the first branch, the second one, and the end. Each emits
  its code, with the constants that it adds.
\<close>

lemma here_if:
  assumes h: "here B i (tokens e @ th # v # vs) f ls d p" and e: "expr_ok (pl_source B) ls e"
    and c: "comp (pl_source B) ls e (ck_constants (fn_chunk f)) = (xs, cs1)" and "arr_count cs1 \<le> 256"
    and th: "tok_type th = TOKEN_THEN" and ok: "arr_ok cs2" "arr_ok cs3"
    and len: "length (if_code th lt xs ys zs) \<le> 65535"
    and S: "\<And>q g. here B th (v # vs) g ls d q \<Longrightarrow> ck_constants (fn_chunk g) = cs1 \<Longrightarrow>
      becomes (statement parse) q (here B lt (w # ws) (emit_all ys (with_constants cs2 g)) ls d)"
    and R: "\<And>q g. here B lt (w # ws) g ls d q \<Longrightarrow> ck_constants (fn_chunk g) = cs2 \<Longrightarrow>
      becomes (if_match TOKEN_ELSE (run parse Statement) (ret ())) q
        (here B rt (r # rs) (emit_all zs (with_constants cs3 g)) ls d)"
    and U: "\<And>q g. here B rt (r # rs) g ls d q \<Longrightarrow> becomes (whenp (tok_line v \<noteq> tok_line th)
      (consumes TOKEN_END TOKEN_ENDIF ''Expect 'End' or 'EndIf' after block.'')) q (here B ut (t # us) g ls d)"
  shows "becomes (ifStatement parse) p (here B ut (t # us) (emit_all (if_code th lt xs ys zs) (with_constants cs3 f)) ls d)"
proof -
  let ?F = "\<lambda>cs. with_constants cs f" and ?pop = "\<lambda>t. at_tok t [opcode_byte OP_POP]"
  let ?a = "xs @ at_tok th [opcode_byte OP_JMPF, 0, 0] @ ?pop th @ ys"
  let ?b = "xs @ at_tok th (jump_over OP_JMPF (4 + length ys)) @ ?pop th @ ys"
  let ?n1 = "length (ck_code (fn_chunk f)) + length xs + 1" and ?n2 = "length (ck_code (fn_chunk f)) + length ?b + 1"
  let ?Q = "here B ut (t # us) (emit_all (if_code th lt xs ys zs) (?F cs3)) ls d"
  have okf: "chunk_ok (fn_chunk f)" using h by (simp add: here_def)
  then have okF: "chunk_ok (fn_chunk (?F cs2))" "chunk_ok (fn_chunk (?F cs3))" using ok by simp_all
  have size: "length xs \<le> 65535" "4 + length ys \<le> 65535" "1 + length zs \<le> 65535"
    using len by (simp_all add: if_code_def at_tok_def jump_over_def)
  define final where "final = whenp (tok_line v \<noteq> tok_line th) (consumes TOKEN_END TOKEN_ENDIF ''Expect 'End' or 'EndIf' after block.'')"
  define second where "second m = seqp (if_match TOKEN_ELSE (run parse Statement) (ret ())) (seqp (patchJump m) final)" for m
  define first where "first n = seqp (emitOp OP_POP) (seqp (run parse Statement) (bindp (emitJump OP_JMP)
    (\<lambda>m. seqp (patchJump n) (seqp (emitOp OP_POP) (second m)))))" for n
  have second: "becomes (second ?n2) q ?Q"
    if "here B lt (w # ws) (emit_all (?b @ at_tok lt [opcode_byte OP_JMP, 0, 0] @ ?pop lt) (?F cs2)) ls d q" for q
    unfolding second_def
  proof (rule becomes_seq [OF R [OF that]])
    fix q assume "here B rt (r # rs) (emit_all zs (with_constants cs3
      (emit_all (?b @ at_tok lt [opcode_byte OP_JMP, 0, 0] @ ?pop lt) (?F cs2)))) ls d q"
    then have "here B rt (r # rs) (emit_all (?b @ at_tok lt [opcode_byte OP_JMP, 0, 0] @ (?pop lt @ zs)) (?F cs3)) ls d q"
      by simp
    from here_patchJump [OF this okF(2), of ?n2]
    show "becomes (seqp (patchJump ?n2) final) q ?Q"
    proof (rule becomes_seq)
      fix q assume "here B rt (r # rs) (emit_all (?b @ at_tok lt (jump_over OP_JMP (length (?pop lt @ zs))) @
        (?pop lt @ zs)) (?F cs3)) ls d q"
      from U [OF this] show "becomes final q ?Q" by (simp add: final_def if_code_def at_tok_def)
    qed (use size in \<open>simp_all add: at_tok_def jump_over_def\<close>)
  qed simp
  have first: "becomes (first ?n1) q ?Q"
    if "here B th (v # vs) (emit_all (xs @ at_tok th [opcode_byte OP_JMPF, 0, 0]) (?F cs1)) ls d q" for q
    unfolding first_def
  proof (rule becomes_seq [OF here_emitOp [OF that]], rule becomes_seq)
    fix q assume q: "here B th (v # vs) (emits th [opcode_byte OP_POP]
      (emit_all (xs @ at_tok th [opcode_byte OP_JMPF, 0, 0]) (?F cs1))) ls d q"
    from S [OF q] show "becomes (run parse Statement) q (here B lt (w # ws) (emit_all ?a (?F cs2)) ls d)"
      by (simp add: run_goals)
    fix q assume 1: "here B lt (w # ws) (emit_all ?a (?F cs2)) ls d q"
    show "becomes (bindp (emitJump OP_JMP) (\<lambda>m. seqp (patchJump ?n1) (seqp (emitOp OP_POP) (second m)))) q ?Q"
    proof (rule here_emitJump [OF 1])
      let ?y = "?pop th @ ys @ at_tok lt [opcode_byte OP_JMP, 0, 0]"
      fix q assume "here B lt (w # ws) (emits lt [opcode_byte OP_JMP, 0, 0] (emit_all ?a (?F cs2))) ls d q"
      then have "here B lt (w # ws) (emit_all (xs @ at_tok th [opcode_byte OP_JMPF, 0, 0] @ ?y) (?F cs2)) ls d q" by simp
      moreover have y: "length ?y = 4 + length ys" by (simp add: at_tok_def)
      ultimately have "becomes (patchJump ?n1) q
          (here B lt (w # ws) (emit_all (xs @ at_tok th (jump_over OP_JMPF (4 + length ys)) @ ?y) (?F cs2)) ls d)"
        using here_patchJump [of B lt "w # ws" xs th OP_JMPF ?y "?F cs2" ls d q ?n1] okF(1) size(2) unfolding y by simp
      then have "becomes (seqp (patchJump ?n1) (seqp (emitOp OP_POP) (second ?n2))) q ?Q"
      proof (rule becomes_seq)
        fix q assume "here B lt (w # ws) (emit_all (xs @ at_tok th (jump_over OP_JMPF (4 + length ys)) @ ?y) (?F cs2)) ls d q"
        from here_emitOp [OF this] show "becomes (seqp (emitOp OP_POP) (second ?n2)) q ?Q"
          by (rule becomes_seq) (rule second, simp)
      qed
      then show "becomes (seqp (patchJump ?n1) (seqp (emitOp OP_POP)
          (second (length (ck_code (fn_chunk (emit_all ?a (?F cs2)))) + 1)))) q ?Q"
        by (simp add: at_tok_def jump_over_def)
    qed
  qed
  define rest where "rest = bindp (gets (\<lambda>p. tok_line (ps_current p) = tok_line (ps_previous p))) (\<lambda>isInline.
    bindp (emitJump OP_JMPF) (\<lambda>thenJump. seqp (emitOp OP_POP) (seqp (run parse Statement)
    (bindp (emitJump OP_JMP) (\<lambda>elseJump. seqp (patchJump thenJump) (seqp (emitOp OP_POP)
    (seqp (if_match TOKEN_ELSE (run parse Statement) (ret ())) (seqp (patchJump elseJump) (whenp (\<not> isInline)
       (consumes TOKEN_END TOKEN_ENDIF ''Expect 'End' or 'EndIf' after block.''))))))))))"
  have rest: "becomes rest q ?Q" if 1: "here B th (v # vs) (emit_all xs (?F cs1)) ls d q" for q
  proof -
    have "becomes (bindp (emitJump OP_JMPF) first) q ?Q"
      by (rule here_emitJump [OF 1]) (use first in simp)
    then show ?thesis
      using here_current [OF 1] here_previous [OF 1] by (simp add: rest_def first_def [abs_def] second_def final_def)
  qed
  show ?thesis
    unfolding ifStatement_def rest_def [symmetric]
  proof (rule becomes_seq [OF here_expression [OF h e c assms(4) size(1)]])
    show "follows th" using th by (intro follows_types) simp
    fix q assume "here B (last (tokens e)) (th # v # vs) (emit_all xs (?F cs1)) ls d q"
    from here_consume [OF this th] show "becomes (seqp (consume TOKEN_THEN ''Expect 'Then' after condition.'') rest) q ?Q"
      by (rule becomes_seq) (rule rest)
  qed
qed

subsection \<open>Statements\<close>

definition stmt_taken :: "stmt \<Rightarrow> bool" where
  "stmt_taken S \<longleftrightarrow> (\<forall>B h t us d ls bs cs f p. here B h (stmt_tokens S @ t # us) f ls d p \<longrightarrow>
     stmt_ok (pl_source B) d ls S t \<longrightarrow> follows t \<longrightarrow>
     comp_stmt (pl_source B) d ls S (ck_constants (fn_chunk f)) = (bs, cs) \<longrightarrow> arr_count cs \<le> 256 \<longrightarrow>
     length bs \<le> 65535 \<longrightarrow> locals_in d ls \<longrightarrow> 0 \<le> d \<longrightarrow>
     (\<not> branch S \<longrightarrow> tok_type h \<notin> {TOKEN_THEN, TOKEN_ELSE}) \<longrightarrow>
     becomes (if branch S then statement parse else ps_declaration parse) p
       (here B (last (stmt_tokens S)) (t # us) (emit_all bs (with_constants cs f)) (ls @ declared d S) d))"

text \<open>A declaration without a panic; a statement as a declaration.\<close>

lemma here_no_panic: "here B h us f ls d q \<Longrightarrow>
    becomes (bindp (gets ps_panicMode) (\<lambda>panicMode. whenp panicMode (synchronize parse))) q (here B h us f ls d)"
  by (simp add: whenp_def) (simp add: here_def)

lemma here_declaration:
  assumes "here B h (k # us) f ls d p" and "tok_type k \<notin> {TOKEN_FUNC, TOKEN_VAR, TOKEN_GLOBAL}"
    and "becomes (statement parse) p (here B h' us' g ls' d')"
  shows "becomes (ps_declaration parse) p (here B h' us' g ls' d')"
  unfolding ps_declaration_def
proof (rule becomes_seq)
  show "becomes (if_match TOKEN_FUNC (funDeclaration parse) (if_match TOKEN_VAR (varDeclaration parse)
      (if_match TOKEN_GLOBAL (globalDeclaration parse) (run parse Statement)))) p (here B h' us' g ls' d')"
    using assms by (simp add: here_no_match run_goals)
qed (rule here_no_panic)

lemma stmt_declared:
  assumes "stmt_taken S" and h: "here B h (stmt_tokens S @ t # us) f ls d p" and ok: "stmt_ok (pl_source B) d ls S t"
    and "follows t" and "comp_stmt (pl_source B) d ls S (ck_constants (fn_chunk f)) = (bs, cs)" and "arr_count cs \<le> 256"
    and "length bs \<le> 65535" and "locals_in d ls" and "0 \<le> d" and "\<not> branch S \<longrightarrow> tok_type h \<notin> {TOKEN_THEN, TOKEN_ELSE}"
  shows "becomes (ps_declaration parse) p
    (here B (last (stmt_tokens S)) (t # us) (emit_all bs (with_constants cs f)) (ls @ declared d S) d)"
proof -
  have *: "becomes (if branch S then statement parse else ps_declaration parse) p
      (here B (last (stmt_tokens S)) (t # us) (emit_all bs (with_constants cs f)) (ls @ declared d S) d)"
    using assms unfolding stmt_taken_def by blast
  show ?thesis
  proof (cases "branch S")
    case True
    obtain k ks where k: "stmt_tokens S = k # ks" using stmt_tokens_ne [OF ok] by (cases "stmt_tokens S") auto
    have "tok_type k \<notin> {TOKEN_FUNC, TOKEN_VAR, TOKEN_GLOBAL}"
      using ok k True by (cases S) (auto dest: print_tokens)
    with here_declaration [of B h k "ks @ t # us" f ls d p] h k * True show ?thesis by simp
  qed (use * in simp)
qed

lemma locals_declared: "locals_in d ls \<Longrightarrow> locals_in d (ls @ declared d S)"
  by (cases S) (auto simp: locals_in_def local_of_def)

lemma stmts_taken:
  assumes "\<forall>S \<in> set Ss. stmt_taken S" and "here B h (stmts_tokens Ss @ t # us) f ls d p"
    and "stmts_ok (pl_source B) d ls Ss t" and "tok_type t = TOKEN_RBRACE"
    and "comp_stmts (pl_source B) d ls Ss (ck_constants (fn_chunk f)) = (bs, cs)" and "arr_count cs \<le> 256"
    and "length bs \<le> 65535" and "locals_in d ls" and "0 \<le> d" and "tok_type h \<notin> {TOKEN_THEN, TOKEN_ELSE}"
  shows "becomes (declarations_loop parse [TOKEN_RBRACE, TOKEN_EOF]) p
    (here B (last (h # stmts_tokens Ss)) (t # us) (emit_all bs (with_constants cs f)) (ls @ concat (map (declared d) Ss)) d)"
  using assms
proof (induction Ss arbitrary: h f ls bs cs p)
  case Nil
  then show ?case
    by (subst declarations_loop_def) (simp add: here_current with_constants_same)
next
  case (Cons S Ss)
  from Cons.prems(5) obtain xs cs1 ys where c: "comp_stmt (pl_source B) d ls S (ck_constants (fn_chunk f)) = (xs, cs1)"
    "comp_stmts (pl_source B) d (ls @ declared d S) Ss cs1 = (ys, cs)" "bs = xs @ ys"
    by (auto simp: Let_def split: prod.splits)
  obtain k ks where k: "stmts_tokens Ss @ t # us = k # ks" by (cases "stmts_tokens Ss @ t # us") auto
  have hd: "hd (stmts_tokens Ss @ [t]) = k" using k by (cases "stmts_tokens Ss") auto
  have ok: "stmt_ok (pl_source B) d ls S k" and oks: "stmts_ok (pl_source B) d (ls @ declared d S) Ss t"
    using Cons.prems(3) hd by simp_all
  have fk: "follows k" using stmts_first [OF oks] Cons.prems(4) hd by (simp add: follows_types)
  have arr: "arr_ok (ck_constants (fn_chunk f))" using Cons.prems(2) by (simp add: here_def chunk_ok_def)
  then have cs1: "arr_ok cs1" "arr_count cs1 \<le> arr_count cs"
    using comp_stmt_grows(1) [OF c(1)] comp_stmt_grows(2) [OF c(2)] prefix_count by blast+
  let ?h = "last (stmt_tokens S)" and ?f = "emit_all xs (with_constants cs1 f)"
  have "becomes (ps_declaration parse) p (here B ?h (k # ks) ?f (ls @ declared d S) d)"
  proof (rule stmt_declared [OF _ _ ok fk c(1)])
    show "\<not> branch S \<longrightarrow> tok_type h \<notin> {TOKEN_THEN, TOKEN_ELSE}" using Cons.prems(10) by blast
  qed (use Cons.prems k cs1 c(3) in simp_all)
  then have "becomes (seqp (ps_declaration parse) (declarations_loop parse [TOKEN_RBRACE, TOKEN_EOF])) p
      (here B (last (?h # stmts_tokens Ss)) (t # us) (emit_all ys (with_constants cs ?f))
        ((ls @ declared d S) @ concat (map (declared d) Ss)) d)"
  proof (rule becomes_seq)
    fix q assume q: "here B ?h (k # ks) ?f (ls @ declared d S) d q"
    show "becomes (declarations_loop parse [TOKEN_RBRACE, TOKEN_EOF]) q
      (here B (last (?h # stmts_tokens Ss)) (t # us) (emit_all ys (with_constants cs ?f))
        ((ls @ declared d S) @ concat (map (declared d) Ss)) d)"
    proof (rule Cons.IH [OF _ _ oks Cons.prems(4)])
      show "tok_type ?h \<notin> {TOKEN_THEN, TOKEN_ELSE}" by (rule last_token [OF ok])
    qed (use Cons.prems q k c cs1 locals_declared in simp_all)
  qed
  moreover have "tok_type (ps_current p) \<notin> set [TOKEN_RBRACE, TOKEN_EOF]"
  proof -
    obtain j js where "stmt_tokens S = j # js" using stmt_tokens_ne [OF ok] by (cases "stmt_tokens S") auto
    then show ?thesis using first_token [OF ok] here_current [of B h j "js @ k # ks" f ls d p] Cons.prems(2) k by auto
  qed
  ultimately show ?case
    using stmt_tokens_ne [OF ok] c(3) by (subst declarations_loop_def) (simp add: run_goals last_append)
qed

text \<open>The cases of the induction.\<close>

lemma taken_Print: "stmt_taken (Print es)"
  unfolding stmt_taken_def
proof (intro allI impI)
  fix B h t us d ls bs cs f p
  assume h: "here B h (stmt_tokens (Print es) @ t # us) f ls d p" and ok: "stmt_ok (pl_source B) d ls (Print es) t"
    and t: "follows t" and c: "comp_stmt (pl_source B) d ls (Print es) (ck_constants (fn_chunk f)) = (bs, cs)"
    and n: "arr_count cs \<le> 256" "length bs \<le> 65535"
  from c obtain xs where "comp_parts (pl_source B) ls es (ck_constants (fn_chunk f)) = (xs, cs)"
    "bs = xs @ print_code es (length es)" by (auto simp: Let_def split: prod.splits)
  with here_print [of B h es t us f ls d p xs cs] h ok t n
  show "becomes (if branch (Print es) then statement parse else ps_declaration parse) p
      (here B (last (stmt_tokens (Print es))) (t # us) (emit_all bs (with_constants cs f)) (ls @ declared d (Print es)) d)"
    by simp
qed

text \<open>A branch, and the end of an \<open>If\<close>.\<close>

lemma here_branch:
  assumes "stmt_taken S" and "branch S" and "here B h (stmt_tokens S @ t # us) f ls d p"
    and "stmt_ok (pl_source B) d ls S t" and "follows t"
    and "comp_stmt (pl_source B) d ls S (ck_constants (fn_chunk f)) = (bs, cs)" and "arr_count cs \<le> 256"
    and "length bs \<le> 65535" and "locals_in d ls" and "0 \<le> d"
  shows "becomes (statement parse) p (here B (last (stmt_tokens S)) (t # us) (emit_all bs (with_constants cs f)) ls d)"
proof -
  have "becomes (if branch S then statement parse else ps_declaration parse) p
      (here B (last (stmt_tokens S)) (t # us) (emit_all bs (with_constants cs f)) (ls @ declared d S) d)"
    using assms unfolding stmt_taken_def by blast
  then show ?thesis using assms(2) branch_local [of S d] by simp
qed

lemma here_end:
  assumes "here B h (case u of None \<Rightarrow> t # us | Some w \<Rightarrow> w # t # us) g ls d q" and "closes th S u"
    and "stmt_tokens S = v # vs"
  shows "becomes (whenp (tok_line v \<noteq> tok_line th) (consumes TOKEN_END TOKEN_ENDIF m)) q
    (here B (case u of None \<Rightarrow> h | Some w \<Rightarrow> w) (t # us) g ls d)"
proof (cases u)
  case (Some w)
  with assms have "becomes (consumes TOKEN_END TOKEN_ENDIF m) q (here B w (t # us) g ls d)"
    by (intro here_consumes [of B h]) (auto simp: closes_def)
  with Some assms(2,3) show ?thesis by (simp add: closes_def whenp_def)
qed (use assms in \<open>simp add: closes_def whenp_def\<close>)

lemma here_IF:
  assumes "here B h (i # u # us) f ls d p" and "tok_type i = TOKEN_IF"
    and "\<And>q. here B i (u # us) f ls d q \<Longrightarrow> becomes (ifStatement parse) q Q"
  shows "becomes (statement parse) p Q"
proof -
  have "becomes (if_match TOKEN_IF (ifStatement parse) m) p Q" for m by (rule here_match [OF assms])
  then show ?thesis using assms(1,2) by (simp add: statement_def here_no_match)
qed

lemma here_if_stmt:
  assumes h: "here B h (i # tokens e @ th # stmt_tokens S @ w # ws) f ls d p" and ty: "tok_type i = TOKEN_IF" "tok_type th = TOKEN_THEN"
    and e: "expr_ok (pl_source B) ls e" and S: "stmt_taken S" "branch S" "stmt_ok (pl_source B) d ls S w" and w: "follows w"
    and c: "comp (pl_source B) ls e (ck_constants (fn_chunk f)) = (xs, cs1)" "comp_stmt (pl_source B) d ls S cs1 = (ys, cs2)"
    and n: "arr_count cs2 \<le> 256" "length (if_code th (last (stmt_tokens S)) xs ys zs) \<le> 65535" and ok: "arr_ok cs3"
    and d: "locals_in d ls" "0 \<le> d" and u: "closes th S u"
    and R: "\<And>q g. here B (last (stmt_tokens S)) (w # ws) g ls d q \<Longrightarrow> ck_constants (fn_chunk g) = cs2 \<Longrightarrow>
      becomes (if_match TOKEN_ELSE (run parse Statement) (ret ())) q
        (here B rt (case u of None \<Rightarrow> t # us | Some w \<Rightarrow> w # t # us) (emit_all zs (with_constants cs3 g)) ls d)"
  shows "becomes (statement parse) p (here B (case u of None \<Rightarrow> rt | Some w \<Rightarrow> w) (t # us)
    (emit_all (if_code th (last (stmt_tokens S)) xs ys zs) (with_constants cs3 f)) ls d)"
proof -
  have "arr_ok (ck_constants (fn_chunk f))" using h by (simp add: here_def chunk_ok_def)
  then have arr: "arr_ok cs1" "arr_ok cs2" "arr_count cs1 \<le> 256"
    using comp_grows [OF c(1)] comp_stmt_grows(1) [OF c(2)] prefix_count [of cs1 cs2] n(1) by auto
  obtain v vs where v: "stmt_tokens S = v # vs" using stmt_tokens_ne [OF S(3)] by (cases "stmt_tokens S") auto
  obtain k ks where k: "tokens e @ th # v # vs @ w # ws = k # ks" by (cases "tokens e @ th # v # vs @ w # ws") auto
  obtain r rs where r: "(case u of None \<Rightarrow> t # us | Some w \<Rightarrow> w # t # us) = r # rs" by (cases u) auto
  have len: "length ys \<le> 65535" using n(2) by (simp add: if_code_def)
  show ?thesis
  proof (rule here_IF)
    show "here B h (i # k # ks) f ls d p" using h v k by simp
    fix q assume "here B i (k # ks) f ls d q"
    then have "here B i (tokens e @ th # v # vs @ w # ws) f ls d q" unfolding k .
    then show "becomes (ifStatement parse) q (here B (case u of None \<Rightarrow> rt | Some w \<Rightarrow> w) (t # us)
        (emit_all (if_code th (last (stmt_tokens S)) xs ys zs) (with_constants cs3 f)) ls d)"
    proof (rule here_if [OF _ e c(1) arr(3) ty(2) arr(2) ok n(2)])
      fix q g assume "here B th (v # vs @ w # ws) g ls d q" "ck_constants (fn_chunk g) = cs1"
      with here_branch [OF S(1,2) _ S(3) w, of th ws g q ys cs2] c(2) n(1) len d v
      show "becomes (statement parse) q (here B (last (stmt_tokens S)) (w # ws) (emit_all ys (with_constants cs2 g)) ls d)"
        by simp
    next
      fix q g assume "here B rt (r # rs) g ls d q"
      then show "becomes (whenp (tok_line v \<noteq> tok_line th) (consumes TOKEN_END TOKEN_ENDIF
          ''Expect 'End' or 'EndIf' after block.'')) q (here B (case u of None \<Rightarrow> rt | Some w \<Rightarrow> w) (t # us) g ls d)"
        by (intro here_end [OF _ u v]) (simp add: r)
    qed (use R r in simp)
  qed (rule ty(1))
qed

lemma taken_IfThen:
  assumes S: "stmt_taken S"
  shows "stmt_taken (IfThen i e th S u)"
  unfolding stmt_taken_def
proof (intro allI impI)
  fix B h t us d ls bs cs f p
  let ?I = "IfThen i e th S u" and ?w = "case u of None \<Rightarrow> t | Some w \<Rightarrow> w"
  let ?ws = "case u of None \<Rightarrow> us | Some w \<Rightarrow> t # us"
  assume h: "here B h (stmt_tokens ?I @ t # us) f ls d p" and ok: "stmt_ok (pl_source B) d ls ?I t"
    and t: "follows t" and c: "comp_stmt (pl_source B) d ls ?I (ck_constants (fn_chunk f)) = (bs, cs)"
    and n: "arr_count cs \<le> 256" "length bs \<le> 65535" and d: "locals_in d ls" "0 \<le> d"
  from c obtain xs cs1 ys where c: "comp (pl_source B) ls e (ck_constants (fn_chunk f)) = (xs, cs1)"
    "comp_stmt (pl_source B) d ls S cs1 = (ys, cs)" "bs = if_code th (last (stmt_tokens S)) xs ys []"
    by (auto simp: Let_def split: prod.splits)
  have w: "follows ?w" "tok_type ?w \<noteq> TOKEN_ELSE"
    using t ok by (cases u; auto simp: closes_def follows_types)+
  have "arr_ok (ck_constants (fn_chunk f))" using h by (simp add: here_def chunk_ok_def)
  then have "arr_ok cs" using comp_grows [OF c(1)] comp_stmt_grows(1) [OF c(2)] by simp
  moreover have "here B h (i # tokens e @ th # stmt_tokens S @ ?w # ?ws) f ls d p" using h by (cases u) simp_all
  moreover have "closes th S u" using ok by simp
  ultimately have "becomes (statement parse) p (here B (case u of None \<Rightarrow> last (stmt_tokens S) | Some w \<Rightarrow> w) (t # us)
      (emit_all (if_code th (last (stmt_tokens S)) xs ys []) (with_constants cs f)) ls d)"
  proof (intro here_if_stmt [OF _ _ _ _ S _ _ w(1) c(1,2) n(1)])
    fix q g assume "here B (last (stmt_tokens S)) (?w # ?ws) g ls d q" "ck_constants (fn_chunk g) = cs"
    with w(2) show "becomes (if_match TOKEN_ELSE (run parse Statement) (ret ())) q (here B (last (stmt_tokens S))
        (case u of None \<Rightarrow> t # us | Some w \<Rightarrow> w # t # us) (emit_all [] (with_constants cs g)) ls d)"
      by (cases u) (simp_all add: here_no_match with_constants_same)
  qed (use ok n(2) c(3) d in auto)
  moreover have "last (stmt_tokens ?I) = (case u of None \<Rightarrow> last (stmt_tokens S) | Some w \<Rightarrow> w)"
    using stmt_tokens_ne [of _ d ls S] ok by (cases u) auto
  ultimately show "becomes (if branch ?I then statement parse else ps_declaration parse) p
      (here B (last (stmt_tokens ?I)) (t # us) (emit_all bs (with_constants cs f)) (ls @ declared d ?I) d)"
    using c(3) by simp
qed

lemma taken_IfElse:
  assumes S: "stmt_taken S" and R: "stmt_taken R"
  shows "stmt_taken (IfElse i e th S l R u)"
  unfolding stmt_taken_def
proof (intro allI impI)
  fix B h t us d ls bs cs f p
  let ?I = "IfElse i e th S l R u" and ?w = "case u of None \<Rightarrow> t | Some w \<Rightarrow> w"
  let ?ws = "case u of None \<Rightarrow> us | Some w \<Rightarrow> t # us"
  assume h: "here B h (stmt_tokens ?I @ t # us) f ls d p" and ok: "stmt_ok (pl_source B) d ls ?I t"
    and t: "follows t" and c: "comp_stmt (pl_source B) d ls ?I (ck_constants (fn_chunk f)) = (bs, cs)"
    and n: "arr_count cs \<le> 256" "length bs \<le> 65535" and d: "locals_in d ls" "0 \<le> d"
  from c obtain xs cs1 ys cs2 zs where c: "comp (pl_source B) ls e (ck_constants (fn_chunk f)) = (xs, cs1)"
    "comp_stmt (pl_source B) d ls S cs1 = (ys, cs2)" "comp_stmt (pl_source B) d ls R cs2 = (zs, cs)"
    "bs = if_code th (last (stmt_tokens S)) xs ys zs"
    by (auto simp: Let_def split: prod.splits)
  have w: "follows ?w" "follows l" using t ok by (cases u; auto simp: closes_def follows_types)+
  have okR: "branch R" "stmt_ok (pl_source B) d ls R ?w" and l: "tok_type l = TOKEN_ELSE" using ok by simp_all
  have "arr_ok (ck_constants (fn_chunk f))" using h by (simp add: here_def chunk_ok_def)
  then have arr: "arr_ok cs2" "arr_ok cs" "arr_count cs2 \<le> 256"
    using comp_grows [OF c(1)] comp_stmt_grows(1) [OF c(2)] comp_stmt_grows(1) [OF c(3)] prefix_count [of cs2 cs] n(1) by auto
  obtain v vs where v: "stmt_tokens R @ ?w # ?ws = v # vs" by (cases "stmt_tokens R @ ?w # ?ws") auto
  have "here B h (i # tokens e @ th # stmt_tokens S @ l # v # vs) f ls d p"
    using h unfolding v [symmetric] by (cases u) simp_all
  then have "becomes (statement parse) p (here B (case u of None \<Rightarrow> last (stmt_tokens R) | Some w \<Rightarrow> w) (t # us)
      (emit_all (if_code th (last (stmt_tokens S)) xs ys zs) (with_constants cs f)) ls d)"
  proof (rule here_if_stmt [OF _ _ _ _ S _ _ w(2) c(1,2) arr(3)])
    fix q g assume 1: "here B (last (stmt_tokens S)) (l # v # vs) g ls d q" and g: "ck_constants (fn_chunk g) = cs2"
    have "becomes (if_match TOKEN_ELSE (run parse Statement) (ret ())) q (here B (last (stmt_tokens R)) (?w # ?ws)
        (emit_all zs (with_constants cs g)) ls d)"
    proof (rule here_match [OF 1 l])
      fix q assume "here B l (v # vs) g ls d q"
      then have 2: "here B l (stmt_tokens R @ ?w # ?ws) g ls d q" unfolding v .
      show "becomes (run parse Statement) q (here B (last (stmt_tokens R)) (?w # ?ws) (emit_all zs (with_constants cs g)) ls d)"
        unfolding run_goals
        by (rule here_branch [OF R okR(1) 2 okR(2) w(1) _ n(1) _ d]) (use c(3,4) n(2) g in \<open>auto simp: if_code_def\<close>)
    qed
    then show "becomes (if_match TOKEN_ELSE (run parse Statement) (ret ())) q (here B (last (stmt_tokens R))
        (case u of None \<Rightarrow> t # us | Some w \<Rightarrow> w # t # us) (emit_all zs (with_constants cs g)) ls d)"
      by (cases u) simp_all
  qed (use ok n(2) c(4) d arr in auto)
  moreover have "last (stmt_tokens ?I) = (case u of None \<Rightarrow> last (stmt_tokens R) | Some w \<Rightarrow> w)"
    using stmt_tokens_ne [OF okR(2)] by (cases u) auto
  ultimately show "becomes (if branch ?I then statement parse else ps_declaration parse) p
      (here B (last (stmt_tokens ?I)) (t # us) (emit_all bs (with_constants cs f)) (ls @ declared d ?I) d)"
    using c(4) by simp
qed

lemma declared_depth: "l \<in> set (declared d S) \<Longrightarrow> lc_depth l = d"
  by (cases S) (auto simp: local_of_def)

lemma taken_Block:
  assumes Ss: "\<forall>S \<in> set Ss. stmt_taken S"
  shows "stmt_taken (Block a Ss b)"
  unfolding stmt_taken_def
proof (intro allI impI)
  fix B h t us d ls bs cs f p
  let ?I = "Block a Ss b" and ?new = "concat (map (declared (d + 1)) Ss)"
  assume h: "here B h (stmt_tokens ?I @ t # us) f ls d p" and ok: "stmt_ok (pl_source B) d ls ?I t"
    and t: "follows t" and c: "comp_stmt (pl_source B) d ls ?I (ck_constants (fn_chunk f)) = (bs, cs)"
    and n: "arr_count cs \<le> 256" "length bs \<le> 65535" and d: "locals_in d ls" "0 \<le> d"
  from c obtain xs where c: "comp_stmts (pl_source B) (d + 1) ls Ss (ck_constants (fn_chunk f)) = (xs, cs)"
    "bs = xs @ pops b (length ?new)" by (auto simp: Let_def split: prod.splits)
  have ty: "tok_type a = TOKEN_LBRACE" "tok_type b = TOKEN_RBRACE" and oks: "stmts_ok (pl_source B) (d + 1) ls Ss b"
    using ok by simp_all
  obtain v vs where v: "stmts_tokens Ss @ b # t # us = v # vs" by (cases "stmts_tokens Ss @ b # t # us") auto
  let ?Q = "here B b (t # us) (emit_all bs (with_constants cs f)) ls d"
  have "here B h (a # v # vs) f ls d p" using h v by simp
  then have "becomes (if_match TOKEN_LBRACE (scoped (block parse)) m) p ?Q" for m
  proof (rule here_match [OF _ ty(1)])
    fix q assume "here B a (v # vs) f ls d q"
    then have 0: "here B a (stmts_tokens Ss @ b # t # us) f ls d q" unfolding v .
    show "becomes (scoped (block parse)) q ?Q"
      unfolding scoped_def block_def run_goals
    proof (rule becomes_seq [OF here_beginScope [OF 0]], rule becomes_seq, rule becomes_seq)
      fix q assume 1: "here B a (stmts_tokens Ss @ b # t # us) f ls (d + 1) q"
      have "locals_in (d + 1) ls" using d(1) by (auto simp: locals_in_def)
      with stmts_taken [OF Ss 1 oks ty(2) c(1) n(1)] n(2) c(2) d(2) ty(1)
      show "becomes (declarations_loop parse [TOKEN_RBRACE, TOKEN_EOF]) q
          (here B (last (a # stmts_tokens Ss)) (b # t # us) (emit_all xs (with_constants cs f)) (ls @ ?new) (d + 1))"
        by auto
    next
      fix q assume "here B (last (a # stmts_tokens Ss)) (b # t # us) (emit_all xs (with_constants cs f)) (ls @ ?new) (d + 1) q"
      from here_consume [OF this ty(2)]
      show "becomes (consume TOKEN_RBRACE ''Expect '}' after block.'') q
          (here B b (t # us) (emit_all xs (with_constants cs f)) (ls @ ?new) (d + 1))" .
    next
      fix q assume "here B b (t # us) (emit_all xs (with_constants cs f)) (ls @ ?new) (d + 1) q"
      from here_endScope [OF this d(1)] show "becomes endScope q ?Q" using c(2) declared_depth by fastforce
    qed
  qed
  then have "becomes (statement parse) p ?Q"
    using h ty(1) by (simp add: statement_def here_no_match)
  then show "becomes (if branch ?I then statement parse else ps_declaration parse) p
      (here B (last (stmt_tokens ?I)) (t # us) (emit_all bs (with_constants cs f)) (ls @ declared d ?I) d)" by simp
qed

lemma taken_Var: "stmt_taken (Var v x init)"
  unfolding stmt_taken_def
proof (intro allI impI)
  fix B h t us d ls bs cs f p
  let ?I = "Var v x init" and ?l = "local_of x (-1)"
  assume h: "here B h (stmt_tokens ?I @ t # us) f ls d p" and ok: "stmt_ok (pl_source B) d ls ?I t"
    and t: "follows t" and c: "comp_stmt (pl_source B) d ls ?I (ck_constants (fn_chunk f)) = (bs, cs)"
    and n: "arr_count cs \<le> 256" "length bs \<le> 65535"
  obtain w ws where w: "(case init of None \<Rightarrow> [] | Some (q, e) \<Rightarrow> q # tokens e) @ t # us = w # ws"
    by (cases "(case init of None \<Rightarrow> [] | Some (q, e) \<Rightarrow> q # tokens e) @ t # us") auto
  have v: "tok_type v = TOKEN_VAR" "tok_type x = TOKEN_IDENTIFIER" "0 < d" "length ls < 256"
    "filter (identifiersEqual (pl_source B) x) (same_scope d ls) = []" using ok by simp_all
  let ?Q = "here B (last (stmt_tokens ?I)) (t # us) (emit_all bs (with_constants cs f)) (ls @ [local_of x d]) d"
  have h': "here B h (v # x # w # ws) f ls d p" using h w by simp
  have var: "becomes (varDeclaration parse) q ?Q" if 1: "here B v (x # w # ws) f ls d q" for q
    unfolding varDeclaration_def
  proof (rule here_parseVariable [OF 1 v(2-5)], rule becomes_seq)
    fix q assume 2: "here B x (w # ws) f (ls @ [?l]) d q"
    show "becomes (if_match TOKEN_EQUAL (expression parse) (emitOp OP_NIL)) q
        (here B (last (stmt_tokens ?I)) (t # us) (emit_all bs (with_constants cs f)) (ls @ [?l]) d)"
    proof (cases init)
      case None
      with w c have "w = t" "ws = us" "bs = at_tok x [opcode_byte OP_NIL]" "cs = ck_constants (fn_chunk f)" by simp_all
      with here_emitOp [OF 2, of OP_NIL] here_no_match [OF 2, of TOKEN_EQUAL "expression parse" "emitOp OP_NIL"] t None
      show ?thesis by (simp add: follows_def with_constants_same)
    next
      case (Some z)
      obtain e0 e where z: "z = (e0, e)" by (cases z)
      obtain k ks where k: "tokens e @ t # us = k # ks" by (cases "tokens e @ t # us") auto
      have e: "w = e0" "ws = k # ks" "tok_type e0 = TOKEN_EQUAL" "expr_ok (pl_source B) (ls @ [?l]) e"
        "comp (pl_source B) (ls @ [?l]) e (ck_constants (fn_chunk f)) = (bs, cs)"
        using w ok c Some z k initializer(2) by auto
      show ?thesis
      proof (rule here_match [OF _ e(3)])
        show "here B x (e0 # k # ks) f (ls @ [?l]) d q" using 2 e(1,2) by simp
        fix q assume "here B e0 (k # ks) f (ls @ [?l]) d q"
        then have "here B e0 (tokens e @ t # us) f (ls @ [?l]) d q" unfolding k .
        from here_expression [OF this e(4,5) n t] Some z
        show "becomes (expression parse) q
          (here B (last (stmt_tokens ?I)) (t # us) (emit_all bs (with_constants cs f)) (ls @ [?l]) d)" by simp
      qed
    qed
    fix q assume "here B (last (stmt_tokens ?I)) (t # us) (emit_all bs (with_constants cs f)) (ls @ [?l]) d q"
    from here_define [OF this v(3)] show "becomes (defineVariable 0) q ?Q" .
  qed
  have "becomes (if_match TOKEN_VAR (varDeclaration parse) m) p ?Q" for m
    by (rule here_match [OF h' v(1) var])
  then have "becomes (if_match TOKEN_FUNC (funDeclaration parse) (if_match TOKEN_VAR (varDeclaration parse)
      (if_match TOKEN_GLOBAL (globalDeclaration parse) (run parse Statement)))) p ?Q"
    using v(1) by (simp add: here_no_match [OF h'])
  then have "becomes (ps_declaration parse) p ?Q"
    unfolding ps_declaration_def by (rule becomes_seq) (rule here_no_panic)
  then show "becomes (if branch ?I then statement parse else ps_declaration parse) p
      (here B (last (stmt_tokens ?I)) (t # us) (emit_all bs (with_constants cs f)) (ls @ declared d ?I) d)" by simp
qed

lemma taken_Assign: "stmt_taken (Assign x q0 e)"
  unfolding stmt_taken_def
proof (intro allI impI)
  fix B :: place and h t us d ls bs cs f p
  let ?I = "Assign x q0 e" and ?h = "last (tokens e)"
  let ?st = "[opcode_byte OP_ST, word_of_nat (the (find_local (pl_source B) x ls (length ls)))]"
  assume h: "here B h (stmt_tokens ?I @ t # us) f ls d p" and ok: "stmt_ok (pl_source B) d ls ?I t"
    and t: "follows t" and c: "comp_stmt (pl_source B) d ls ?I (ck_constants (fn_chunk f)) = (bs, cs)"
    and n: "arr_count cs \<le> 256" "length bs \<le> 65535"
    and prev: "\<not> branch ?I \<longrightarrow> tok_type h \<notin> {TOKEN_THEN, TOKEN_ELSE}"
  from c obtain xs where c: "comp (pl_source B) ls e (ck_constants (fn_chunk f)) = (xs, cs)"
    "bs = xs @ at_tok ?h (?st @ [opcode_byte OP_POP])" by (auto simp: Let_def split: prod.splits)
  let ?Q = "here B ?h (t # us) (emit_all bs (with_constants cs f)) ls d"
  define p0 where "p0 = p\<lparr>ps_hadCall := False, ps_hadAssign := False, ps_subExprs := 0\<rparr>"
  have h0: "here B h (x # q0 # tokens e @ t # us) f ls d p0"
    unfolding p0_def by (rule here_flags(1)) (use h in simp)
  have "becomes (expression parse) p0 (\<lambda>q. ps_hadAssign q \<and>
      here B ?h (t # us) (emit_all (xs @ at_tok ?h ?st) (with_constants cs f)) ls d q)"
    by (rule here_assign [OF h0 _ _ _ _ c(1) n(1) _ t]) (use ok n(2) c(2) in auto)
  then have "becomes (seqp (expression parse) (seqp (emitOp OP_POP) (bindp (gets (\<lambda>p. p)) (\<lambda>p.
     whenp (ps_subExprs p \<le> 1 \<and> \<not> ps_hadCall p \<and> \<not> ps_hadAssign p) (error ''Unexpected expression syntax.''))))) p0 ?Q"
  proof (rule becomes_seq)
    fix q assume q: "ps_hadAssign q \<and> here B ?h (t # us) (emit_all (xs @ at_tok ?h ?st) (with_constants cs f)) ls d q"
    then have "cur_fn q = Some (emit_all (xs @ at_tok ?h ?st) (with_constants cs f))" by (simp add: here_def)
    let ?q = "upd_fn (emits (ps_previous q) [opcode_byte OP_POP] (emit_all (xs @ at_tok ?h ?st) (with_constants cs f))) q"
    from emitOp_eq [OF \<open>cur_fn q = _\<close>] have "emitOp OP_POP q = Some (Inr ((), ?q))" .
    moreover have "ps_hadAssign ?q" using q by (simp add: upd_fn_def)
    moreover have "?Q ?q"
      using here_emit [of B ?h "t # us" "emit_all (xs @ at_tok ?h ?st) (with_constants cs f)" ls d q "[opcode_byte OP_POP]"] q c(2)
      by (simp add: at_tok_def emits_emits)
    ultimately show "becomes (seqp (emitOp OP_POP) (bindp (gets (\<lambda>p. p)) (\<lambda>p.
        whenp (ps_subExprs p \<le> 1 \<and> \<not> ps_hadCall p \<and> \<not> ps_hadAssign p) (error ''Unexpected expression syntax.'')))) q ?Q"
      by (intro becomes_seq [of "emitOp OP_POP" q "\<lambda>q. ps_hadAssign q \<and> ?Q q"]) (auto intro: becomesI simp: whenp_def)
  qed
  then have "becomes (expressionStatement parse) p ?Q" by (simp add: expressionStatement_def p0_def)
  moreover have "here B h (x # q0 # tokens e @ t # us) f ls d p" "tok_type x = TOKEN_IDENTIFIER" using h ok by auto
  ultimately have "becomes (statement parse) p ?Q"
    using prev by (simp add: statement_def here_no_match here_previous)
  then have "becomes (ps_declaration parse) p ?Q"
    by (rule here_declaration [rotated 2]) (use h ok in auto)
  then show "becomes (if branch ?I then statement parse else ps_declaration parse) p
      (here B (last (stmt_tokens ?I)) (t # us) (emit_all bs (with_constants cs f)) (ls @ declared d ?I) d)" by simp
qed

lemma stmt_taken: "stmt_taken S"
  by (induction S) (simp_all add: taken_Print taken_IfThen taken_IfElse taken_Block taken_Var taken_Assign)

subsection \<open>The script\<close>

text \<open>The statements of a script are compiled in the outermost scope, up to the end of the source.\<close>

lemma script_taken:
  assumes "here B h (stmts_tokens Ss @ [t, u]) f ls 0 p" and "stmts_ok (pl_source B) 0 ls Ss t"
    and "tok_type t = TOKEN_EOF" and "comp_stmts (pl_source B) 0 ls Ss (ck_constants (fn_chunk f)) = (bs, cs)"
    and "arr_count cs \<le> 256" and "length bs \<le> 65535" and "locals_in 0 ls"
  shows "becomes (script_loop parse) p (here B t [u] (emit_all bs (with_constants cs f)) ls 0)"
  using assms
proof (induction Ss arbitrary: h f bs cs p)
  case Nil
  then have "here B h (t # u # []) f ls 0 p" by simp
  then show ?case
    unfolding script_loop_def by (rule here_match) (use Nil in \<open>simp_all add: with_constants_same\<close>)
next
  case (Cons S Ss)
  obtain k ks where k: "stmts_tokens Ss @ [t, u] = k # ks" by (cases "stmts_tokens Ss @ [t, u]") auto
  have hd: "hd (stmts_tokens Ss @ [t]) = k" using k by (cases "stmts_tokens Ss") auto
  have ok: "stmt_ok (pl_source B) 0 ls S k" using Cons.prems(2) hd by simp
  note b = outermost [OF ok]
  have oks: "stmts_ok (pl_source B) 0 ls Ss t" using Cons.prems(2) branch_local [OF b] by simp
  from Cons.prems(4) obtain xs cs1 ys where c: "comp_stmt (pl_source B) 0 ls S (ck_constants (fn_chunk f)) = (xs, cs1)"
    "comp_stmts (pl_source B) 0 ls Ss cs1 = (ys, cs)" "bs = xs @ ys"
    using branch_local [OF b] by (auto simp: Let_def split: prod.splits)
  have fk: "follows k" using stmts_first [OF oks] Cons.prems(3) hd by (simp add: follows_types)
  have arr: "arr_ok (ck_constants (fn_chunk f))" using Cons.prems(1) by (simp add: here_def chunk_ok_def)
  then have cs1: "arr_ok cs1" "arr_count cs1 \<le> arr_count cs"
    using comp_stmt_grows(1) [OF c(1)] comp_stmt_grows(2) [OF c(2)] prefix_count by blast+
  let ?f = "emit_all xs (with_constants cs1 f)"
  have "becomes (ps_declaration parse) p (here B (last (stmt_tokens S)) (k # ks) ?f (ls @ declared 0 S) 0)"
    by (rule stmt_declared [OF stmt_taken _ ok fk c(1)]) (use Cons.prems k cs1 c(3) b in simp_all)
  then have "becomes (seqp (ps_declaration parse) (script_loop parse)) p (here B t [u] (emit_all ys (with_constants cs ?f)) ls 0)"
  proof (rule becomes_seq)
    fix q assume "here B (last (stmt_tokens S)) (k # ks) ?f (ls @ declared 0 S) 0 q"
    then have q: "here B (last (stmt_tokens S)) (stmts_tokens Ss @ [t, u]) ?f ls 0 q"
      using k branch_local [OF b] by simp
    show "becomes (script_loop parse) q (here B t [u] (emit_all ys (with_constants cs ?f)) ls 0)"
      by (rule Cons.IH [OF q oks Cons.prems(3)]) (use Cons.prems c cs1 in simp_all)
  qed
  moreover obtain j js where j: "stmt_tokens S = j # js" using stmt_tokens_ne [OF ok] by (cases "stmt_tokens S") auto
  moreover have "tok_type j \<noteq> TOKEN_EOF" using first_token [OF ok] j by auto
  ultimately show ?case
    using Cons.prems(1) c(3) by (subst script_loop_def) (simp add: here_no_match run_goals)
qed

end
