(* ===== verification/Script_Compiled.thy ===== *)
theory Script_Compiled
  imports Stmt_Compiled
begin

text \<open>The compiler on a whole script, from the text of the source to the function of the script.\<close>

subsection \<open>The whole source\<close>

text \<open>The lexer splits a source, from a position on, into these tokens and the end.\<close>

fun lexes :: "string \<Rightarrow> lexer_t \<Rightarrow> tok_t list \<Rightarrow> bool" where
  "lexes b L [] \<longleftrightarrow> isAtEnd b (skipWhitespace b L)"
| "lexes b L (t # ts) \<longleftrightarrow>
     (let (u, L') = lexer_scan b L in u = t \<and> tok_type t \<noteq> TOKEN_ERROR \<and> lexes b L' ts)"

lemma scan_stays_at_end:
  assumes "isAtEnd b (skipWhitespace b L)"
  shows "\<exists>t L'. lexer_scan b L = (t, L') \<and> tok_type t = TOKEN_EOF \<and> isAtEnd b (skipWhitespace b L')"
proof -
  let ?L = "(skipWhitespace b L)\<lparr>lx_start := lx_current (skipWhitespace b L)\<rparr>"
  have "isAtEnd b ?L" using assms by (simp add: isAtEnd_def)
  moreover from this have "skipWhitespace b ?L = ?L"
    by (subst skipWhitespace.simps) (simp add: Let_def peek_def isAtEnd_def c_tolower_def)
  moreover have "lexer_scan b L = (makeToken ?L TOKEN_EOF, ?L)"
    using assms by (simp add: lexer_scan_def isAtEnd_def Let_def)
  ultimately show ?thesis by (simp add: makeToken_def)
qed

lemma upcoming_lexes:
  assumes "lexes (src_buffer (ps_source p)) (ps_lexer p) ts"
  shows "\<exists>t u. upcoming (adv p) (ts @ [t, u]) \<and> tok_type t = TOKEN_EOF \<and> tok_type u = TOKEN_EOF"
  using assms
proof (induction ts arbitrary: p)
  case Nil
  let ?b = "src_buffer (ps_source p)"
  obtain t L where 1: "lexer_scan ?b (ps_lexer p) = (t, L)" "tok_type t = TOKEN_EOF" "isAtEnd ?b (skipWhitespace ?b L)"
    using scan_stays_at_end Nil by (metis lexes.simps(1))
  obtain u M where 2: "lexer_scan ?b L = (u, M)" "tok_type u = TOKEN_EOF" using scan_stays_at_end [OF 1(3)] by blast
  have "upcoming (adv p) [t, u]" using 1 2 by (simp add: adv_def scan_current_def)
  with 1(2) 2(2) show ?case by auto
next
  case (Cons t ts)
  from Cons.prems have "lexes (src_buffer (ps_source (adv p))) (ps_lexer (adv p)) ts" "ps_current (adv p) = t"
    "tok_type t \<noteq> TOKEN_ERROR"
    by (auto simp: adv_def scan_current_def split: prod.splits)
  with Cons.IH [of "adv p"] show ?case by simp
qed

lemma emit_all_source [simp]: "ck_source (fn_chunk (emit_all xs f)) = ck_source (fn_chunk f)"
proof -
  have "ck_source (chunk_emit c b l k) = ck_source c" for c b l k by (simp add: chunk_emit_def Let_def)
  then show ?thesis by (induction xs arbitrary: f) (simp_all add: emit_all_def emits_def split: prod.split)
qed

lemma emit_all_head [simp]:
  "fn_arity (emit_all xs f) = fn_arity f" "fn_name (emit_all xs f) = fn_name f"
  by (induction xs arbitrary: f) (simp_all add: emit_all_def emits_def split: prod.split)

text \<open>The one local of a script, which no name reaches, and a script with its constants and code.\<close>

definition script_locals :: "local_t list" where
  "script_locals = [\<lparr>lc_start = Message [], lc_length = 0, lc_depth = 0\<rparr>]"

definition script_fun :: "fun_t \<Rightarrow> emission \<Rightarrow> arr_t \<Rightarrow> bool" where
  "script_fun fn bs cs \<longleftrightarrow> fn_arity fn = 0 \<and> fn_name fn = None \<and> chunk_ok (fn_chunk fn) \<and>
     consts_of fn = arr_values cs \<and>
     ck_code (fn_chunk fn) = map fst bs @ [opcode_byte OP_NIL, opcode_byte OP_RET]"

lemma initCompiler_script:
  assumes "fun_new (Some (ps_source p)) (ps_vm p) = Inr (a, vm)"
  shows "initCompiler TYPE_SCRIPT p = Some (Inr ((), entered a TYPE_SCRIPT vm p))"
  using assms
  by (simp add: initCompiler_def bindp_gets on_vm_def bindp_def [of "on_vm _"] whenp_def seqp_eq [of "ret _", OF ret_eq]
      modify_def entered_def)

lemma endCompiler_eq:
  assumes "cur_fn q = Some f" and "ps_compilers q = c # ccs"
  shows "endCompiler q = Some (Inr (cp_function c,
    (upd_fn (emits (ps_previous q) [opcode_byte OP_NIL, opcode_byte OP_RET] f) q)\<lparr>ps_compilers := ccs\<rparr>))"
proof -
  let ?q = "upd_fn (emits (ps_previous q) [opcode_byte OP_NIL, opcode_byte OP_RET] f) q"
  have "emitReturn q = Some (Inr ((), ?q))"
    using emitOp_eq [OF assms(1)] emitOp_eq [OF cur_upd_fn [OF assms(1)]] by (simp add: emitReturn_def seqp_eq)
  moreover have "get_compiler ?q = Some (Inr (c, ?q))"
    using assms(2) by (simp add: get_compiler_def cur_compiler_def)
  ultimately show ?thesis
    using assms(2) by (simp add: endCompiler_def seqp_eq [of emitReturn] bindp_eq [of get_compiler] seqp_eq [of "modify _"]
        modify_def ret_eq)
qed

text \<open>The parser at the start of the source: the function of the script is the current one.\<close>

lemma put_fun_same: "fun_at (heap vm) a = Some f \<Longrightarrow> put_fun a f vm = vm"
  by (auto simp: put_fun_def fun_at_Some fun_upd_idem_iff)

lemma script_body:
  assumes cur: "cur_fn p = Some f" and cp: "ps_compilers p = [c]" and "cp_locals c = script_locals" and "cp_scopeDepth c = 0"
    and ok: "chunk_ok (fn_chunk f)" and "ck_code (fn_chunk f) = []"
    and lex: "lexes (src_buffer (ps_source p)) (ps_lexer p) (stmts_tokens Ss)"
    and Ss: "\<And>t. tok_type t = TOKEN_EOF \<Longrightarrow> stmts_ok (ps_source p) 0 script_locals Ss t"
    and c: "comp_stmts (ps_source p) 0 script_locals Ss (ck_constants (fn_chunk f)) = (bs, cs)" and "arr_count cs \<le> 256"
    and "length bs \<le> 65535" and "\<not> ps_panicMode p" and "\<not> ps_hadError p" and "fn_arity f = 0" and "fn_name f = None"
    and "ck_source (fn_chunk f) = Some src"
  shows "\<exists>q fn. seqp ps_advance (seqp (run parse Script) endCompiler) p = Some (Inr (cp_function c, q)) \<and>
    \<not> ps_hadError q \<and> script_fun fn bs cs \<and> ck_source (fn_chunk fn) = Some src \<and>
    ps_vm q = put_fun (cp_function c) fn (ps_vm p)"
proof -
  define B where "B = \<lparr>pl_source = ps_source p, pl_compiler = c, pl_vm = ps_vm p\<rparr>"
  obtain t u where up: "upcoming (adv p) (stmts_tokens Ss @ [t, u])" "tok_type t = TOKEN_EOF" "tok_type u = TOKEN_EOF"
    using upcoming_lexes [OF lex] by blast
  have "tok_type (ps_current (adv p)) \<noteq> TOKEN_ERROR" using up by (cases "stmts_tokens Ss") auto
  then have 1: "ps_advance p = Some (Inr ((), adv p))"
    by (simp add: ps_advance_def adv_def advance_loop.simps Let_def)
  have same: "put_fun (cp_function c) f (ps_vm p) = ps_vm p" using cur cp by (auto simp: cur_fn_Some intro: put_fun_same)
  then have h: "here B (ps_current p) (stmts_tokens Ss @ [t, u]) f script_locals 0 (adv p)"
    using assms up(1) cur_fn_advs [of 1 p] by (simp add: here_def B_def)
  have "becomes (script_loop parse) (adv p) (here B t [u] (emit_all bs (with_constants cs f)) script_locals 0)"
    by (rule script_taken [OF h _ up(2)]) (use assms up(2) in \<open>auto simp: B_def locals_in_def script_locals_def\<close>)
  then obtain q where 2: "script_loop parse (adv p) = Some (Inr ((), q))"
    and q: "here B t [u] (emit_all bs (with_constants cs f)) script_locals 0 q" by (auto simp: becomes_def)
  let ?fn = "emits t [opcode_byte OP_NIL, opcode_byte OP_RET] (emit_all bs (with_constants cs f))"
  have "ps_previous q = t" "cur_fn q = Some (emit_all bs (with_constants cs f))"
    "ps_compilers q = c\<lparr>cp_locals := script_locals, cp_scopeDepth := 0\<rparr> # []"
    using q by (simp_all add: here_def B_def)
  then have "endCompiler q = Some (Inr (cp_function c, (upd_fn ?fn q)\<lparr>ps_compilers := []\<rparr>))"
    using endCompiler_eq [of q] by simp
  then have "seqp ps_advance (seqp (run parse Script) endCompiler) p =
      Some (Inr (cp_function c, (upd_fn ?fn q)\<lparr>ps_compilers := []\<rparr>))"
    using 1 2 by (simp add: seqp_eq [of ps_advance] run_goals seqp_eq [of "script_loop _"])
  moreover have "arr_ok cs" using comp_stmt_grows(2) [OF c] ok by (simp add: chunk_ok_def)
  then have "script_fun ?fn bs cs"
    using assms emit_all_head [of "at_tok t [opcode_byte OP_NIL, opcode_byte OP_RET]"]
    by (simp add: script_fun_def consts_of_def) (simp add: with_constants_def)
  moreover have "ck_source (fn_chunk ?fn) = Some src" using assms(16) emit_all_source [of "at_tok t _"] by (simp add: with_constants_def)
  ultimately show ?thesis
    using q by (intro exI [of _ "(upd_fn ?fn q)\<lparr>ps_compilers := []\<rparr>"] exI) (simp add: upd_fn_def here_def B_def)
qed

lemma compile_script:
  assumes "machine_ok vm" and idle: "gc_idle SIZEOF_FUN vm"
    and "lexes (src_buffer src) lexer_init (stmts_tokens Ss)"
    and "\<And>t. tok_type t = TOKEN_EOF \<Longrightarrow> stmts_ok src 0 script_locals Ss t"
    and "comp_stmts src 0 script_locals Ss arr_init = (bs, cs)" and "arr_count cs \<le> 256" and "length bs \<le> 65535"
  shows "\<exists>vm' fn. compile tok0 src vm = Inr (Some (next_addr vm), vm') \<and>
    fun_at (heap vm') (next_addr vm) = Some fn \<and> script_fun fn bs cs \<and> ck_source (fn_chunk fn) = Some src \<and>
    vm_grown vm vm' \<and> stderr vm' = stderr vm"
proof -
  let ?a = "next_addr vm" and ?f = "fresh_fun None src" and ?p0 = "parser_init tok0 src vm"
  obtain vm1 where new: "fun_new (Some src) vm = Inr (?a, vm1)" using allocObj_idle [OF idle] by (simp add: fun_new_def)
  note 1 = fun_new_grown [OF assms(1) new]
  then have f1: "fun_at (heap vm1) ?a = Some ?f" by (simp add: fresh_fun_def)
  define p where "p = entered ?a TYPE_SCRIPT vm1 ?p0"
  have p: "ps_source p = src" "ps_lexer p = lexer_init" "ps_vm p = vm1" "\<not> ps_panicMode p" "\<not> ps_hadError p"
    "ps_compilers p = [\<lparr>cp_function = ?a, cp_type = TYPE_SCRIPT, cp_locals = script_locals, cp_scopeDepth = 0\<rparr>]"
    by (simp_all add: p_def entered_def parser_init_def script_locals_def)
  have init: "initCompiler TYPE_SCRIPT ?p0 = Some (Inr ((), p))"
    unfolding p_def by (rule initCompiler_script) (simp add: parser_init_def new)
  have "cur_fn p = Some ?f" using f1 p by (simp add: cur_fn_def)
  from script_body [OF this p(6), of Ss bs cs src] obtain q fn where
    q: "seqp ps_advance (seqp (run parse Script) endCompiler) p = Some (Inr (?a, q))" "\<not> ps_hadError q"
    "script_fun fn bs cs" "ck_source (fn_chunk fn) = Some src" "ps_vm q = put_fun ?a fn vm1"
    using assms p chunk_init_ok [of "Some src"] by (auto simp: fresh_fun_def chunk_init_def)
  have "compile tok0 src vm = Inr (Some ?a, ps_vm q)"
    using q(1,2) init by (simp add: compile_def compile_source_def seqp_eq [of "initCompiler _"] returns_def)
  moreover note 2 = put_fun_grown [of vm1 ?a ?f fn]
  have "vm_grown vm (ps_vm q) \<and> stderr (ps_vm q) = stderr vm \<and> fun_at (heap (ps_vm q)) ?a = Some fn"
    using 1 2 f1 q(5) by (auto simp: vm_grown_def intro: untouched_trans)
  ultimately show ?thesis using q(3,4) by blast
qed

end
