(* ===== verification/Script_Example.thy ===== *)
theory Script_Example
  imports Script_Compiled Expr_Props
begin

text \<open>
  A program for the properties of scripts, with a block, a variable, an assignment and a conditional:
  \<open>{var x=1 x=not x if x then print 1 else print x}\<close>.
\<close>

subsection \<open>Splitting a line into tokens\<close>

text \<open>The lexer on the first line, where a character and its column differ by one.\<close>

definition lex_at :: "nat \<Rightarrow> nat \<Rightarrow> lexer_t" where
  "lex_at s i = gt_lexer s i (int i + 1)"

lemma lexes_scan:
  "lexer_scan b L = (t, L') \<Longrightarrow> tok_type t \<noteq> TOKEN_ERROR \<Longrightarrow> lexes b L' ts \<Longrightarrow> lexes b L (t # ts)"
  by simp

lemma scan_blank:
  assumes "drop (lx_current L) src = CHR '' '' # rest"
  shows "lexer_scan src L = lexer_scan src (lx_step L)"
proof -
  have "peek src L = CHR '' ''" using peek_drop [OF assms] by (simp add: c_tolower_def)
  then have "skipWhitespace src L = skipWhitespace src (lx_step L)" by (subst skipWhitespace.simps) simp
  then show ?thesis by (simp add: lexer_scan_def)
qed

lemma gt_tok_simps [simp]: "tok_type (gt_tok i ty n) = ty" "tok_line (gt_tok i ty n) = 1"
  "tok_start (gt_tok i ty n) = In_source i" "tok_length (gt_tok i ty n) = n"
  by (simp_all add: gt_tok_def)

text \<open>Equations that compute a token from the text, whose conditions are computed too.\<close>

lemma lex_at_simps [simp]: "lx_current (lex_at s i) = i" "lx_start (lex_at s i) = s"
  by (simp_all add: lex_at_def)

lemma drop_nth: "i < length xs \<Longrightarrow> drop i xs = xs ! i # drop (Suc i) xs"
  by (simp add: Cons_nth_drop_Suc)

lemma lexes_blank:
  assumes "i < length src" and "src ! i = CHR '' ''"
  shows "lexes src (lex_at s i) (t # ts) = lexes src (lex_at s (Suc i)) (t # ts)"
proof -
  have "lexer_scan src (lex_at s i) = lexer_scan src (lex_at s (Suc i))"
    using scan_blank [of "lex_at s i" src "drop (Suc i) src"] drop_nth [OF assms(1)] assms(2)
    by (simp add: lex_at_def lx_step_def algebra_simps)
  then show ?thesis by simp
qed

lemma lexes_word:
  assumes "i + n \<le> length src" and "0 < n" and "isAlpha (src ! i)" and "\<forall>c \<in> set (take n (drop i src)). word_char c"
    and "i + n = length src \<or> \<not> word_char (src ! (i + n))"
    and "map c_tolower (take n (drop i src)) = take n (drop i src)"
    and "ty = (case map_of keyword_table (take n (drop i src)) of Some ty \<Rightarrow> ty | None \<Rightarrow> TOKEN_IDENTIFIER)"
    and "ty \<noteq> TOKEN_ERROR"
  shows "lexes src (lex_at s i) (gt_tok i ty n # ts) = lexes src (lex_at i (i + n)) ts"
proof -
  obtain m where m: "n = Suc m" using assms(2) by (cases n) auto
  let ?w = "take m (drop (Suc i) src)" and ?r = "drop (i + n) src"
  have i: "i < length src" using assms(1,2) by simp
  have w: "take n (drop i src) = src ! i # ?w" by (simp add: m drop_nth [OF i])
  have "drop i src = take n (drop i src) @ drop n (drop i src)" by (rule append_take_drop_id [symmetric])
  also have "\<dots> = (src ! i # ?w) @ ?r" unfolding w by (simp add: add.commute)
  finally have d: "drop (lx_current (lex_at s i)) src = (src ! i # ?w) @ ?r" by (simp add: lex_at_def)
  have r: "?r = [] \<or> \<not> word_char (hd ?r)"
    using assms(1,5) by (cases "i + n = length src") (auto simp: hd_drop_conv_nth)
  have cs: "\<forall>c \<in> set ?w. word_char c" using assms(4) w by simp
  note scan = scan_word_run [OF d assms(3) cs r]
  let ?L = "lx_skip (Suc (length ?w)) ((lex_at s i)\<lparr>lx_start := lx_current (lex_at s i)\<rparr>)"
  have "length ?w = m" using assms(1) m by simp
  then have L: "?L = lex_at i (i + n)" using m by (simp add: lex_at_def lx_skip_def)
  have "lexeme src ?L = map c_tolower (take n (drop i src))" using scan(2) unfolding w .
  then have "identifierType src ?L = ty" using identifierType_lookup [OF scan(3,4)] assms(6,7) by simp
  with scan(1) L show ?thesis using assms(8) by (simp add: makeToken_def gt_tok_def) (simp add: lex_at_def)
qed

lemma lexes_digit:
  assumes "i < length src" and "isDigit (src ! i)"
    and "Suc i = length src \<or> \<not> isDigit (src ! Suc i) \<and> src ! Suc i \<noteq> CHR ''.''"
  shows "lexes src (lex_at s i) (gt_tok i TOKEN_NUMBER 1 # ts) = lexes src (lex_at i (Suc i)) ts"
proof -
  have "drop (lx_current (lex_at s i)) src = (src ! i # []) @ drop (Suc i) src"
    using drop_nth [OF assms(1)] by (simp add: lex_at_def)
  moreover have "drop (Suc i) src = [] \<or> \<not> isDigit (hd (drop (Suc i) src)) \<and> hd (drop (Suc i) src) \<noteq> CHR ''.''"
    using assms(1,3) by (cases "Suc i = length src") (auto simp: hd_drop_conv_nth)
  ultimately have "lexer_scan src (lex_at s i) = (gt_tok i TOKEN_NUMBER 1, lex_at i (Suc i))"
    using scan_digits_run [of "lex_at s i" src "src ! i" "[]" "drop (Suc i) src"] assms(2)
    by (simp add: lx_skip_def makeToken_def gt_tok_def lex_at_def)
  then show ?thesis by simp
qed

lemma lexes_symbol:
  assumes "i < length src" and "src ! i \<notin> {CHR '' '', CHR 0x0D, CHR 0x09, CHR 0x0A, CHR '';'', CHR ''#''}"
    and "src ! i \<noteq> NUL" and "\<not> isAlpha (src ! i)" and "\<not> isDigit (src ! i)"
    and "lx_symbol src (c_tolower (src ! i)) (lex_at i (Suc i)) = (makeToken (lex_at i (Suc i)) ty, lex_at i (Suc i))"
    and "ty \<noteq> TOKEN_ERROR"
  shows "lexes src (lex_at s i) (gt_tok i ty 1 # ts) = lexes src (lex_at i (Suc i)) ts"
proof -
  have "drop (lx_current (lex_at s i)) src = src ! i # drop (Suc i) src"
    using drop_nth [OF assms(1)] by (simp add: lex_at_def)
  moreover have "lx_step ((lex_at s i)\<lparr>lx_start := lx_current (lex_at s i)\<rparr>) = lex_at i (Suc i)"
    by (simp add: lex_at_def lx_step_def)
  ultimately have "lexer_scan src (lex_at s i) = (makeToken (lex_at i (Suc i)) ty, lex_at i (Suc i))"
    using scan_symbol [of "lex_at s i" src "src ! i" "drop (Suc i) src"] assms(2-6) by simp
  moreover have "makeToken (lex_at i (Suc i)) ty = gt_tok i ty 1" by (simp add: makeToken_def gt_tok_def lex_at_def)
  ultimately show ?thesis using assms(7) by simp
qed

subsection \<open>The program\<close>

definition pr_text :: string where
  "pr_text = ''{var x=1 x=not x if x then print 1 else print x}''"

definition pr_read :: "string \<Rightarrow> string option" where
  "pr_read fname = Some pr_text"

definition pr_src :: src_t where
  "pr_src = \<lparr>src_buffer = pr_text, src_fname = ''a.au3'', src_size = 48\<rparr>"

definition pr_if :: stmt where
  "pr_if = IfElse (gt_tok 17 TOKEN_IF 2) (Name (gt_tok 20 TOKEN_IDENTIFIER 1)) (gt_tok 22 TOKEN_THEN 4)
     (Print [(gt_tok 27 TOKEN_PRINT 5, Number (gt_tok 33 TOKEN_NUMBER 1))]) (gt_tok 35 TOKEN_ELSE 4)
     (Print [(gt_tok 40 TOKEN_PRINT 5, Name (gt_tok 46 TOKEN_IDENTIFIER 1))]) None"

definition pr_block :: stmt where
  "pr_block = Block (gt_tok 0 TOKEN_LBRACE 1)
     [Var (gt_tok 1 TOKEN_VAR 3) (gt_tok 5 TOKEN_IDENTIFIER 1) (Some (gt_tok 6 TOKEN_EQUAL 1, Number (gt_tok 7 TOKEN_NUMBER 1))),
      Assign (gt_tok 9 TOKEN_IDENTIFIER 1) (gt_tok 10 TOKEN_EQUAL 1)
        (Prefix (gt_tok 11 TOKEN_NOT 3) (Name (gt_tok 15 TOKEN_IDENTIFIER 1))),
      pr_if]
     (gt_tok 47 TOKEN_RBRACE 1)"

lemma pr_lexes: "lexes pr_text lexer_init (stmts_tokens [pr_block])"
proof -
  have 0: "lexer_init = lex_at 0 0" by (simp add: lexer_init_def lex_at_def)
  have e: "isAtEnd pr_text (skipWhitespace pr_text (lex_at 47 48))"
    by (subst skipWhitespace.simps) (simp add: Let_def peek_def isAtEnd_def c_tolower_def char_at_def lex_at_def pr_text_def)
  then show ?thesis
    unfolding 0 pr_block_def pr_if_def
    by (simp del: lexes.simps add: lexes.simps(1) lexes_blank lexes_word lexes_digit [unfolded One_nat_def]
        lexes_symbol [unfolded One_nat_def] pr_text_def
        isAlpha_def isDigit_def word_char_def char_in_def c_tolower_def char_of_eq_iff keyword_table_def
        lx_symbol_def single_tokens_def one_or_two_def lx_match_def isAtEnd_def char_at_def)
qed

lemma pr_numbers:
  "strtod (number_text pr_src (gt_tok 7 TOKEN_NUMBER 1)) = 0x3FF0000000000000"
  "strtod (number_text pr_src (gt_tok 33 TOKEN_NUMBER 1)) = 0x3FF0000000000000"
proof -
  have d: "d_of_int 1 = 0x3FF0000000000000"
    by (simp add: d_of_int_def mk_double_def round_mag_def rne_def inf_mag_def bitlen_eval)
  have "strtod (''1'' @ CHR '' '' # rest) = d_of_int (int (nat_of_digits 10 ''1''))" for rest
    by (rule strtod_integer) (simp_all add: isDigit_def char_in_def tolower_symbol c_tolower_def char_of_eq_iff)
  then have "strtod (CHR ''1'' # CHR '' '' # rest) = 0x3FF0000000000000" for rest
    by (simp add: nat_of_digits_def digit_val_def c_tolower_def d)
  then show "strtod (number_text pr_src (gt_tok 7 TOKEN_NUMBER 1)) = 0x3FF0000000000000"
    "strtod (number_text pr_src (gt_tok 33 TOKEN_NUMBER 1)) = 0x3FF0000000000000"
    by (simp_all add: number_text_def pr_src_def pr_text_def)
qed

text \<open>The names are all \<open>x\<close>.\<close>

lemma pr_names:
  "i \<in> {5, 9, 15, 20, 46} \<Longrightarrow> identifiersEqual pr_src (gt_tok i ty (Suc 0)) (local_of (gt_tok 5 ty' (Suc 0)) d)"
  "\<not> identifiersEqual pr_src (gt_tok i ty (Suc 0)) \<lparr>lc_start = Message [], lc_length = 0, lc_depth = d\<rparr>"
  "lc_depth (local_of x d) = d"
  by (auto simp: identifiersEqual_def tok_text_def local_of_def pr_src_def pr_text_def)

lemma pr_ok: "stmts_ok pr_src 0 script_locals [pr_block] (gt_tok 48 TOKEN_EOF 0)"
  by (simp add: pr_block_def pr_if_def print_ok_def parts_ok_def closes_def script_locals_def pr_names)

lemma pr_need: "needs [pr_block] = 2"
  by (simp add: pr_block_def pr_if_def)

lemma pr_comp: "\<exists>bs cs. comp_stmts pr_src 0 script_locals [pr_block] arr_init = (bs, cs) \<and> arr_count cs \<le> 256 \<and> length bs \<le> 65535"
proof -
  have "d_eq 0x3FF0000000000000 0x3FF0000000000000" by (simp add: d_eq_def d_key_def d_sign_def d_mag_def is_nan_def inf_mag_def)
  then show ?thesis
    by (simp add: pr_block_def pr_if_def pr_numbers [unfolded One_nat_def] arr_init_def arr_add_def arr_push_def GROW_CAP_def
        at_tok_def print_code_def if_code_def pops_def jump_over_def)
qed

lemma pr_output: "execs pr_src 0 script_locals [pr_block] [v] = ([Out_text ''false'', Out_text [CHR 0x0A]], Some [v])"
proof -
  have "\<not> IS_FALSEY (VAL_NUM 0x3FF0000000000000)" "IS_FALSEY (VAL_BOOL False)" by (simp_all add: IS_FALSEY_def)
  then show ?thesis
    by (simp add: pr_block_def pr_if_def pr_numbers [unfolded One_nat_def] continue_def with_value_def env_of_def
        script_locals_def pr_names apply_unary_def line_text_def print_line_def)
qed

end
