(* ===== verification/Stmt_Running.thy ===== *)
theory Stmt_Running
  imports Statements
begin

text \<open>
  The code of statements in the machine: it prints what the statement prints, and leaves the values of the locals on
  the stack as the statement leaves them, or stops with a runtime error where the statement stops.
\<close>

subsection \<open>Outcomes\<close>

definition stops_with :: "natives \<Rightarrow> out_item list \<Rightarrow> vm_t \<Rightarrow> bool" where
  "stops_with native out vm \<longleftrightarrow> (\<exists>vm1 vm2 m ts. vm_runs native vm vm1 \<and>
     vm_step native vm1 = Inr (RETURN VM_RUNTIME_ERROR, vm2) \<and> stdout vm2 = stdout vm @ out \<and>
     stderr vm2 = stderr vm @ [Runtime_error m ts])"

text \<open>The machine does what the outcome says; \<open>rest\<close> is the stack below the locals.\<close>

definition performs :: "natives \<Rightarrow> nat \<Rightarrow> vm_t \<Rightarrow> val_t list \<Rightarrow> outcome \<Rightarrow> bool" where
  "performs native n vm rest r \<longleftrightarrow>
     (case snd r of
        None \<Rightarrow> stops_with native (fst r) vm
      | Some vals \<Rightarrow> \<exists>vm'. vm_runs native vm vm' \<and> prints n (fst r) vm vm' \<and> stack_list vm' = rev vals @ rest)"

lemma fails_stops: "fails native vm \<Longrightarrow> stops_with native [] vm"
  by (simp add: fails_def stops_with_def)

lemma stops_after:
  assumes "vm_runs native vm vm'" and "prints n out vm vm'" and "stops_with native out' vm'"
  shows "stops_with native (out @ out') vm"
proof -
  obtain vm1 vm2 m ts where 1: "vm_runs native vm' vm1" "vm_step native vm1 = Inr (RETURN VM_RUNTIME_ERROR, vm2)"
    "stdout vm2 = stdout vm' @ out'" "stderr vm2 = stderr vm' @ [Runtime_error m ts]"
    using assms(3) by (auto simp: stops_with_def)
  have "stdout vm' = stdout vm @ out" "stderr vm' = stderr vm" using assms(2) by (simp_all add: prints_def steps_def)
  with 1 vm_runs_trans [OF assms(1) 1(1)] show ?thesis unfolding stops_with_def by fastforce
qed

lemma does_performs: "does native n vm (rev vals @ rest) \<Longrightarrow> performs native n vm rest ([], Some vals)"
  by (auto simp: does_def performs_def intro: steps_prints)

text \<open>What is performed first, and what after it.\<close>

lemma performs_continue:
  assumes r: "performs native n vm rest r" and c: "at_code K (xs @ ys) vm" and n: "n = length xs"
    and k: "\<And>vals vm'. snd r = Some vals \<Longrightarrow> prints n (fst r) vm vm' \<Longrightarrow> stack_list vm' = rev vals @ rest \<Longrightarrow>
      at_code K ys vm' \<Longrightarrow> performs native m vm' rest (k vals)"
  shows "performs native (n + m) vm rest (continue r k)"
proof (cases "snd r")
  case None
  with r show ?thesis by (simp add: performs_def continue_def)
next
  case (Some vals)
  with r obtain vm1 where 1: "vm_runs native vm vm1" "prints n (fst r) vm vm1" "stack_list vm1 = rev vals @ rest"
    by (auto simp: performs_def)
  have "at_code K ys vm1" using at_code_prints [OF c] 1(2) n by simp
  from k [OF Some 1(2,3) this] have 2: "performs native m vm1 rest (k vals)" .
  have r': "continue r k = (fst r @ fst (k vals), snd (k vals))" using Some by (simp add: continue_def split_beta Let_def)
  show ?thesis
  proof (cases "snd (k vals)")
    case None
    with 2 stops_after [OF 1(1,2)] r' show ?thesis by (simp add: performs_def)
  next
    case (Some vals')
    with 2 obtain vm2 where "vm_runs native vm1 vm2" "prints m (fst (k vals)) vm1 vm2" and s: "stack_list vm2 = rev vals' @ rest"
      by (auto simp: performs_def)
    then have "vm_runs native vm vm2" "prints (n + m) (fst (continue r k)) vm vm2"
      using vm_runs_trans [OF 1(1)] prints_trans [OF 1(2)] r' by simp_all
    then show ?thesis using s Some r' unfolding performs_def by auto
  qed
qed

lemma performs_after:
  assumes d: "does native n vm vs" and c: "at_code K (xs @ ys) vm" and n: "n = length xs"
    and k: "\<And>vm'. steps n vm vm' \<Longrightarrow> stack_list vm' = vs \<Longrightarrow> at_code K ys vm' \<Longrightarrow> performs native m vm' rest r"
  shows "performs native (n + m) vm rest r"
proof -
  obtain vm1 where 1: "vm_runs native vm vm1" "steps n vm vm1" "stack_list vm1 = vs" using d by (auto simp: does_def)
  have "at_code K ys vm1" using at_code_steps [OF c] 1(2) n by simp
  from k [OF 1(2,3) this] have 2: "performs native m vm1 rest r" .
  show ?thesis
  proof (cases "snd r")
    case None
    with 2 stops_after [OF 1(1) steps_prints [OF 1(2)]] show ?thesis by (auto simp: performs_def)
  next
    case (Some vals')
    with 2 vm_runs_trans [OF 1(1)] prints_trans [OF steps_prints [OF 1(2)]] show ?thesis
      by (fastforce simp: performs_def)
  qed
qed

lemma performs_then:
  assumes "performs native n vm rest r" and "at_code K (xs @ ys) vm" and "n = length xs"
    and "\<And>vals vm'. snd r = Some vals \<Longrightarrow> prints n (fst r) vm vm' \<Longrightarrow> stack_list vm' = rev vals @ rest \<Longrightarrow>
      at_code K ys vm' \<Longrightarrow> does native m vm' (rev vals @ rest)"
  shows "performs native (n + m) vm rest r"
proof -
  have "performs native (n + m) vm rest (continue r (\<lambda>vals. ([], Some vals)))"
    by (rule performs_continue [OF assms(1-3)]) (use assms(4) does_performs in blast)
  then show ?thesis by (cases r) (auto simp: continue_def split: option.splits)
qed

subsection \<open>The machine between statements\<close>

text \<open>A value that can be printed, and is no string.\<close>

definition good :: "vm_t \<Rightarrow> val_t \<Rightarrow> bool" where
  "good vm v \<longleftrightarrow> val_print v vm = Inr (value_text v) \<and> no_string vm v"

lemma good_heap: "good vm v \<Longrightarrow> heap vm' = heap vm \<Longrightarrow> good vm' v"
  using val_print_heap [of vm' vm] by (simp add: good_def no_string_def)

definition ready :: "local_t list \<Rightarrow> val_t list \<Rightarrow> val_t list \<Rightarrow> vm_t \<Rightarrow> bool" where
  "ready ls vals rest vm \<longleftrightarrow> stack_list vm = rev vals @ rest \<and> length vals = length ls \<and> ls \<noteq> [] \<and> length ls \<le> 256 \<and>
     (\<exists>f fs. frames vm = f # fs \<and> fr_slots f = length rest) \<and> in_bounds vm \<and> traced vm \<and> (\<forall>v \<in> set vals. good vm v)"

lemma ready_env:
  assumes "ready ls vals rest vm"
  shows "env_at (length ls) (env_of vals) vm"
proof -
  from assms obtain f fs where f: "frames vm = f # fs" "fr_slots f = length rest" and s: "stack_list vm = rev vals @ rest"
    and n: "length vals = length ls" "0 < length vals" by (auto simp: ready_def)
  have t: "vm_top vm = length vals + length rest" using arg_cong [OF s, of length] by simp
  have "stack vm (length rest + i) = vals ! i" if "i < length vals" for i
  proof -
    have "stack vm (length rest + i) = stack_list vm ! (length vals - 1 - i)"
      using that t nth_stack_list [of "length vals - 1 - i" vm] by simp
    also have "\<dots> = rev vals ! (length vals - 1 - i)"
      unfolding s using that by (intro nth_append_left) simp
    finally show ?thesis using that by (simp add: rev_nth)
  qed
  then have "stack vm (length rest + i) = vals ! i" if "i < length vals \<or> i = 0" for i using that n(2) by auto
  with f n t show ?thesis by (fastforce simp: env_at_def env_of_def)
qed

lemma good_env:
  assumes "\<forall>v \<in> set vals. good vm v"
  shows "shown (env_of vals) vm" and "\<forall>i. no_string vm (env_of vals i)"
proof -
  have "good vm (env_of vals i)" for i
    using assms by (simp add: env_of_def) (simp add: good_def no_string_def)
  then show "shown (env_of vals) vm" "\<forall>i. no_string vm (env_of vals i)" by (simp_all add: shown_def good_def)
qed

lemma ready_vals:
  assumes "ready ls vals rest vm"
  shows "shown (env_of vals) vm" and "\<forall>i. no_string vm (env_of vals i)"
  using good_env [of vals vm] assms by (simp_all add: ready_def)

lemma prints_heap: "prints n out vm vm' \<Longrightarrow> heap vm' = heap vm"
  by (simp add: prints_def steps_def same_store_def)

lemma prints_frames:
  "prints n out vm vm' \<Longrightarrow> \<exists>f fs. frames vm = f # fs \<and> frames vm' = f\<lparr>fr_ip := fr_ip f + n\<rparr> # fs"
  by (simp add: prints_def steps_def)

lemma traced_prints:
  assumes "traced vm" and "prints n out vm vm'"
  shows "traced vm'"
proof -
  let ?vm = "vm\<lparr>stdout := stdout vm @ out\<rparr>"
  have "traced ?vm" using assms(1) trace_frames_heap [of ?vm vm] by (auto simp: traced_def)
  with assms(2) show ?thesis by (auto simp: prints_def intro: traced_steps)
qed

lemma ready_prints:
  assumes "ready ls vals rest vm" and p: "prints n out vm vm'" and s: "stack_list vm' = rev vals' @ rest"
    and "length vals' = length ls'" and "ls' \<noteq> []" and "length ls' \<le> 256" and "length vals' + length rest \<le> STACK_MAX"
    and "\<forall>v \<in> set vals'. good vm v"
  shows "ready ls' vals' rest vm'"
proof -
  have "vm_top vm' \<le> STACK_MAX" using arg_cong [OF s, of length] assms(7) by simp
  then have "in_bounds vm'" using assms(1) prints_frames [OF p] by (auto simp: ready_def in_bounds_def)
  moreover have "traced vm'" using assms(1) p by (auto simp: ready_def intro: traced_prints)
  moreover have "\<exists>f fs. frames vm' = f # fs \<and> fr_slots f = length rest"
    using assms(1) prints_frames [OF p] by (auto simp: ready_def)
  ultimately show ?thesis using assms good_heap [OF _ prints_heap [OF p]] by (simp add: ready_def)
qed

lemma eval_good:
  assumes "\<forall>v \<in> set vals. good vm v" and "eval s ls (env_of vals) e = Some v"
  shows "good vm v"
  using eval_shown [OF good_env(1) [OF assms(1)] assms(2)] eval_no_string [OF good_env(2) [OF assms(1)] assms(2)]
  by (simp add: good_def)

text \<open>The constants that the code refers to.\<close>

definition pool :: "val_t list \<Rightarrow> arr_t \<Rightarrow> arr_t \<Rightarrow> bool" where
  "pool K cs cs' \<longleftrightarrow> arr_ok cs \<and> (\<forall>v \<in> set (arr_values cs). plain v) \<and> prefix (arr_values cs') K \<and> arr_count cs' \<le> 256"

lemma pool_first:
  assumes "pool K cs cs2" and "arr_ok cs1" and "arr_ok cs2" and "prefix (arr_values cs1) (arr_values cs2)"
  shows "pool K cs cs1"
  using assms prefix_count [OF assms(2-4)] by (auto simp: pool_def intro: prefix_order.trans)

lemma pool_second: "pool K cs cs2 \<Longrightarrow> arr_ok cs1 \<Longrightarrow> \<forall>v \<in> set (arr_values cs1). plain v \<Longrightarrow> pool K cs1 cs2"
  by (simp add: pool_def)

lemma pool_comp:
  assumes "pool K cs cs2" and "comp s ls e cs = (xs, cs1)"
    and "\<And>cs. arr_ok cs1 \<Longrightarrow> arr_ok cs2 \<and> prefix (arr_values cs1) (arr_values cs2)"
  shows "pool K cs cs1" and "pool K cs1 cs2"
proof -
  have 1: "arr_ok cs1" "\<forall>v \<in> set (arr_values cs1). plain v"
    using assms(1) comp_grows [OF assms(2)] comp_plain [OF assms(2)] by (simp_all add: pool_def)
  show "pool K cs cs1" by (rule pool_first [OF assms(1) 1(1)]) (use assms(3) 1(1) in blast)+
  show "pool K cs1 cs2" by (rule pool_second [OF assms(1) 1])
qed

subsection \<open>Expressions and \<open>Print\<close>\<close>

lemma ready_runnable:
  assumes "ready ls vals rest vm" and "comp s ls e cs = (xs, cs1)" and "pool K cs cs1" and "length xs \<le> 65535"
    and "expr_ok s ls e" and "at_code K (map fst xs @ code) vm" and "vm_top vm + stack_need e \<le> STACK_MAX"
  shows "runnable s ls (env_of vals) e K code cs xs cs1 vm"
  using assms ready_env [OF assms(1)] by (simp add: runnable_def ready_def pool_def)

lemma performs_value:
  assumes rdy: "ready ls vals rest vm" and run: "runnable s ls (env_of vals) e K code cs xs cs1 vm"
    and k: "\<And>v vm'. eval s ls (env_of vals) e = Some v \<Longrightarrow> steps (length xs) vm vm' \<Longrightarrow>
      stack_list vm' = v # rev vals @ rest \<Longrightarrow> at_code K code vm' \<Longrightarrow> performs native m vm' rest (k v)"
  shows "performs native (length xs + m) vm rest (with_value (eval s ls (env_of vals) e) k)"
proof (cases "eval s ls (env_of vals) e")
  case None
  have "fails native vm"
    using stops_at_error [of native s ls "env_of vals" e] run None ready_vals(2) [OF rdy] rdy
    unfolding stops_at_error_def by (simp add: ready_def)
  with None show ?thesis by (simp add: with_value_def performs_def fails_stops)
next
  case (Some v)
  then have d: "does native (length xs) vm (v # stack_list vm)" using evaluates run unfolding evaluates_def by blast
  have "stack_list vm = rev vals @ rest" using rdy by (simp add: ready_def)
  moreover have "at_code K (map fst xs @ code) vm" using run by (simp add: runnable_def)
  ultimately have "performs native (length xs + m) vm rest (k v)"
    using k [OF Some] by (intro performs_after [OF d, of K "map fst xs" code]) simp_all
  with Some show ?thesis by (simp add: with_value_def)
qed

text \<open>The values of a \<open>Print\<close> statement of which one does not exist.\<close>

lemma parts_fail:
  assumes "comp_parts s ls es cs = (bs, cs')" and "arr_ok cs" and "\<forall>v \<in> set (arr_values cs). plain v"
    and "prefix (arr_values cs') K" and "arr_count cs' \<le> 256" and "length bs \<le> 65535" and "length ls \<le> 256"
    and "runs_ok s ls (vm_top vm) es" and "at_code K (map fst bs @ code) vm" and "in_bounds vm"
    and "env_at (length ls) env vm" and "traced vm" and "\<forall>i. no_string vm (env i)" and "eval_parts s ls env es = None"
  shows "fails native vm"
  using assms
proof (induction es arbitrary: cs bs vm)
  case (Cons x es)
  obtain c e where x: "x = (c, e)" by (cases x)
  from Cons.prems(1) x obtain xs cs1 ys where c: "comp s ls e cs = (xs, cs1)" "comp_parts s ls es cs1 = (ys, cs')"
    "bs = xs @ ys"
    by (auto simp: Let_def split: prod.splits)
  have g: "arr_ok cs1" "prefix (arr_values cs1) (arr_values cs')" "arr_ok cs'" "\<forall>v \<in> set (arr_values cs1). plain v"
    using comp_grows [OF c(1)] comp_parts_grows [OF c(2)] comp_plain [OF c(1)] Cons.prems(2,3) by simp_all
  have need: "expr_ok s ls e" "vm_top vm + stack_need e \<le> STACK_MAX" "vm_top vm + 1 + parts_need es \<le> STACK_MAX"
    using Cons.prems(8) x by (auto simp: runs_ok_def)
  have code: "at_code K (map fst xs @ map fst ys @ code) vm" using Cons.prems(9) c(3) by simp
  have run: "runnable s ls env e K (map fst ys @ code) cs xs cs1 vm"
    using Cons.prems need code c(1,3) g prefix_count [OF g(1,3,2)]
    by (auto simp: runnable_def intro: prefix_order.trans)
  show ?case
  proof (cases "eval s ls env e")
    case None
    with run Cons.prems(12,13) stops_at_error [of native s ls env e] show ?thesis unfolding stops_at_error_def by blast
  next
    case (Some v)
    then have e: "does native (length xs) vm (v # stack_list vm)"
      using evaluates [of native s ls env e] run unfolding evaluates_def by blast
    show ?thesis
    proof (rule fails_after [OF e code])
      fix vm1 assume 1: "steps (length xs) vm vm1" "stack_list vm1 = v # stack_list vm" "at_code K (map fst ys @ code) vm1"
      have t: "vm_top vm1 = vm_top vm + 1" using arg_cong [OF 1(2), of length] by simp
      show "fails native vm1"
      proof (rule Cons.IH [OF c(2) g(1,4) Cons.prems(4,5)])
        show "runs_ok s ls (vm_top vm1) es" using Cons.prems(8) need(3) t by (simp add: runs_ok_def)
        show "in_bounds vm1" using in_bounds_steps [OF Cons.prems(10) 1(1)] need(3) t by simp
        show "env_at (length ls) env vm1" using env_steps [OF Cons.prems(11) 1(1), of "[v]"] 1(2) by simp
        show "traced vm1" by (rule traced_steps [OF Cons.prems(12) 1(1)])
        show "\<forall>i. no_string vm1 (env i)" using Cons.prems(13) no_string_steps [OF _ 1(1)] by blast
        show "eval_parts s ls env es = None" using Cons.prems(14) x Some by (auto split: option.splits)
      qed (use Cons.prems(6,7) c(3) 1(3) in simp_all)
    qed simp
  qed
qed simp

subsection \<open>Instructions of statements\<close>

lemma stack_list_update:
  assumes "j < vm_top vm"
  shows "stack_list (vm\<lparr>stack := (stack vm)(j := v)\<rparr>) = (stack_list vm)[vm_top vm - 1 - j := v]"
  using assms by (intro nth_equalityI) (auto simp: nth_stack_list nth_list_update)

lemma does_ST:
  assumes c: "at_code K (opcode_byte OP_ST # k # bs) vm" and s: "stack_list vm = v # rev vals @ rest"
    and f: "frames vm = f # fs" "fr_slots f = length rest" and k: "unat k < length vals" and "vm_top vm \<le> STACK_MAX"
  shows "does native 2 vm (v # rev (vals[unat k := v]) @ rest)"
proof -
  note 1 = at_READ_BYTE [OF c]
  note 2 = at_READ_BYTE [OF 1(2)]
  let ?vm = "next_byte (next_byte vm)" and ?j = "length rest + unat k"
  let ?vm' = "?vm\<lparr>stack := (stack ?vm)(?j := v)\<rparr>"
  have t: "vm_top vm = 1 + length vals + length rest" using arg_cong [OF s, of length] by simp
  have fr: "cur_frame ?vm = Inr (f\<lparr>fr_ip := fr_ip f + 2\<rparr>)" using f(1) by (simp add: cur_frame_def next_byte_def)
  have pk: "PEEK 0 ?vm = Inr v" using s by (simp add: PEEK_ok)
  have op: "exec_op native OP_ST (next_byte vm) = Inr (NEXT, ?vm')"
    using 2(1) fr pk f(2) k t assms(6) by (simp add: op_ST_def next_op_def Let_def)
  have "only_stack ?vm ?vm'" by (simp add: only_stack_def same_store_def)
  then have st: "steps 2 vm ?vm'" using steps_stack [OF steps_trans [OF 1(3) 2(3)]] by (simp add: numeral_2_eq_2)
  have "stack_list ?vm' = (v # rev vals @ rest)[length vals - unat k := v]"
    using stack_list_update [of ?j ?vm v] s k t by simp
  also have "\<dots> = v # rev (vals[unat k := v]) @ rest"
    using k by (simp add: rev_update list_update_append1 Suc_diff_Suc [symmetric])
  finally show ?thesis by (rule does_op [OF c op st])
qed

lemma does_POPs:
  "at_code K (replicate n (opcode_byte OP_POP) @ bs) vm \<Longrightarrow> n \<le> vm_top vm \<Longrightarrow> does native n vm (drop n (stack_list vm))"
proof (induction n arbitrary: vm)
  case 0
  then show ?case using does_0 [of K bs vm] by simp
next
  case (Suc n)
  obtain v vs where s: "stack_list vm = v # vs" using Suc.prems(2) by (cases "stack_list vm") (auto dest: arg_cong [of _ _ length])
  have c: "at_code K ([opcode_byte OP_POP] @ replicate n (opcode_byte OP_POP) @ bs) vm" using Suc.prems(1) by simp
  have "does native 1 vm vs" by (rule does_POP [OF _ s]) (use c in simp)
  then have "does native (1 + n) vm (drop n vs)"
  proof (rule does_trans [OF _ c])
    fix vm' assume 1: "stack_list vm' = vs" "at_code K (replicate n (opcode_byte OP_POP) @ bs) vm'"
    have "n \<le> vm_top vm'" using Suc.prems(2) stack_top [OF 1(1)] stack_top [OF s] by simp
    from Suc.IH [OF 1(2) this] 1(1) show "does native n vm' (drop n vs)" by simp
  qed simp
  then show ?case using s by simp
qed

subsection \<open>Statements\<close>

text \<open>There is a value for each local, and it can be printed.\<close>

lemma good_const [simp]: "good vm VAL_NULL"
  by (simp add: good_def no_string_def)

lemma continue_Some:
  assumes "continue r k = (out, Some vals)"
  obtains vals1 out1 out2 where "r = (out1, Some vals1)" and "k vals1 = (out2, Some vals)" and "out = out1 @ out2"
  using assms by (cases r) (auto simp: continue_def Let_def split: option.splits prod.splits)

lemma with_value_Some:
  assumes "with_value v k = (out, Some vals)"
  obtains w where "v = Some w" and "k w = (out, Some vals)"
  using assms by (auto simp: with_value_def split: option.splits)

lemma exec_values:
  "exec s d ls S vals = (out, Some vals') \<Longrightarrow> stmt_ok s d ls S t \<Longrightarrow> length vals = length ls \<Longrightarrow>
    \<forall>v \<in> set vals. good vm v \<Longrightarrow> length vals' = length ls + length (declared d S) \<and> (\<forall>v \<in> set vals'. good vm v)"
  "execs s d ls Ss vals = (out, Some vals') \<Longrightarrow> stmts_ok s d ls Ss t \<Longrightarrow> length vals = length ls \<Longrightarrow>
    \<forall>v \<in> set vals. good vm v \<Longrightarrow> length vals' = length ls + length (concat (map (declared d) Ss)) \<and> (\<forall>v \<in> set vals'. good vm v)"
proof (induction s d ls S vals and s d ls Ss vals arbitrary: out vals' t and out vals' t rule: exec_execs.induct)
  case (1 s d ls es vals)
  then show ?case by (auto split: option.splits)
next
  case (2 s d ls i e h S u vals)
  then show ?case using branch_local [of S d] by (auto elim!: with_value_Some split: if_splits)
next
  case (3 s d ls i e h S l R u vals)
  then show ?case using branch_local [of S d] branch_local [of R d] by (auto elim!: with_value_Some split: if_splits)
next
  case (4 s d ls a Ss b vals)
  then show ?case by (auto elim!: continue_Some dest!: in_set_takeD)
next
  case (5 s d ls v x init vals)
  then show ?case using eval_good [of vals vm s ls] by (auto elim!: with_value_Some split: option.splits)
next
  case (6 s d ls x q e vals)
  then show ?case using eval_good [of vals vm s ls] by (auto elim!: with_value_Some dest!: subsetD [OF set_update_subset_insert])
next
  case (8 s d ls S Ss vals)
  then show ?case by (fastforce elim!: continue_Some)
qed simp

definition stmt_runs :: "natives \<Rightarrow> src_t \<Rightarrow> stmt \<Rightarrow> bool" where
  "stmt_runs native s S \<longleftrightarrow> (\<forall>d ls vals rest K code bs cs cs' t vm. ready ls vals rest vm \<longrightarrow> stmt_ok s d ls S t \<longrightarrow>
     comp_stmt s d ls S cs = (bs, cs') \<longrightarrow> pool K cs cs' \<longrightarrow> length bs \<le> 65535 \<longrightarrow> vm_top vm + need S \<le> STACK_MAX \<longrightarrow>
     at_code K (map fst bs @ code) vm \<longrightarrow> performs native (length bs) vm rest (exec s d ls S vals))"

lemma stmt_runsD:
  "stmt_runs native s S \<Longrightarrow> ready ls vals rest vm \<Longrightarrow> stmt_ok s d ls S t \<Longrightarrow> comp_stmt s d ls S cs = (bs, cs') \<Longrightarrow>
    pool K cs cs' \<Longrightarrow> length bs \<le> 65535 \<Longrightarrow> vm_top vm + need S \<le> STACK_MAX \<Longrightarrow> at_code K (map fst bs @ code) vm \<Longrightarrow>
    performs native (length bs) vm rest (exec s d ls S vals)"
  unfolding stmt_runs_def by blast

lemma pool_stmt:
  assumes "pool K cs cs2" and "comp_stmt s d ls S cs = (xs, cs1)"
    and "arr_ok cs1 \<Longrightarrow> arr_ok cs2 \<and> prefix (arr_values cs1) (arr_values cs2)"
  shows "pool K cs cs1" and "pool K cs1 cs2"
proof -
  have 1: "arr_ok cs1" "\<forall>v \<in> set (arr_values cs1). plain v"
    using assms(1) comp_stmt_grows(1) [OF assms(2)] comp_stmt_plain(1) [OF assms(2)] by (simp_all add: pool_def)
  show "pool K cs cs1" by (rule pool_first [OF assms(1) 1(1)]) (use assms(3) 1(1) in blast)+
  show "pool K cs1 cs2" by (rule pool_second [OF assms(1) 1])
qed

lemma ready_top: "ready ls vals rest vm \<Longrightarrow> vm_top vm = length vals + length rest"
  by (auto simp: ready_def dest: stack_top)

text \<open>The machine behind a statement.\<close>

lemma ready_after:
  assumes rdy: "ready ls vals rest vm" and "stmt_ok s d ls S t" and e: "exec s d ls S vals = (out, Some vals')"
    and p: "prints n out vm vm'" and s: "stack_list vm' = rev vals' @ rest"
    and "vm_top vm + length (declared d S) \<le> STACK_MAX"
  shows "ready (ls @ declared d S) vals' rest vm'" and "vm_top vm' = vm_top vm + length (declared d S)"
proof -
  have "length vals = length ls" "\<forall>v \<in> set vals. good vm v" "ls \<noteq> []" "length ls \<le> 256" using rdy by (simp_all add: ready_def)
  note v = exec_values(1) [OF e assms(2) this(1,2)]
  have "length (ls @ declared d S) \<le> 256" using assms(2) \<open>length ls \<le> 256\<close> by (cases S) auto
  with v show "ready (ls @ declared d S) vals' rest vm'"
    using ready_top [OF rdy] assms(6) \<open>ls \<noteq> []\<close> \<open>length vals = length ls\<close> by (intro ready_prints [OF rdy p s]) auto
  from ready_top [OF this] v ready_top [OF rdy] \<open>length vals = length ls\<close>
  show "vm_top vm' = vm_top vm + length (declared d S)" by simp
qed

lemma stmts_run:
  assumes "\<forall>S \<in> set Ss. stmt_runs native s S" and "ready ls vals rest vm" and "stmts_ok s d ls Ss t"
    and "comp_stmts s d ls Ss cs = (bs, cs')" and "pool K cs cs'" and "length bs \<le> 65535"
    and "vm_top vm + needs Ss \<le> STACK_MAX" and "at_code K (map fst bs @ code) vm"
  shows "performs native (length bs) vm rest (execs s d ls Ss vals)"
  using assms
proof (induction Ss arbitrary: ls vals vm cs bs)
  case Nil
  then show ?case using does_0 [of K code vm] by (auto simp: ready_def intro: does_performs)
next
  case (Cons S Ss)
  from Cons.prems(4) obtain xs cs1 ys where c: "comp_stmt s d ls S cs = (xs, cs1)"
    "comp_stmts s d (ls @ declared d S) Ss cs1 = (ys, cs')" "bs = xs @ ys"
    by (auto simp: Let_def split: prod.splits)
  note pl = pool_stmt [OF Cons.prems(5) c(1) comp_stmt_grows(2) [OF c(2)]]
  have ok: "stmt_ok s d ls S (hd (stmts_tokens Ss @ [t]))" "stmts_ok s d (ls @ declared d S) Ss t"
    using Cons.prems(3) by simp_all
  have code: "at_code K (map fst xs @ map fst ys @ code) vm" using Cons.prems(8) c(3) by simp
  have dl: "length (declared 0 S) = length (declared d S)" by (cases S) simp_all
  have need: "vm_top vm + need S \<le> STACK_MAX" "vm_top vm + length (declared d S) + needs Ss \<le> STACK_MAX"
    using Cons.prems(7) dl by simp_all
  have "performs native (length xs) vm rest (exec s d ls S vals)"
    by (rule stmt_runsD [OF _ Cons.prems(2) ok(1) c(1) pl(1) _ need(1) code]) (use Cons.prems(1,6) c(3) in simp_all)
  then have "performs native (length xs + length ys) vm rest
      (continue (exec s d ls S vals) (execs s d (ls @ declared d S) Ss))"
  proof (rule performs_continue [OF _ code])
    fix vals' vm' assume 1: "snd (exec s d ls S vals) = Some vals'" "prints (length xs) (fst (exec s d ls S vals)) vm vm'"
      "stack_list vm' = rev vals' @ rest" "at_code K (map fst ys @ code) vm'"
    then have "exec s d ls S vals = (fst (exec s d ls S vals), Some vals')" by (simp add: prod_eq_iff)
    note r = ready_after [OF Cons.prems(2) ok(1) this 1(2,3)]
    show "performs native (length ys) vm' rest (execs s d (ls @ declared d S) Ss vals')"
      by (rule Cons.IH [OF _ _ ok(2) c(2) pl(2) _ _ 1(4)]) (use Cons.prems(1,6) c(3) need r in auto)
  qed simp
  then show ?case using c(3) by simp
qed

text \<open>The cases of the induction.\<close>

lemma runs_Print: "stmt_runs native s (Print es)"
  unfolding stmt_runs_def
proof (intro allI impI)
  fix d ls vals rest K code bs cs cs' t vm
  assume rdy: "ready ls vals rest vm" and ok: "stmt_ok s d ls (Print es) t" and c: "comp_stmt s d ls (Print es) cs = (bs, cs')"
    and pl: "pool K cs cs'" and len: "length bs \<le> 65535" and need: "vm_top vm + need (Print es) \<le> STACK_MAX"
    and code: "at_code K (map fst bs @ code) vm"
  from c obtain xs where c: "comp_parts s ls es cs = (xs, cs')" "bs = xs @ print_code es (length es)"
    by (auto simp: Let_def split: prod.splits)
  let ?P = "[opcode_byte OP_PRINT, word_of_nat (length es)]"
  have pc: "map fst (print_code es (length es)) = ?P" "length (print_code es (length es)) = 2"
    by (simp_all add: print_code_def at_tok_def)
  have code: "at_code K (map fst xs @ ?P @ code) vm" using code c(2) pc by simp
  have ok: "runs_ok s ls (vm_top vm) es" "length es \<le> 32"
    using ok need by (auto simp: print_ok_def parts_ok_def runs_ok_def)
  have p: "arr_ok cs" "\<forall>v \<in> set (arr_values cs). plain v" "prefix (arr_values cs') K" "arr_count cs' \<le> 256"
    using pl by (simp_all add: pool_def)
  have r: "length xs \<le> 65535" "length ls \<le> 256" "in_bounds vm" "traced vm" "stack_list vm = rev vals @ rest"
    using rdy len c(2) by (simp_all add: ready_def)
  show "performs native (length bs) vm rest (exec s d ls (Print es) vals)"
  proof (cases "eval_parts s ls (env_of vals) es")
    case None
    have "fails native vm"
      by (rule parts_fail [OF c(1) p r(1,2) ok(1) code r(3) ready_env [OF rdy] r(4) ready_vals(2) [OF rdy] None])
    with None show ?thesis by (simp add: performs_def fails_stops)
  next
    case (Some vs)
    have "does native (length xs) vm (rev vs @ stack_list vm)"
      by (rule does_parts [OF c(1) p r(1,2) ok(1) code r(3) ready_env [OF rdy] Some])
    then have "performs native (length xs + 2) vm rest (line_text vs, Some vals)"
    proof (rule performs_after [OF _ code])
      fix vm1 assume 1: "steps (length xs) vm vm1" "stack_list vm1 = rev vs @ stack_list vm" "at_code K (?P @ code) vm1"
      have n: "length vs = unat (word_of_nat (length es) :: u8)"
        using eval_parts_length [OF Some] ok(2) by (simp add: unat_of_nat)
      have "heap vm1 = heap vm" using prints_heap [OF steps_prints [OF 1(1)]] .
      then have "\<forall>i < length vs. val_print (vs ! i) vm1 = Inr (value_text (vs ! i))"
        using eval_parts_shown [OF shown_heap [OF ready_vals(1) [OF rdy]] Some] by blast
      from runs_PRINT [OF _ 1(2) n this, of K code native] 1(3) r(5)
      show "performs native 2 vm1 rest (line_text vs, Some vals)" by (simp add: performs_def)
    qed simp
    with Some c(2) pc(2) show ?thesis by simp
  qed
qed

lemma ready_steps:
  assumes "ready ls vals rest vm" and "steps n vm vm'" and "stack_list vm' = rev vals @ rest"
  shows "ready ls vals rest vm'" and "vm_top vm' = vm_top vm"
proof -
  have "vm_top vm \<le> STACK_MAX" using assms(1) by (simp add: ready_def in_bounds_def)
  then show "ready ls vals rest vm'"
    using assms(1,3) ready_top [OF assms(1)] by (intro ready_prints [OF assms(1) steps_prints [OF assms(2)]]) (auto simp: ready_def)
  from ready_top [OF this] ready_top [OF assms(1)] show "vm_top vm' = vm_top vm" by simp
qed

text \<open>A conditional, with its two branches.\<close>

lemma performs_if:
  assumes rdy: "ready ls vals rest vm" and len: "length (if_code h l xs ys zs) \<le> 65535"
    and run: "runnable s ls (env_of vals) e K (map fst (drop (length xs) (if_code h l xs ys zs)) @ code) cs xs cs1 vm"
    and S: "\<And>vm' c. ready ls vals rest vm' \<Longrightarrow> vm_top vm' = vm_top vm \<Longrightarrow> at_code K (map fst ys @ c) vm' \<Longrightarrow>
      performs native (length ys) vm' rest rS"
    and R: "\<And>vm' c. ready ls vals rest vm' \<Longrightarrow> vm_top vm' = vm_top vm \<Longrightarrow> at_code K (map fst zs @ c) vm' \<Longrightarrow>
      performs native (length zs) vm' rest rR"
  shows "performs native (length (if_code h l xs ys zs)) vm rest
    (with_value (eval s ls (env_of vals) e) (\<lambda>v. if IS_FALSEY v then rR else rS))"
proof -
  let ?pop = "[opcode_byte OP_POP]" and ?jf = "jump_over OP_JMPF (4 + length ys)" and ?j = "jump_over OP_JMP (1 + length zs)"
  let ?c = "?jf @ ?pop @ map fst ys @ ?j @ ?pop @ map fst zs @ code" and ?m = "3 + (1 + (length ys + (3 + (1 + length zs))))"
  have size: "4 + length ys \<le> 65535" "1 + length zs \<le> 65535"
    using len by (simp_all add: if_code_def at_tok_def jump_over_def)
  have run: "runnable s ls (env_of vals) e K ?c cs xs cs1 vm" using run by (simp add: if_code_def at_tok_def comp_def)
  have "performs native (length xs + ?m) vm rest (with_value (eval s ls (env_of vals) e) (\<lambda>v. if IS_FALSEY v then rR else rS))"
  proof (rule performs_value [OF rdy run])
    fix v vm1 assume 1: "steps (length xs) vm vm1" "stack_list vm1 = v # rev vals @ rest" "at_code K ?c vm1"
    show "performs native ?m vm1 rest (if IS_FALSEY v then rR else rS)"
    proof (cases "IS_FALSEY v")
      case True
      have "does native (3 + (4 + length ys)) vm1 (v # rev vals @ rest)"
        using does_JMPF [OF 1(3) size(1) 1(2), of native] True by simp
      then have "performs native (3 + (4 + length ys) + (1 + length zs)) vm1 rest rR"
      proof (rule performs_after)
        show "at_code K ((?jf @ ?pop @ map fst ys @ ?j) @ ?pop @ map fst zs @ code) vm1" using 1(3) by simp
        fix vm2 assume 2: "steps (3 + (4 + length ys)) vm1 vm2" "stack_list vm2 = v # rev vals @ rest"
          "at_code K (?pop @ map fst zs @ code) vm2"
        have "does native 1 vm2 (rev vals @ rest)" by (rule does_POP [OF _ 2(2)]) (use 2(3) in simp)
        then show "performs native (1 + length zs) vm2 rest rR"
        proof (rule performs_after [OF _ 2(3)])
          fix vm3 assume 3: "steps 1 vm2 vm3" "stack_list vm3 = rev vals @ rest" "at_code K (map fst zs @ code) vm3"
          note r = ready_steps [OF rdy steps_trans [OF steps_trans [OF 1(1) 2(1)] 3(1)] 3(2)]
          show "performs native (length zs) vm3 rest rR" by (rule R [OF r 3(3)])
        qed simp
      qed (simp add: jump_over_def)
      moreover have "3 + (4 + length ys) + (1 + length zs) = ?m" by simp
      ultimately show ?thesis using True by metis
    next
      case False
      have "does native 3 vm1 (v # rev vals @ rest)"
        using does_JMPF [OF 1(3) size(1) 1(2), of native] False by simp
      then have "performs native ?m vm1 rest rS"
      proof (rule performs_after [OF _ 1(3)])
        fix vm2 assume 2: "steps 3 vm1 vm2" "stack_list vm2 = v # rev vals @ rest"
          "at_code K (?pop @ map fst ys @ ?j @ ?pop @ map fst zs @ code) vm2"
        have "does native 1 vm2 (rev vals @ rest)" by (rule does_POP [OF _ 2(2)]) (use 2(3) in simp)
        then show "performs native (1 + (length ys + (3 + (1 + length zs)))) vm2 rest rS"
        proof (rule performs_after [OF _ 2(3)])
          fix vm3 assume 3: "steps 1 vm2 vm3" "stack_list vm3 = rev vals @ rest"
            "at_code K (map fst ys @ ?j @ ?pop @ map fst zs @ code) vm3"
          note r = ready_steps [OF rdy steps_trans [OF steps_trans [OF 1(1) 2(1)] 3(1)] 3(2)]
          show "performs native (length ys + (3 + (1 + length zs))) vm3 rest rS"
          proof (rule performs_then [OF S [OF r 3(3)] 3(3)])
            fix vals' vm4 assume "stack_list vm4 = rev vals' @ rest" "at_code K (?j @ ?pop @ map fst zs @ code) vm4"
            with does_JMP [OF this(2) size(2), of native] show "does native (3 + (1 + length zs)) vm4 (rev vals' @ rest)" by simp
          qed simp
        qed simp
      qed (simp add: jump_over_def)
      with False show ?thesis by simp
    qed
  qed
  moreover have "length (if_code h l xs ys zs) = length xs + ?m" by (simp add: if_code_def at_tok_def jump_over_def)
  ultimately show ?thesis by metis
qed

lemma if_code_parts:
  "length (if_code h l xs ys zs) \<le> 65535 \<Longrightarrow> length xs \<le> 65535 \<and> length ys \<le> 65535 \<and> length zs \<le> 65535"
  "map fst (if_code h l xs ys zs) = map fst xs @ map fst (drop (length xs) (if_code h l xs ys zs))"
  by (simp_all add: if_code_def)

lemma runs_IfThen:
  assumes S: "stmt_runs native s S"
  shows "stmt_runs native s (IfThen i e h S u)"
  unfolding stmt_runs_def
proof (intro allI impI)
  fix d ls vals rest K code bs cs cs' t vm
  let ?I = "IfThen i e h S u"
  assume rdy: "ready ls vals rest vm" and ok: "stmt_ok s d ls ?I t" and c: "comp_stmt s d ls ?I cs = (bs, cs')"
    and pl: "pool K cs cs'" and len: "length bs \<le> 65535" and need: "vm_top vm + need ?I \<le> STACK_MAX"
    and code: "at_code K (map fst bs @ code) vm"
  from c obtain xs cs1 ys where c: "comp s ls e cs = (xs, cs1)" "comp_stmt s d ls S cs1 = (ys, cs')"
    "bs = if_code h (last (stmt_tokens S)) xs ys []"
    by (auto simp: Let_def split: prod.splits)
  note pl = pool_comp [OF pl c(1) comp_stmt_grows(1) [OF c(2)]] and len = len [unfolded c(3)]
  have run: "runnable s ls (env_of vals) e K (map fst (drop (length xs) bs) @ code) cs xs cs1 vm"
    by (rule ready_runnable [OF rdy c(1) pl(1)])
      (use ok need code if_code_parts(1) [OF len] if_code_parts(2) [of h _ xs ys "[]"] c(3) in auto)
  have "performs native (length (if_code h (last (stmt_tokens S)) xs ys [])) vm rest
      (with_value (eval s ls (env_of vals) e) (\<lambda>v. if IS_FALSEY v then ([], Some vals) else exec s d ls S vals))"
  proof (rule performs_if [OF rdy len run [unfolded c(3)]])
    fix vm' c assume v: "ready ls vals rest vm'" "vm_top vm' = vm_top vm" "at_code K (map fst ys @ c) vm'"
    show "performs native (length ys) vm' rest (exec s d ls S vals)"
      by (rule stmt_runsD [OF S v(1) _ c(2) pl(2) _ _ v(3)]) (use ok need v(2) if_code_parts(1) [OF len] in auto)
  next
    fix vm' c assume "ready ls vals rest vm'" "at_code K (map fst [] @ c) vm'"
    then show "performs native (length []) vm' rest ([], Some vals)"
      using does_0 [of K c vm'] by (auto simp: ready_def intro: does_performs)
  qed
  then show "performs native (length bs) vm rest (exec s d ls ?I vals)" using c(3) by simp
qed

lemma runs_IfElse:
  assumes S: "stmt_runs native s S" and R: "stmt_runs native s R"
  shows "stmt_runs native s (IfElse i e h S l R u)"
  unfolding stmt_runs_def
proof (intro allI impI)
  fix d ls vals rest K code bs cs cs' t vm
  let ?I = "IfElse i e h S l R u"
  assume rdy: "ready ls vals rest vm" and ok: "stmt_ok s d ls ?I t" and c: "comp_stmt s d ls ?I cs = (bs, cs')"
    and pl: "pool K cs cs'" and len: "length bs \<le> 65535" and need: "vm_top vm + need ?I \<le> STACK_MAX"
    and code: "at_code K (map fst bs @ code) vm"
  from c obtain xs cs1 ys cs2 zs where c: "comp s ls e cs = (xs, cs1)" "comp_stmt s d ls S cs1 = (ys, cs2)"
    "comp_stmt s d ls R cs2 = (zs, cs')" "bs = if_code h (last (stmt_tokens S)) xs ys zs"
    by (auto simp: Let_def split: prod.splits)
  have grow: "arr_ok cs' \<and> prefix (arr_values cs1) (arr_values cs')" if "arr_ok cs1"
    using comp_stmt_grows(1) [OF c(2) that] comp_stmt_grows(1) [OF c(3)] by (auto intro: prefix_order.trans)
  note pl1 = pool_comp [OF pl c(1) grow] and len = len [unfolded c(4)]
  note pl2 = pool_stmt [OF pl1(2) c(2) comp_stmt_grows(1) [OF c(3)]]
  have run: "runnable s ls (env_of vals) e K (map fst (drop (length xs) bs) @ code) cs xs cs1 vm"
    by (rule ready_runnable [OF rdy c(1) pl1(1)])
      (use ok need code if_code_parts(1) [OF len] if_code_parts(2) [of h _ xs ys zs] c(4) in auto)
  have "performs native (length (if_code h (last (stmt_tokens S)) xs ys zs)) vm rest
      (with_value (eval s ls (env_of vals) e) (\<lambda>v. if IS_FALSEY v then exec s d ls R vals else exec s d ls S vals))"
  proof (rule performs_if [OF rdy len run [unfolded c(4)]])
    fix vm' c assume v: "ready ls vals rest vm'" "vm_top vm' = vm_top vm" "at_code K (map fst ys @ c) vm'"
    show "performs native (length ys) vm' rest (exec s d ls S vals)"
      by (rule stmt_runsD [OF S v(1) _ c(2) pl2(1) _ _ v(3)]) (use ok need v(2) if_code_parts(1) [OF len] in auto)
  next
    fix vm' c' assume v: "ready ls vals rest vm'" "vm_top vm' = vm_top vm" "at_code K (map fst zs @ c') vm'"
    show "performs native (length zs) vm' rest (exec s d ls R vals)"
      by (rule stmt_runsD [OF R v(1) _ c(3) pl2(2) _ _ v(3)]) (use ok need v(2) if_code_parts(1) [OF len] in auto)
  qed
  then show "performs native (length bs) vm rest (exec s d ls ?I vals)" using c(4) by simp
qed

lemma runs_Block:
  assumes Ss: "\<forall>S \<in> set Ss. stmt_runs native s S"
  shows "stmt_runs native s (Block a Ss b)"
  unfolding stmt_runs_def
proof (intro allI impI)
  fix d ls vals rest K code bs cs cs' t vm
  let ?I = "Block a Ss b" and ?n = "length (concat (map (declared (d + 1)) Ss))"
  assume rdy: "ready ls vals rest vm" and ok: "stmt_ok s d ls ?I t" and c: "comp_stmt s d ls ?I cs = (bs, cs')"
    and pl: "pool K cs cs'" and len: "length bs \<le> 65535" and need: "vm_top vm + need ?I \<le> STACK_MAX"
    and code: "at_code K (map fst bs @ code) vm"
  from c obtain xs where c: "comp_stmts s (d + 1) ls Ss cs = (xs, cs')" "bs = xs @ pops b ?n"
    by (auto simp: Let_def split: prod.splits)
  have p: "map fst (pops b ?n) = replicate ?n (opcode_byte OP_POP)" "length (pops b ?n) = ?n"
    by (simp_all add: pops_def at_tok_def)
  have code: "at_code K (map fst xs @ replicate ?n (opcode_byte OP_POP) @ code) vm"
    using code unfolding c(2) p(1) [symmetric] by simp
  have oks: "stmts_ok s (d + 1) ls Ss b" using ok by simp
  have "performs native (length xs) vm rest (execs s (d + 1) ls Ss vals)"
    by (rule stmts_run [OF Ss rdy oks c(1) pl _ _ code]) (use len c(2) need in simp_all)
  then have "performs native (length xs + ?n) vm rest
      (continue (execs s (d + 1) ls Ss vals) (\<lambda>vals'. ([], Some (take (length vals) vals'))))"
  proof (rule performs_continue [OF _ code])
    fix vals' vm' assume 1: "snd (execs s (d + 1) ls Ss vals) = Some vals'" "stack_list vm' = rev vals' @ rest"
      "at_code K (replicate ?n (opcode_byte OP_POP) @ code) vm'"
    then have e: "execs s (d + 1) ls Ss vals = (fst (execs s (d + 1) ls Ss vals), Some vals')" by (simp add: prod_eq_iff)
    have n: "length vals' = length vals + ?n"
      using exec_values(2) [OF e oks, of vm] rdy by (simp add: ready_def)
    have "does native ?n vm' (drop ?n (stack_list vm'))"
      using stack_top [OF 1(2)] n by (intro does_POPs [OF 1(3)]) simp
    moreover have "drop ?n (stack_list vm') = rev (take (length vals) vals') @ rest"
      using 1(2) n by (simp add: rev_take)
    ultimately show "performs native ?n vm' rest ([], Some (take (length vals) vals'))"
      by (intro does_performs) simp
  qed simp
  then show "performs native (length bs) vm rest (exec s d ls ?I vals)" using c(2) p(2) by simp
qed

lemma runs_Var: "stmt_runs native s (Var v x init)"
  unfolding stmt_runs_def
proof (intro allI impI)
  fix d ls vals rest K code bs cs cs' t vm
  let ?I = "Var v x init"
  assume rdy: "ready ls vals rest vm" and ok: "stmt_ok s d ls ?I t" and c: "comp_stmt s d ls ?I cs = (bs, cs')"
    and pl: "pool K cs cs'" and len: "length bs \<le> 65535" and need: "vm_top vm + need ?I \<le> STACK_MAX"
    and code: "at_code K (map fst bs @ code) vm"
  have s: "stack_list vm = rev vals @ rest" using rdy by (simp add: ready_def)
  show "performs native (length bs) vm rest (exec s d ls ?I vals)"
  proof (cases init)
    case None
    with c have bs: "bs = at_tok x [opcode_byte OP_NIL]" by simp
    have "does native 1 vm (VAL_NULL # stack_list vm)"
      by (rule does_push [where op = OP_NIL and K = K and bs = code])
        (use None code need bs in \<open>simp_all add: at_tok_def op_NIL_def\<close>)
    then have "performs native 1 vm rest ([], Some (vals @ [VAL_NULL]))" using s by (intro does_performs) simp
    then show ?thesis using None bs by (simp add: with_value_def at_tok_def)
  next
    case (Some z)
    obtain q e where z: "init = Some (q, e)" using Some by (cases z) auto
    have ce: "comp s ls e cs = (bs, cs')" and oe: "expr_ok s ls e" using c ok z initializer(1) by auto
    have "runnable s ls (env_of vals) e K code cs bs cs' vm"
      by (rule ready_runnable [OF rdy ce pl len oe code]) (use need z in simp)
    then have "performs native (length bs + 0) vm rest
        (with_value (eval s ls (env_of vals) e) (\<lambda>v. ([], Some (vals @ [v]))))"
    proof (rule performs_value [OF rdy])
      fix v vm' assume "stack_list vm' = v # rev vals @ rest" "at_code K code vm'"
      then show "performs native 0 vm' rest ([], Some (vals @ [v]))"
        using does_0 [of K code vm'] by (intro does_performs) simp
    qed
    then show ?thesis using z by simp
  qed
qed

lemma runs_Assign: "stmt_runs native s (Assign x q e)"
  unfolding stmt_runs_def
proof (intro allI impI)
  fix d ls vals rest K code bs cs cs' t vm
  let ?I = "Assign x q e" and ?i = "the (find_local s x ls (length ls))"
  let ?st = "[opcode_byte OP_ST, word_of_nat ?i]"
  assume rdy: "ready ls vals rest vm" and ok: "stmt_ok s d ls ?I t" and c: "comp_stmt s d ls ?I cs = (bs, cs')"
    and pl: "pool K cs cs'" and len: "length bs \<le> 65535" and need: "vm_top vm + need ?I \<le> STACK_MAX"
    and code: "at_code K (map fst bs @ code) vm"
  from c obtain xs where c: "comp s ls e cs = (xs, cs')" "bs = xs @ at_tok (last (tokens e)) (?st @ [opcode_byte OP_POP])"
    by (auto simp: Let_def split: prod.splits)
  obtain f fs where f: "frames vm = f # fs" "fr_slots f = length rest" using rdy by (auto simp: ready_def)
  have n: "length vals = length ls" "length ls \<le> 256" using rdy by (simp_all add: ready_def)
  have "?i < length ls" using ok find_local_less by (fastforce split: option.splits)
  with n have i: "unat (word_of_nat ?i :: u8) = ?i" "?i < length vals" by (simp_all add: unat_of_nat)
  have run: "runnable s ls (env_of vals) e K (?st @ [opcode_byte OP_POP] @ code) cs xs cs' vm"
    by (rule ready_runnable [OF rdy c(1) pl]) (use ok need code len c(2) in \<open>simp_all add: at_tok_def comp_def\<close>)
  have "performs native (length xs + (2 + 1)) vm rest
      (with_value (eval s ls (env_of vals) e) (\<lambda>v. ([], Some (vals[?i := v]))))"
  proof (rule performs_value [OF rdy run])
    fix v vm1 assume 1: "steps (length xs) vm vm1" "stack_list vm1 = v # rev vals @ rest"
      "at_code K (?st @ [opcode_byte OP_POP] @ code) vm1"
    obtain f1 where f1: "frames vm1 = f1 # fs" "fr_slots f1 = length rest" using 1(1) f by (auto simp: steps_def)
    have top: "vm_top vm1 \<le> STACK_MAX"
      using stack_top [OF 1(2)] ready_top [OF rdy] need stack_need_pos [of e] by simp
    have c1: "at_code K (opcode_byte OP_ST # word_of_nat ?i # [opcode_byte OP_POP] @ code) vm1" using 1(3) by simp
    have "does native 2 vm1 (v # rev (vals[unat (word_of_nat ?i :: u8) := v]) @ rest)"
      by (rule does_ST [OF c1 1(2) f1 _ top]) (use i in simp)
    then have "does native 2 vm1 (v # rev (vals[?i := v]) @ rest)" using i(1) by simp
    then have "performs native (2 + 1) vm1 rest ([], Some (vals[?i := v]))"
    proof (rule performs_after [OF _ 1(3)])
      fix vm2 assume 2: "stack_list vm2 = v # rev (vals[?i := v]) @ rest" "at_code K ([opcode_byte OP_POP] @ code) vm2"
      have "does native 1 vm2 (rev (vals[?i := v]) @ rest)" by (rule does_POP [OF _ 2(1)]) (use 2(2) in simp)
      then show "performs native 1 vm2 rest ([], Some (vals[?i := v]))" by (rule does_performs)
    qed simp
    then show "performs native (2 + 1) vm1 rest ([], Some (vals[?i := v]))" .
  qed
  moreover have "length bs = length xs + (2 + 1)" using c(2) by (simp add: at_tok_def)
  ultimately show "performs native (length bs) vm rest (exec s d ls ?I vals)" by simp
qed

lemma stmt_runs: "stmt_runs native s S"
  by (induction S) (simp_all add: runs_Print runs_IfThen runs_IfElse runs_Block runs_Var runs_Assign)

end
