(* ===== verification/Script_Props.thy ===== *)
theory Script_Props
  imports Script_Example Stmt_Running
begin

text \<open>The properties of whole scripts: from the file to the output.\<close>

text \<open>The function called: its frame is at the start of its code, with the function itself in the first slot.\<close>

lemma script_called:
  assumes "fun_at (heap vm) f = Some fn" and "fn_arity fn = 0" and "frames vm = []" and "vm_top vm < STACK_MAX"
  shows "\<exists>vm1. call_script native f vm = Inr (True, vm1) \<and> stack_list vm1 = VAL_OBJ f # stack_list vm \<and>
    same_store vm vm1 \<and> stdout vm1 = stdout vm \<and> stderr vm1 = stderr vm \<and>
    frames vm1 = [\<lparr>fr_function = f, fr_ip = 0, fr_slots = vm_top vm\<rparr>] \<and> stack vm1 (vm_top vm) = VAL_OBJ f"
proof -
  obtain vm1 where 1: "PUSH (VAL_OBJ f) vm = Inr vm1" "stack_list vm1 = VAL_OBJ f # stack_list vm" "only_stack vm vm1"
    using PUSH_ok [OF assms(4)] by blast
  have t: "vm_top vm1 = vm_top vm + 1" using arg_cong [OF 1(2), of length] by simp
  from assms(1) obtain ob where ob: "heap vm f = Some ob" "body ob = OT_FUN fn" by (auto simp: fun_at_Some)
  have h: "heap vm1 = heap vm" "frames vm1 = []" using 1(3) assms(3) by (simp_all add: only_stack_def same_store_def)
  let ?vm2 = "vm1\<lparr>frames := [\<lparr>fr_function = f, fr_ip = 0, fr_slots = vm_top vm\<rparr>]\<rparr>"
  have "vm_call native (VAL_OBJ f) 0 vm1 = Inr (True, ?vm2)"
    using ob h assms(2) t
    by (simp add: vm_call_def obj_body_of_def prepareCall_def get_fun_def FRAMES_MAX_def)
  then have "call_script native f vm = Inr (True, ?vm2)" using 1(1) by (simp add: call_script_def)
  moreover have "stack vm1 (vm_top vm) = VAL_OBJ f"
    using nth_stack_list [of 0 vm1] 1(2) t by simp
  moreover have "stack_list ?vm2 = stack_list vm1" by (simp add: stack_list_def)
  ultimately show ?thesis using 1(2,3) by (auto simp: only_stack_def same_store_def)
qed

text \<open>The end of a script: null is pushed and returned, and the last frame is left.\<close>

lemma script_ends:
  assumes "at_code K [opcode_byte OP_NIL, opcode_byte OP_RET] vm" and "stack_list vm = v # rest" and "frames vm = [f]"
    and "vm_top vm < STACK_MAX"
  shows "\<exists>vm'. vm_execute native vm = Some (Inr (VM_OK, vm')) \<and> stack_list vm' = rest \<and> frames vm' = [] \<and>
    stdout vm' = stdout vm \<and> stderr vm' = stderr vm \<and> same_store vm vm'"
proof -
  have "at_code K (opcode_byte OP_NIL # [opcode_byte OP_RET]) vm" using assms(1) by simp
  from does_push [OF this assms(4), of native VAL_NULL] obtain vm1
    where 1: "vm_runs native vm vm1" "steps 1 vm vm1" "stack_list vm1 = VAL_NULL # v # rest"
    using assms(2) by (auto simp: does_def op_NIL_def)
  have c: "at_code K [opcode_byte OP_RET] vm1" using at_code_steps [of K "[opcode_byte OP_NIL]"] assms(1) 1(2) by simp
  obtain g where g: "frames (next_byte vm1) = [g]" using 1(2) assms(3) by (auto simp: next_byte_def steps_def)
  have "stack_list (next_byte vm1) = VAL_NULL # v # rest" using 1(3) by simp
  from op_RET_last [OF g this] obtain vm' where "op_RET (next_byte vm1) = Inr (RETURN VM_OK, vm')"
    "stack_list vm' = rest" "frames vm' = []" "stdout vm' = stdout (next_byte vm1)" "stderr vm' = stderr (next_byte vm1)"
    "same_store (next_byte vm1) vm'" by blast
  moreover from this have "vm_execute native vm1 = Some (Inr (VM_OK, vm'))"
    using vm_step_at [OF c] by (intro vm_execute_return) simp
  moreover note vm_execute_from [OF 1(1)] 1(2) at_READ_BYTE(3) [OF c]
  ultimately show ?thesis by (auto simp: steps_def same_store_def)
qed

text \<open>The result of a run: the end of the script, or a runtime error after the output.\<close>

definition script_result :: "val_t list \<Rightarrow> vm_t \<Rightarrow> outcome \<Rightarrow> vm_result \<Rightarrow> vm_t \<Rightarrow> bool" where
  "script_result base vm r res vm' \<longleftrightarrow> stdout vm' = stdout vm @ fst r \<and>
     (case snd r of
        None \<Rightarrow> res = VM_RUNTIME_ERROR \<and> (\<exists>m ts. stderr vm' = stderr vm @ [Runtime_error m ts])
      | Some vals \<Rightarrow> res = VM_OK \<and> stderr vm' = stderr vm \<and> stack_list vm' = base \<and> frames vm' = [] \<and>
          globals vm' = globals vm)"

text \<open>The script in its frame, from its first instruction to its return.\<close>

lemma script_ready:
  assumes "fun_at (heap vm) f = Some fn" and "fn_name fn = None" and "ck_source (fn_chunk fn) \<noteq> None"
    and "frames vm = [\<lparr>fr_function = f, fr_ip = 0, fr_slots = length rest\<rparr>]" and "stack_list vm = VAL_OBJ f # rest"
    and "length rest + 1 \<le> STACK_MAX"
  shows "ready script_locals [VAL_OBJ f] rest vm"
proof -
  have "good vm (VAL_OBJ f)"
    using assms(1,2) by (auto simp: good_def val_print_def obj_print_def fun_at_Some no_string_def is_str_def)
  moreover have "traced vm" using assms(1-4) by (simp add: traced_def)
  moreover have "in_bounds vm" using assms(4,6) stack_top [OF assms(5)] by (simp add: in_bounds_def FRAMES_MAX_def)
  ultimately show ?thesis using assms(4,5) by (simp add: ready_def script_locals_def)
qed

lemma script_executed:
  assumes f: "fun_at (heap vm) f = Some fn" and fn: "script_fun fn bs cs" and src: "ck_source (fn_chunk fn) = Some src"
    and c: "comp_stmts s 0 script_locals Ss arr_init = (bs, cs)" and n: "arr_count cs \<le> 256" "length bs \<le> 65535"
    and ok: "stmts_ok s 0 script_locals Ss t" and fr: "frames vm = [\<lparr>fr_function = f, fr_ip = 0, fr_slots = length rest\<rparr>]"
    and sl: "stack_list vm = VAL_OBJ f # rest" and need: "length rest + 1 + max 1 (needs Ss) \<le> STACK_MAX"
  shows "\<exists>res vm'. vm_execute native vm = Some (Inr (res, vm')) \<and>
    script_result rest vm (execs s 0 script_locals Ss [VAL_OBJ f]) res vm'"
proof -
  let ?r = "execs s 0 script_locals Ss [VAL_OBJ f]"
  have code: "at_code (consts_of fn) (map fst bs @ [opcode_byte OP_NIL, opcode_byte OP_RET]) vm"
    using f fn fr by (simp add: at_code_def script_fun_def)
  have rdy: "ready script_locals [VAL_OBJ f] rest vm"
    by (rule script_ready [OF f _ _ fr sl]) (use fn src need in \<open>simp_all add: script_fun_def\<close>)
  have pl: "pool (consts_of fn) arr_init cs"
    using fn n by (simp add: pool_def script_fun_def arr_init_def arr_ok_def)
  have p: "performs native (length bs) vm rest ?r"
    by (rule stmts_run [OF _ rdy ok c pl n(2) _ code]) (use stmt_runs need ready_top [OF rdy] in auto)
  show ?thesis
  proof (cases "snd ?r")
    case None
    with p obtain vm1 vm2 m ts where "vm_runs native vm vm1" "vm_step native vm1 = Inr (RETURN VM_RUNTIME_ERROR, vm2)"
      "stdout vm2 = stdout vm @ fst ?r" "stderr vm2 = stderr vm @ [Runtime_error m ts]"
      by (auto simp: performs_def stops_with_def)
    with None show ?thesis
      using vm_execute_from [of native vm vm1] vm_execute_return [of native vm1] by (auto simp: script_result_def)
  next
    case (Some vals)
    with p obtain vm3 where 3: "vm_runs native vm vm3" "prints (length bs) (fst ?r) vm vm3" "stack_list vm3 = rev vals @ rest"
      by (auto simp: performs_def)
    have "length vals = 1"
      using exec_values(2) [of s 0 script_locals Ss "[VAL_OBJ f]" "fst ?r" vals t vm] Some ok rdy
        outermost_locals [OF ok] by (simp add: ready_def script_locals_def prod_eq_iff)
    then obtain v where v: "vals = [v]" by (cases vals) auto
    moreover have "at_code (consts_of fn) [opcode_byte OP_NIL, opcode_byte OP_RET] vm3"
      using at_code_prints [OF code] 3(2) by simp
    moreover obtain fr3 where "frames vm3 = [fr3]" using prints_frames [OF 3(2)] fr by auto
    moreover have "vm_top vm3 < STACK_MAX" using stack_top [OF 3(3)] v need by (simp add: max_def split: if_splits)
    ultimately obtain vm' where
      4: "vm_execute native vm3 = Some (Inr (VM_OK, vm'))" "stack_list vm' = rest" "frames vm' = []"
      "stdout vm' = stdout vm3" "stderr vm' = stderr vm3" "same_store vm3 vm'" using script_ends [of _ vm3 v rest _ native] 3(3) v by auto
    with vm_execute_from [OF 3(1)] 3(2) Some show ?thesis
      by (auto simp: script_result_def prints_def steps_def same_store_def)
  qed
qed

text \<open>A file whose script has been compiled.\<close>

lemma dofile_compiled:
  assumes "frames vm = []" and "src_new read_file fname = Some src" and "compile tok0 src vm = Inr (Some f, vm1)"
    and fn: "fun_at (heap vm1) f = Some fn" "script_fun fn bs cs" "ck_source (fn_chunk fn) = Some src"
    and grown: "vm_grown vm vm1" "stderr vm1 = stderr vm"
    and Ss: "comp_stmts src 0 script_locals Ss arr_init = (bs, cs)" "arr_count cs \<le> 256" "length bs \<le> 65535"
      "stmts_ok src 0 script_locals Ss t"
    and "vm_top vm + 1 + max 1 (needs Ss) \<le> STACK_MAX"
  shows "\<exists>res vm'. vm_dofile native read_file (compile tok0) fname vm = Inr (res, vm') \<and>
    script_result (stack_list vm) vm (execs src 0 script_locals Ss [VAL_OBJ f]) res vm'"
proof -
  have u: "vm_top vm1 = vm_top vm" "frames vm1 = []" "stdout vm1 = stdout vm" "globals vm1 = globals vm"
    "stack_list vm1 = stack_list vm"
    using grown assms(1) by (auto simp: vm_grown_def untouched_def stack_list_def)
  have "fn_arity fn = 0" using fn(2) by (simp add: script_fun_def)
  moreover have "vm_top vm1 < STACK_MAX" using assms(13) u(1) by simp
  ultimately obtain vm2 where
    2: "call_script native f vm1 = Inr (True, vm2)" "stack_list vm2 = VAL_OBJ f # stack_list vm" "same_store vm1 vm2"
    "stdout vm2 = stdout vm" "stderr vm2 = stderr vm"
    "frames vm2 = [\<lparr>fr_function = f, fr_ip = 0, fr_slots = length (stack_list vm)\<rparr>]"
    using script_called [OF fn(1) _ u(2), of native] u grown(2) by auto
  have f2: "fun_at (heap vm2) f = Some fn" using fn(1) 2(3) by (simp add: same_store_def)
  have need: "length (stack_list vm) + 1 + max 1 (needs Ss) \<le> STACK_MAX" using assms(13) by simp
  from script_executed [OF f2 fn(2,3) Ss 2(6,2) need, of native] obtain res vm' where
    3: "vm_execute native vm2 = Some (Inr (res, vm'))"
    "script_result (stack_list vm) vm2 (execs src 0 script_locals Ss [VAL_OBJ f]) res vm'" by blast
  have "vm_dofile native read_file (compile tok0) fname vm = Inr (res, vm')"
    using assms(2,3) 2(1) 3(1) by (auto simp: vm_dofile_def call_script_def returns_def elim!: bindr_Inr_E)
  moreover have "globals vm2 = globals vm" using 2(3) u(4) by (simp add: same_store_def)
  ultimately show ?thesis using 3(2) 2(4,5) by (auto simp: script_result_def split: option.splits)
qed



text \<open>In particular a script of \<open>Print\<close> statements prints the lines of their values.\<close>

lemma execs_prints:
  "those (map (eval_parts s ls (env_of vals)) ess) = Some vss \<Longrightarrow>
    execs s d ls (map Print ess) vals = (concat (map line_text vss), Some vals)"
  by (induction ess arbitrary: vss) (auto simp: continue_def split: option.splits)

corollary vm_dofile_prints:
  assumes "machine_ok vm" and "frames vm = []" and "gc_idle SIZEOF_FUN vm"
    and "src_new read_file fname = Some src" and "lexes (src_buffer src) lexer_init (stmts_tokens (map Print ess))"
    and "stmts_ok src 0 script_locals (map Print ess) t" and "tok_type t = TOKEN_EOF"
    and "comp_stmts src 0 script_locals (map Print ess) arr_init = (bs, cs)" and "arr_count cs \<le> 256"
    and "length bs \<le> 65535" and "vm_top vm + 1 + max 1 (needs (map Print ess)) \<le> STACK_MAX"
    and "those (map (eval_parts src script_locals (env_of [VAL_OBJ (next_addr vm)])) ess) = Some vss"
  shows "\<exists>vm'. vm_dofile native read_file (compile tok0) fname vm = Inr (VM_OK, vm') \<and>
    stdout vm' = stdout vm @ concat (map line_text vss) \<and> stderr vm' = stderr vm \<and> stack_list vm' = stack_list vm \<and>
    frames vm' = [] \<and> globals vm' = globals vm"
proof -
  have fits: "stmts_ok src 0 script_locals (map Print ess) u" if "tok_type u = TOKEN_EOF" for u
    using that assms(7) by (intro stmts_ok_end [OF assms(6)]) simp
  obtain res vm' where "vm_dofile native read_file (compile tok0) fname vm = Inr (res, vm')"
    "script_result (stack_list vm) vm (execs src 0 script_locals (map Print ess) [VAL_OBJ (next_addr vm)]) res vm'"
    using compile_script [of vm src "map Print ess" bs cs tok0, OF assms(1,3,5) fits assms(8-10)]
      dofile_compiled [OF assms(2,4) _ _ _ _ _ _ assms(8-10,6,11)] by blast
  with execs_prints [OF assms(12), of 0] show ?thesis by (simp add: script_result_def)
qed

end
