(* ===== verification/Threads.thy ===== *)
theory Threads
  imports Libs
begin

text \<open>
  The thread library (\<open>src/src/lib_thread.c\<close>, \<open>vm_clone\<close> of \<open>src/src/vm.c\<close>) on Windows; the other branch does
  not compile. A thread runs in a clone of the machine, which has a stack and frames of its own and shares
  heap, pool, globals and output with the machine that it was cloned from. The operating
  system is the state of each thread handle and the choice of the thread that makes the next step; a step is an instruction. What
  can happen between the memory accesses of one instruction is not modelled, since the code has no locks.
\<close>

subsection \<open>Clones\<close>

text \<open>The part of \<open>struct _vm\<close> that a clone does not share.\<close>

record exec_t =
  ex_stack :: "nat \<Rightarrow> val_t"
  ex_top :: nat
  ex_frames :: "frame_t list"
  ex_tempRoots :: "addr option list"
  ex_openUpvalues :: "addr option"

definition exec_of :: "vm_t \<Rightarrow> exec_t" where
  "exec_of vm = \<lparr>ex_stack = stack vm, ex_top = vm_top vm, ex_frames = frames vm, ex_tempRoots = tempRoots vm,
     ex_openUpvalues = openUpvalues vm\<rparr>"

definition put_exec :: "exec_t \<Rightarrow> vm_t \<Rightarrow> vm_t" where
  "put_exec e vm = vm\<lparr>stack := ex_stack e, vm_top := ex_top e, frames := ex_frames e,
     tempRoots := ex_tempRoots e, openUpvalues := ex_openUpvalues e\<rparr>"

definition vm_clone :: "vm_t \<Rightarrow> vm_t" where
  "vm_clone from = resetStack (from\<lparr>stack := (\<lambda>_. VAL_NULL), tempRoots := [], openUpvalues := None\<rparr>)"

subsection \<open>Threads\<close>

text \<open>
  The operating system's thread behind \<open>handle\<close>: created suspended, resumed and about to enter
  \<open>thread_routine\<close>, in the loop of \<open>vm_execute\<close>, or over. The field \<open>main\<close> is written and never read.
  The routine is \<open>None\<close> when \<open>AS_FUN\<close> was applied to a value that is no object.
\<close>

datatype handle_t = Suspended | Resumed | Executing | Over

record thread_t =
  th_vm :: exec_t
  th_routine :: "addr option"
  th_handle :: handle_t
  th_running :: bool

record threads_t =
  th_table :: "addr \<Rightarrow> thread_t option"     \<comment> \<open>the structs allocated and not freed\<close>
  th_next :: addr                            \<comment> \<open>the allocator: pointers from here up are free\<close>

datatype agent = Main | Thread addr

text \<open>How a native of the library ends: it returns, it waits, or the calling thread is over.\<close>

datatype outcome = Returned val_t threads_t | Waits | Gone threads_t

definition arg :: "nat \<Rightarrow> nat \<Rightarrow> vm_t \<Rightarrow> val_t res" where
  "arg args i vm = (if args + i < STACK_MAX then Inr (stack vm (args + i)) else Inl (Undefined Stack_overflow))"

text \<open>\<open>thread_t *thread = AS_PTR(args[0])\<close>, and the access through it.\<close>

definition arg_thread :: "nat \<Rightarrow> vm_t \<Rightarrow> threads_t \<Rightarrow> (addr \<times> thread_t) res" where
  "arg_thread args vm ths =
     bindr (arg args 0 vm) (\<lambda>v.
     case v of
       VAL_PTR p \<Rightarrow> (case th_table ths p of None \<Rightarrow> Inl (Undefined Bad_pointer) | Some t \<Rightarrow> Inr (p, t))
     | _ \<Rightarrow> Inl (Undefined Type_confusion))"

definition put_thread :: "addr \<Rightarrow> thread_t \<Rightarrow> threads_t \<Rightarrow> threads_t" where
  "put_thread p t ths = ths\<lparr>th_table := (th_table ths)(p \<mapsto> t)\<rparr>"

text \<open>\<open>TerminateThread\<close>: it ends the thread, and does not return when that is the caller.\<close>

definition terminate :: "agent \<Rightarrow> addr \<Rightarrow> thread_t \<Rightarrow> threads_t \<Rightarrow> (threads_t \<Rightarrow> outcome) \<Rightarrow> outcome" where
  "terminate me p t ths k =
     (let ths = put_thread p (t\<lparr>th_handle := Over\<rparr>) ths in if me = Thread p then Gone ths else k ths)"

subsection \<open>The natives\<close>

text \<open>How long a call sleeps does not matter here.\<close>

definition thread_sleep :: "nat \<Rightarrow> vm_t \<Rightarrow> threads_t \<Rightarrow> outcome res" where
  "thread_sleep args vm ths = bindr (arg_num args 0 vm) (\<lambda>ms. Inr (Returned VAL_NULL ths))"

definition thread_create :: "nat \<Rightarrow> vm_t \<Rightarrow> threads_t \<Rightarrow> outcome res" where
  "thread_create args vm ths =
     bindr (arg args 0 vm) (\<lambda>v.
     bindr (vm_push v (vm_clone vm)) (\<lambda>clone.
     let t = \<lparr>th_vm = exec_of clone, th_routine = (case v of VAL_OBJ a \<Rightarrow> Some a | _ \<Rightarrow> None),
           th_handle = Suspended, th_running = False\<rparr>;
         p = th_next ths
     in Inr (Returned (VAL_PTR p) ((put_thread p t ths)\<lparr>th_next := p + 1\<rparr>))))"

definition thread_exit :: "agent \<Rightarrow> threads_t \<Rightarrow> outcome res" where
  "thread_exit me ths =
     Inr (Gone (case me of
                  Main \<Rightarrow> ths
                | Thread p \<Rightarrow> ths\<lparr>th_table := (th_table ths)(p := map_option (\<lambda>t. t\<lparr>th_handle := Over\<rparr>) (th_table ths p))\<rparr>))"

text \<open>\<open>ResumeThread\<close> lets a suspended thread run; it does nothing to one that is over.\<close>

definition resume :: "handle_t \<Rightarrow> handle_t" where
  "resume h = (case h of Suspended \<Rightarrow> Resumed | _ \<Rightarrow> h)"

definition thread_start :: "nat \<Rightarrow> vm_t \<Rightarrow> threads_t \<Rightarrow> outcome res" where
  "thread_start args vm ths =
     bindr (arg_thread args vm ths) (\<lambda>(p, t).
     Inr (Returned VAL_NULL
       (if \<not> th_running t then put_thread p (t\<lparr>th_running := True, th_handle := resume (th_handle t)\<rparr>) ths else ths)))"

definition thread_join :: "nat \<Rightarrow> vm_t \<Rightarrow> threads_t \<Rightarrow> outcome res" where
  "thread_join args vm ths =
     bindr (arg_thread args vm ths) (\<lambda>(p, t).
     Inr (if th_running t \<and> th_handle t \<noteq> Over then Waits else Returned VAL_NULL ths))"

definition thread_cancel :: "agent \<Rightarrow> nat \<Rightarrow> vm_t \<Rightarrow> threads_t \<Rightarrow> outcome res" where
  "thread_cancel me args vm ths =
     bindr (arg_thread args vm ths) (\<lambda>(p, t).
     Inr (if \<not> th_running t then terminate me p t ths (Returned VAL_NULL) else Returned VAL_NULL ths))"

definition thread_close :: "agent \<Rightarrow> nat \<Rightarrow> vm_t \<Rightarrow> threads_t \<Rightarrow> outcome res" where
  "thread_close me args vm ths =
     bindr (arg_thread args vm ths) (\<lambda>(p, t).
     let free = (\<lambda>ths. Returned VAL_NULL (ths\<lparr>th_table := (th_table ths)(p := None)\<rparr>))
     in Inr (if th_running t then terminate me p t ths free else free ths))"

fun thread_native :: "cfn \<Rightarrow> (agent \<Rightarrow> nat \<Rightarrow> vm_t \<Rightarrow> threads_t \<Rightarrow> outcome res) option" where
  "thread_native Thread_sleep = Some (\<lambda>me. thread_sleep)"
| "thread_native Thread_create = Some (\<lambda>me. thread_create)"
| "thread_native Thread_exit = Some (\<lambda>me args vm. thread_exit me)"
| "thread_native Thread_start = Some (\<lambda>me. thread_start)"
| "thread_native Thread_join = Some (\<lambda>me. thread_join)"
| "thread_native Thread_cancel = Some thread_cancel"
| "thread_native Thread_close = Some thread_close"
| "thread_native _ = None"

subsection \<open>Interleaving\<close>

text \<open>The native that the next instruction calls, and where its arguments are.\<close>

definition native_call :: "vm_t \<Rightarrow> (cfn \<times> nat) option" where
  "native_call vm =
     (case bindr (READ_BYTE vm) (\<lambda>(b, vm). bindr (READ_BYTE vm) (\<lambda>(n, vm).
           bindr (PEEK (unat n) vm) (\<lambda>v. Inr (b, unat n, v)))) of
        Inr (b, n, VAL_CFN f) \<Rightarrow> if decode_op b = Some OP_CALL then Some (f, vm_top vm - n) else None
      | _ \<Rightarrow> None)"

datatype progress = Going | Done | Exited

text \<open>
  One instruction of an agent; \<open>None\<close> is waiting. The natives of the library leave the calling
  machine alone, so that the instruction itself only takes over the value returned.
\<close>

definition returning :: "libm \<Rightarrow> val_t \<Rightarrow> natives" where
  "returning lm v = run_native lm (\<lambda>f argc args vm. Inr (v, vm))"

definition instruction :: "libm \<Rightarrow> val_t \<Rightarrow> vm_t \<Rightarrow> threads_t \<Rightarrow> (progress \<times> vm_t \<times> threads_t) option res" where
  "instruction lm v vm ths =
     bindr (vm_step (returning lm v) vm) (\<lambda>(c, vm').
     Inr (Some (case c of NEXT \<Rightarrow> Going | RETURN _ \<Rightarrow> Done, vm', ths)))"

definition agent_step :: "libm \<Rightarrow> agent \<Rightarrow> vm_t \<Rightarrow> threads_t \<Rightarrow> (progress \<times> vm_t \<times> threads_t) option res" where
  "agent_step lm me vm ths =
     (case Option.bind (native_call vm) (\<lambda>(f, args). map_option (\<lambda>run. run me args vm ths) (thread_native f)) of
        None \<Rightarrow> instruction lm VAL_NULL vm ths
      | Some r \<Rightarrow>
          bindr r (\<lambda>out.
          case out of
            Waits \<Rightarrow> Inr None
          | Gone ths \<Rightarrow> Inr (Some (Exited, vm, ths))
          | Returned v ths \<Rightarrow> instruction lm v vm ths))"

text \<open>
  The program: the machine of the main thread with all that is shared, how far the main thread is (when it is
  \<open>Done\<close>, \<open>main\<close> returns and the process ends), and the threads.
\<close>

record world_t =
  w_vm :: vm_t
  w_main :: progress
  w_threads :: threads_t

definition agent_vm :: "thread_t \<Rightarrow> world_t \<Rightarrow> vm_t" where
  "agent_vm t w = put_exec (th_vm t) (w_vm w)"

text \<open>The machine of a thread after a step: what is shared goes to all, the rest to the thread.\<close>

definition leave :: "addr \<Rightarrow> handle_t \<Rightarrow> vm_t \<Rightarrow> threads_t \<Rightarrow> world_t \<Rightarrow> world_t" where
  "leave p h vm ths w =
     w\<lparr>w_vm := put_exec (exec_of (w_vm w)) vm,
       w_threads := ths\<lparr>th_table := (th_table ths)(p :=
         map_option (\<lambda>t. t\<lparr>th_vm := exec_of vm, th_handle := (if th_handle t = Over then Over else h)\<rparr>) (th_table ths p))\<rparr>\<rparr>"

text \<open>\<open>thread_routine\<close>: whether the call has succeeded is not tested.\<close>

definition thread_routine :: "libm \<Rightarrow> thread_t \<Rightarrow> vm_t \<Rightarrow> vm_t res" where
  "thread_routine lm t vm =
     (case th_routine t of
        None \<Rightarrow> Inl (Undefined Type_confusion)
      | Some a \<Rightarrow> bindr (vm_call (returning lm VAL_NULL) (VAL_OBJ a) 0 vm) (\<lambda>(_, vm). Inr vm))"

definition thread_step :: "libm \<Rightarrow> addr \<Rightarrow> thread_t \<Rightarrow> world_t \<Rightarrow> world_t option res" where
  "thread_step lm p t w =
     (case th_handle t of
        Resumed \<Rightarrow>
          bindr (thread_routine lm t (agent_vm t w)) (\<lambda>vm. Inr (Some (leave p Executing vm (w_threads w) w)))
      | Executing \<Rightarrow>
          bindr (agent_step lm (Thread p) (agent_vm t w) (w_threads w)) (\<lambda>r.
          Inr (map_option (\<lambda>(c, vm, ths). leave p (if c = Going then Executing else Over) vm ths w) r))
      | _ \<Rightarrow> Inr None)"

definition world_step :: "libm \<Rightarrow> agent \<Rightarrow> world_t \<Rightarrow> world_t option res" where
  "world_step lm me w =
     (case me of
        Main \<Rightarrow>
          if w_main w = Going then
            bindr (agent_step lm Main (w_vm w) (w_threads w)) (\<lambda>r.
            Inr (map_option (\<lambda>(c, vm, ths). w\<lparr>w_vm := vm, w_main := c, w_threads := ths\<rparr>) r))
          else Inr None
      | Thread p \<Rightarrow>
          if w_main w = Done then Inr None
          else (case th_table (w_threads w) p of None \<Rightarrow> Inr None | Some t \<Rightarrow> thread_step lm p t w))"

text \<open>The worlds that some interleaving reaches.\<close>

inductive interleaves :: "libm \<Rightarrow> world_t \<Rightarrow> world_t \<Rightarrow> bool" for lm w where
  interleaves_refl: "interleaves lm w w"
| interleaves_step: "interleaves lm w w1 \<Longrightarrow> world_step lm me w1 = Inr (Some w2) \<Longrightarrow> interleaves lm w w2"

text \<open>A program that has not created a thread.\<close>

definition alone :: "world_t \<Rightarrow> bool" where
  "alone w \<longleftrightarrow> (\<forall>p. th_table (w_threads w) p = None)"

end
