(* ===== verification/Thread_Props.thy ===== *)
theory Thread_Props
  imports Threads Examples
begin

text \<open>The properties of the thread library, for all interleavings of the threads.\<close>

subsection \<open>Clones and the invariant\<close>

definition exec_ok :: "exec_t \<Rightarrow> bool" where
  "exec_ok e \<longleftrightarrow> ex_top e \<le> STACK_MAX \<and> length (ex_frames e) \<le> FRAMES_MAX \<and>
     (\<forall>s \<in> set (map fr_slots (ex_frames e)). s \<le> STACK_MAX)"

text \<open>A thread that has not entered its routine has no frame; \<open>running\<close> is set exactly when it is started.\<close>

definition thread_ok :: "thread_t \<Rightarrow> bool" where
  "thread_ok t \<longleftrightarrow> exec_ok (th_vm t) \<and> (th_handle t \<in> {Resumed, Executing} \<longrightarrow> th_running t) \<and>
     (th_handle t = Suspended \<longrightarrow> \<not> th_running t) \<and>
     (th_handle t \<in> {Suspended, Resumed} \<longrightarrow> ex_frames (th_vm t) = [])"

definition threads_ok :: "threads_t \<Rightarrow> bool" where
  "threads_ok ths \<longleftrightarrow> (\<forall>p t. th_table ths p = Some t \<longrightarrow> thread_ok t \<and> p < th_next ths)"

text \<open>What the natives do to the threads: \<open>running\<close> is never reset.\<close>

definition later :: "threads_t \<Rightarrow> threads_t \<Rightarrow> bool" where
  "later ths ths' \<longleftrightarrow> threads_ok ths' \<and>
     (\<forall>p t t'. th_table ths p = Some t \<and> th_table ths' p = Some t' \<and> th_running t \<longrightarrow> th_running t')"

definition world_ok :: "world_t \<Rightarrow> bool" where
  "world_ok w \<longleftrightarrow> machine_ok (w_vm w) \<and> threads_ok (w_threads w)"

lemma same_store_put_exec [simp]: "same_store vm (put_exec e vm)"
  by (simp add: same_store_def put_exec_def)

lemma machine_put_exec: "machine_ok vm \<Longrightarrow> exec_ok e \<Longrightarrow> machine_ok (put_exec e vm)"
  by (rule machine_same_store(1) [OF same_store_put_exec]) (simp_all add: exec_ok_def in_bounds_def put_exec_def)

lemma exec_of_ok: "machine_ok vm \<Longrightarrow> exec_ok (exec_of vm)"
  by (simp add: machine_ok_def in_bounds_def exec_ok_def exec_of_def)

lemma agent_vm_ok: "world_ok w \<Longrightarrow> th_table (w_threads w) p = Some t \<Longrightarrow> machine_ok (agent_vm t w)"
  unfolding agent_vm_def by (rule machine_put_exec) (auto simp: world_ok_def threads_ok_def thread_ok_def)

lemma later_refl: "threads_ok ths \<Longrightarrow> later ths ths"
  by (auto simp: later_def)

lemma later_put:
  assumes "threads_ok ths" and "thread_ok t'" and "th_table ths p = Some t" and "th_running t \<longrightarrow> th_running t'"
  shows "later ths (put_thread p t' ths)"
  using assms by (auto simp: later_def threads_ok_def put_thread_def)

lemma later_removed: "later ths ths' \<Longrightarrow> later ths (ths'\<lparr>th_table := (th_table ths')(p := None)\<rparr>)"
  by (simp add: later_def threads_ok_def)

subsection \<open>The natives\<close>

fun outcome_ok :: "threads_t \<Rightarrow> outcome \<Rightarrow> bool" where
  "outcome_ok ths Waits \<longleftrightarrow> True"
| "outcome_ok ths (Gone ths') \<longleftrightarrow> later ths ths'"
| "outcome_ok ths (Returned v ths') \<longleftrightarrow> later ths ths'"

lemma arg_thread_ok: "arg_thread args vm ths = Inr (p, t) \<Longrightarrow> threads_ok ths \<Longrightarrow> th_table ths p = Some t \<and> thread_ok t"
  by (auto simp: arg_thread_def threads_ok_def elim!: bindr_Inr_E split: val_t.splits option.splits)

lemma terminate_ok:
  assumes "threads_ok ths" and "th_table ths p = Some t \<and> thread_ok t"
    and "\<And>ths'. later ths ths' \<Longrightarrow> outcome_ok ths (k ths')"
  shows "outcome_ok ths (terminate me p t ths k)"
  using later_put [OF assms(1), of "t\<lparr>th_handle := Over\<rparr>" p t] assms(2,3) by (simp add: terminate_def Let_def thread_ok_def)

lemma thread_create_ok:
  assumes "thread_create args vm ths = Inr out" and "threads_ok ths"
  shows "outcome_ok ths out"
proof -
  from assms(1) obtain v clone where push: "vm_push v (vm_clone vm) = Inr clone"
    and out: "out = Returned (VAL_PTR (th_next ths)) ((put_thread (th_next ths)
      \<lparr>th_vm = exec_of clone, th_routine = (case v of VAL_OBJ a \<Rightarrow> Some a | _ \<Rightarrow> None), th_handle = Suspended,
       th_running = False\<rparr> ths)\<lparr>th_next := th_next ths + 1\<rparr>)"
    by (auto simp: thread_create_def Let_def elim!: bindr_Inr_E)
  have "thread_ok \<lparr>th_vm = exec_of clone, th_routine = r, th_handle = Suspended, th_running = False\<rparr>" for r
    using push by (auto simp: vm_push_def PUSH_def vm_clone_def resetStack_def thread_ok_def exec_ok_def exec_of_def
        STACK_MAX_def FRAMES_MAX_def split: if_splits)
  with assms(2) show ?thesis
    by (fastforce simp: out later_def threads_ok_def put_thread_def less_Suc_eq split: if_splits)
qed

lemma thread_native_ok:
  assumes "thread_native f = Some call" and "call me args vm ths = Inr out" and "threads_ok ths"
  shows "outcome_ok ths out"
proof -
  have started: "later ths (put_thread p (t\<lparr>th_running := True, th_handle := resume (th_handle t)\<rparr>) ths)"
    if "th_table ths p = Some t \<and> thread_ok t" for p t
    using that later_put [OF assms(3)] by (cases "th_handle t") (simp_all add: thread_ok_def resume_def)
  have over: "later ths (ths\<lparr>th_table := (th_table ths)(p := map_option (\<lambda>t. t\<lparr>th_handle := Over\<rparr>) (th_table ths p))\<rparr>)" for p
    using assms(3) by (auto simp: later_def threads_ok_def thread_ok_def split: if_splits)
  note ended = terminate_ok [OF assms(3)]
  show ?thesis
    using assms thread_create_ok [of args vm ths out] started over later_refl [OF assms(3)]
    by (cases f) (auto simp: thread_sleep_def thread_exit_def thread_start_def thread_join_def thread_cancel_def
        thread_close_def Let_def intro!: ended later_removed elim!: bindr_Inr_E dest!: arg_thread_ok
        split: agent.splits if_splits)
qed

subsection \<open>The steps\<close>

lemma returning_ok: "machine_ok vm \<Longrightarrow> okr (\<lambda>_. True) (\<lambda>(_, vm'). machine_ok vm') (returning lm v f n i vm)"
  unfolding returning_def by (rule math_natives_keep) simp_all

lemma instruction_ok:
  assumes "instruction lm v vm ths = Inr (Some (c, vm', ths'))" and "machine_ok vm"
  shows "machine_ok vm'" and "ths' = ths"
proof -
  obtain c' where s: "vm_step (returning lm v) vm = Inr (c', vm')" and "ths' = ths"
    using assms(1) by (auto simp: instruction_def elim!: bindr_Inr_E)
  have "okr (\<lambda>_. True) (\<lambda>(_, vm'). machine_ok vm') (vm_step (returning lm v) vm)"
    by (rule mk.keeps_step [OF assms(2) index_keys_True]) (rule returning_ok)
  from okr_Inr [OF this s] \<open>ths' = ths\<close> show "machine_ok vm'" "ths' = ths" by simp_all
qed

lemma agent_step_ok:
  assumes "agent_step lm me vm ths = Inr (Some (c, vm', ths'))" and "machine_ok vm" and "threads_ok ths"
  shows "machine_ok vm' \<and> later ths ths'"
proof (cases "Option.bind (native_call vm) (\<lambda>(f, args). map_option (\<lambda>run. run me args vm ths) (thread_native f))")
  case None
  with assms instruction_ok [of lm VAL_NULL vm ths c vm' ths'] show ?thesis by (auto simp: agent_step_def later_refl)
next
  case (Some r)
  then obtain f args call where f: "thread_native f = Some call" "r = call me args vm ths"
    by (auto simp: Option.bind_eq_Some_conv)
  from assms(1) Some obtain out where out: "r = Inr out" "(case out of Waits \<Rightarrow> Inr None
      | Gone ths \<Rightarrow> Inr (Some (Exited, vm, ths)) | Returned v ths \<Rightarrow> instruction lm v vm ths) = Inr (Some (c, vm', ths'))"
    by (auto simp: agent_step_def elim!: bindr_Inr_E)
  have "outcome_ok ths out" using thread_native_ok [OF f(1) _ assms(3)] f(2) out(1) by auto
  with out(2) assms(2) instruction_ok [of lm _ vm _ c vm' ths'] show ?thesis by (cases out) auto
qed

lemma leave_ok:
  assumes "world_ok w" and "machine_ok vm" and "threads_ok ths"
    and "\<And>t. th_table ths p = Some t \<Longrightarrow> th_handle t \<noteq> Over \<Longrightarrow> h = Over \<or> h = Executing \<and> th_running t"
  shows "world_ok (leave p h vm ths w)"
proof -
  have "machine_ok (put_exec (exec_of (w_vm w)) vm)"
    using assms(1,2) by (intro machine_put_exec exec_of_ok) (simp_all add: world_ok_def)
  moreover have "threads_ok (w_threads (leave p h vm ths w))"
    using assms(2-4) exec_of_ok [of vm] by (auto simp: leave_def threads_ok_def thread_ok_def)
  ultimately show ?thesis by (simp add: world_ok_def leave_def)
qed

lemma thread_step_ok:
  assumes "thread_step lm p t w = Inr (Some w')" and "world_ok w" and t: "th_table (w_threads w) p = Some t"
  shows "world_ok w'"
proof -
  have ok: "machine_ok (agent_vm t w)" and ths: "threads_ok (w_threads w)" and "thread_ok t"
    using agent_vm_ok [OF assms(2) t] assms(2) t by (auto simp: world_ok_def threads_ok_def)
  then consider "th_handle t = Resumed" "th_running t" | "th_handle t = Executing" "th_running t"
    using assms(1) by (cases "th_handle t") (auto simp: thread_step_def thread_ok_def)
  then show ?thesis
  proof cases
    case 1
    with assms(1) obtain a b vm where call: "vm_call (returning lm VAL_NULL) (VAL_OBJ a) 0 (agent_vm t w) = Inr (b, vm)"
      and w': "w' = leave p Executing vm (w_threads w) w"
      by (auto simp: thread_step_def thread_routine_def elim!: bindr_Inr_E split: option.splits)
    have "okr (\<lambda>_. True) (\<lambda>(_, vm'). machine_ok vm') (vm_call (returning lm VAL_NULL) (VAL_OBJ a) 0 (agent_vm t w))"
      by (rule mk.keeps_vm_call [OF ok]) (rule returning_ok)
    from okr_Inr [OF this call] show ?thesis
      unfolding w' by (intro leave_ok [OF assms(2) _ ths]) (use t 1 in auto)
  next
    case 2
    with assms(1) obtain c vm ths' where s: "agent_step lm (Thread p) (agent_vm t w) (w_threads w) = Inr (Some (c, vm, ths'))"
      and w': "w' = leave p (if c = Going then Executing else Over) vm ths' w"
      by (auto simp: thread_step_def elim!: bindr_Inr_E)
    note n = agent_step_ok [OF s ok ths]
    show ?thesis
      unfolding w' by (intro leave_ok [OF assms(2)]) (use n t 2 in \<open>auto simp: later_def\<close>)
  qed
qed

lemma world_step_ok:
  assumes "world_step lm me w = Inr (Some w')" and "world_ok w"
  shows "world_ok w'"
proof (cases me)
  case Main
  with assms(1) obtain c vm ths where "agent_step lm Main (w_vm w) (w_threads w) = Inr (Some (c, vm, ths))"
    and "w' = w\<lparr>w_vm := vm, w_main := c, w_threads := ths\<rparr>"
    by (auto simp: world_step_def elim!: bindr_Inr_E split: if_splits)
  with agent_step_ok assms(2) show ?thesis by (fastforce simp: world_ok_def later_def)
next
  case (Thread p)
  with assms(1) obtain t where "th_table (w_threads w) p = Some t" "thread_step lm p t w = Inr (Some w')"
    by (auto simp: world_step_def split: if_splits option.splits)
  with assms(2) show ?thesis by (blast intro: thread_step_ok)
qed

text \<open>Every interleaving of a program that starts with the main thread alone keeps the invariant.\<close>

lemma interleaves_ok:
  assumes "interleaves lm w w'" and "machine_ok (w_vm w)" and "alone w"
  shows "world_ok w'"
  using assms
proof (induction rule: interleaves.induct)
  case interleaves_refl
  then show ?case by (simp add: world_ok_def threads_ok_def alone_def)
next
  case (interleaves_step w1 me w2)
  then show ?case by (blast intro: world_step_ok)
qed

subsection \<open>A program\<close>

text \<open>
  The main thread is about to call \<open>thread.create\<close> with a function of one parameter, and then \<open>thread.start\<close> with the
  thread that this returns.
\<close>

definition tw_fun :: fun_t where
  "tw_fun = (demo_fun [opcode_byte OP_CALL, 1, opcode_byte OP_CALL, 1] [])\<lparr>fn_arity := 1\<rparr>"

text \<open>A call of a native of the library that returns: function and arguments are replaced by the result.\<close>

lemma READ_BYTE_stack:
  assumes "READ_BYTE vm = Inr (b, vm')"
  shows "stack_list vm' = stack_list vm" and "vm_top vm' = vm_top vm"
  using assms by (auto simp: READ_BYTE_def stack_list_def elim!: bindr_Inr_E split: if_splits)

lemma returning_native: "thread_native f = Some call \<Longrightarrow> returning lm v f n i vm = Inr (v, vm)"
  by (cases f) (simp_all add: returning_def)

lemma agent_step_returns:
  assumes r: "READ_BYTE vm = Inr (opcode_byte OP_CALL, vm1)" "READ_BYTE vm1 = Inr (n, vm2)"
    and s: "stack_list vm = vs @ VAL_CFN f # rest" "unat n = length vs" and "vm_top vm \<le> STACK_MAX"
    and call: "thread_native f = Some call" "call me (vm_top vm - length vs) vm ths = Inr (Returned v ths')"
  shows "\<exists>vm'. agent_step lm me vm ths = Inr (Some (Going, vm', ths')) \<and> stack_list vm' = v # rest \<and> only_stack vm2 vm'"
proof -
  have s2: "stack_list vm2 = vs @ VAL_CFN f # rest" and top: "vm_top vm2 = vm_top vm"
    using r[THEN READ_BYTE_stack(1)] r[THEN READ_BYTE_stack(2)] s by simp_all
  have p: "PEEK (unat n) vm2 = Inr (VAL_CFN f)" using PEEK_ok [of "length vs" vm2] s2 s(2) by simp
  then have nc: "native_call vm = Some (f, vm_top vm - length vs)" using r top s(2) decode_opcode_byte [of OP_CALL]
    by (simp add: native_call_def)
  obtain vm3 where 3: "POPN (unat n + 1) vm2 = Inr vm3" "stack_list vm3 = rest" "only_stack vm2 vm3"
    using POPN_ok [of "unat n + 1" vm2] s2 s(2) by auto
  have "vm_top vm3 < STACK_MAX" using stack_top [OF 3(2)] stack_top [OF s(1)] assms(5) by simp
  from PUSH_ok [OF this, of v] obtain vm4 where 4: "PUSH v vm3 = Inr vm4" "stack_list vm4 = v # rest" "only_stack vm3 vm4"
    using 3(2) by auto
  have "vm_step (returning lm v) vm = Inr (NEXT, vm4)"
    using r p 3(1) 4(1) returning_native [OF call(1)] decode_opcode_byte [of OP_CALL]
    by (simp add: vm_step_def op_CALL_def vm_call_def next_op_def)
  then have "agent_step lm me vm ths = Inr (Some (Going, vm4, ths'))"
    using nc call by (simp add: agent_step_def instruction_def)
  with 4 only_stack_trans [OF 3(3)] show ?thesis by blast
qed


lemma tw_call:
  assumes run: "running vm 0 (fn_chunk tw_fun) ip" "ip = 0 \<or> ip = 2"
    and s: "stack_list vm = x # VAL_CFN f # rest" "vm_top vm \<le> STACK_MAX"
    and call: "thread_native f = Some call" "call Main (vm_top vm - 1) vm ths = Inr (Returned v ths')"
  shows "\<exists>vm'. world_step lm Main \<lparr>w_vm = vm, w_main = Going, w_threads = ths\<rparr> =
      Inr (Some \<lparr>w_vm = vm', w_main = Going, w_threads = ths'\<rparr>) \<and>
    stack_list vm' = v # rest \<and> running vm' 0 (fn_chunk tw_fun) (ip + 2) \<and> heap vm' = heap vm"
proof -
  have c: "ck_count (fn_chunk tw_fun) = 4" "ck_code (fn_chunk tw_fun) = [opcode_byte OP_CALL, 1, opcode_byte OP_CALL, 1]"
    by (simp_all add: tw_fun_def demo_fun_def demo_chunk_simps)
  note run1 = running_set_ip [OF run(1), of "ip + 1"]
  have r: "READ_BYTE vm = Inr (opcode_byte OP_CALL, set_ip (ip + 1) vm)"
    "READ_BYTE (set_ip (ip + 1) vm) = Inr (1, set_ip (ip + 1 + 1) (set_ip (ip + 1) vm))"
    using running_byte [OF run(1)] running_byte [OF run1] run(2) c by auto
  obtain vm' where vm': "agent_step lm Main vm ths = Inr (Some (Going, vm', ths'))" "stack_list vm' = v # rest"
    "only_stack (set_ip (ip + 1 + 1) (set_ip (ip + 1) vm)) vm'"
    using agent_step_returns [OF r, of "[x]" f rest call Main ths v ths' lm] s call by auto
  have "running vm' 0 (fn_chunk tw_fun) (ip + 2)"
    using running_only_stack [OF vm'(3) running_set_ip [OF run1]] by simp
  moreover have "heap vm' = heap vm" using vm'(3) by (simp add: only_stack_def same_store_def)
  ultimately show ?thesis using vm'(1,2) by (simp add: world_step_def)
qed

definition tw_world :: world_t where
  "tw_world = \<lparr>w_vm = with_fun tw_fun (vm_with [VAL_OBJ 0, VAL_CFN Thread_create, VAL_CFN Thread_start, VAL_OBJ 0]),
     w_main = Going, w_threads = \<lparr>th_table = Map.empty, th_next = 0\<rparr>\<rparr>"

lemma tw_world_ok: "machine_ok (w_vm tw_world)" "alone tw_world"
  by (simp_all add: tw_world_def alone_def machine_with_fun vm_with_ok STACK_MAX_def FRAMES_MAX_def)

lemma top_arg: "stack_list vm = v # rest \<Longrightarrow> vm_top vm \<le> STACK_MAX \<Longrightarrow> arg (vm_top vm - 1) 0 vm = Inr v"
  using nth_stack_list [of 0 vm] stack_top [of vm "v # rest"] by (simp add: arg_def)

lemma tw_started:
  "\<exists>w t. interleaves lm tw_world w \<and> w_main w = Going \<and> th_table (w_threads w) 0 = Some t \<and> th_handle t = Resumed \<and>
     th_routine t = Some 0 \<and> get_fun 0 (w_vm w) = Inr tw_fun"
proof -
  let ?vm0 = "w_vm tw_world" and ?ths0 = "\<lparr>th_table = Map.empty, th_next = 0\<rparr> :: threads_t"
  have 0: "stack_list ?vm0 = [VAL_OBJ 0, VAL_CFN Thread_create, VAL_CFN Thread_start, VAL_OBJ 0]"
    by (simp add: tw_world_def)
  have run0: "running ?vm0 0 (fn_chunk tw_fun) 0" by (simp add: tw_world_def running_def with_fun_def vm_with_def)
  have tw: "tw_world = \<lparr>w_vm = ?vm0, w_main = Going, w_threads = ?ths0\<rparr>" by (simp add: tw_world_def)
  have max: "4 \<le> STACK_MAX" by (simp add: STACK_MAX_def FRAMES_MAX_def)
  have t0: "vm_top ?vm0 \<le> STACK_MAX" using stack_top [OF 0] max by simp
  obtain clone where "vm_push (VAL_OBJ 0) (vm_clone ?vm0) = Inr clone"
    by (simp add: vm_push_def PUSH_def vm_clone_def resetStack_def STACK_MAX_def FRAMES_MAX_def)
  then have create: "thread_create (vm_top ?vm0 - 1) ?vm0 ?ths0 = Inr (Returned (VAL_PTR 0) (\<lparr>th_table = [0 \<mapsto>
      \<lparr>th_vm = exec_of clone, th_routine = Some 0, th_handle = Suspended, th_running = False\<rparr>], th_next = 1\<rparr>))"
    (is "_ = Inr (Returned _ ?ths1)")
    using top_arg [OF 0 t0] by (simp add: thread_create_def put_thread_def)
  obtain vm1 where 1: "world_step lm Main tw_world = Inr (Some \<lparr>w_vm = vm1, w_main = Going, w_threads = ?ths1\<rparr>)"
    "stack_list vm1 = [VAL_PTR 0, VAL_CFN Thread_start, VAL_OBJ 0]" "running vm1 0 (fn_chunk tw_fun) 2"
    "heap vm1 = heap ?vm0"
    using tw_call [where call = "\<lambda>_. thread_create", OF run0 _ 0 t0 _ create, of lm] tw
    by (auto simp: numeral_2_eq_2)
  have t1: "vm_top vm1 \<le> STACK_MAX" using stack_top [OF 1(2)] max by simp
  have start: "thread_start (vm_top vm1 - 1) vm1 ?ths1 = Inr (Returned VAL_NULL (\<lparr>th_table = [0 \<mapsto>
      \<lparr>th_vm = exec_of clone, th_routine = Some 0, th_handle = Resumed, th_running = True\<rparr>], th_next = 1\<rparr>))"
    (is "_ = Inr (Returned _ ?ths2)")
    using top_arg [OF 1(2) t1] by (simp add: thread_start_def arg_thread_def put_thread_def resume_def)
  obtain vm2 where 2: "world_step lm Main \<lparr>w_vm = vm1, w_main = Going, w_threads = ?ths1\<rparr> =
      Inr (Some \<lparr>w_vm = vm2, w_main = Going, w_threads = ?ths2\<rparr>)" "heap vm2 = heap vm1"
    using tw_call [where call = "\<lambda>_. thread_start", OF 1(3) _ 1(2) t1 _ start, of lm] by auto
  have "interleaves lm tw_world \<lparr>w_vm = vm2, w_main = Going, w_threads = ?ths2\<rparr>"
    using 1(1) 2(1) by (blast intro: interleaves.intros)
  moreover have "get_fun 0 vm2 = Inr tw_fun"
    using 1(4) 2(2) by (simp add: get_fun_def tw_world_def with_fun_def vm_with_def)
  ultimately show ?thesis by (intro exI conjI) (assumption | simp)+
qed

subsection \<open>Properties\<close>





lemma show_nat_0: "show_nat 0 = ''0''"
  by (simp add: show_nat.simps [of 0] char_of_eq_iff)

text \<open>
  C12. A thread whose routine has a parameter runs into undefined behaviour, whatever it is started with: \<open>thread_start\<close>
  ignores the arguments, the call in \<open>thread_routine\<close> fails with a message and no frame, and
  \<open>vm_execute\<close> runs the frame before the first one.
\<close>

theorem thread_with_parameters:
  assumes "machine_ok (w_vm w)" and "alone w" and "interleaves lm w w'" and "w_main w' \<noteq> Done"
    and "th_table (w_threads w') p = Some t" and "th_handle t = Resumed" and "th_routine t = Some a"
    and "get_fun a (w_vm w') = Inr fn" and "fn_arity fn \<noteq> 0"
  shows "\<exists>w2. world_step lm (Thread p) w' = Inr (Some w2) \<and>
    stderr (w_vm w2) = stderr (w_vm w') @ [Runtime_error (''Expected '' @ show_nat (fn_arity fn) @ '' arguments but got 0.'') []] \<and>
    world_step lm (Thread p) w2 = Inl (Undefined Bad_pointer)"
proof -
  let ?vm = "agent_vm t w'" and ?msg = "''Expected '' @ show_nat (fn_arity fn) @ '' arguments but got 0.''"
  have "thread_ok t" using interleaves_ok [OF assms(3,1,2)] assms(5) by (auto simp: world_ok_def threads_ok_def)
  then have fr: "frames ?vm = []" using assms(6) by (simp add: thread_ok_def agent_vm_def put_exec_def)
  have "heap ?vm = heap (w_vm w')" "stderr ?vm = stderr (w_vm w')" by (simp_all add: agent_vm_def put_exec_def)
  with assms(8) obtain ob where ob: "heap ?vm a = Some ob" "body ob = OT_FUN fn"
    by (auto simp: get_fun_def split: option.splits obj_body.splits)
  define vm1 where "vm1 = resetStack (?vm\<lparr>stderr := stderr ?vm @ [Runtime_error ?msg []]\<rparr>)"
  have "vm_call (returning lm VAL_NULL) (VAL_OBJ a) 0 ?vm = Inr (False, vm1)"
    using ob assms(9) fr
    by (simp add: vm_call_def obj_body_of_def prepareCall_def get_fun_def runtimeError_def vm1_def show_nat_0)
  then have 1: "world_step lm (Thread p) w' = Inr (Some (leave p Executing vm1 (w_threads w') w'))"
    using assms(4-7) by (simp add: world_step_def thread_step_def thread_routine_def)
  let ?w2 = "leave p Executing vm1 (w_threads w') w'" and ?t2 = "t\<lparr>th_vm := exec_of vm1, th_handle := Executing\<rparr>"
  have "frames (agent_vm ?t2 ?w2) = []" by (simp add: agent_vm_def put_exec_def exec_of_def vm1_def resetStack_def)
  then have "READ_BYTE (agent_vm ?t2 ?w2) = Inl (Undefined Bad_pointer)"
    by (simp add: READ_BYTE_def get_ip_def cur_frame_def)
  then have "agent_step lm (Thread p) (agent_vm ?t2 ?w2) (w_threads ?w2) = Inl (Undefined Bad_pointer)"
    by (simp add: agent_step_def native_call_def instruction_def vm_step_def)
  moreover have "th_table (w_threads ?w2) p = Some ?t2" "w_main ?w2 \<noteq> Done" using assms(4-6) by (simp_all add: leave_def)
  ultimately have "world_step lm (Thread p) ?w2 = Inl (Undefined Bad_pointer)"
    by (simp add: world_step_def thread_step_def)
  moreover have "stderr (w_vm ?w2) = stderr (w_vm w') @ [Runtime_error ?msg []]"
    by (simp add: leave_def put_exec_def vm1_def resetStack_def agent_vm_def)
  ultimately show ?thesis using 1 by blast
qed

lemma thread_with_parameters_witness:
  "\<exists>w w2. interleaves demo_libm tw_world w \<and> world_step demo_libm (Thread 0) w = Inr (Some w2) \<and>
     world_step demo_libm (Thread 0) w2 = Inl (Undefined Bad_pointer)"
proof -
  obtain w t where w: "interleaves demo_libm tw_world w" "w_main w = Going" "th_table (w_threads w) 0 = Some t"
    "th_handle t = Resumed" "th_routine t = Some 0" "get_fun 0 (w_vm w) = Inr tw_fun" using tw_started by blast
  have "fn_arity tw_fun \<noteq> 0" by (simp add: tw_fun_def)
  from thread_with_parameters [OF tw_world_ok w(1) _ w(3-6) this] w(1,2) show ?thesis by auto
qed

end
