(* ===== verification/Files.thy ===== *)
theory Files
  imports Chunks
begin

text \<open>
  \<open>read_file\<close> of \<open>src/src/utils.c\<close> over the C library's view of a file, and what \<open>src_new\<close> of
  \<open>src/src/chunk.c\<close> makes of it. The rest of the development takes the reader of files as an argument;
  \<open>reader\<close> is the argument that this function provides.
\<close>

subsection \<open>Files\<close>

text \<open>
  A file that \<open>fopen\<close> opens: what \<open>ftell\<close> says at its end, as the \<open>size_t\<close> that it is converted to (\<open>-1\<close> is the error
  of a stream without a position), and the bytes that \<open>fread\<close> can get from its start. They need not agree: a file can
  grow or shrink, and a device fail, between the two calls. \<open>malloc\<close> is the function that says whether
  a request for so many bytes succeeds.
\<close>

record file_t =
  f_end :: u64
  f_bytes :: string

datatype read_fault = Buffer_overflow

text \<open>\<open>fread\<close> into a buffer of \<open>room\<close> bytes: up to \<open>n\<close> bytes, and the read does not know the size of the buffer.\<close>

definition fread :: "nat \<Rightarrow> nat \<Rightarrow> file_t \<Rightarrow> read_fault + string" where
  "fread room n file =
     (let bs = take n (f_bytes file) in if room < length bs then Inl Buffer_overflow else Inr bs)"

definition read_error :: "string \<Rightarrow> string \<Rightarrow> string" where
  "read_error what path = what @ ''\"'' @ path @ ''\".'' @ [CHR 0x0A]"

text \<open>
  The buffer without the NUL byte behind it, whose length is the size that is returned, or \<open>None\<close> for \<open>NULL\<close>;
  and what was written to \<open>stderr\<close>.
\<close>

definition read_file ::
  "(string \<Rightarrow> file_t option) \<Rightarrow> (nat \<Rightarrow> bool) \<Rightarrow> string \<Rightarrow> read_fault + (string option \<times> string)" where
  "read_file fopen malloc path =
     (case fopen path of
        None \<Rightarrow> Inr (None, read_error ''Could not open file '' path)
      | Some file \<Rightarrow>
          let fileSize = f_end file in
          if \<not> malloc (unat (fileSize + 1)) then Inr (None, read_error ''Not enough memory to read '' path)
          else
            (case fread (unat (fileSize + 1)) (unat fileSize) file of
               Inl e \<Rightarrow> Inl e
             | Inr buffer \<Rightarrow>
                 if length buffer < unat fileSize then Inr (None, read_error ''Could not read file '' path)
                 else if length buffer < unat (fileSize + 1) then Inr (Some buffer, [])
                 else Inl Buffer_overflow))"

text \<open>The reader that \<open>src_new\<close> and \<open>vm_dofile\<close> take as their argument.\<close>

definition reader :: "(string \<Rightarrow> file_t option) \<Rightarrow> (nat \<Rightarrow> bool) \<Rightarrow> string \<Rightarrow> string option" where
  "reader fopen malloc path = (case read_file fopen malloc path of Inr (b, _) \<Rightarrow> b | Inl _ \<Rightarrow> None)"

subsection \<open>Sizes\<close>

lemma unat_plus_one: "n \<noteq> -1 \<Longrightarrow> unat (n + 1) = Suc (unat n)" for n :: u64
  using unatSuc [of n] by (simp add: add.commute add_eq_0_iff)

lemma unat_minus_one_u64: "unat (-1 :: u64) = 2 ^ 64 - 1"
  by (simp add: unsigned_minus_1_eq_mask mask_eq_exp_minus_1)

text \<open>A size other than that of the error leaves room for the bytes and the NUL behind them.\<close>

lemma fread_fits: "f_end file \<noteq> -1 \<Longrightarrow>
    fread (unat (f_end file + 1)) (unat (f_end file)) file = Inr (take (unat (f_end file)) (f_bytes file))"
  by (simp add: fread_def unat_plus_one Let_def)

lemma fread_error: "f_end file = -1 \<Longrightarrow>
    fread (unat (f_end file + 1)) (unat (f_end file)) file =
      (if f_bytes file = [] then Inr [] else Inl Buffer_overflow)"
  by (simp add: fread_def unat_minus_one_u64 Let_def)

subsection \<open>The name of a source\<close>

lemma strrchr_None: "c \<notin> set s \<Longrightarrow> strrchr s c = None"
  by (induction s) auto

lemma strrchr_last: "c \<notin> set s \<Longrightarrow> strrchr (p @ c # s) c = Some (c # s)"
  by (induction p) (simp_all add: strrchr_None)

lemma src_basename_last: "CHR 0x5C \<notin> set s \<Longrightarrow> src_basename (p @ CHR 0x5C # s) = s"
  by (simp add: src_basename_def Let_def strrchr_last)

subsection \<open>Properties\<close>

text \<open>
  C40. Reading a file. A buffer is returned exactly when the file opens, has a size, memory for it and for the NUL
  byte is there and \<open>fread\<close> gets as many bytes as \<open>ftell\<close> has promised; it holds the first bytes of the file, as many as the
  size says, and nothing is printed. In every other case one message is printed and \<open>NULL\<close> returned, but for one: a stream
  without a position, for which \<open>ftell\<close> returns \<open>-1\<close>. This is not tested, the size plus one wraps to zero, and when
  \<open>malloc(0)\<close> returns a pointer, any byte that comes is written behind the buffer.
\<close>

theorem read_file_outcome:
  "(read_file fopen malloc path = Inr (Some b, e) \<longleftrightarrow>
      e = [] \<and> (\<exists>file. fopen path = Some file \<and> f_end file \<noteq> -1 \<and> malloc (unat (f_end file) + 1) \<and>
        unat (f_end file) \<le> length (f_bytes file) \<and> b = take (unat (f_end file)) (f_bytes file))) \<and>
   (read_file fopen malloc path = Inl Buffer_overflow \<longleftrightarrow>
      (\<exists>file. fopen path = Some file \<and> f_end file = -1 \<and> malloc 0 \<and> f_bytes file \<noteq> [])) \<and>
   (read_file fopen malloc path = Inr (None, e) \<longrightarrow> (\<exists>what. e = read_error what path))"
proof (cases "fopen path")
  case (Some f)
  show ?thesis
  proof (cases "f_end f = -1")
    case True
    then have "fread 0 (2 ^ 64 - 1) f = (if f_bytes f = [] then Inr [] else Inl Buffer_overflow)"
      using fread_error [OF True] by (simp add: unat_minus_one_u64)
    with Some True show ?thesis by (auto simp: read_file_def Let_def unat_minus_one_u64)
  next
    case False
    with Some fread_fits [OF False] show ?thesis by (auto simp: read_file_def Let_def unat_plus_one)
  qed
qed (auto simp: read_file_def)

lemma read_file_outcome_witness:
  "read_file [''f'' \<mapsto> \<lparr>f_end = 2, f_bytes = ''abc''\<rparr>] (\<lambda>_. True) ''f'' = Inr (Some ''ab'', []) \<and>
   read_file [''p'' \<mapsto> \<lparr>f_end = -1, f_bytes = ''abc''\<rparr>] (\<lambda>_. True) ''p'' = Inl Buffer_overflow"
  using read_file_outcome [of "[''f'' \<mapsto> \<lparr>f_end = 2, f_bytes = ''abc''\<rparr>]" "\<lambda>_. True" "''f''" "''ab''" "[]"]
    read_file_outcome [of "[''p'' \<mapsto> \<lparr>f_end = -1, f_bytes = ''abc''\<rparr>]" "\<lambda>_. True" "''p''" "[]" "[]"]
  by simp

text \<open>
  A file of known size is the source: its bytes, its size, and the path behind the last backslash.
\<close>

lemma source_loaded:
  assumes "fopen path = Some file" and "unat (f_end file) = length (f_bytes file)" and "f_end file \<noteq> -1"
    and "malloc (length (f_bytes file) + 1)"
  shows "src_new (reader fopen malloc) path =
    Some \<lparr>src_buffer = f_bytes file, src_fname = src_basename path, src_size = length (f_bytes file)\<rparr>"
proof -
  have "read_file fopen malloc path = Inr (Some (f_bytes file), [])"
    using assms fread_fits [OF assms(3)] by (simp add: read_file_def Let_def unat_plus_one)
  then show ?thesis by (simp add: src_new_def reader_def)
qed

lemma source_missing:
  assumes "fopen path = None" shows "src_new (reader fopen malloc) path = None"
  using assms by (simp add: src_new_def reader_def read_file_def)

end
