(* ===== verification/Spec2Isabelle.thy ===== *)
theory Spec2Isabelle
  imports Store_Props Heap_Props VM_Props Lexer_Props Compiler_Props Expr_Props Script_Props
    Thread_Props Files
begin

text \<open>
  au3 is a small dynamic language in the style of AutoIt: \<open>src/src/lexer.c\<close> cuts a source into
  tokens, \<open>src/src/parser.c\<close> compiles them in one pass to bytecode (\<open>src/src/code.h\<close>,
  \<open>src/src/chunk.c\<close>), and \<open>src/src/vm.c\<close> runs the bytecode on a stack of tagged values
  (\<open>src/src/value.h\<close>) whose objects (\<open>src/src/object.h\<close>) are allocated and collected by
  \<open>src/src/gc.c\<close>. Strings are interned in a hash table (\<open>src/src/table.c\<close>) that also holds the
  global variables and the string keys of maps; the number keys of maps are in a second
  hash table (\<open>src/src/hash.c\<close>).

  Conventions. A C function is a definition of the same name (a suffix or prefix is added where the name
  clashes). Pointers into the heap are addresses (\<open>addr\<close>) and the heap is a partial function;
  pointers into an array are indices; machine integers are words, except for counts and indices, which
  are naturals, and \<open>double\<close>, which is the 64 bits of its IEEE representation with the
  operations of the theory \<open>CDouble\<close>. A function that may not return is a
  \<open>partial_function (option)\<close>, whose \<open>None\<close> is not returning. What the C standard leaves
  undefined and the code can reach (a read of memory that was freed or never written, a stack
  index outside its array, code or constants past their end, an object used as one of another
  type) is the value \<open>Inl (Undefined _)\<close> of the result type \<open>'a res\<close>, and \<open>Inl NoReturn\<close> is a loop
  that never ends. The effects on \<open>vm_t\<close> are explicit: every operation returns the new machine.

  The theories, in the order in which they build on each other:
    \<^item> \<open>Prelude\<close>: word types and generic lemmas. \<open>CDouble\<close>, \<open>Small_Ints\<close>: the arithmetic of \<open>double\<close> and what
      it does on small integers and booleans.
    \<^item> \<open>Values\<close> (\<open>value.h\<close>, \<open>value.c\<close>): the tagged union, \<open>val_equal\<close>, the constant array. \<open>StrHash\<close>:
      \<open>hash_string\<close> of \<open>utils.c\<close>. \<open>Chunks\<close>: opcodes, chunks, \<open>src_new\<close>.
      \<open>Files\<close>: \<open>read_file\<close> of \<open>utils.c\<close>, for which the other theories have a parameter.
    \<^item> \<open>Probing\<close>: a locale for linear probing, whose facts both hash tables use; \<open>Tables\<close> (\<open>table.c\<close>) and
      \<open>Hashes\<close> (\<open>hash.c\<close>) interpret it, and show that each operation refines the operation on
      the map that the table stands for.
    \<^item> \<open>State\<close>: the structs of \<open>object.h\<close>, \<open>gc.h\<close> and \<open>vm.h\<close>. \<open>Stack\<close>: the stack macros. \<open>Collector\<close>
      (\<open>gc.c\<close> and \<open>obj_free\<close>), \<open>Marking\<close> (the mark phase against reachability, by a tricolour invariant) and
      \<open>Sweeping\<close> (the list of objects). \<open>Objects\<close> (\<open>object.c\<close>) and \<open>Interning\<close> (the invariant of the string pool).
    \<^item> \<open>Runtime\<close> and \<open>Execute\<close> (\<open>vm.c\<close>): the current frame, errors, calls, one definition per
      instruction, the step \<open>vm_step\<close> and the loop \<open>vm_execute\<close>. \<open>Contract\<close>: the locale \<open>vm_contract\<close>, which derives
      from laws on the primitive operations that all code keeps an invariant; \<open>Machine_Ok\<close>
      interprets it for the invariants \<open>machine_ok\<close> and \<open>hashes_ok\<close>. \<open>Instructions\<close>: what each
      instruction does. \<open>Libs\<close>: \<open>lib_math.c\<close>, the registration of the libraries, \<open>vm_create\<close>,
      \<open>vm_close\<close> and \<open>vm_dofile\<close>, and \<open>main\<close> (\<open>main.c\<close>). \<open>Threads\<close> (\<open>lib_thread.c\<close> on Windows): the natives of
      the library, \<open>vm_clone\<close>, and the interleavings of the instructions of all threads; the theorems on
      one machine take the natives of this library as a parameter, and the locale \<open>vm_contract\<close> gives the invariant of
      all interleavings.
    \<^item> \<open>Tokens\<close>, \<open>Lexer\<close> (\<open>lexer.c\<close>) and \<open>Lexing\<close> (its loops stay in the source, its decision tree is a table).
    \<^item> \<open>Strtod\<close>: the numerals that \<open>strtod\<close> reads. \<open>Parser\<close> and \<open>Compiler\<close> (\<open>parser.c\<close>): the
      two static structs of the file and the machine are one state (\<open>ps_t\<close>), every function is a
      definition that passes it, and the recursion of \<open>statement\<close>, \<open>declaration\<close> and
      \<open>parsePrecedence\<close> is a \<open>partial_function\<close>. The parser reads \<open>parser.current\<close> before
      anything was written there; this garbage is the parameter \<open>tok0\<close> of \<open>compile\<close>. \<open>Diverges\<close>: sources on which the
      compiler does not return.
    \<^item> \<open>Bytecode\<close>: which bytecode is well formed (instructions, jumps, operands), \<open>Frames\<close>, \<open>Terminates\<close> and \<open>Running\<close>:
      what the machine does on it. \<open>Parser_Contract\<close>: the locales \<open>parser_errors\<close>
      and \<open>parser_contract\<close>, which derive from laws on the functions that emit code
      that all of the compiler keeps a condition on its state; \<open>Compiling\<close> interprets them for
      the invariants of the machine, \<open>Coding\<close> for the code under construction, with
      the lemmas of \<open>Emitting\<close> on what each emission changes.
    \<^item> \<open>Expressions\<close>: a specification of the expressions without calls, members and strings: syntax trees,
      which trees a sequence of tokens stands for, their code (\<open>comp\<close>) and their value (\<open>eval\<close>).
      \<open>Expr_Parsing\<close> has the states that the parser goes through as a normal form, \<open>Expr_Compiled\<close>
      shows that \<open>parsePrecedence\<close> makes the code of the tree, \<open>Expr_Running\<close> that the machine computes its
      value on it, \<open>Expr_Failing\<close> that it stops with one runtime error where a tree has none.
    \<^item> \<open>Statements\<close>: the same for statements, with their code (\<open>comp_stmts\<close>) and a reference interpreter (\<open>execs\<close>) over
      the values of the local variables: \<open>Print\<close>, \<open>If\<close>, blocks, \<open>Var\<close> inside a block, assignment to a local
      variable. \<open>Print_Compiled\<close> and \<open>Print_Running\<close> follow \<open>Print\<close> through parser and machine, \<open>Stmt_Parsing\<close> has the
      rules of the parser for tokens, jumps and scopes, \<open>Stmt_Compiled\<close> shows that \<open>statement\<close> makes the code of the
      tree, \<open>Stmt_Running\<close> that the machine does on it what \<open>execs\<close> says, \<open>Script_Compiled\<close> adds the
      lexer and \<open>compile\<close>, and \<open>Script_Example\<close> is a file that meets all conditions. The limits: a branch
      of \<open>If\<close> is a \<open>Print\<close>, an \<open>If\<close> or a block (on others the compiler may not return, see \<open>Diverges\<close>), and calls,
      global variables, strings and members are outside of the reference language; \<open>needs\<close> is a bound on the stack
      that the statements use.
    \<^item> \<open>Examples\<close>: concrete machines. \<open>Store_Props\<close>, \<open>Heap_Props\<close>, \<open>VM_Props\<close>, \<open>Lexer_Props\<close>,
      \<open>Compiler_Props\<close>, \<open>Expr_Props\<close>, \<open>Script_Props\<close>, \<open>Thread_Props\<close>: the properties.

  Bounds. No fuel is used: the loops of the lexer end by a measure, and those over the tables, the
  heap and the bytecode and the recursion of the compiler are partial functions, with theorems that
  say when they return or do not.

  Not modelled: the file system behind \<open>fopen\<close> (a parameter of \<open>read_file\<close>), the digits that \<open>printf\<close> makes of
  numbers and pointers, failing allocations, what happens between the memory accesses of one instruction when
  threads race (the code has no locks; a step is an instruction), the time of \<open>thread.sleep\<close>, the transcendental functions of \<open>math.h\<close> (a parameter), \<open>cast_string\<close>,
  \<open>cast_num\<close>, \<open>defineNative\<close>, \<open>clockNative\<close> and \<open>emitNBytes\<close>, which nothing calls.
\<close>

end
